(* ===== verification/Prelude.thy ===== *)
theory Prelude
  imports Main "HOL-Library.Word" "HOL-Library.Multiset" "HOL-Library.AList"
begin

text \<open>
  The vocabulary the components share.

  \<^item> A Go byte is an Isabelle \<^typ>\<open>char\<close> (eight bits), a byte sequence is \<open>bytes\<close>, and a
    \<open>[]byte\<close> variable is a \<open>slice\<close>: \<open>None\<close> is \<open>nil\<close>, \<open>Some []\<close> the empty slice that is not
    \<open>nil\<close>.
  \<^item> \<open>uint64\<close>, \<open>int64\<close> and \<open>int\<close> are 64-bit words (\<open>int\<close> and \<open>int64\<close> are compared through
    \<open>sint\<close>), \<open>uint32\<close> and \<open>int32\<close> are 32-bit words; arithmetic wraps as it does in Go.
  \<^item> \<open>go\<close> is the outcome of a Go call that returns \<open>(T, error)\<close>: a value, an error, a run-time
    panic, or a goroutine that waits for ever on a channel.
  \<^item> Packages the repository imports and does not contain (the hash, the signature scheme, base58)
    are the fields of the record \<open>lib\<close>, an argument of every definition that calls them.
\<close>

subsection \<open>Bytes, slices, outcomes\<close>

type_synonym bytes = "char list"
type_synonym slice = "bytes option"
type_synonym uint64 = "64 word"
type_synonym int64 = "64 word"
type_synonym uint32 = "32 word"

definition bytes_of :: "slice \<Rightarrow> bytes" where
  "bytes_of s = (case s of None \<Rightarrow> [] | Some b \<Rightarrow> b)"

definition slice_len :: "slice \<Rightarrow> nat" where
  "slice_len s = length (bytes_of s)"

definition bytes_Equal :: "slice \<Rightarrow> slice \<Rightarrow> bool" where
  "bytes_Equal a b \<longleftrightarrow> bytes_of a = bytes_of b"

datatype 'a go = Ok 'a | Err string | Panic string | Blocked

primrec go_bind :: "'a go \<Rightarrow> ('a \<Rightarrow> 'b go) \<Rightarrow> 'b go" where
  "go_bind (Ok a) f = f a"
| "go_bind (Err e) f = Err e"
| "go_bind (Panic p) f = Panic p"
| "go_bind Blocked f = Blocked"

text \<open>
  A call that also changes a state \<open>'s\<close>: the outcome and the state it leaves, whatever the outcome
  is, since Go keeps what was written before an error is returned.
\<close>

type_synonym ('s, 'a) comp = "'s \<Rightarrow> 'a go \<times> 's"

definition st_bind :: "('s, 'a) comp \<Rightarrow> ('a \<Rightarrow> ('s, 'b) comp) \<Rightarrow> ('s, 'b) comp" where
  "st_bind m f s = (case m s of
       (Ok a, s') \<Rightarrow> f a s'
     | (Err e, s') \<Rightarrow> (Err e, s')
     | (Panic p, s') \<Rightarrow> (Panic p, s')
     | (Blocked, s') \<Rightarrow> (Blocked, s'))"

definition st_out :: "'a go \<Rightarrow> ('s, 'a) comp" where
  "st_out r s = (r, s)"

definition st_upd :: "('s \<Rightarrow> 's) \<Rightarrow> ('s, unit) comp" where
  "st_upd f s = (Ok (), f s)"

text \<open>\<open>a && b\<close>: the right operand is evaluated only when the left one is true.\<close>

definition go_and :: "bool go \<Rightarrow> bool go \<Rightarrow> bool go" where
  "go_and a b = go_bind a (\<lambda>x. if x then b else Ok False)"

text \<open>An indexed read: Go panics outside the bounds.\<close>

definition go_index :: "'a list \<Rightarrow> nat \<Rightarrow> 'a go" where
  "go_index xs i = (if i < length xs then Ok (xs ! i) else Panic ''index out of range'')"

subsection \<open>The imported packages\<close>

record lib =
  Sum256 :: "bytes \<Rightarrow> bytes"
  ed_Sign :: "bytes \<Rightarrow> bytes \<Rightarrow> bytes"
  ed_Verify :: "bytes \<Rightarrow> bytes \<Rightarrow> bytes \<Rightarrow> bool"
  b58_Encode :: "bytes \<Rightarrow> string"
  b58_Decode :: "string \<Rightarrow> bytes"

text \<open>\<open>ed25519.Verify\<close> and \<open>ed25519.Sign\<close> panic on a key of the wrong length.\<close>

definition ed25519_Verify :: "'z lib_scheme \<Rightarrow> slice \<Rightarrow> slice \<Rightarrow> slice \<Rightarrow> bool go" where
  "ed25519_Verify L publicKey message sig =
     (if slice_len publicKey \<noteq> 32 then Panic ''ed25519: bad public key length''
      else Ok (ed_Verify L (bytes_of publicKey) (bytes_of message) (bytes_of sig)))"

definition ed25519_Sign :: "'z lib_scheme \<Rightarrow> slice \<Rightarrow> slice \<Rightarrow> bytes go" where
  "ed25519_Sign L privateKey message =
     (if slice_len privateKey \<noteq> 64 then Panic ''ed25519: bad private key length''
      else Ok (ed_Sign L (bytes_of privateKey) (bytes_of message)))"

text \<open>What their documentation promises: a digest has 32 bytes, decoding inverts encoding.\<close>

definition hash_ok :: "'z lib_scheme \<Rightarrow> bool" where
  "hash_ok L \<longleftrightarrow> (\<forall>x. length (Sum256 L x) = 32)"

definition b58_ok :: "'z lib_scheme \<Rightarrow> bool" where
  "b58_ok L \<longleftrightarrow> (\<forall>b. b58_Decode L (b58_Encode L b) = b)"

subsection \<open>Shared facts\<close>

named_theorems go_simps \<open>evaluation of outcomes and slices\<close>

lemmas slice_defs = bytes_of_def slice_len_def bytes_Equal_def

lemma bytes_of_simps [simp, go_simps]:
  "bytes_of None = []" "bytes_of (Some b) = b"
  by (simp_all add: bytes_of_def)

lemma slice_len_simps [simp, go_simps]:
  "slice_len None = 0" "slice_len (Some b) = length b"
  by (simp_all add: slice_len_def)

lemma bytes_Equal_refl [simp]: "bytes_Equal a a"
  by (simp add: bytes_Equal_def)

lemma list_all2_set2: "list_all2 P xs ys \<Longrightarrow> \<forall>y\<in>set ys. \<exists>x\<in>set xs. P x y"
  by (induction rule: list_all2_induct) auto

lemma length_neq: "length xs \<noteq> length ys \<Longrightarrow> xs \<noteq> ys"
  by auto

lemma go_bind_Ok_conv [simp]:
  "go_bind m f = Ok b \<longleftrightarrow> (\<exists>a. m = Ok a \<and> f a = Ok b)"
  by (cases m) auto

lemma st_bind_simps [simp, go_simps]:
  "m s = (Ok a, s') \<Longrightarrow> st_bind m f s = f a s'"
  "m s = (Err e, s') \<Longrightarrow> st_bind m f s = (Err e, s')"
  "m s = (Panic p, s') \<Longrightarrow> st_bind m f s = (Panic p, s')"
  "m s = (Blocked, s') \<Longrightarrow> st_bind m f s = (Blocked, s')"
  by (simp_all add: st_bind_def)

lemma st_prim_simps [simp, go_simps]:
  "st_out r s = (r, s)" "st_upd f s = (Ok (), f s)"
  by (simp_all add: st_out_def st_upd_def)

lemma go_and_True [simp]:
  "go_and a b = Ok True \<longleftrightarrow> a = Ok True \<and> b = Ok True"
  by (auto simp: go_and_def split: if_splits)

lemma go_and_simps [simp, go_simps]:
  "go_and (Ok True) b = b" "go_and (Ok False) b = Ok False"
  "go_and (Err e) b = Err e" "go_and (Panic p) b = Panic p" "go_and Blocked b = Blocked"
  by (simp_all add: go_and_def)

lemma go_index_simps [simp, go_simps]:
  "i < length xs \<Longrightarrow> go_index xs i = Ok (xs ! i)"
  "\<not> i < length xs \<Longrightarrow> go_index xs i = Panic ''index out of range''"
  by (simp_all add: go_index_def)

lemma hash_okD [simp]: "hash_ok L \<Longrightarrow> length (Sum256 L x) = 32"
  by (simp add: hash_ok_def)

lemma b58_inj: "b58_ok L \<Longrightarrow> (b58_Encode L a = b58_Encode L b) = (a = b)"
  unfolding b58_ok_def by metis

subsection \<open>Properties a call keeps\<close>

text \<open>A call keeps a property of the state, however it ends.\<close>

definition keeps :: "('s \<Rightarrow> bool) \<Rightarrow> ('s, 'a) comp \<Rightarrow> bool" where
  "keeps P m \<longleftrightarrow> (\<forall>s. P s \<longrightarrow> P (snd (m s)))"

lemma keepsI: "(\<And>s. P s \<Longrightarrow> P (snd (m s))) \<Longrightarrow> keeps P m"
  by (simp add: keeps_def)

lemma keeps_out [simp]: "keeps P (st_out r)"
  by (simp add: keeps_def)

lemma keeps_bind: "keeps P m \<Longrightarrow> (\<And>a. keeps P (f a)) \<Longrightarrow> keeps P (st_bind m f)"
  unfolding keeps_def st_bind_def by (fastforce split: prod.splits go.splits)

lemma keeps_if: "keeps P m \<Longrightarrow> keeps P m' \<Longrightarrow> keeps P (if b then m else m')"
  by simp

lemma keeps_option: "keeps P m \<Longrightarrow> (\<And>x. keeps P (f x)) \<Longrightarrow> keeps P (case a of None \<Rightarrow> m | Some x \<Rightarrow> f x)"
  by (cases a) simp_all

lemmas keeps_intros = keeps_out keeps_bind keeps_if keeps_option

subsection \<open>Slices used as sets\<close>

text \<open>\<open>slices.IndexFunc\<close> (\<open>None\<close> for -1) and \<open>slices.Delete(xs, i, i+1)\<close>.\<close>

fun IndexFunc :: "('a \<Rightarrow> bool) \<Rightarrow> 'a list \<Rightarrow> nat option" where
  "IndexFunc P [] = None"
| "IndexFunc P (x # xs) = (if P x then Some 0 else map_option Suc (IndexFunc P xs))"

definition Delete :: "'a list \<Rightarrow> nat \<Rightarrow> 'a list" where
  "Delete xs i = take i xs @ drop (Suc i) xs"

definition delete_first :: "('a \<Rightarrow> bool) \<Rightarrow> 'a list \<Rightarrow> 'a list" where
  "delete_first P xs = (case IndexFunc P xs of None \<Rightarrow> xs | Some i \<Rightarrow> Delete xs i)"

lemma delete_first_simps [simp]:
  "delete_first P [] = []"
  "delete_first P (x # xs) = (if P x then xs else x # delete_first P xs)"
  by (simp_all add: delete_first_def Delete_def split: option.splits)

lemma set_delete_first: "set (delete_first P xs) \<subseteq> set xs"
  by (induction xs) auto

lemma delete_first_key:
  "distinct (map f xs) \<Longrightarrow> delete_first (\<lambda>y. f y = k) xs = filter (\<lambda>y. f y \<noteq> k) xs"
  by (induction xs) (auto simp: image_iff intro!: filter_True [symmetric])

text \<open>
  The contract of the slices the services keep as sets (peers, validators, bad peers): elements are
  compared by a key, an element that may not be there is refused, and a key is added once.
\<close>

locale key_slice =
  fixes elem_key :: "'a \<Rightarrow> 'k"
    and allowed :: "'a \<Rightarrow> bool"
    and add :: "'a \<Rightarrow> 'a list \<Rightarrow> 'a list"
    and remove :: "'a \<Rightarrow> 'a list \<Rightarrow> 'a list"
  assumes add: "add x xs = (if allowed x \<and> elem_key x \<notin> elem_key ` set xs then xs @ [x] else xs)"
    and remove: "distinct (map elem_key xs) \<Longrightarrow> \<forall>y\<in>set xs. allowed y \<Longrightarrow>
      remove x xs = filter (\<lambda>y. elem_key y \<noteq> elem_key x) xs"
begin

definition slice_ok :: "'a list \<Rightarrow> bool" where
  "slice_ok xs \<longleftrightarrow> distinct (map elem_key xs) \<and> (\<forall>y\<in>set xs. allowed y)"

definition keys :: "'a list \<Rightarrow> 'k set" where
  "keys xs = elem_key ` set xs"

lemma ok_Nil: "slice_ok []"
  by (simp add: slice_ok_def)

lemma ok_add: "slice_ok xs \<Longrightarrow> slice_ok (add x xs)"
  by (auto simp: slice_ok_def add)

lemma ok_remove: "slice_ok xs \<Longrightarrow> slice_ok (remove x xs)"
  by (auto simp: slice_ok_def remove distinct_map_filter)

lemma keys_add: "keys (add x xs) = (if allowed x then insert (elem_key x) (keys xs) else keys xs)"
  by (auto simp: keys_def add)

lemma keys_remove: "slice_ok xs \<Longrightarrow> keys (remove x xs) = keys xs - {elem_key x}"
  by (auto simp: keys_def slice_ok_def remove)

lemma length_keys: "slice_ok xs \<Longrightarrow> length xs = card (keys xs)"
  by (metis slice_ok_def keys_def distinct_card length_map list.set_map)

end

end
