(* ===== verification/Common.thy ===== *)
theory Common
  imports Prelude
begin

unbundle bit_operations_syntax

text \<open>
  Package \<open>common\<close>: the constants, the big-endian encoding of integers (\<open>ToHex\<close>, \<open>FromHex\<close>),
  the filter \<open>FindAll\<close> and the three functions on powers of two. \<open>NextPowerOf2\<close> and
  \<open>LastPowerOf2\<close> are loops that need not end, so they return an option, \<open>None\<close> for a loop that
  never returns; the lemmas say when they return and with what.
\<close>

subsection \<open>Constants\<close>

definition MaxPayloadSize :: nat where "MaxPayloadSize = 2048"
definition PublicKeySize :: nat where "PublicKeySize = 32"
definition HashSize :: nat where "HashSize = 32"
definition GeneratorBalance :: uint64 where "GeneratorBalance = 10000000000000000000"

subsection \<open>Files\<close>

text \<open>A file by its content, \<open>None\<close> when there is none; \<open>os.Stat\<close> says whether it is there.\<close>

definition ExistFile :: "'a option \<Rightarrow> bool" where
  [simp]: "ExistFile file \<longleftrightarrow> file \<noteq> None"

subsection \<open>Big-endian integers\<close>

text \<open>\<open>binary.Write\<close> of an unsigned value of \<open>k\<close> bytes, most significant byte first.\<close>

primrec be_bytes :: "nat \<Rightarrow> nat \<Rightarrow> bytes" where
  "be_bytes 0 n = []"
| "be_bytes (Suc k) n = be_bytes k (n div 256) @ [char_of (n mod 256)]"

primrec be_value :: "bytes \<Rightarrow> nat" where
  "be_value [] = 0"
| "be_value (b # bs) = of_char b * 256 ^ length bs + be_value bs"

definition ToHex :: "'a::len word \<Rightarrow> bytes" where
  "ToHex num = be_bytes (LENGTH('a) div 8) (unat num)"

text \<open>\<open>binary.Read\<close> needs all the bytes of the type and ignores what follows them.\<close>

definition FromHex :: "bytes \<Rightarrow> 'a::len word go" where
  "FromHex hex = (let k = LENGTH('a) div 8 in
     if length hex < k then Err (if hex = [] then ''EOF'' else ''unexpected EOF'')
     else Ok (of_nat (be_value (take k hex))))"

subsection \<open>FindAll\<close>

fun FindAll_loop :: "'a list \<Rightarrow> ('a \<Rightarrow> bool) \<Rightarrow> 'a list \<Rightarrow> 'a list" where
  "FindAll_loop [] f found = found"
| "FindAll_loop (elem # s) f found = FindAll_loop s f (if f elem then found @ [elem] else found)"

definition FindAll :: "'a list \<Rightarrow> ('a \<Rightarrow> bool) \<Rightarrow> 'a list" where
  "FindAll s f = FindAll_loop s f []"

subsection \<open>Powers of two\<close>

definition IsPowerOf2 :: "int64 \<Rightarrow> bool" where
  "IsPowerOf2 n \<longleftrightarrow> n \<noteq> 0 \<and> n AND (n - 1) = 0"

partial_function (option) NextPowerOf2_loop :: "nat \<Rightarrow> int64 \<Rightarrow> int64 option" where
  "NextPowerOf2_loop i n = (let m = push_bit i 1 in
     if sint n \<le> sint m then Some m else NextPowerOf2_loop (Suc i) n)"

declare NextPowerOf2_loop.simps [code]

definition NextPowerOf2 :: "int64 \<Rightarrow> int64 option" where
  "NextPowerOf2 n = NextPowerOf2_loop 0 n"

partial_function (option) LastPowerOf2_loop :: "nat \<Rightarrow> int64 \<Rightarrow> int64 \<Rightarrow> int64 option" where
  "LastPowerOf2_loop i l n = (let m = push_bit i 1 in
     if sint m > sint n then Some l else LastPowerOf2_loop (Suc i) m n)"

declare LastPowerOf2_loop.simps [code]

definition LastPowerOf2 :: "int64 \<Rightarrow> int64 option" where
  "LastPowerOf2 n = LastPowerOf2_loop 0 0 n"

subsection \<open>Lemmas\<close>

lemma length_be_bytes [simp]: "length (be_bytes k n) = k"
  by (induction k arbitrary: n) auto

lemma be_value_append: "be_value (xs @ [b]) = be_value xs * 256 + of_char b"
  by (induction xs) (auto simp: algebra_simps)

lemma be_value_bytes [simp]: "be_value (be_bytes k n) = n mod 256 ^ k"
proof (induction k arbitrary: n)
  case (Suc k)
  have "n div 256 mod 256 ^ k * 256 + n mod 256 = n mod (256 * 256 ^ k)"
    by (simp add: mod_mult2_eq algebra_simps)
  then show ?case using Suc by (simp add: be_value_append)
qed simp

lemma be_bytes_inj:
  assumes "be_bytes k m = be_bytes k n" "m < 256 ^ k" "n < 256 ^ k"
  shows "m = n"
  using assms by (metis be_value_bytes mod_less)

lemma be_value_less: "be_value xs < 256 ^ length xs"
proof (induction xs)
  case (Cons x xs)
  have "of_char x < (256::nat)" by simp
  then have "of_char x \<le> (255::nat)" by linarith
  then have "of_char x * 256 ^ length xs + be_value xs < 255 * 256 ^ length xs + 256 ^ length xs"
    using Cons by (intro add_le_less_mono mult_le_mono1)
  then show ?case by simp
qed simp

lemma be_value_inj: "length xs = length ys \<Longrightarrow> be_value xs = be_value ys \<Longrightarrow> xs = ys"
proof (induction xs ys rule: list_induct2)
  case (Cons x xs y ys)
  let ?p = "256 ^ length xs :: nat"
  have "be_value (x # xs) div ?p = of_char x" "be_value (y # ys) div ?p = of_char y"
    "be_value (x # xs) mod ?p = be_value xs" "be_value (y # ys) mod ?p = be_value ys"
    using be_value_less [of xs] be_value_less [of ys] Cons.hyps by simp_all
  then have "(of_char x :: nat) = of_char y" "be_value xs = be_value ys" using Cons.prems by metis+
  then show ?case using Cons.IH by simp
qed simp

lemma FindAll_filter: "FindAll s f = filter f s"
proof -
  have "FindAll_loop s f found = found @ filter f s" for found
    by (induction s arbitrary: found) auto
  then show ?thesis by (simp add: FindAll_def)
qed

lemma unat_pow2: assumes "i < 64" shows "unat (push_bit i 1 :: 64 word) = 2 ^ i"
proof -
  have "(2::nat) ^ i < 2 ^ 64" by (rule power_strict_increasing) (use assms in auto)
  moreover have "(push_bit i 1 :: 64 word) = of_nat (2 ^ i)" by (simp add: push_bit_eq_mult)
  ultimately show ?thesis by (simp only: unat_of_nat) simp
qed
lemma sint_small: assumes "unat (n::64 word) < 2 ^ 63" shows "sint n = int (unat n)"
proof -
  have "uint n < 2 ^ 63" using assms by (metis of_nat_less_iff of_nat_numeral of_nat_power uint_nat)
  moreover have "0 \<le> uint n" by simp
  ultimately have "signed_take_bit 63 (uint n) = uint n"
    by (subst signed_take_bit_int_eq_self_iff) linarith
  then have "sint n = uint n" by (simp add: sint_uint)
  then show ?thesis by (simp only: uint_nat)
qed
lemma and_pred_nat: "n AND (n - 1) = 0 \<longleftrightarrow> (n::nat) = 0 \<or> (\<exists>k. n = 2 ^ k)"
proof (induction n rule: less_induct)
  case (less n)
  show ?case
  proof (cases "n \<le> 1")
    case True
    then have "n = 0 \<or> n = 2 ^ 0" by auto
    then show ?thesis by (auto intro: exI [of _ 0])
  next
    case big: False
    have rec: "n AND (n - 1) = of_bool (odd n \<and> odd (n - 1)) + 2 * ((n div 2) AND ((n - 1) div 2))"
      by (rule and_rec)
    show ?thesis
    proof (cases "even n")
      case True
      then obtain m where m: "n = 2 * m" by blast
      with big have "m < n" "0 < m" "(n - 1) div 2 = m - 1" by auto
      then have "n AND (n - 1) = 0 \<longleftrightarrow> (\<exists>k. m = 2 ^ k)" using rec m less.IH [of m] by auto
      also have "\<dots> \<longleftrightarrow> (\<exists>k. n = 2 ^ k)"
      proof
        assume "\<exists>k. n = 2 ^ k"
        then obtain k where "n = 2 ^ k" by blast
        with big have "k \<noteq> 0" by (cases k) auto
        then obtain j where "k = Suc j" by (cases k) auto
        with \<open>n = 2 ^ k\<close> m show "\<exists>k. m = 2 ^ k" by auto
      qed (auto simp: m intro: exI [of _ "Suc k" for k])
      finally show ?thesis using big by simp
    next
      case False
      then obtain m where m: "n = 2 * m + 1" using oddE by blast
      with big have "n AND (n - 1) \<noteq> 0" using rec by simp
      moreover have "\<not> (\<exists>k. n = 2 ^ k)" using False big by (metis even_power less_one linorder_not_less nat_power_eq_Suc_0_iff even_numeral One_nat_def order_refl power_0 gr0I)
      ultimately show ?thesis using big by simp
    qed
  qed
qed

lemma IsPowerOf2_iff: "IsPowerOf2 n \<longleftrightarrow> (\<exists>k. unat n = 2 ^ k)"
proof (cases "n = 0")
  case False
  then have pred: "unat (n - 1) = unat n - 1" by (rule unat_minus_one)
  have "n AND (n - 1) = 0 \<longleftrightarrow> unat (n AND (n - 1)) = 0" by (simp only: unat_eq_0)
  also have "\<dots> \<longleftrightarrow> unat n AND (unat n - 1) = 0" by (simp only: unsigned_and_eq pred)
  also have "\<dots> \<longleftrightarrow> (\<exists>k. unat n = 2 ^ k)" using False by (simp only: and_pred_nat unat_eq_0 simp_thms)
  finally show ?thesis using False by (simp only: IsPowerOf2_def simp_thms)
qed (simp add: IsPowerOf2_def)

lemma sint_pow2: assumes "i < 63" shows "sint (push_bit i 1 :: int64) = 2 ^ i"
proof -
  have "(2::nat) ^ i < 2 ^ 63" by (rule power_strict_increasing) (use assms in auto)
  with assms unat_pow2 [of i] show ?thesis by (subst sint_small) simp_all
qed

lemma sint_le_pow62:
  assumes "unat (n::int64) \<le> 2 ^ k" "k \<le> 62" shows "sint n = int (unat n)"
proof (rule sint_small)
  have "(2::nat) ^ k < 2 ^ 63" by (rule power_strict_increasing) (use assms(2) in auto)
  with assms(1) show "unat n < 2 ^ 63" by (rule le_less_trans)
qed

lemma sint_le_pow2_iff:
  assumes "unat (n::int64) \<le> 2 ^ k" "k \<le> 62" "i < 63"
  shows "sint n \<le> sint (push_bit i 1 :: int64) \<longleftrightarrow> unat n \<le> 2 ^ i"
proof -
  have "sint (push_bit i 1 :: int64) = int (2 ^ i)" using sint_pow2 [OF assms(3)] by (simp only: of_nat_power of_nat_numeral)
  then show ?thesis by (simp only: sint_le_pow62 [OF assms(1,2)] of_nat_le_iff)
qed

lemma sint_less_pow2_iff:
  assumes "unat (n::int64) \<le> 2 ^ k" "k \<le> 62" "i < 63"
  shows "sint n < sint (push_bit i 1 :: int64) \<longleftrightarrow> unat n < 2 ^ i"
proof -
  have "sint (push_bit i 1 :: int64) = int (2 ^ i)" using sint_pow2 [OF assms(3)] by (simp only: of_nat_power of_nat_numeral)
  then show ?thesis by (simp only: sint_le_pow62 [OF assms(1,2)] of_nat_less_iff)
qed

lemma NextPowerOf2_loop_returns:
  assumes "unat n \<le> 2 ^ k" "k \<le> 62" "i \<le> k" "\<forall>j<k. 2 ^ j < unat n"
  shows "NextPowerOf2_loop i n = Some (push_bit k 1)"
  using assms(3)
proof (induction "k - i" arbitrary: i)
  case 0
  then have "i = k" by simp
  moreover have "sint n \<le> sint (push_bit k 1 :: int64)"
    using assms(1,2) sint_le_pow2_iff [OF assms(1,2), of k] by (simp del: push_bit_of_1)
  ultimately show ?case by (simp add: NextPowerOf2_loop.simps [of k] Let_def del: push_bit_of_1)
next
  case (Suc d)
  then have "i < k" by simp
  then have "\<not> sint n \<le> sint (push_bit i 1 :: int64)"
    using assms(2,4) sint_le_pow2_iff [OF assms(1,2), of i] by (simp add: not_le del: push_bit_of_1)
  then show ?case using Suc.hyps(1) [of "Suc i"] Suc.hyps(2) \<open>i < k\<close>
    by (simp add: NextPowerOf2_loop.simps [of i] Let_def del: push_bit_of_1)
qed

lemma least_pow2: "\<exists>k. n \<le> 2 ^ k \<and> (\<forall>j<k. (2::nat) ^ j < n)"
proof -
  define k where "k = (LEAST k. n \<le> (2::nat) ^ k)"
  have "n \<le> 2 ^ n" by (simp add: less_imp_le)
  then have "n \<le> 2 ^ k" unfolding k_def by (rule LeastI)
  moreover have "2 ^ j < n" if "j < k" for j
    using not_less_Least [OF that [unfolded k_def]] by simp
  ultimately show ?thesis by blast
qed

lemma NextPowerOf2_correct:
  assumes "unat n \<le> 2 ^ 62"
  shows "\<exists>k m. NextPowerOf2 n = Some m \<and> k \<le> 62 \<and> unat m = 2 ^ k \<and> unat n \<le> 2 ^ k \<and> (\<forall>j<k. 2 ^ j < unat n)"
proof -
  obtain k where k: "unat n \<le> 2 ^ k" "\<forall>j<k. 2 ^ j < unat n" using least_pow2 by blast
  have "k \<le> 62" using assms k(2) by (meson leD linorder_not_less)
  then have "NextPowerOf2 n = Some (push_bit k 1)"
    unfolding NextPowerOf2_def by (intro NextPowerOf2_loop_returns) (use k in auto)
  with k \<open>k \<le> 62\<close> unat_pow2 [of k] show ?thesis by auto
qed

lemma LastPowerOf2_loop_returns:
  assumes "unat n < 2 ^ Suc k" "2 ^ k \<le> unat n" "k < 62" "i \<le> k"
  shows "LastPowerOf2_loop i l n = Some (push_bit k 1)"
  using assms(4)
proof (induction "k - i" arbitrary: i l)
  case 0
  then have "i = k" by simp
  moreover have "\<not> sint (push_bit k 1 :: int64) > sint n" "sint (push_bit (Suc k) 1 :: int64) > sint n"
    using assms(1-3) sint_less_pow2_iff [of n "Suc k"] by (simp_all del: push_bit_of_1 push_bit_Suc power_Suc)
  ultimately show ?case
    by (simp add: LastPowerOf2_loop.simps [of k] LastPowerOf2_loop.simps [of "Suc k"] Let_def del: push_bit_of_1 push_bit_Suc)
next
  case (Suc d)
  then have "i < k" by simp
  have "(2::nat) ^ i \<le> 2 ^ k" using \<open>i < k\<close> by (intro power_increasing) auto
  then have "\<not> unat n < 2 ^ i" using assms(2) by linarith
  then have "\<not> sint n < sint (push_bit i 1 :: int64)"
    using assms(1-3) \<open>i < k\<close> sint_less_pow2_iff [of n "Suc k" i] by (simp del: push_bit_of_1 push_bit_Suc power_Suc)
  then show ?case using Suc.hyps(1) [of "Suc i"] Suc.hyps(2) \<open>i < k\<close>
    by (simp add: LastPowerOf2_loop.simps [of i] Let_def del: push_bit_of_1)
qed

lemma greatest_pow2: "0 < n \<Longrightarrow> \<exists>k. (2::nat) ^ k \<le> n \<and> n < 2 ^ Suc k"
  using ex_power_ivl1 [of 2 n] by auto

lemma LastPowerOf2_correct:
  assumes "0 < unat n" "unat n < 2 ^ 62"
  shows "\<exists>k m. LastPowerOf2 n = Some m \<and> k < 62 \<and> unat m = 2 ^ k \<and> 2 ^ k \<le> unat n \<and> unat n < 2 ^ Suc k"
proof -
  obtain k where k: "2 ^ k \<le> unat n" "unat n < 2 ^ Suc k" using greatest_pow2 assms(1) by blast
  with assms(2) have "(2::nat) ^ k < 2 ^ 62" by (meson le_less_trans)
  then have "k < 62" by (rule power_less_imp_less_exp [rotated]) simp
  then have "LastPowerOf2 n = Some (push_bit k 1)"
    unfolding LastPowerOf2_def by (intro LastPowerOf2_loop_returns) (use k in auto)
  with k \<open>k < 62\<close> unat_pow2 [of k] show ?thesis by (intro exI conjI) auto
qed


subsection \<open>Properties\<close>

text \<open>
  \<open>NextPowerOf2\<close> returns, for every length up to \<open>2^62\<close>, the least power of two that is not
  below its argument.
\<close>

theorem next_power_is_least:
  assumes "unat n \<le> 2 ^ 62"
  shows "\<exists>k m. NextPowerOf2 n = Some m \<and> unat m = 2 ^ k \<and> unat n \<le> 2 ^ k \<and> (\<forall>j<k. 2 ^ j < unat n) \<and> IsPowerOf2 m"
  using NextPowerOf2_correct [OF assms] IsPowerOf2_iff by blast

theorem next_power_is_least_witness: "\<exists>k m. NextPowerOf2 5 = Some m \<and> unat m = 2 ^ k \<and> (5::nat) \<le> 2 ^ k"
  using next_power_is_least [of 5] by auto

text \<open>
  \<open>LastPowerOf2\<close> returns, for every positive length below \<open>2^62\<close>, the greatest power of two that
  is not above its argument.
\<close>

theorem last_power_is_greatest:
  assumes "0 < unat n" "unat n < 2 ^ 62"
  shows "\<exists>k m. LastPowerOf2 n = Some m \<and> unat m = 2 ^ k \<and> 2 ^ k \<le> unat n \<and> unat n < 2 * 2 ^ k \<and> IsPowerOf2 m"
  using LastPowerOf2_correct [OF assms] IsPowerOf2_iff by (metis power_Suc)

theorem last_power_is_greatest_witness: "\<exists>k m. LastPowerOf2 5 = Some m \<and> unat m = 2 ^ k \<and> 2 ^ k \<le> (5::nat) \<and> (5::nat) < 2 * 2 ^ k"
  using last_power_is_greatest [of 5] by auto

text \<open>
  \<open>FromHex\<close> reads back what \<open>ToHex\<close> wrote, whatever follows it, and refuses a shorter text.
\<close>

theorem hex_roundtrip:
  "FromHex (ToHex (w::uint64) @ rest) = Ok w \<and> (\<exists>e. (FromHex (take 7 (ToHex w)) :: uint64 go) = Err e)"
proof -
  have "unat w < 2 ^ LENGTH(64)" by (rule unsigned_less)
  then show ?thesis by (simp add: FromHex_def ToHex_def)
qed

end
