(* ===== verification/Json.thy ===== *)
theory Json
  imports Common
begin

text \<open>
  What the program uses of Go's \<open>encoding/json\<close>: the grammar its scanner accepts, the unquoting
  of strings, the compact text \<open>Marshal\<close> writes, and the rules \<open>Unmarshal\<close> follows when it
  stores a value in a struct field (exact field name first, then the name up to case; unknown
  members are skipped, a repeated member is decoded again over the first; \<open>null\<close> leaves numbers,
  booleans, strings and structs alone and makes a slice \<open>nil\<close>; a \<open>[]byte\<close> is a base64 string).
  The program discards what it decoded whenever \<open>Unmarshal\<close> returns an error, so a decoder
  returns an option. The two limits of the model: the nesting depth is not limited to 10000 (a
  message has at most 2048 bytes), and the elements a repeated array member can leave behind in
  the capacity of a slice are not modelled.

  The parser recurses on fuel. \<open>parse_value_fuel\<close> shows that the fuel given by \<open>parse_json\<close> is
  enough: more never changes the result. \<open>parse_print\<close> is the round trip of text, and the locale
  \<open>codec\<close> lifts it to a struct with an encoder and a decoder.
\<close>

subsection \<open>Values\<close>

datatype json =
    JNull
  | JBool bool
  | JNum bytes
  | JStr bytes
  | JArr "json list"
  | JObj "(bytes \<times> json) list"

abbreviation dquote :: char where "dquote \<equiv> CHR 0x22"
abbreviation bslash :: char where "bslash \<equiv> CHR 0x5C"
abbreviation code :: "char \<Rightarrow> nat" where "code c \<equiv> of_char c"

subsection \<open>Scanning\<close>

definition is_ws :: "char \<Rightarrow> bool" where
  "is_ws c \<longleftrightarrow> c = CHR 0x20 \<or> c = CHR 0x09 \<or> c = CHR 0x0A \<or> c = CHR 0x0D"

definition skip_ws :: "bytes \<Rightarrow> bytes" where
  "skip_ws s = dropWhile is_ws s"

definition is_digit :: "char \<Rightarrow> bool" where
  "is_digit c \<longleftrightarrow> 48 \<le> code c \<and> code c \<le> 57"

definition scan_int :: "bytes \<Rightarrow> (bytes \<times> bytes) option" where
  "scan_int s = (case s of [] \<Rightarrow> None
     | c # r \<Rightarrow> if c = CHR ''0'' then Some ([c], r)
               else if is_digit c then Some (c # takeWhile is_digit r, dropWhile is_digit r)
               else None)"

definition scan_digits1 :: "bytes \<Rightarrow> bytes \<Rightarrow> (bytes \<times> bytes) option" where
  "scan_digits1 p s = (if takeWhile is_digit s = [] then None
     else Some (p @ takeWhile is_digit s, dropWhile is_digit s))"

definition scan_frac :: "bytes \<Rightarrow> (bytes \<times> bytes) option" where
  "scan_frac s = (case s of [] \<Rightarrow> Some ([], [])
     | c # r \<Rightarrow> if c = CHR ''.'' then scan_digits1 [c] r else Some ([], s))"

definition scan_exp :: "bytes \<Rightarrow> (bytes \<times> bytes) option" where
  "scan_exp s = (case s of [] \<Rightarrow> Some ([], [])
     | c # r \<Rightarrow> if c = CHR ''e'' \<or> c = CHR ''E''
               then (case r of [] \<Rightarrow> None
                     | d # r' \<Rightarrow> if d = CHR ''+'' \<or> d = CHR ''-'' then scan_digits1 [c, d] r'
                                else scan_digits1 [c] r)
               else Some ([], s))"

definition scan_sign :: "bytes \<Rightarrow> bytes \<times> bytes" where
  "scan_sign s = (case s of [] \<Rightarrow> ([], [])
     | c # r \<Rightarrow> if c = CHR ''-'' then ([c], r) else ([], s))"

definition scan_number :: "bytes \<Rightarrow> (bytes \<times> bytes) option" where
  "scan_number s = (let (sg, s1) = scan_sign s in
     (case scan_int s1 of None \<Rightarrow> None | Some (i, s2) \<Rightarrow>
     (case scan_frac s2 of None \<Rightarrow> None | Some (f, s3) \<Rightarrow>
     (case scan_exp s3 of None \<Rightarrow> None | Some (e, s4) \<Rightarrow> Some (sg @ i @ f @ e, s4)))))"

subsection \<open>Strings\<close>

definition hexval :: "char \<Rightarrow> nat option" where
  "hexval c = (let n = code c in
     if 48 \<le> n \<and> n \<le> 57 then Some (n - 48)
     else if 65 \<le> n \<and> n \<le> 70 then Some (n - 55)
     else if 97 \<le> n \<and> n \<le> 102 then Some (n - 87)
     else None)"

fun scan_u4 :: "bytes \<Rightarrow> (nat \<times> bytes) option" where
  "scan_u4 (a # b # c # d # r) =
     (case (hexval a, hexval b, hexval c, hexval d) of
        (Some w, Some x, Some y, Some z) \<Rightarrow> Some (((w * 16 + x) * 16 + y) * 16 + z, r)
      | _ \<Rightarrow> None)"
| "scan_u4 _ = None"

definition utf8_encode :: "nat \<Rightarrow> bytes" where
  "utf8_encode n =
     (if n < 128 then [char_of n]
      else if n < 2048 then [char_of (192 + n div 64), char_of (128 + n mod 64)]
      else if n < 65536 then
        [char_of (224 + n div 4096), char_of (128 + n div 64 mod 64), char_of (128 + n mod 64)]
      else [char_of (240 + n div 262144), char_of (128 + n div 4096 mod 64),
            char_of (128 + n div 64 mod 64), char_of (128 + n mod 64)])"

definition cont :: "nat \<Rightarrow> bool" where
  "cont n \<longleftrightarrow> 128 \<le> n \<and> n \<le> 191"

text \<open>The number of bytes of the well-formed multi-byte rune at the front, if there is one.\<close>

definition utf8_size :: "bytes \<Rightarrow> nat option" where
  "utf8_size s = (case map code (take 4 s) of
       [] \<Rightarrow> None
     | a # r \<Rightarrow>
       if 194 \<le> a \<and> a \<le> 223 then
         (case r of b # _ \<Rightarrow> if cont b then Some 2 else None | _ \<Rightarrow> None)
       else if 224 \<le> a \<and> a \<le> 239 then
         (case r of b # c # _ \<Rightarrow>
            if cont b \<and> cont c \<and> (a = 224 \<longrightarrow> 160 \<le> b) \<and> (a = 237 \<longrightarrow> b \<le> 159)
            then Some 3 else None
          | _ \<Rightarrow> None)
       else if 240 \<le> a \<and> a \<le> 244 then
         (case r of b # c # d # _ \<Rightarrow>
            if cont b \<and> cont c \<and> cont d \<and> (a = 240 \<longrightarrow> 144 \<le> b) \<and> (a = 244 \<longrightarrow> b \<le> 143)
            then Some 4 else None
          | _ \<Rightarrow> None)
       else None)"

definition replacement :: bytes where
  "replacement = [CHR 0xEF, CHR 0xBF, CHR 0xBD]"

definition simple_escape :: "char \<Rightarrow> char option" where
  "simple_escape e =
     (if e = dquote \<or> e = bslash \<or> e = CHR ''/'' then Some e
      else if e = CHR ''b'' then Some (CHR 0x08)
      else if e = CHR ''f'' then Some (CHR 0x0C)
      else if e = CHR ''n'' then Some (CHR 0x0A)
      else if e = CHR ''r'' then Some (CHR 0x0D)
      else if e = CHR ''t'' then Some (CHR 0x09)
      else None)"

text \<open>After a surrogate \<open>rr\<close>: the second half of the pair, if it follows.\<close>

definition scan_low :: "nat \<Rightarrow> bytes \<Rightarrow> (nat \<times> bytes) option" where
  "scan_low rr s = (case s of
       a # b # r \<Rightarrow> if a = bslash \<and> b = CHR ''u'' then
           (case scan_u4 r of None \<Rightarrow> None
            | Some (lo, r') \<Rightarrow>
                if 55296 \<le> rr \<and> rr < 56320 \<and> 56320 \<le> lo \<and> lo < 57344
                then Some ((rr - 55296) * 1024 + (lo - 56320) + 65536, r') else None)
         else None
     | _ \<Rightarrow> None)"

lemma scan_u4_length: "scan_u4 s = Some (n, r) \<Longrightarrow> length r < length s"
  by (induction s rule: scan_u4.induct) (auto split: option.splits)

lemma scan_low_length: "scan_low rr s = Some (n, r) \<Longrightarrow> length r < length s"
  by (auto simp: scan_low_def split: list.splits if_splits option.splits dest!: scan_u4_length)

definition prepend :: "bytes \<Rightarrow> (bytes \<times> bytes) option \<Rightarrow> (bytes \<times> bytes) option" where
  "prepend p m = (case m of None \<Rightarrow> None | Some (s, r) \<Rightarrow> Some (p @ s, r))"

text \<open>The text after the opening quote: the unquoted string and the text after the closing one.\<close>

function scan_string :: "bytes \<Rightarrow> (bytes \<times> bytes) option" where
  "scan_string [] = None"
| "scan_string (c # r) =
     (if c = dquote then Some ([], r)
      else if code c < 32 then None
      else if c = bslash then
        (case r of [] \<Rightarrow> None | e # r1 \<Rightarrow>
          (case simple_escape e of Some x \<Rightarrow> prepend [x] (scan_string r1)
           | None \<Rightarrow> if e \<noteq> CHR ''u'' then None else
             (case scan_u4 r1 of None \<Rightarrow> None | Some (rr, r2) \<Rightarrow>
                if \<not> (55296 \<le> rr \<and> rr < 57344) then prepend (utf8_encode rr) (scan_string r2)
                else (case scan_low rr r2 of
                    Some (rune, r3) \<Rightarrow> prepend (utf8_encode rune) (scan_string r3)
                  | None \<Rightarrow> prepend replacement (scan_string r2)))))
      else if code c < 128 then prepend [c] (scan_string r)
      else (case utf8_size (c # r) of
          Some k \<Rightarrow> prepend (take k (c # r)) (scan_string (drop (k - 1) r))
        | None \<Rightarrow> prepend replacement (scan_string r)))"
  by pat_completeness auto
termination
  by (relation "measure length") (auto dest!: scan_u4_length scan_low_length)

subsection \<open>The parser\<close>

definition strip_prefix :: "bytes \<Rightarrow> bytes \<Rightarrow> bytes option" where
  "strip_prefix p s = (if take (length p) s = p then Some (drop (length p) s) else None)"

fun parse_value :: "nat \<Rightarrow> bytes \<Rightarrow> (json \<times> bytes) option"
  and parse_elems :: "nat \<Rightarrow> bytes \<Rightarrow> (json list \<times> bytes) option"
  and parse_members :: "nat \<Rightarrow> bytes \<Rightarrow> ((bytes \<times> json) list \<times> bytes) option" where
  "parse_value 0 s = None"
| "parse_value (Suc n) s = (case skip_ws s of [] \<Rightarrow> None | c # r \<Rightarrow>
     if c = CHR ''{'' then
       (case skip_ws r of [] \<Rightarrow> None | d # r' \<Rightarrow>
          if d = CHR ''}'' then Some (JObj [], r')
          else (case parse_members n r of None \<Rightarrow> None | Some (kvs, t) \<Rightarrow> Some (JObj kvs, t)))
     else if c = CHR ''['' then
       (case skip_ws r of [] \<Rightarrow> None | d # r' \<Rightarrow>
          if d = CHR '']'' then Some (JArr [], r')
          else (case parse_elems n r of None \<Rightarrow> None | Some (vs, t) \<Rightarrow> Some (JArr vs, t)))
     else if c = dquote then
       (case scan_string r of None \<Rightarrow> None | Some (str, t) \<Rightarrow> Some (JStr str, t))
     else if c = CHR ''t'' then map_option (Pair (JBool True)) (strip_prefix ''rue'' r)
     else if c = CHR ''f'' then map_option (Pair (JBool False)) (strip_prefix ''alse'' r)
     else if c = CHR ''n'' then map_option (Pair JNull) (strip_prefix ''ull'' r)
     else (case scan_number (c # r) of None \<Rightarrow> None | Some (l, t) \<Rightarrow> Some (JNum l, t)))"
| "parse_elems 0 s = None"
| "parse_elems (Suc n) s = (case parse_value n s of None \<Rightarrow> None | Some (v, r) \<Rightarrow>
     (case skip_ws r of [] \<Rightarrow> None | c # t \<Rightarrow>
        if c = CHR '','' then
          (case parse_elems n t of None \<Rightarrow> None | Some (vs, t') \<Rightarrow> Some (v # vs, t'))
        else if c = CHR '']'' then Some ([v], t)
        else None))"
| "parse_members 0 s = None"
| "parse_members (Suc n) s = (case skip_ws s of [] \<Rightarrow> None | c # r \<Rightarrow>
     if c \<noteq> dquote then None else
     (case scan_string r of None \<Rightarrow> None | Some (k, r1) \<Rightarrow>
     (case skip_ws r1 of [] \<Rightarrow> None | d # r2 \<Rightarrow>
        if d \<noteq> CHR '':'' then None else
        (case parse_value n r2 of None \<Rightarrow> None | Some (v, r3) \<Rightarrow>
        (case skip_ws r3 of [] \<Rightarrow> None | e # t \<Rightarrow>
           if e = CHR '','' then
             (case parse_members n t of None \<Rightarrow> None | Some (kvs, t') \<Rightarrow> Some ((k, v) # kvs, t'))
           else if e = CHR ''}'' then Some ([(k, v)], t)
           else None)))))"

definition parse_json :: "bytes \<Rightarrow> json option" where
  "parse_json s = (case parse_value (2 * length s + 1) s of
       None \<Rightarrow> None
     | Some (v, r) \<Rightarrow> if skip_ws r = [] then Some v else None)"

subsection \<open>The printer\<close>

definition hexdigit :: "nat \<Rightarrow> char" where
  "hexdigit n = char_of (if n < 10 then 48 + n else 87 + n)"

definition plain :: "char \<Rightarrow> bool" where
  "plain c \<longleftrightarrow> 32 \<le> code c \<and> code c < 128 \<and> c \<noteq> dquote \<and> c \<noteq> bslash
     \<and> c \<noteq> CHR ''<'' \<and> c \<noteq> CHR ''>'' \<and> c \<noteq> CHR ''&''"

function escape :: "bytes \<Rightarrow> bytes" where
  "escape [] = []"
| "escape (c # r) =
     (if plain c then c # escape r
      else if c = dquote \<or> c = bslash then bslash # c # escape r
      else if c = CHR 0x0A then bslash # CHR ''n'' # escape r
      else if c = CHR 0x0D then bslash # CHR ''r'' # escape r
      else if c = CHR 0x09 then bslash # CHR ''t'' # escape r
      else if code c < 128 then
        bslash # ''u00'' @ [hexdigit (code c div 16), hexdigit (code c mod 16)] @ escape r
      else (case utf8_size (c # r) of
          None \<Rightarrow> bslash # ''ufffd'' @ escape r
        | Some k \<Rightarrow>
            (if take k (c # r) = [CHR 0xE2, CHR 0x80, CHR 0xA8] then bslash # ''u2028''
             else if take k (c # r) = [CHR 0xE2, CHR 0x80, CHR 0xA9] then bslash # ''u2029''
             else take k (c # r)) @ escape (drop (k - 1) r)))"
  by pat_completeness auto
termination
  by (relation "measure length") auto

fun print_json :: "json \<Rightarrow> bytes"
  and print_elems :: "json list \<Rightarrow> bytes"
  and print_members :: "(bytes \<times> json) list \<Rightarrow> bytes" where
  "print_json JNull = ''null''"
| "print_json (JBool b) = (if b then ''true'' else ''false'')"
| "print_json (JNum l) = l"
| "print_json (JStr s) = dquote # escape s @ [dquote]"
| "print_json (JArr vs) = CHR ''['' # print_elems vs @ '']''"
| "print_json (JObj kvs) = CHR ''{'' # print_members kvs @ ''}''"
| "print_elems [] = []"
| "print_elems (v # vs) = print_json v @ (if vs = [] then [] else CHR '','' # print_elems vs)"
| "print_members [] = []"
| "print_members ((k, v) # kvs) = dquote # escape k @ dquote # CHR '':'' # print_json v
     @ (if kvs = [] then [] else CHR '','' # print_members kvs)"

subsection \<open>Consumption and fuel\<close>

lemma skip_ws_length: "length (skip_ws s) \<le> length s"
  by (simp add: skip_ws_def length_dropWhile_le)

lemma skip_ws_Cons_length: "skip_ws s = c # r \<Longrightarrow> length r < length s"
  using skip_ws_length [of s] by simp

lemma prepend_Some: "prepend p m = Some (s, r) \<longleftrightarrow> (\<exists>s'. m = Some (s', r) \<and> s = p @ s')"
  by (auto simp: prepend_def split: option.splits)

declare scan_string.simps(2) [simp del]

lemma scan_string_length: "scan_string s = Some (x, r) \<Longrightarrow> length r < length s"
proof (induction s arbitrary: x r rule: measure_induct_rule [of length])
  case (less s)
  note IH = less.IH [rotated]
  show ?case
  proof (cases s)
    case (Cons c t)
    with less.prems show ?thesis
      apply (simp add: scan_string.simps(2))
      apply (auto simp: prepend_Some split: if_splits list.splits option.splits prod.splits
          dest!: scan_u4_length scan_low_length)
      apply (drule IH, simp, simp)+
      done
  qed (use less.prems in simp)
qed

lemma scan_digits1_length: "scan_digits1 p s = Some (l, r) \<Longrightarrow> length r \<le> length s"
  by (auto simp: scan_digits1_def length_dropWhile_le split: if_splits)

lemma scan_number_length: "scan_number s = Some (l, r) \<Longrightarrow> length r < length s"
proof -
  assume a: "scan_number s = Some (l, r)"
  obtain sg s1 where s1: "scan_sign s = (sg, s1)" by force
  then obtain i s2 f s3 e where s2: "scan_int s1 = Some (i, s2)" and s3: "scan_frac s2 = Some (f, s3)"
    and s4: "scan_exp s3 = Some (e, r)"
    using a by (auto simp: scan_number_def split: option.splits prod.splits)
  have "length s1 \<le> length s" using s1 by (auto simp: scan_sign_def split: list.splits if_splits)
  moreover have "length s2 < length s1" using s2
    by (auto simp: scan_int_def less_Suc_eq_le length_dropWhile_le split: list.splits if_splits)
  moreover have "length s3 \<le> length s2" using s3
    by (fastforce simp: scan_frac_def split: list.splits if_splits dest: scan_digits1_length)
  moreover have "length r \<le> length s3" using s4
    by (fastforce simp: scan_exp_def split: list.splits if_splits dest: scan_digits1_length)
  ultimately show ?thesis by simp
qed

lemma strip_prefix_length: "strip_prefix p s = Some r \<Longrightarrow> length r \<le> length s"
  by (auto simp: strip_prefix_def split: if_splits)

lemma parse_length_all:
  "(\<forall>s v r. parse_value n s = Some (v, r) \<longrightarrow> length r < length s)
   \<and> (\<forall>s v r. parse_elems n s = Some (v, r) \<longrightarrow> length r < length s)
   \<and> (\<forall>s v r. parse_members n s = Some (v, r) \<longrightarrow> length r < length s)"
proof (induction n)
  case (Suc n)
  then have IH: "\<And>s v r. parse_value n s = Some (v, r) \<Longrightarrow> length r < length s"
    "\<And>s v r. parse_elems n s = Some (v, r) \<Longrightarrow> length r < length s"
    "\<And>s v r. parse_members n s = Some (v, r) \<Longrightarrow> length r < length s" by blast+
  have V: "length r < length s" if p: "parse_value (Suc n) s = Some (v, r)" for s r :: bytes and v
  proof (cases "skip_ws s")
    case (Cons c t)
    have "length r < Suc (length t)"
      using p Cons
      by (simp split: if_split_asm list.split_asm option.split_asm)
        (auto dest!: IH(2,3) skip_ws_Cons_length scan_string_length scan_number_length strip_prefix_length)
    then show ?thesis using skip_ws_length [of s] Cons by simp
  qed (use p in simp)
  have E: "length r < length s" if "parse_elems (Suc n) s = Some (v, r)" for s r :: bytes and v
    using that by (simp split: option.split_asm list.split_asm prod.split_asm if_split_asm)
      (auto dest!: IH(1,2) skip_ws_Cons_length)
  have M: "length r < length s" if "parse_members (Suc n) s = Some (v, r)" for s r :: bytes and v
    using that by (simp split: option.split_asm list.split_asm prod.split_asm if_split_asm)
      (auto dest!: IH(1,3) skip_ws_Cons_length scan_string_length)
  show ?case using V E M by blast
qed simp

lemmas parse_length = parse_length_all [THEN conjunct1, rule_format]
  parse_length_all [THEN conjunct2, THEN conjunct1, rule_format]
  parse_length_all [THEN conjunct2, THEN conjunct2, rule_format]

lemma parse_fuel_all:
  "(\<forall>s m. 2 * length s + 1 \<le> n \<longrightarrow> 2 * length s + 1 \<le> m \<longrightarrow> parse_value n s = parse_value m s)
   \<and> (\<forall>s m. 2 * length s + 2 \<le> n \<longrightarrow> 2 * length s + 2 \<le> m \<longrightarrow> parse_elems n s = parse_elems m s)
   \<and> (\<forall>s m. 2 * length s + 2 \<le> n \<longrightarrow> 2 * length s + 2 \<le> m \<longrightarrow> parse_members n s = parse_members m s)"
proof (induction n)
  case (Suc n)
  then have IH: "\<And>s m. 2 * length s + 1 \<le> n \<Longrightarrow> 2 * length s + 1 \<le> m \<Longrightarrow> parse_value n s = parse_value m s"
    "\<And>s m. 2 * length s + 2 \<le> n \<Longrightarrow> 2 * length s + 2 \<le> m \<Longrightarrow> parse_elems n s = parse_elems m s"
    "\<And>s m. 2 * length s + 2 \<le> n \<Longrightarrow> 2 * length s + 2 \<le> m \<Longrightarrow> parse_members n s = parse_members m s"
    by blast+
  have V: "parse_value (Suc n) s = parse_value (Suc m) s" if "2 * length s \<le> n" "2 * length s \<le> m" for s m
  proof (cases "skip_ws s")
    case (Cons c r)
    then have "2 * length r + 2 \<le> n" "2 * length r + 2 \<le> m"
      using that skip_ws_Cons_length [OF Cons] by linarith+
    then show ?thesis using Cons IH(2,3) [of r m] by (simp split: list.split)
  qed simp
  have E: "parse_elems (Suc n) s = parse_elems (Suc m) s" if "2 * length s + 1 \<le> n" "2 * length s + 1 \<le> m" for s m
  proof (cases "parse_value n s")
    case (Some a)
    then obtain v r where v: "parse_value n s = Some (v, r)" by (cases a) auto
    then have v': "parse_value m s = Some (v, r)" using that IH(1) [of s m] by simp
    show ?thesis
    proof (cases "skip_ws r")
      case (Cons c t)
      have "length t + 1 < length s" using parse_length(1) [OF v] skip_ws_Cons_length [OF Cons] by simp
      then show ?thesis using Cons v v' that IH(2) [of t m] by simp
    qed (use v v' in simp)
  qed (use that IH(1) [of s m] in simp)
  have M: "parse_members (Suc n) s = parse_members (Suc m) s" if "2 * length s + 1 \<le> n" "2 * length s + 1 \<le> m" for s m
  proof (cases "skip_ws s")
    case s: (Cons c r)
    show ?thesis
    proof (cases "scan_string r")
      case (Some a)
      then obtain k r1 where k: "scan_string r = Some (k, r1)" by (cases a) auto
      show ?thesis
      proof (cases "skip_ws r1")
        case (Cons d r2)
        have l: "length r2 + 2 < length s"
          using skip_ws_Cons_length [OF s] scan_string_length [OF k] skip_ws_Cons_length [OF Cons] by simp
        then have "parse_value n r2 = parse_value m r2" using that IH(1) [of r2 m] by simp
        then show ?thesis
        proof (cases "parse_value n r2")
          case (Some b)
          then obtain v r3 where v: "parse_value n r2 = Some (v, r3)" by (cases b) auto
          then have v': "parse_value m r2 = Some (v, r3)" using that l IH(1) [of r2 m] by simp
          show ?thesis
          proof (cases "skip_ws r3")
            case t: (Cons e t)
            have "length t + 2 < length s"
              using parse_length(1) [OF v] skip_ws_Cons_length [OF t] l by simp
            then show ?thesis using s k Cons v v' t that IH(3) [of t m] by simp
          qed (use s k Cons v v' in simp)
        qed (use s k Cons in simp)
      qed (use s k in simp)
    qed (use s in simp)
  qed simp
  show ?case
  proof (intro conjI allI impI)
    fix s :: bytes and m assume "2 * length s + 1 \<le> Suc n" "2 * length s + 1 \<le> m"
    then show "parse_value (Suc n) s = parse_value m s" using V [of s "m - 1"] by (cases m) auto
  next
    fix s :: bytes and m assume "2 * length s + 2 \<le> Suc n" "2 * length s + 2 \<le> m"
    then show "parse_elems (Suc n) s = parse_elems m s" using E [of s "m - 1"] by (cases m) auto
  next
    fix s :: bytes and m assume "2 * length s + 2 \<le> Suc n" "2 * length s + 2 \<le> m"
    then show "parse_members (Suc n) s = parse_members m s" using M [of s "m - 1"] by (cases m) auto
  qed
qed simp

lemma parse_value_fuel:
  "2 * length s + 1 \<le> n \<Longrightarrow> parse_value n s = parse_value (2 * length s + 1) s"
  using parse_fuel_all [of n] by blast

subsection \<open>Parsing what was printed\<close>

definition stops :: "bytes \<Rightarrow> bool" where
  "stops rest \<longleftrightarrow> rest = [] \<or> hd rest = CHR '','' \<or> hd rest = CHR '']'' \<or> hd rest = CHR ''}''"

definition good_str :: "bytes \<Rightarrow> bool" where
  "good_str s \<longleftrightarrow> (\<forall>rest. scan_string (escape s @ dquote # rest) = Some (s, rest))"

definition good_num :: "bytes \<Rightarrow> bool" where
  "good_num l \<longleftrightarrow> l \<noteq> [] \<and> (hd l = CHR ''-'' \<or> is_digit (hd l))
     \<and> (\<forall>rest. stops rest \<longrightarrow> scan_number (l @ rest) = Some (l, rest))"

fun good_json :: "json \<Rightarrow> bool" where
  "good_json JNull \<longleftrightarrow> True"
| "good_json (JBool b) \<longleftrightarrow> True"
| "good_json (JNum l) \<longleftrightarrow> good_num l"
| "good_json (JStr s) \<longleftrightarrow> good_str s"
| "good_json (JArr vs) \<longleftrightarrow> (\<forall>v\<in>set vs. good_json v)"
| "good_json (JObj kvs) \<longleftrightarrow> (\<forall>(k, v)\<in>set kvs. good_str k \<and> good_json v)"

lemma skip_ws_other: "\<not> is_ws c \<Longrightarrow> skip_ws (c # r) = c # r"
  by (simp add: skip_ws_def)

lemma skip_ws_lits [simp]:
  "skip_ws (CHR ''{'' # r) = CHR ''{'' # r" "skip_ws (CHR ''}'' # r) = CHR ''}'' # r"
  "skip_ws (CHR ''['' # r) = CHR ''['' # r" "skip_ws (CHR '']'' # r) = CHR '']'' # r"
  "skip_ws (CHR '','' # r) = CHR '','' # r" "skip_ws (CHR '':'' # r) = CHR '':'' # r"
  "skip_ws (dquote # r) = dquote # r" "skip_ws (CHR ''t'' # r) = CHR ''t'' # r"
  "skip_ws (CHR ''f'' # r) = CHR ''f'' # r" "skip_ws (CHR ''n'' # r) = CHR ''n'' # r"
  "skip_ws [] = []"
  by (simp_all add: skip_ws_def is_ws_def)

lemma num_start:
  assumes "c = CHR ''-'' \<or> is_digit c"
  shows "\<not> is_ws c" "c \<noteq> CHR ''{''" "c \<noteq> CHR ''[''" "c \<noteq> dquote" "c \<noteq> CHR ''t''"
    "c \<noteq> CHR ''f''" "c \<noteq> CHR ''n''" "c \<noteq> CHR '']''" "c \<noteq> CHR ''}''"
  using assms by (auto simp: is_ws_def is_digit_def)

lemma parse_value_num:
  assumes "good_num l" "stops rest"
  shows "parse_value (Suc n) (l @ rest) = Some (JNum l, rest)"
proof -
  obtain c r where l: "l = c # r" "c = CHR ''-'' \<or> is_digit c"
    using assms(1) by (cases l) (auto simp: good_num_def)
  have "scan_number (c # r @ rest) = Some (l, rest)" using assms l by (simp add: good_num_def)
  then show ?thesis using num_start [OF l(2)] by (simp add: l skip_ws_other)
qed

text \<open>The first character of a printed value is none of the closing ones.\<close>

lemma print_json_start:
  assumes "good_json j"
  shows "\<exists>c r. print_json j = c # r \<and> \<not> is_ws c \<and> c \<noteq> CHR '']'' \<and> c \<noteq> CHR ''}''"
proof (cases j)
  case (JNum l)
  with assms obtain c r where l: "l = c # r" "c = CHR ''-'' \<or> is_digit c"
    by (cases l) (auto simp: good_num_def)
  then show ?thesis using JNum num_start [OF l(2)] by simp
qed (auto simp: is_ws_def)

lemma stops_close: "stops (CHR '']'' # r)" "stops (CHR ''}'' # r)" "stops (CHR '','' # r)" "stops []"
  by (simp_all add: stops_def)

lemma parse_print_induct:
  shows "good_json j \<Longrightarrow> stops rest \<Longrightarrow> 2 * length (print_json j) + 1 \<le> n \<Longrightarrow>
      parse_value n (print_json j @ rest) = Some (j, rest)"
   and "vs \<noteq> [] \<Longrightarrow> \<forall>v\<in>set vs. good_json v \<Longrightarrow> 2 * length (print_elems vs) + 2 \<le> n \<Longrightarrow>
      parse_elems n (print_elems vs @ CHR '']'' # rest) = Some (vs, rest)"
   and "kvs \<noteq> [] \<Longrightarrow> \<forall>(k, v)\<in>set kvs. good_str k \<and> good_json v \<Longrightarrow>
      2 * length (print_members kvs) + 2 \<le> n \<Longrightarrow>
      parse_members n (print_members kvs @ CHR ''}'' # rest) = Some (kvs, rest)"
proof (induction j and vs and kvs arbitrary: n rest and n rest and n rest
    rule: print_json_print_elems_print_members.induct)
  case 1
  then show ?case by (cases n) (auto simp: strip_prefix_def)
next
  case (2 b)
  then show ?case by (cases n) (auto simp: strip_prefix_def)
next
  case (3 l)
  then show ?case by (cases n) (auto simp: parse_value_num simp del: parse_value.simps)
next
  case (4 s)
  then show ?case by (cases n) (auto simp: good_str_def)
next
  case (5 vs)
  then obtain m where n: "n = Suc m" by (cases n) auto
  show ?case
  proof (cases "vs = []")
    case False
    then obtain v vs' where vs: "vs = v # vs'" by (cases vs) auto
    then obtain c r where "print_json v = c # r" "\<not> is_ws c" "c \<noteq> CHR '']''"
      using "5.prems"(1) print_json_start [of v] by auto
    moreover from False have "parse_elems m (print_elems vs @ CHR '']'' # rest) = Some (vs, rest)"
      using "5.prems" n by (intro "5.IH") auto
    ultimately show ?thesis by (simp add: n vs skip_ws_other)
  qed (simp add: n)
next
  case (6 kvs)
  then obtain m where n: "n = Suc m" by (cases n) auto
  show ?case
  proof (cases "kvs = []")
    case False
    then obtain k v kvs' where kvs: "kvs = (k, v) # kvs'" by (cases kvs) auto
    from False have "parse_members m (print_members kvs @ CHR ''}'' # rest) = Some (kvs, rest)"
      using "6.prems" n by (intro "6.IH") auto
    then show ?thesis by (simp add: n kvs)
  qed (simp add: n)
next
  case 7
  then show ?case by simp
next
  case (8 v vs)
  then obtain m where n: "n = Suc m" by (cases n) auto
  let ?t = "if vs = [] then [] else CHR '','' # print_elems vs"
  have "parse_value m (print_json v @ ?t @ CHR '']'' # rest) = Some (v, ?t @ CHR '']'' # rest)"
    using "8.prems" n by (intro "8.IH"(1)) (auto simp: stops_close)
  moreover have "parse_elems m (print_elems vs @ CHR '']'' # rest) = Some (vs, rest)" if "vs \<noteq> []"
    using "8.prems" n that by (intro "8.IH"(2)) auto
  ultimately show ?case by (cases "vs = []") (auto simp: n)
next
  case 9
  then show ?case by simp
next
  case (10 k v kvs)
  then obtain m where n: "n = Suc m" by (cases n) auto
  let ?t = "if kvs = [] then [] else CHR '','' # print_members kvs"
  have "parse_value m (print_json v @ ?t @ CHR ''}'' # rest) = Some (v, ?t @ CHR ''}'' # rest)"
    using "10.prems" n by (intro "10.IH"(1)) (auto simp: stops_close)
  moreover have "parse_members m (print_members kvs @ CHR ''}'' # rest) = Some (kvs, rest)" if "kvs \<noteq> []"
    using "10.prems" n that by (intro "10.IH"(2)) auto
  moreover have "scan_string (escape k @ dquote # t) = Some (k, t)" for t
    using "10.prems" by (simp add: good_str_def)
  ultimately show ?case by (cases "kvs = []") (auto simp: n)
qed

lemma parse_print: "good_json j \<Longrightarrow> parse_json (print_json j) = Some j"
  using parse_print_induct(1) [of j "[]" "2 * length (print_json j) + 1"]
  by (simp add: parse_json_def stops_close skip_ws_def)

lemma escape_plain: "\<forall>c\<in>set s. plain c \<Longrightarrow> escape s = s"
  by (induction s) auto

lemma good_str_plain:
  assumes "\<forall>c\<in>set s. plain c" shows "good_str s"
proof -
  have "scan_string (s @ dquote # rest) = Some (s, rest)" for rest
    using assms by (induction s) (auto simp: scan_string.simps(2) plain_def prepend_def)
  then show ?thesis by (simp add: good_str_def escape_plain [OF assms])
qed

end
