(* ===== verification/Codec.thy ===== *)
theory Codec
  imports Json
begin

text \<open>
  The field codecs of \<open>encoding/json\<close> the structs of the program need: unsigned and signed
  integers in decimal, booleans, strings, byte slices in base64 (\<open>StdEncoding\<close>), slices, and
  structs as lists of named fields. The locale \<open>codec\<close> is the contract of a struct with an
  encoder and a decoder; each component interprets it for its own structs.
\<close>

subsection \<open>Integers\<close>

fun dec_digits :: "nat \<Rightarrow> bytes" where
  "dec_digits n = (if n < 10 then [char_of (48 + n)]
     else dec_digits (n div 10) @ [char_of (48 + n mod 10)])"

declare dec_digits.simps [simp del]

definition dec_value :: "bytes \<Rightarrow> nat" where
  "dec_value l = foldl (\<lambda>a c. 10 * a + (code c - 48)) 0 l"

text \<open>\<open>strconv.ParseUint(s, 10, bits)\<close> and \<open>strconv.ParseInt(s, 10, 64)\<close>\<close>

definition ParseUint :: "nat \<Rightarrow> bytes \<Rightarrow> nat option" where
  "ParseUint bits l = (if l \<noteq> [] \<and> list_all is_digit l \<and> dec_value l < 2 ^ bits
     then Some (dec_value l) else None)"

definition ParseInt64 :: "bytes \<Rightarrow> int64 option" where
  "ParseInt64 l = (case l of [] \<Rightarrow> None
     | c # r \<Rightarrow>
       if c = CHR ''-'' then
         (if r \<noteq> [] \<and> list_all is_digit r \<and> dec_value r \<le> 2 ^ 63
          then Some (- of_nat (dec_value r)) else None)
       else if list_all is_digit l \<and> dec_value l < 2 ^ 63 then Some (of_nat (dec_value l))
       else None)"

definition enc_uint :: "'a::len word \<Rightarrow> json" where
  "enc_uint w = JNum (dec_digits (unat w))"

definition dec_uint :: "json \<Rightarrow> 'a::len word \<Rightarrow> 'a word option" where
  "dec_uint j old = (case j of
       JNull \<Rightarrow> Some old
     | JNum l \<Rightarrow> map_option of_nat (ParseUint LENGTH('a) l)
     | _ \<Rightarrow> None)"

definition enc_int64 :: "int64 \<Rightarrow> json" where
  "enc_int64 w = JNum (if sint w < 0 then CHR ''-'' # dec_digits (nat (- sint w))
     else dec_digits (nat (sint w)))"

definition dec_int64 :: "json \<Rightarrow> int64 \<Rightarrow> int64 option" where
  "dec_int64 j old = (case j of
       JNull \<Rightarrow> Some old | JNum l \<Rightarrow> ParseInt64 l | _ \<Rightarrow> None)"

text \<open>A Go \<open>byte\<close>, such as the kind of a call.\<close>

definition enc_byte :: "char \<Rightarrow> json" where
  "enc_byte c = JNum (dec_digits (code c))"

definition dec_byte :: "json \<Rightarrow> char \<Rightarrow> char option" where
  "dec_byte j old = (case j of
       JNull \<Rightarrow> Some old | JNum l \<Rightarrow> map_option char_of (ParseUint 8 l) | _ \<Rightarrow> None)"

definition dec_bool :: "json \<Rightarrow> bool \<Rightarrow> bool option" where
  "dec_bool j old = (case j of JNull \<Rightarrow> Some old | JBool b \<Rightarrow> Some b | _ \<Rightarrow> None)"

definition dec_string :: "json \<Rightarrow> string \<Rightarrow> string option" where
  "dec_string j old = (case j of JNull \<Rightarrow> Some old | JStr s \<Rightarrow> Some s | _ \<Rightarrow> None)"

subsection \<open>Base64\<close>

definition b64_char :: "nat \<Rightarrow> char" where
  "b64_char n = char_of (if n < 26 then 65 + n else if n < 52 then 71 + n
     else if n < 62 then n - 4 else if n = 62 then 43 else 47)"

definition b64_val :: "char \<Rightarrow> nat option" where
  "b64_val c = (let n = code c in
     if 65 \<le> n \<and> n \<le> 90 then Some (n - 65)
     else if 97 \<le> n \<and> n \<le> 122 then Some (n - 71)
     else if 48 \<le> n \<and> n \<le> 57 then Some (n + 4)
     else if n = 43 then Some 62 else if n = 47 then Some 63 else None)"

fun b64_encode :: "bytes \<Rightarrow> bytes" where
  "b64_encode (a # b # c # r) = (let x = code a; y = code b; z = code c in
     [b64_char (x div 4), b64_char (x mod 4 * 16 + y div 16),
      b64_char (y mod 16 * 4 + z div 64), b64_char (z mod 64)] @ b64_encode r)"
| "b64_encode [a, b] = (let x = code a; y = code b in
     [b64_char (x div 4), b64_char (x mod 4 * 16 + y div 16), b64_char (y mod 16 * 4), CHR ''=''])"
| "b64_encode [a] = (let x = code a in
     [b64_char (x div 4), b64_char (x mod 4 * 16), CHR ''='', CHR ''=''])"
| "b64_encode [] = []"

text \<open>Four characters at a time; padding only at the end, the unused bits are not checked.\<close>

fun b64_groups :: "bytes \<Rightarrow> bytes option" where
  "b64_groups [] = Some []"
| "b64_groups (a # b # c # d # r) =
     (case (b64_val a, b64_val b) of
        (Some w, Some x) \<Rightarrow>
          if d = CHR ''='' then
            (if r \<noteq> [] then None
             else if c = CHR ''='' then Some [char_of (w * 4 + x div 16)]
             else (case b64_val c of None \<Rightarrow> None
               | Some y \<Rightarrow> Some [char_of (w * 4 + x div 16), char_of (x mod 16 * 16 + y div 4)]))
          else (case (b64_val c, b64_val d) of
               (Some y, Some z) \<Rightarrow>
                 map_option (\<lambda>t. char_of (w * 4 + x div 16) # char_of (x mod 16 * 16 + y div 4)
                   # char_of (y mod 4 * 64 + z) # t) (b64_groups r)
             | _ \<Rightarrow> None)
      | _ \<Rightarrow> None)"
| "b64_groups _ = None"

definition b64_decode :: "bytes \<Rightarrow> bytes option" where
  "b64_decode s = b64_groups (filter (\<lambda>c. c \<noteq> CHR 0x0A \<and> c \<noteq> CHR 0x0D) s)"

subsection \<open>Slices and structs\<close>

definition enc_bytes :: "slice \<Rightarrow> json" where
  "enc_bytes s = (case s of None \<Rightarrow> JNull | Some b \<Rightarrow> JStr (b64_encode b))"

fun dec_elems :: "(json \<Rightarrow> 'a \<Rightarrow> 'a option) \<Rightarrow> 'a \<Rightarrow> json list \<Rightarrow> 'a list \<Rightarrow> 'a list option" where
  "dec_elems f zero [] old = Some []"
| "dec_elems f zero (v # vs) old =
     (case f v (case old of [] \<Rightarrow> zero | x # _ \<Rightarrow> x) of None \<Rightarrow> None
      | Some y \<Rightarrow> map_option ((#) y) (dec_elems f zero vs (tl old)))"

definition dec_bytes :: "json \<Rightarrow> slice \<Rightarrow> slice option" where
  "dec_bytes j old = (case j of
       JNull \<Rightarrow> Some None
     | JStr s \<Rightarrow> map_option Some (b64_decode s)
     | JArr vs \<Rightarrow> map_option Some (dec_elems dec_byte (CHR 0x00) vs (bytes_of old))
     | _ \<Rightarrow> None)"

definition enc_list :: "('a \<Rightarrow> json) \<Rightarrow> 'a list option \<Rightarrow> json" where
  "enc_list f xs = (case xs of None \<Rightarrow> JNull | Some ys \<Rightarrow> JArr (map f ys))"

definition dec_list ::
  "(json \<Rightarrow> 'a \<Rightarrow> 'a option) \<Rightarrow> 'a \<Rightarrow> json \<Rightarrow> 'a list option \<Rightarrow> 'a list option option" where
  "dec_list f zero j old = (case j of
       JNull \<Rightarrow> Some None
     | JArr vs \<Rightarrow> map_option Some (dec_elems f zero vs (case old of None \<Rightarrow> [] | Some ys \<Rightarrow> ys))
     | _ \<Rightarrow> None)"

text \<open>Go compares a key with a field name exactly, then up to ASCII case, where the long s and
  the Kelvin sign count as an s and a k.\<close>

definition is_letter :: "char \<Rightarrow> bool" where
  "is_letter c \<longleftrightarrow> 65 \<le> code c \<and> code c \<le> 90 \<or> 97 \<le> code c \<and> code c \<le> 122"

definition upper :: "char \<Rightarrow> nat" where
  "upper c = (if 97 \<le> code c \<and> code c \<le> 122 then code c - 32 else code c)"

fun fold_eq :: "bytes \<Rightarrow> bytes \<Rightarrow> bool" where
  "fold_eq [] [] \<longleftrightarrow> True"
| "fold_eq [] (t # ts) \<longleftrightarrow> False"
| "fold_eq (s # ss) [] \<longleftrightarrow> False"
| "fold_eq (s # ss) (t # ts) \<longleftrightarrow>
     (if code t < 128
      then (s = t \<or> is_letter s \<and> is_letter t \<and> upper s = upper t) \<and> fold_eq ss ts
      else if s = CHR ''s'' \<or> s = CHR ''S''
      then (case ts of u # us \<Rightarrow> t = CHR 0xC5 \<and> u = CHR 0xBF \<and> fold_eq ss us | _ \<Rightarrow> False)
      else if s = CHR ''k'' \<or> s = CHR ''K''
      then (case ts of u # v # us \<Rightarrow> t = CHR 0xE2 \<and> u = CHR 0x84 \<and> v = CHR 0xAA \<and> fold_eq ss us
            | _ \<Rightarrow> False)
      else False)"

type_synonym 's fields = "(bytes \<times> (json \<Rightarrow> 's \<Rightarrow> 's option)) list"

definition find_field :: "'s fields \<Rightarrow> bytes \<Rightarrow> (json \<Rightarrow> 's \<Rightarrow> 's option) option" where
  "find_field fs k = (case map_of fs k of Some f \<Rightarrow> Some f
     | None \<Rightarrow> map_option snd (find (\<lambda>p. fold_eq (fst p) k) fs))"

fun dec_members :: "'s fields \<Rightarrow> (bytes \<times> json) list \<Rightarrow> 's \<Rightarrow> 's option" where
  "dec_members fs [] s = Some s"
| "dec_members fs ((k, v) # kvs) s =
     (case find_field fs k of None \<Rightarrow> dec_members fs kvs s
      | Some f \<Rightarrow> (case f v s of None \<Rightarrow> None | Some s' \<Rightarrow> dec_members fs kvs s'))"

definition dec_struct :: "'s fields \<Rightarrow> json \<Rightarrow> 's \<Rightarrow> 's option" where
  "dec_struct fs j s = (case j of JNull \<Rightarrow> Some s | JObj kvs \<Rightarrow> dec_members fs kvs s | _ \<Rightarrow> None)"

definition Unmarshal :: "(json \<Rightarrow> 's \<Rightarrow> 's option) \<Rightarrow> 's \<Rightarrow> bytes \<Rightarrow> 's go" where
  "Unmarshal f zero raw = (case parse_json raw of None \<Rightarrow> Err ''json: syntax''
     | Some j \<Rightarrow> (case f j zero of None \<Rightarrow> Err ''json: cannot unmarshal'' | Some s \<Rightarrow> Ok s))"

definition Marshal :: "('s \<Rightarrow> json) \<Rightarrow> 's \<Rightarrow> bytes" where
  "Marshal f s = print_json (f s)"

subsection \<open>Lemmas: integers\<close>

lemma code_less: "code c < 256"
  by simp

lemma code_char_of: "n < 256 \<Longrightarrow> code (char_of n) = n"
  by simp

lemma is_digit_char_of [simp]: "(d::nat) < 10 \<Longrightarrow> is_digit (char_of (48 + d))"
  by (simp add: is_digit_def)

lemma dec_digits_digits: "list_all is_digit (dec_digits n)"
  by (induction n rule: dec_digits.induct) (subst dec_digits.simps, simp)

lemma dec_digits_nonempty [simp]: "dec_digits n \<noteq> []"
  by (subst dec_digits.simps) simp

lemma length_dec_digits: "n < 10 ^ Suc k \<Longrightarrow> length (dec_digits n) \<le> Suc k"
proof (induction k arbitrary: n)
  case 0
  then show ?case by (subst dec_digits.simps) simp
next
  case (Suc k)
  then have "n div 10 < 10 ^ Suc k" by (simp add: div_less_iff_less_mult)
  with Suc.IH [of "n div 10"] show ?case by (subst dec_digits.simps) simp
qed

lemma dec_value_append: "dec_value (l @ [c]) = 10 * dec_value l + (code c - 48)"
  by (simp add: dec_value_def)

lemma dec_value_digits [simp]: "dec_value (dec_digits n) = n"
proof (induction n rule: dec_digits.induct)
  case (1 n)
  show ?case
  proof (cases "n < 10")
    case True
    then show ?thesis by (subst dec_digits.simps) (simp add: dec_value_def)
  next
    case False
    with 1 show ?thesis by (subst dec_digits.simps) (simp add: dec_value_append)
  qed
qed

lemma dec_digits_lead: "dec_digits n = CHR ''0'' # r \<Longrightarrow> r = []"
proof (induction n arbitrary: r rule: dec_digits.induct)
  case (1 n)
  show ?case
  proof (cases "n < 10")
    case True
    with "1.prems" show ?thesis by (subst (asm) dec_digits.simps) simp
  next
    case False
    obtain c t where ct: "dec_digits (n div 10) = c # t" by (cases "dec_digits (n div 10)") auto
    with False "1.prems" have "c = CHR ''0''" by (subst (asm) dec_digits.simps) simp
    with ct "1.IH" False have "dec_digits (n div 10) = [CHR ''0'']" by simp
    then have "dec_value (dec_digits (n div 10)) = 0" by (simp add: dec_value_def)
    with False show ?thesis by simp
  qed
qed

lemma stops_not_digit: "stops rest \<Longrightarrow> takeWhile is_digit rest = [] \<and> dropWhile is_digit rest = rest"
  by (cases rest) (auto simp: stops_def is_digit_def)

lemma scan_int_digits:
  assumes "stops rest" shows "scan_int (dec_digits n @ rest) = Some (dec_digits n, rest)"
proof -
  obtain c r where cr: "dec_digits n = c # r" by (cases "dec_digits n") auto
  then have "is_digit c" "list_all is_digit r" using dec_digits_digits [of n] by simp_all
  then show ?thesis
    using cr dec_digits_lead [of n r] stops_not_digit [OF assms]
    by (auto simp: scan_int_def takeWhile_append2 dropWhile_append2 list_all_iff)
qed

lemma scan_tail: "stops rest \<Longrightarrow> scan_frac rest = Some ([], rest) \<and> scan_exp rest = Some ([], rest)"
  by (cases rest) (auto simp: stops_def scan_frac_def scan_exp_def)

lemma good_num_digits: "good_num (dec_digits n)"
proof -
  obtain c r where cr: "dec_digits n = c # r" by (cases "dec_digits n") auto
  then have d: "is_digit c" using dec_digits_digits [of n] by simp
  then have "c \<noteq> CHR ''-''" by (auto simp: is_digit_def)
  then have sg: "scan_sign (dec_digits n @ rest) = ([], dec_digits n @ rest)" for rest
    using cr by (simp add: scan_sign_def)
  have "scan_number (dec_digits n @ rest) = Some (dec_digits n, rest)" if "stops rest" for rest
    using scan_int_digits [OF that] scan_tail [OF that] by (simp add: scan_number_def sg)
  then show ?thesis using d cr by (simp add: good_num_def)
qed

lemma good_num_neg: "good_num (CHR ''-'' # dec_digits n)"
  using scan_int_digits scan_tail by (auto simp: good_num_def scan_number_def scan_sign_def)

lemma dec_enc_uint [simp]: "dec_uint (enc_uint w) old = Some w"
  using unsigned_less [of w]
  by (simp add: dec_uint_def enc_uint_def ParseUint_def dec_digits_digits)

lemma good_enc_uint [simp]: "good_json (enc_uint w)"
  by (simp add: enc_uint_def good_num_digits)

lemma sint_range: "- (2 ^ 63) \<le> sint (w::int64)" "sint w < 2 ^ 63"
  using sint_greater_eq [of w] sint_less [of w] by simp_all

lemma dec_enc_int64 [simp]: "dec_int64 (enc_int64 w) old = Some w"
proof (cases "sint w < 0")
  case True
  then have "of_nat (nat (- sint w)) = (- w :: int64)" by simp
  moreover have "nat (- sint w) \<le> 2 ^ 63" using sint_range(1) [of w] by simp
  ultimately show ?thesis using True
    by (simp add: dec_int64_def enc_int64_def ParseInt64_def dec_digits_digits)
next
  case False
  obtain c r where cr: "dec_digits (nat (sint w)) = c # r" by (cases "dec_digits (nat (sint w))") auto
  then have "is_digit c" using dec_digits_digits [of "nat (sint w)"] by simp
  then have "c \<noteq> CHR ''-''" by (auto simp: is_digit_def)
  moreover have "nat (sint w) < 2 ^ 63" using sint_range(2) [of w] by simp
  ultimately show ?thesis using False cr dec_digits_digits [of "nat (sint w)"] dec_value_digits [of "nat (sint w)"]
    by (simp add: dec_int64_def enc_int64_def ParseInt64_def)
qed

lemma good_enc_int64 [simp]: "good_json (enc_int64 w)"
  by (simp add: enc_int64_def good_num_digits good_num_neg)

lemma dec_enc_byte [simp]: "dec_byte (enc_byte c) old = Some c"
  by (simp add: dec_byte_def enc_byte_def ParseUint_def dec_digits_digits)

lemma good_enc_byte [simp]: "good_json (enc_byte c)"
  by (simp add: enc_byte_def good_num_digits)

lemma dec_bool_JBool [simp]: "dec_bool (JBool b) old = Some b"
  by (simp add: dec_bool_def)

subsection \<open>Lemmas: base64\<close>

lemma b64_val_char [simp]: "n < 64 \<Longrightarrow> b64_val (b64_char n) = Some n"
  by (auto simp: b64_val_def b64_char_def Let_def)

lemma b64_char_code: "n < 64 \<Longrightarrow> code (b64_char n) = (if n < 26 then 65 + n else if n < 52 then 71 + n
     else if n < 62 then n - 4 else if n = 62 then 43 else 47)"
  by (simp add: b64_char_def)

lemma b64_char_plain: "n < 64 \<Longrightarrow> plain (b64_char n) \<and> b64_char n \<noteq> CHR ''='' \<and> b64_char n \<noteq> CHR 0x0A \<and> b64_char n \<noteq> CHR 0x0D"
  using b64_char_code [of n] by (auto simp: plain_def split: if_splits)

lemma plain_eq [simp]: "plain (CHR ''='')"
  by (simp add: plain_def)

lemma byte_bounds: "code a div 4 < 64" "code b div 16 < 16" "code c div 64 < 4"
  using code_less [of a] code_less [of b] code_less [of c] by (simp_all add: div_less_iff_less_mult)

lemma shift_bound: "(m::nat) < p \<Longrightarrow> q < k \<Longrightarrow> m * k + q < p * k"
  by (metis add_less_cancel_left add_mult_distrib less_le_trans mult.commute mult_Suc mult_le_mono1 Suc_leI add.commute)

lemma byte_parts:
  "code a div 4 < 64" "code a mod 4 * 16 + code b div 16 < 64" "code b mod 16 * 4 + code c div 64 < 64"
  "code c mod 64 < 64" "code b mod 16 * 4 < 64" "code a mod 4 * 16 < 64"
  using byte_bounds(1) [of a] byte_bounds(2) [of b] byte_bounds(3) [of c] shift_bound [of "code a mod 4" 4 "code b div 16" 16]
    shift_bound [of "code b mod 16" 16 "code c div 64" 4]
    shift_bound [of "code b mod 16" 16 0 4] shift_bound [of "code a mod 4" 4 0 16] by simp_all

lemma b64_encode_plain: "c \<in> set (b64_encode s) \<Longrightarrow> plain c \<and> c \<noteq> CHR 0x0A \<and> c \<noteq> CHR 0x0D"
  by (induction s rule: b64_encode.induct) (auto simp: Let_def b64_char_plain byte_parts)

lemma b64_groups_encode: "b64_groups (b64_encode s) = Some s"
proof (induction s rule: b64_encode.induct)
  case (1 a b c r)
  then show ?case by (simp add: Let_def b64_char_plain byte_parts byte_bounds)
next
  case (2 a b)
  show ?case using byte_parts(2) [of a b] by (simp add: Let_def b64_char_plain byte_parts byte_bounds)
next
  case (3 a)
  show ?case by (simp add: Let_def b64_char_plain byte_parts byte_bounds)
qed simp

lemma b64_decode_encode [simp]: "b64_decode (b64_encode s) = Some s"
proof -
  have "filter (\<lambda>c. c \<noteq> CHR 0x0A \<and> c \<noteq> CHR 0x0D) (b64_encode s) = b64_encode s"
    using b64_encode_plain by (intro filter_True) blast
  then show ?thesis by (simp add: b64_decode_def b64_groups_encode)
qed

lemma length_b64: "length (b64_encode s) = 4 * ((length s + 2) div 3)"
proof (induction s rule: b64_encode.induct)
  case (1 a b c r)
  moreover have "(length (a # b # c # r) + 2) div 3 = Suc ((length r + 2) div 3)"
    using div_add_self2 [of 3 "length r + 2"] by simp
  ultimately show ?case by (simp only: b64_encode.simps Let_def list.size) simp
qed (simp_all add: Let_def)

lemma length_b64_encode: "length (b64_encode s) \<le> 2 * length s + 4"
  by (simp add: length_b64)

lemma escape_b64 [simp]: "escape (b64_encode s) = b64_encode s"
  using b64_encode_plain by (intro escape_plain) blast

lemma dec_enc_bytes [simp]: "dec_bytes (enc_bytes s) old = Some s"
  by (cases s) (simp_all add: dec_bytes_def enc_bytes_def)

lemma good_enc_bytes [simp]: "good_json (enc_bytes s)"
  using b64_encode_plain by (cases s) (auto simp: enc_bytes_def intro!: good_str_plain)

subsection \<open>Lemmas: lists and structs\<close>

lemma dec_elems_map:
  assumes "\<And>x. x \<in> set xs \<Longrightarrow> f (g x) zero = Some x"
  shows "dec_elems f zero (map g xs) [] = Some xs"
  using assms by (induction xs) auto

lemma dec_enc_list:
  assumes "\<And>x. f (g x) zero = Some x"
  shows "dec_list f zero (enc_list g xs) None = Some xs"
  using assms by (cases xs) (auto simp: dec_list_def enc_list_def intro!: dec_elems_map)

lemma dec_struct_JObj [simp]: "dec_struct fs (JObj kvs) s = dec_members fs kvs s"
  by (simp add: dec_struct_def)

lemma find_field_exact: "map_of fs k = Some f \<Longrightarrow> find_field fs k = Some f"
  by (simp add: find_field_def)

locale codec =
  fixes to_json :: "'a \<Rightarrow> json"
    and of_json :: "json \<Rightarrow> 'a \<Rightarrow> 'a option"
    and zero :: 'a
    and valid :: "'a \<Rightarrow> bool"
  assumes good: "valid x \<Longrightarrow> good_json (to_json x)"
    and decode: "valid x \<Longrightarrow> of_json (to_json x) zero = Some x"
begin

lemma roundtrip: "valid x \<Longrightarrow> Unmarshal of_json zero (Marshal to_json x) = Ok x"
  by (simp add: Unmarshal_def Marshal_def parse_print good decode)

lemma marshal_inj:
  "valid x \<Longrightarrow> valid y \<Longrightarrow> Marshal to_json x = Marshal to_json y \<longleftrightarrow> x = y"
  by (metis roundtrip go.inject(1))

end

end
