(* ===== verification/Accounts.thy ===== *)
theory Accounts
  imports Codec
begin

text \<open>
  Package \<open>accounts\<close> (\<open>src/accounts/account.go\<close>): the state of an account, the three operations
  the executer applies to it, and the two \<open>DbContent\<close> views of it. A pointer method that returns
  a boolean is a function to the boolean and the state after it.
\<close>

record AccountState =
  as_Nonce :: uint64
  as_Balance :: uint64

record Account =
  ac_PublicKey :: slice
  ac_State :: AccountState
  ac_Timestamp :: int64

definition zeroState :: AccountState where
  "zeroState = \<lparr>as_Nonce = 0, as_Balance = 0\<rparr>"

definition AccountState_Subtract :: "uint64 \<Rightarrow> AccountState \<Rightarrow> bool \<times> AccountState" where
  "AccountState_Subtract amount s =
     (if amount > as_Balance s then (False, s)
      else (True, s\<lparr>as_Balance := as_Balance s - amount\<rparr>))"

definition AccountState_Add :: "uint64 \<Rightarrow> AccountState \<Rightarrow> bool \<times> AccountState" where
  "AccountState_Add amount s =
     (let max = GeneratorBalance - as_Balance s in
      if amount > max then (False, s)
      else (True, s\<lparr>as_Balance := as_Balance s + amount\<rparr>))"

definition AccountState_CheckNonce :: "uint64 \<Rightarrow> AccountState \<Rightarrow> bool \<times> AccountState" where
  "AccountState_CheckNonce nonce s =
     (let ok = (as_Nonce s = nonce) in
      (ok, if ok then s\<lparr>as_Nonce := as_Nonce s + 1\<rparr> else s))"

definition AccountState_to_json :: "AccountState \<Rightarrow> json" where
  "AccountState_to_json s =
     JObj [(''Nonce'', enc_uint (as_Nonce s)), (''Balance'', enc_uint (as_Balance s))]"

definition AccountState_fields :: "AccountState fields" where
  "AccountState_fields =
     [(''Nonce'', \<lambda>j s. map_option (\<lambda>x. s\<lparr>as_Nonce := x\<rparr>) (dec_uint j (as_Nonce s))),
      (''Balance'', \<lambda>j s. map_option (\<lambda>x. s\<lparr>as_Balance := x\<rparr>) (dec_uint j (as_Balance s)))]"

definition AccountState_ToBytes :: "AccountState \<Rightarrow> bytes" where
  "AccountState_ToBytes s = Marshal AccountState_to_json s"

definition AccountState_Unmarshal :: "bytes \<Rightarrow> AccountState go" where
  "AccountState_Unmarshal raw = Unmarshal (dec_struct AccountState_fields) zeroState raw"

definition Account_ToBytes :: "Account \<Rightarrow> bytes" where
  "Account_ToBytes a = Marshal AccountState_to_json (ac_State a)"

definition Account_GetKey :: "Account \<Rightarrow> slice" where
  "Account_GetKey a = ac_PublicKey a"

definition Account_GetIndex :: "Account \<Rightarrow> bytes" where
  "Account_GetIndex a = ToHex (ac_Timestamp a)"

lemmas account_defs = AccountState_Subtract_def AccountState_Add_def AccountState_CheckNonce_def

subsection \<open>Balances\<close>

text \<open>No account holds more than the generator was given.\<close>

definition state_ok :: "AccountState \<Rightarrow> bool" where
  "state_ok s \<longleftrightarrow> unat (as_Balance s) \<le> unat GeneratorBalance"

lemma unat_GeneratorBalance: "unat GeneratorBalance = 10000000000000000000"
  by (simp add: GeneratorBalance_def)

lemma state_ok_zero [simp]: "state_ok zeroState"
  by (simp add: state_ok_def zeroState_def)

lemma Subtract_cases:
  "AccountState_Subtract amount s =
     (if unat (as_Balance s) < unat amount then (False, s)
      else (True, s\<lparr>as_Balance := as_Balance s - amount\<rparr>))"
  by (simp add: AccountState_Subtract_def word_less_nat_alt)

lemma unat_Subtract:
  "unat amount \<le> unat (as_Balance s) \<Longrightarrow>
     unat (as_Balance s - amount) = unat (as_Balance s) - unat amount"
  by (simp add: unat_sub word_le_nat_alt)

lemma unat_max:
  "state_ok s \<Longrightarrow> unat (GeneratorBalance - as_Balance s) = unat GeneratorBalance - unat (as_Balance s)"
  by (simp add: state_ok_def unat_sub word_le_nat_alt)

lemma unat_Add:
  assumes "unat (as_Balance s) + unat amount \<le> unat GeneratorBalance"
  shows "unat (as_Balance s + amount) = unat (as_Balance s) + unat amount"
  using assms by (simp add: unat_GeneratorBalance unat_word_ariths)

lemma Add_cases:
  assumes "state_ok s"
  shows "AccountState_Add amount s =
     (if unat (as_Balance s) + unat amount \<le> unat GeneratorBalance
      then (True, s\<lparr>as_Balance := as_Balance s + amount\<rparr>) else (False, s))"
  using assms unat_max [OF assms]
  by (auto simp: AccountState_Add_def Let_def word_less_nat_alt state_ok_def)

lemma Subtract_ok: "AccountState_Subtract amount s = (ok, s') \<Longrightarrow> state_ok s \<Longrightarrow> state_ok s'"
  by (auto simp: Subtract_cases state_ok_def unat_Subtract split: if_splits)

lemma Add_ok: "AccountState_Add amount s = (ok, s') \<Longrightarrow> state_ok s \<Longrightarrow> state_ok s'"
  by (auto simp: Add_cases state_ok_def unat_Add split: if_splits)

lemma CheckNonce_ok: "AccountState_CheckNonce n s = (ok, s') \<Longrightarrow> state_ok s' = state_ok s"
  by (auto simp: AccountState_CheckNonce_def state_ok_def Let_def split: if_splits)

subsection \<open>Encoding\<close>

lemma plain_names [simp]: "good_str ''Nonce''" "good_str ''Balance''"
  by (rule good_str_plain, simp add: plain_def)+

interpretation state_codec: codec AccountState_to_json "dec_struct AccountState_fields" zeroState "\<lambda>_. True"
  by unfold_locales
    (simp_all add: AccountState_to_json_def AccountState_fields_def find_field_def)

lemma AccountState_roundtrip [simp]: "AccountState_Unmarshal (AccountState_ToBytes s) = Ok s"
  by (simp add: AccountState_Unmarshal_def AccountState_ToBytes_def state_codec.roundtrip)


lemma length_AccountState_ToBytes: "length (AccountState_ToBytes s) \<le> 100"
proof -
  have d: "length (dec_digits (unat w)) \<le> 20" for w :: uint64
  proof -
    have "unat w < 2 ^ LENGTH(64)" by (rule unsigned_less)
    then show ?thesis using length_dec_digits [of "unat w" 19] by simp
  qed
  show ?thesis using d [of "as_Nonce s"] d [of "as_Balance s"]
    by (simp add: AccountState_ToBytes_def Marshal_def AccountState_to_json_def enc_uint_def plain_def)
qed

end
