(* ===== verification/Merkle.thy ===== *)
theory Merkle
  imports Common
begin

text \<open>
  Package \<open>common/merkle\<close> (\<open>src/common/merkle/merkle_tree.go\<close>). Nodes are built bottom up, one
  level at a time, by a loop that reads the level two nodes at a time and panics on a level of
  odd length. The reference is \<open>merkle_root\<close>, the usual top-down recursion over a perfect
  binary tree; the loop computes it for every level whose length is a power of two.
\<close>

datatype MerkleNode =
  MerkleNode (Left: "MerkleNode option") (Right: "MerkleNode option") (Data: bytes)

record MerkleTree = RootNode :: MerkleNode

definition NewMerkleNode ::
  "'z lib_scheme \<Rightarrow> MerkleNode option \<Rightarrow> MerkleNode option \<Rightarrow> slice \<Rightarrow> MerkleNode go" where
  "NewMerkleNode L left right data =
     (if left = None \<and> right = None
      then Ok (MerkleNode left right (Sum256 L (bytes_of data)))
      else (case left of None \<Rightarrow> Panic ''nil pointer dereference''
            | Some l \<Rightarrow> (case right of None \<Rightarrow> Panic ''nil pointer dereference''
            | Some r \<Rightarrow> Ok (MerkleNode left right (Sum256 L (Data l @ Data r))))))"

text \<open>The body of the outer loop: \<open>level[j]\<close> and \<open>level[j+1]\<close> for \<open>j = 0, 2, \<dots>\<close>\<close>

fun newLevel :: "'z lib_scheme \<Rightarrow> MerkleNode list \<Rightarrow> MerkleNode list go" where
  "newLevel L [] = Ok []"
| "newLevel L [n] = Panic ''index out of range''"
| "newLevel L (a # b # rest) =
     go_bind (NewMerkleNode L (Some a) (Some b) None)
       (\<lambda>n. go_bind (newLevel L rest) (\<lambda>ns. Ok (n # ns)))"

lemma length_newLevel: "newLevel L level = Ok ns \<Longrightarrow> length level = 2 * length ns"
  by (induction L level arbitrary: ns rule: newLevel.induct) auto

function buildLevels :: "'z lib_scheme \<Rightarrow> MerkleNode list \<Rightarrow> MerkleNode go" where
  "buildLevels L level =
     (if 1 < length level
      then (case newLevel L level of
              Ok ns \<Rightarrow> buildLevels L ns
            | Err e \<Rightarrow> Err e | Panic p \<Rightarrow> Panic p | Blocked \<Rightarrow> Blocked)
      else go_index level 0)"
  by pat_completeness auto
termination
  by (relation "measure (\<lambda>(L, level). length level)") (auto dest!: length_newLevel)

declare buildLevels.simps [simp del]

fun rawLeaves :: "'z lib_scheme \<Rightarrow> bytes list \<Rightarrow> MerkleNode list go" where
  "rawLeaves L [] = Ok []"
| "rawLeaves L (bs # data) =
     go_bind (NewMerkleNode L None None (Some bs))
       (\<lambda>n. go_bind (rawLeaves L data) (\<lambda>ns. Ok (n # ns)))"

definition NewMerkleTreeFromRaw :: "'z lib_scheme \<Rightarrow> bytes list \<Rightarrow> MerkleTree go" where
  "NewMerkleTreeFromRaw L data =
     (if \<not> IsPowerOf2 (of_nat (length data))
      then Err ''data length has to be power of 2''
      else go_bind (rawLeaves L data) (\<lambda>level.
           go_bind (buildLevels L level) (\<lambda>root. Ok \<lparr>RootNode = root\<rparr>)))"

definition NewMerkleTreeFromNodes :: "'z lib_scheme \<Rightarrow> MerkleNode list \<Rightarrow> MerkleTree go" where
  "NewMerkleTreeFromNodes L data =
     go_bind (buildLevels L data) (\<lambda>root. Ok \<lparr>RootNode = root\<rparr>)"

text \<open>Only the hash function of the environment matters.\<close>

lemma NewMerkleNode_cong: "Sum256 L = Sum256 L' \<Longrightarrow> NewMerkleNode L l r d = NewMerkleNode L' l r d"
  by (cases l; cases r) (simp_all add: NewMerkleNode_def)

lemma newLevel_cong: "Sum256 L = Sum256 L' \<Longrightarrow> newLevel L ns = newLevel L' ns"
proof (induction L ns rule: newLevel.induct)
  case (3 L a b rest)
  then show ?case by (simp add: NewMerkleNode_cong [OF 3(2)])
qed simp_all

lemma buildLevels_cong: "Sum256 L = Sum256 L' \<Longrightarrow> buildLevels L ns = buildLevels L' ns"
proof (induction L ns rule: buildLevels.induct)
  case (1 L level)
  show ?case
    unfolding buildLevels.simps [of L level] buildLevels.simps [of L' level] newLevel_cong [OF 1(2)]
    using 1 newLevel_cong [OF 1(2), of level] by (auto split: go.splits)
qed

lemma rawLeaves_cong: "Sum256 L = Sum256 L' \<Longrightarrow> rawLeaves L ds = rawLeaves L' ds"
  by (induction ds) (simp_all add: NewMerkleNode_cong [of L L'])

lemma NewMerkleTreeFromRaw_cong:
  "Sum256 L = Sum256 L' \<Longrightarrow> NewMerkleTreeFromRaw L ds = NewMerkleTreeFromRaw L' ds"
  by (simp add: NewMerkleTreeFromRaw_def rawLeaves_cong [of L L'] buildLevels_cong [of L L'])

subsection \<open>Reference: the root of a perfect tree\<close>

primrec merkle_root :: "'z lib_scheme \<Rightarrow> nat \<Rightarrow> bytes list \<Rightarrow> bytes" where
  "merkle_root L 0 ds = hd ds"
| "merkle_root L (Suc k) ds =
     Sum256 L (merkle_root L k (take (2 ^ k) ds) @ merkle_root L k (drop (2 ^ k) ds))"

lemma merkle_root_cong: "Sum256 L = Sum256 L' \<Longrightarrow> merkle_root L k ds = merkle_root L' k ds"
  by (induction k arbitrary: ds) simp_all

text \<open>One level of the loop on digests.\<close>

fun pair_hash :: "'z lib_scheme \<Rightarrow> bytes list \<Rightarrow> bytes list" where
  "pair_hash L (a # b # ds) = Sum256 L (a @ b) # pair_hash L ds"
| "pair_hash L ds = []"

lemma newLevel_pair_hash:
  "even (length level) \<Longrightarrow>
     \<exists>ns. newLevel L level = Ok ns \<and> map Data ns = pair_hash L (map Data level)"
  by (induction L level rule: newLevel.induct) (auto simp: NewMerkleNode_def)

lemma length_pair_hash [simp]: "length (pair_hash L ds) = length ds div 2"
  by (induction L ds rule: pair_hash.induct) auto

lemma pair_hash_take: "pair_hash L (take (2 * n) ds) = take n (pair_hash L ds)"
proof (induction L ds arbitrary: n rule: pair_hash.induct)
  case (1 L a b ds)
  then show ?case by (cases n) auto
qed (simp, rename_tac n, case_tac n, auto)

lemma pair_hash_drop: "pair_hash L (drop (2 * n) ds) = drop n (pair_hash L ds)"
proof (induction L ds arbitrary: n rule: pair_hash.induct)
  case (1 L a b ds)
  then show ?case by (cases n) auto
qed (simp, rename_tac n, case_tac n, auto)

lemma merkle_root_pair_hash:
  "length ds = 2 ^ Suc k \<Longrightarrow> merkle_root L (Suc k) ds = merkle_root L k (pair_hash L ds)"
proof (induction k arbitrary: ds)
  case 0
  then obtain a b where "ds = [a, b]" by (auto simp: length_Suc_conv numeral_2_eq_2)
  then show ?case by simp
next
  case (Suc k)
  let ?t = "take (2 ^ Suc k) ds" and ?d = "drop (2 ^ Suc k) ds"
  have "length ?t = 2 ^ Suc k" "length ?d = 2 ^ Suc k" using Suc.prems by simp_all
  then have "merkle_root L (Suc k) ?t = merkle_root L k (pair_hash L ?t)"
    "merkle_root L (Suc k) ?d = merkle_root L k (pair_hash L ?d)"
    using Suc.IH by blast+
  then show ?case
    using pair_hash_take [of L "2 ^ k" ds] pair_hash_drop [of L "2 ^ k" ds]
    by (simp only: merkle_root.simps(2) [of L "Suc k"] power_Suc) simp
qed

lemma buildLevels_root:
  assumes "length level = 2 ^ k"
  shows "\<exists>t. buildLevels L level = Ok t \<and> Data t = merkle_root L k (map Data level)"
  using assms
proof (induction k arbitrary: level)
  case 0
  then obtain n where "level = [n]" by (auto simp: length_Suc_conv)
  then show ?case by (simp add: buildLevels.simps)
next
  case (Suc k)
  then have "even (length level)" "1 < length level"
    using one_less_power [of "2::nat" "Suc k"] by simp_all
  then obtain ns where ns: "newLevel L level = Ok ns" "map Data ns = pair_hash L (map Data level)"
    using newLevel_pair_hash by blast
  have "length ns = 2 ^ k" using length_newLevel [OF ns(1)] Suc.prems by simp
  then obtain t where "buildLevels L ns = Ok t" "Data t = merkle_root L k (map Data ns)"
    using Suc.IH by blast
  moreover have "merkle_root L (Suc k) (map Data level) = merkle_root L k (map Data ns)"
    using merkle_root_pair_hash [of "map Data level" k L] Suc.prems ns(2) by simp
  ultimately show ?case
    using ns(1) \<open>1 < length level\<close> by (simp add: buildLevels.simps [of L level])
qed

lemma rawLeaves_Ok:
  "\<exists>ns. rawLeaves L data = Ok ns \<and> map Data ns = map (Sum256 L) data"
  by (induction data) (auto simp: NewMerkleNode_def)

lemma NewMerkleTreeFromNodes_root:
  assumes "length nodes = 2 ^ k"
  shows "\<exists>t. NewMerkleTreeFromNodes L nodes = Ok t
     \<and> Data (RootNode t) = merkle_root L k (map Data nodes)"
  using buildLevels_root [OF assms, of L] by (auto simp: NewMerkleTreeFromNodes_def)

lemma NewMerkleTreeFromRaw_root:
  assumes "length data = 2 ^ k" "k < 64"
  shows "\<exists>t. NewMerkleTreeFromRaw L data = Ok t
     \<and> Data (RootNode t) = merkle_root L k (map (Sum256 L) data)"
proof -
  obtain ns where ns: "rawLeaves L data = Ok ns" "map Data ns = map (Sum256 L) data"
    using rawLeaves_Ok by blast
  then have "length ns = 2 ^ k" using assms(1) by (metis length_map)
  then obtain t where "buildLevels L ns = Ok t" "Data t = merkle_root L k (map Data ns)"
    using buildLevels_root by blast
  moreover have "IsPowerOf2 (of_nat (length data))"
  proof -
    have "(2::nat) ^ k < 2 ^ 64" by (rule power_strict_increasing) (use assms(2) in auto)
    then have "unat (of_nat (length data) :: int64) = 2 ^ k"
      using assms(1) by (simp only: unat_of_nat) simp
    then show ?thesis unfolding IsPowerOf2_iff by blast
  qed
  ultimately show ?thesis using ns by (simp add: NewMerkleTreeFromRaw_def)
qed

subsection \<open>Binding\<close>

lemma length_merkle_root:
  "hash_ok L \<Longrightarrow> \<forall>d\<in>set ds. length d = 32 \<Longrightarrow> length ds = 2 ^ k \<Longrightarrow> length (merkle_root L k ds) = 32"
  by (cases k) (auto simp: length_Suc_conv)

text \<open>The inputs the hash is applied to while the root of \<open>ds\<close> is computed.\<close>

primrec merkle_inputs :: "'z lib_scheme \<Rightarrow> nat \<Rightarrow> bytes list \<Rightarrow> bytes set" where
  "merkle_inputs L 0 ds = {}"
| "merkle_inputs L (Suc k) ds =
     insert (merkle_root L k (take (2 ^ k) ds) @ merkle_root L k (drop (2 ^ k) ds))
       (merkle_inputs L k (take (2 ^ k) ds) \<union> merkle_inputs L k (drop (2 ^ k) ds))"

lemma halves_32:
  assumes "length ds = 2 ^ Suc k" "\<forall>d\<in>set ds. length (d::bytes) = 32"
  shows "length (take (2 ^ k) ds) = 2 ^ k" "length (drop (2 ^ k) ds) = 2 ^ k"
    "\<forall>d\<in>set (take (2 ^ k) ds). length d = 32" "\<forall>d\<in>set (drop (2 ^ k) ds). length d = 32"
  using assms by (auto dest: in_set_takeD in_set_dropD)

lemma merkle_root_binding:
  assumes "hash_ok L"
    and "length ds = 2 ^ k" "length ds' = 2 ^ k"
    and "\<forall>d\<in>set ds. length d = 32" "\<forall>d\<in>set ds'. length d = 32"
    and "inj_on (Sum256 L) (merkle_inputs L k ds \<union> merkle_inputs L k ds')"
    and "merkle_root L k ds = merkle_root L k ds'"
  shows "ds = ds'"
  using assms(2-)
proof (induction k arbitrary: ds ds')
  case 0
  then show ?case by (auto simp: length_Suc_conv)
next
  case (Suc k)
  let ?t = "take (2 ^ k)" and ?d = "drop (2 ^ k)"
  note h = halves_32 [OF Suc.prems(1,3)] and h' = halves_32 [OF Suc.prems(2,4)]
  have "merkle_root L k (?t ds) @ merkle_root L k (?d ds)
      = merkle_root L k (?t ds') @ merkle_root L k (?d ds')"
    by (rule inj_onD [OF Suc.prems(5)]) (use Suc.prems(6) in auto)
  moreover have "length (merkle_root L k (?t ds)) = length (merkle_root L k (?t ds'))"
    using length_merkle_root [OF assms(1) h(3,1)] length_merkle_root [OF assms(1) h'(3,1)] by simp
  ultimately have eq: "merkle_root L k (?t ds) = merkle_root L k (?t ds')"
    "merkle_root L k (?d ds) = merkle_root L k (?d ds')" by simp_all
  have sub: "inj_on (Sum256 L) (merkle_inputs L k (?t ds) \<union> merkle_inputs L k (?t ds'))"
    "inj_on (Sum256 L) (merkle_inputs L k (?d ds) \<union> merkle_inputs L k (?d ds'))"
    by (rule inj_on_subset [OF Suc.prems(5)], auto)+
  have "?t ds = ?t ds'" by (rule Suc.IH [OF h(1) h'(1) h(3) h'(3) sub(1) eq(1)])
  moreover have "?d ds = ?d ds'" by (rule Suc.IH [OF h(2) h'(2) h(4) h'(4) sub(2) eq(2)])
  ultimately show ?case by (metis append_take_drop_id)
qed


subsection \<open>Properties\<close>

text \<open>
  C38: The tree built level by level has the root of the perfect binary tree over the hashes of its
  data, for every number of leaves that is a power of two, and every other number is refused.
\<close>

theorem merkle_tree_root:
  assumes "length data < 2 ^ 64"
  shows "(\<exists>k t. length data = 2 ^ k \<and> NewMerkleTreeFromRaw L data = Ok t
        \<and> Data (RootNode t) = merkle_root L k (map (Sum256 L) data))
     \<or> ((\<nexists>k. length data = 2 ^ k) \<and> (\<exists>e. NewMerkleTreeFromRaw L data = Err e))"
proof (cases "\<exists>k. length data = 2 ^ k")
  case True
  then obtain k where k: "length data = 2 ^ k" ..
  then have "(2::nat) ^ k < 2 ^ 64" using assms by simp
  then have "k < 64" by (rule power_less_imp_less_exp [rotated]) simp
  with NewMerkleTreeFromRaw_root [OF k] k show ?thesis by blast
next
  case False
  have "unat (of_nat (length data) :: int64) = length data" using assms by (simp add: unat_of_nat)
  with False have "\<not> IsPowerOf2 (of_nat (length data))" by (simp add: IsPowerOf2_iff)
  with False show ?thesis by (simp add: NewMerkleTreeFromRaw_def)
qed

definition paddingLib :: lib where
  "paddingLib = \<lparr>Sum256 = \<lambda>x. take 32 (char_of (length x mod 256) # x @ replicate 32 (CHR 0x00)), ed_Sign = \<lambda>_ _. [],
     ed_Verify = \<lambda>_ _ _. False, b58_Encode = \<lambda>b. b, b58_Decode = \<lambda>s. s\<rparr>"

theorem merkle_tree_root_witness:
  "(\<exists>t. NewMerkleTreeFromRaw paddingLib [''a'', ''b''] = Ok t
      \<and> Data (RootNode t) = Sum256 paddingLib (Sum256 paddingLib ''a'' @ Sum256 paddingLib ''b''))
   \<and> (\<exists>e. NewMerkleTreeFromRaw paddingLib [''a'', ''b'', ''c''] = Err e)"
proof
  have k: "k = 1" if "length [''a'', ''b''] = 2 ^ k" for k :: nat
    using that power_inject_exp [of "2::nat" 1 k] by simp
  have "length [''a'', ''b''] = 2 ^ 1" by simp
  with merkle_tree_root [of "[''a'', ''b'']" paddingLib] obtain k t where "length [''a'', ''b''] = 2 ^ k"
      "NewMerkleTreeFromRaw paddingLib [''a'', ''b''] = Ok t"
      "Data (RootNode t) = merkle_root paddingLib k (map (Sum256 paddingLib) [''a'', ''b''])" by fastforce
  with k [OF this(1)] show "\<exists>t. NewMerkleTreeFromRaw paddingLib [''a'', ''b''] = Ok t
      \<and> Data (RootNode t) = Sum256 paddingLib (Sum256 paddingLib ''a'' @ Sum256 paddingLib ''b'')" by simp
  have "length [''a'', ''b'', ''c''] \<noteq> 2 ^ k" for k :: nat
  proof (cases k)
    case (Suc j)
    have "even ((2::nat) ^ Suc j)" by simp
    moreover have "odd (length [''a'', ''b'', ''c''])" by simp
    ultimately show ?thesis using Suc by metis
  qed simp
  with merkle_tree_root [of "[''a'', ''b'', ''c'']" paddingLib] show "\<exists>e. NewMerkleTreeFromRaw paddingLib [''a'', ''b'', ''c''] = Err e" by fastforce
qed

text \<open>
  C39: The root commits to the data: two bundles of the same size with the same root are equal, as
  long as the hash function does not collide on what was hashed for the two trees.
\<close>

theorem merkle_tree_binding:
  assumes "hash_ok L" "length data = 2 ^ k" "length data' = 2 ^ k" "k < 64"
    "inj_on (Sum256 L) (set data \<union> set data' \<union> merkle_inputs L k (map (Sum256 L) data)
       \<union> merkle_inputs L k (map (Sum256 L) data'))"
    "NewMerkleTreeFromRaw L data = Ok t" "NewMerkleTreeFromRaw L data' = Ok t'"
    "Data (RootNode t) = Data (RootNode t')"
  shows "data = data'"
proof -
  have "merkle_root L k (map (Sum256 L) data) = merkle_root L k (map (Sum256 L) data')"
    using NewMerkleTreeFromRaw_root [OF assms(2,4), of L] NewMerkleTreeFromRaw_root [OF assms(3,4), of L] assms(6-8)
    by auto
  then have "map (Sum256 L) data = map (Sum256 L) data'"
    by (intro merkle_root_binding [OF assms(1), of _ k])
      (use assms(1-3) inj_on_subset [OF assms(5)] in auto)
  then show ?thesis
    by (rule map_inj_on) (use inj_on_subset [OF assms(5)] in auto)
qed

theorem merkle_tree_binding_witness:
  "\<exists>t t'. NewMerkleTreeFromRaw paddingLib [''b'', ''a''] = Ok t \<and> NewMerkleTreeFromRaw paddingLib [''c'', ''a''] = Ok t'
     \<and> Data (RootNode t) \<noteq> Data (RootNode t') \<and> take 2 [''b'', ''a''] = [''b'', ''a'']"
proof -
  have h: "hash_ok paddingLib" by (auto simp: hash_ok_def paddingLib_def)
  let ?d = "[''b'', ''a'']" and ?e = "[''c'', ''a'']"
  have len: "length ?d = 2 ^ 1" "length ?e = 2 ^ 1" by simp_all
  have inj: "inj_on (Sum256 paddingLib) (set ?d \<union> set ?e \<union> merkle_inputs paddingLib 1 (map (Sum256 paddingLib) ?d)
       \<union> merkle_inputs paddingLib 1 (map (Sum256 paddingLib) ?e))"
    by (simp add: paddingLib_def inj_on_def)
  obtain t t' where t: "NewMerkleTreeFromRaw paddingLib ?d = Ok t" "NewMerkleTreeFromRaw paddingLib ?e = Ok t'"
    using NewMerkleTreeFromRaw_root [OF len(1), of paddingLib] NewMerkleTreeFromRaw_root [OF len(2), of paddingLib] by auto
  have "Data (RootNode t) \<noteq> Data (RootNode t')"
    using merkle_tree_binding [OF h len _ inj t] by auto
  moreover have inj2: "inj_on (Sum256 paddingLib) (set ?d \<union> set ?d \<union> merkle_inputs paddingLib 1 (map (Sum256 paddingLib) ?d)
       \<union> merkle_inputs paddingLib 1 (map (Sum256 paddingLib) ?d))"
    using inj by (rule inj_on_subset) auto
  have "?d = ?d" by (rule merkle_tree_binding [OF h len(1) len(1) _ inj2 t(1) t(1)]) simp_all
  ultimately show ?thesis using t by auto
qed

end
