(* ===== verification/Txs.thy ===== *)
theory Txs
  imports Codec Merkle
begin

text \<open>
  Package \<open>txs\<close> (\<open>src/txs/transaction.go\<close>, \<open>src/txs/bundle.go\<close>): transactions, their
  verification, and the bundle a block carries with its Merkle root. The clock is the argument
  \<open>now\<close>. A Go slice of transactions is an optional list, \<open>None\<close> for \<open>nil\<close>.
\<close>

record TransactionData =
  td_Data :: slice
  td_PublicKey :: slice
  td_Nonce :: uint64
  td_Signature :: slice
  td_Timestamp :: int64

record Transaction =
  tx_Hash :: slice
  tx_InnerData :: TransactionData
  tx_Status :: bool

record TxBundle =
  Transactions :: "Transaction list option"

definition NewTransaction :: "slice \<Rightarrow> int64 \<Rightarrow> Transaction" where
  "NewTransaction data now =
     \<lparr>tx_Hash = None,
      tx_InnerData = \<lparr>td_Data = data, td_PublicKey = None, td_Nonce = 0,
                      td_Signature = None, td_Timestamp = now\<rparr>,
      tx_Status = False\<rparr>"

subsection \<open>Encoding\<close>

definition TransactionData_to_json :: "TransactionData \<Rightarrow> json" where
  "TransactionData_to_json d = JObj
     [(''Data'', enc_bytes (td_Data d)), (''PublicKey'', enc_bytes (td_PublicKey d)),
      (''Nonce'', enc_uint (td_Nonce d)), (''Signature'', enc_bytes (td_Signature d)),
      (''Timestamp'', enc_int64 (td_Timestamp d))]"

definition zeroTransactionData :: TransactionData where
  "zeroTransactionData = \<lparr>td_Data = None, td_PublicKey = None, td_Nonce = 0,
     td_Signature = None, td_Timestamp = 0\<rparr>"

definition TransactionData_fields :: "TransactionData fields" where
  "TransactionData_fields =
     [(''Data'', \<lambda>j d. map_option (\<lambda>x. d\<lparr>td_Data := x\<rparr>) (dec_bytes j (td_Data d))),
      (''PublicKey'', \<lambda>j d. map_option (\<lambda>x. d\<lparr>td_PublicKey := x\<rparr>) (dec_bytes j (td_PublicKey d))),
      (''Nonce'', \<lambda>j d. map_option (\<lambda>x. d\<lparr>td_Nonce := x\<rparr>) (dec_uint j (td_Nonce d))),
      (''Signature'', \<lambda>j d. map_option (\<lambda>x. d\<lparr>td_Signature := x\<rparr>) (dec_bytes j (td_Signature d))),
      (''Timestamp'', \<lambda>j d. map_option (\<lambda>x. d\<lparr>td_Timestamp := x\<rparr>) (dec_int64 j (td_Timestamp d)))]"

definition Transaction_to_json :: "Transaction \<Rightarrow> json" where
  "Transaction_to_json tx = JObj
     [(''Hash'', enc_bytes (tx_Hash tx)), (''InnerData'', TransactionData_to_json (tx_InnerData tx)),
      (''Status'', JBool (tx_Status tx))]"

definition zeroTransaction :: Transaction where
  "zeroTransaction = \<lparr>tx_Hash = None, tx_InnerData = zeroTransactionData, tx_Status = False\<rparr>"

definition Transaction_fields :: "Transaction fields" where
  "Transaction_fields =
     [(''Hash'', \<lambda>j t. map_option (\<lambda>x. t\<lparr>tx_Hash := x\<rparr>) (dec_bytes j (tx_Hash t))),
      (''InnerData'', \<lambda>j t. map_option (\<lambda>x. t\<lparr>tx_InnerData := x\<rparr>)
         (dec_struct TransactionData_fields j (tx_InnerData t))),
      (''Status'', \<lambda>j t. map_option (\<lambda>x. t\<lparr>tx_Status := x\<rparr>) (dec_bool j (tx_Status t)))]"

definition TxBundle_to_json :: "TxBundle \<Rightarrow> json" where
  "TxBundle_to_json b = JObj [(''Transactions'', enc_list Transaction_to_json (Transactions b))]"

definition TxBundle_fields :: "TxBundle fields" where
  "TxBundle_fields =
     [(''Transactions'', \<lambda>j b. map_option (\<lambda>x. b\<lparr>Transactions := x\<rparr>)
         (dec_list (dec_struct Transaction_fields) zeroTransaction j (Transactions b)))]"

definition Transaction_Unmarshal :: "bytes \<Rightarrow> Transaction go" where
  "Transaction_Unmarshal raw = Unmarshal (dec_struct Transaction_fields) zeroTransaction raw"

subsection \<open>Verification of a transaction\<close>

definition CheckContents :: "Transaction \<Rightarrow> bool" where
  "CheckContents tx \<longleftrightarrow> (let d = tx_InnerData tx in
     sint (td_Timestamp d) > 0 \<and>
     td_Data d \<noteq> None \<and> slice_len (td_Data d) > 0 \<and> slice_len (td_Data d) \<le> MaxPayloadSize \<and>
     td_PublicKey d \<noteq> None \<and> slice_len (td_PublicKey d) = PublicKeySize \<and>
     td_Signature d \<noteq> None \<and> slice_len (td_Signature d) > 0 \<and>
     tx_Hash tx \<noteq> None \<and> slice_len (tx_Hash tx) = HashSize)"

definition Transaction_Verify :: "'z lib_scheme \<Rightarrow> Transaction \<Rightarrow> bool go" where
  "Transaction_Verify L tx =
     (if \<not> CheckContents tx then Ok False
      else let enc = Marshal TransactionData_to_json (tx_InnerData tx);
               hash = Some (Sum256 L enc)
           in if \<not> bytes_Equal hash (tx_Hash tx) then Ok False
              else ed25519_Verify L (td_PublicKey (tx_InnerData tx)) (td_Data (tx_InnerData tx))
                     (td_Signature (tx_InnerData tx)))"

subsection \<open>Bundles\<close>

definition TxBundle_HashTransactions :: "'z lib_scheme \<Rightarrow> TxBundle \<Rightarrow> bytes go" where
  "TxBundle_HashTransactions L txb = (case Transactions txb of
       None \<Rightarrow> Err ''emptry tx bundle''
     | Some ts \<Rightarrow>
         if ts = [] then Err ''emptry tx bundle''
         else go_bind (NewMerkleTreeFromRaw L (map (Marshal Transaction_to_json) ts))
                (\<lambda>mTree. Ok (Data (RootNode mTree))))"

definition txs_of :: "TxBundle \<Rightarrow> Transaction list" where
  "txs_of txb = (case Transactions txb of None \<Rightarrow> [] | Some ts \<Rightarrow> ts)"

definition TxBundle_ToKeys :: "'z lib_scheme \<Rightarrow> TxBundle \<Rightarrow> string list" where
  "TxBundle_ToKeys L txb = map (\<lambda>tx. b58_Encode L (bytes_of (tx_Hash tx))) (txs_of txb)"

fun verifyAll :: "'z lib_scheme \<Rightarrow> Transaction list \<Rightarrow> bool go" where
  "verifyAll L [] = Ok True"
| "verifyAll L (tx # ts) = (case Transaction_Verify L tx of
       Ok ok \<Rightarrow> if \<not> ok then Ok False else verifyAll L ts
     | Err e \<Rightarrow> Ok False
     | Panic p \<Rightarrow> Panic p
     | Blocked \<Rightarrow> Blocked)"

definition TxBundle_Verify :: "'z lib_scheme \<Rightarrow> TxBundle \<Rightarrow> bool go" where
  "TxBundle_Verify L txb = (case Transactions txb of
       None \<Rightarrow> Ok False
     | Some ts \<Rightarrow> if ts = [] then Ok False else verifyAll L ts)"

subsection \<open>Lemmas\<close>

lemma tx_names [simp]: "good_str ''Data''" "good_str ''PublicKey''" "good_str ''Nonce''"
  "good_str ''Signature''" "good_str ''Timestamp''" "good_str ''Hash''" "good_str ''InnerData''"
  "good_str ''Status''" "good_str ''Transactions''"
  by (rule good_str_plain, simp add: plain_def)+

interpretation txdata_codec: codec TransactionData_to_json "dec_struct TransactionData_fields"
  zeroTransactionData "\<lambda>_. True"
  by unfold_locales
    (simp_all add: TransactionData_to_json_def TransactionData_fields_def find_field_def)

lemma txdata_decode_any:
  "dec_struct TransactionData_fields (TransactionData_to_json d) old = Some d"
  by (simp add: TransactionData_to_json_def TransactionData_fields_def find_field_def)

interpretation tx_codec: codec Transaction_to_json "dec_struct Transaction_fields"
  zeroTransaction "\<lambda>_. True"
proof
  fix t :: Transaction
  show "good_json (Transaction_to_json t)"
    by (simp add: Transaction_to_json_def txdata_codec.good)
  have "dec_members Transaction_fields
      [(''Hash'', enc_bytes (tx_Hash t)), (''InnerData'', TransactionData_to_json (tx_InnerData t)),
       (''Status'', JBool (tx_Status t))] zeroTransaction = Some t"
    by (simp add: Transaction_fields_def find_field_def txdata_decode_any)
  then show "dec_struct Transaction_fields (Transaction_to_json t) zeroTransaction = Some t"
    by (simp add: Transaction_to_json_def)
qed

lemma good_TxBundle: "good_json (TxBundle_to_json b)"
  by (auto simp: TxBundle_to_json_def enc_list_def tx_codec.good split: option.splits)

lemma decode_TxBundle:
  "dec_struct TxBundle_fields (TxBundle_to_json b) \<lparr>Transactions = None\<rparr> = Some b"
  using dec_enc_list [of "dec_struct Transaction_fields" Transaction_to_json zeroTransaction
      "Transactions b", OF tx_codec.decode [OF TrueI]]
  by (simp add: TxBundle_to_json_def TxBundle_fields_def find_field_def)

interpretation bundle_codec: codec TxBundle_to_json "dec_struct TxBundle_fields"
  "\<lparr>Transactions = None\<rparr>" "\<lambda>_. True"
  by unfold_locales (simp_all add: good_TxBundle decode_TxBundle)

lemma Transaction_Verify_total: "\<exists>b. Transaction_Verify L tx = Ok b"
  by (auto simp: Transaction_Verify_def CheckContents_def PublicKeySize_def ed25519_Verify_def Let_def)

lemma verifyAll_total: "\<exists>b. verifyAll L ts = Ok b"
proof (induction ts)
  case (Cons tx ts)
  then show ?case using Transaction_Verify_total [of L tx] by (auto split: if_splits)
qed (auto intro: exI [of _ True])

lemma verifyAll_True: "verifyAll L ts = Ok True \<longleftrightarrow> (\<forall>tx\<in>set ts. Transaction_Verify L tx = Ok True)"
proof (induction ts)
  case (Cons tx ts)
  then show ?case using Transaction_Verify_total [of L tx] by (auto split: if_splits)
qed simp

lemma HashTransactions_root:
  assumes "Transactions txb = Some ts" "length ts = 2 ^ k" "k < 64"
  shows "TxBundle_HashTransactions L txb =
     Ok (merkle_root L k (map (\<lambda>tx. Sum256 L (Marshal Transaction_to_json tx)) ts))"
proof -
  have "ts \<noteq> []" using assms(2) by auto
  moreover obtain t where "NewMerkleTreeFromRaw L (map (Marshal Transaction_to_json) ts) = Ok t"
    "Data (RootNode t) = merkle_root L k (map (Sum256 L) (map (Marshal Transaction_to_json) ts))"
    using NewMerkleTreeFromRaw_root [of "map (Marshal Transaction_to_json) ts" k L] assms by auto
  ultimately show ?thesis
    using assms(1) by (simp add: TxBundle_HashTransactions_def comp_def)
qed

end
