(* ===== verification/Memory.thy ===== *)
theory Memory
  imports Accounts Txs
begin

text \<open>
  Package \<open>memory\<close>: the mempool (\<open>src/memory/mempool.go\<close>), the in-memory account database
  (\<open>src/memory/memory_db.go\<close>) and the service that owns both (\<open>src/memory/memory_service.go\<close>).

  \<^item> A Go map is an association list with distinct keys. Its iteration order is not specified, so a
    loop over it goes through the fields \<open>rangeDb\<close> and \<open>rangePool\<close> of the environment, any
    rearrangement of the entries. \<open>slices.SortFunc\<close> is a field too, any function that sorts.
  \<^item> The database maps a key to a \<^emph>\<open>pointer\<close> to an account state: \<open>GetAccountState\<close> hands the
    pointer out and its receiver writes through it before anything is put back. Pointers are
    addresses of an explicit heap.
  \<^item> The service is one goroutine that takes a request, handles it and then waits until the reply
    is received. Request channels have a buffer of 10, a reply channel has none. \<open>pending\<close> is
    the reply the goroutine waits to deliver, \<open>stateCh\<close> and \<open>txCh\<close> what is buffered.
    \<open>send_state\<close> and \<open>recv_state\<close> are the two ends of the exchange for the one goroutine that
    uses the account side, the executer; the outcome \<open>Blocked\<close> says that it waits for ever.
\<close>

type_synonym addr = nat

subsection \<open>The environment\<close>

record env = lib +
  SortNodes :: "(MerkleNode \<Rightarrow> MerkleNode \<Rightarrow> bool) \<Rightarrow> MerkleNode list \<Rightarrow> MerkleNode list"
  SortTxs :: "(Transaction \<Rightarrow> Transaction \<Rightarrow> bool) \<Rightarrow> Transaction list \<Rightarrow> Transaction list"
  rangeDb :: "(string \<times> addr) list \<Rightarrow> (string \<times> addr) list"
  rangePool :: "(string \<times> Transaction) list \<Rightarrow> (string \<times> Transaction) list"

text \<open>\<open>slices.SortFunc\<close> documents that it sorts when its argument is a strict weak ordering.\<close>

definition strict_weak :: "('a \<Rightarrow> 'a \<Rightarrow> bool) \<Rightarrow> bool" where
  "strict_weak lt \<longleftrightarrow> (\<forall>x. \<not> lt x x) \<and> (\<forall>x y z. lt x y \<longrightarrow> lt y z \<longrightarrow> lt x z)
     \<and> (\<forall>x y z. \<not> lt x y \<longrightarrow> \<not> lt y z \<longrightarrow> \<not> lt x z)"

definition sorts :: "(('a \<Rightarrow> 'a \<Rightarrow> bool) \<Rightarrow> 'a list \<Rightarrow> 'a list) \<Rightarrow> bool" where
  "sorts srt \<longleftrightarrow> (\<forall>lt xs. strict_weak lt \<longrightarrow>
     mset (srt lt xs) = mset xs \<and> sorted_wrt (\<lambda>a b. \<not> lt b a) (srt lt xs))"

definition env_ok :: "'z env_scheme \<Rightarrow> bool" where
  "env_ok E \<longleftrightarrow> hash_ok E \<and> b58_ok E \<and> sorts (SortNodes E) \<and> sorts (SortTxs E)
     \<and> (\<forall>m. mset (rangeDb E m) = mset m) \<and> (\<forall>m. mset (rangePool E m) = mset m)"

subsection \<open>Mempool\<close>

record Mempool = pool :: "(string \<times> Transaction) list"

definition NewMempool :: Mempool where
  "NewMempool = \<lparr>pool = []\<rparr>"

definition Mempool_Len :: "Mempool \<Rightarrow> nat" where
  "Mempool_Len mp = length (pool mp)"

definition Mempool_Append :: "'z lib_scheme \<Rightarrow> Transaction \<Rightarrow> Mempool \<Rightarrow> Mempool" where
  "Mempool_Append E tx mp =
     (let key = b58_Encode E (bytes_of (tx_Hash tx)) in mp\<lparr>pool := AList.update key tx (pool mp)\<rparr>)"

definition lessNonce :: "Transaction \<Rightarrow> Transaction \<Rightarrow> bool" where
  "lessNonce a b \<longleftrightarrow> td_Nonce (tx_InnerData a) < td_Nonce (tx_InnerData b)"

definition Mempool_get :: "'z env_scheme \<Rightarrow> int64 \<Rightarrow> Mempool \<Rightarrow> Transaction list option" where
  "Mempool_get E n mp =
     (if sint n \<le> 0 then None
      else let all = map snd (rangePool E (pool mp)) in
        if sint n > int (length all) then None
        else if n = 1 then Some all
        else Some (take (unat n) (SortTxs E lessNonce all)))"

definition Mempool_GetTxsForBlock :: "'z env_scheme \<Rightarrow> Mempool \<Rightarrow> Transaction list option go" where
  "Mempool_GetTxsForBlock E mp =
     (let txLen = length (pool mp) in
      if txLen = 0 then Ok None
      else if txLen = 1 then Ok (Mempool_get E 1 mp)
      else (case LastPowerOf2 (of_nat txLen) of
          None \<Rightarrow> Blocked
        | Some len \<Rightarrow> Ok (Mempool_get E len mp)))"

definition Mempool_Remove :: "string list \<Rightarrow> Mempool \<Rightarrow> Mempool" where
  "Mempool_Remove keys mp = mp\<lparr>pool := fold AList.delete keys (pool mp)\<rparr>"

definition Mempool_Contains :: "string \<Rightarrow> Mempool \<Rightarrow> bool" where
  "Mempool_Contains key mp \<longleftrightarrow> map_of (pool mp) key \<noteq> None"

subsection \<open>Account database\<close>

record MemoryDb =
  dbMap :: "(string \<times> addr) list"
  heap :: "AccountState list"

definition NewMemoryDb :: MemoryDb where
  "NewMemoryDb = \<lparr>dbMap = [], heap = []\<rparr>"

definition alloc :: "AccountState \<Rightarrow> MemoryDb \<Rightarrow> addr \<times> MemoryDb" where
  "alloc s md = (length (heap md), md\<lparr>heap := heap md @ [s]\<rparr>)"

definition MemoryDb_Put :: "string \<Rightarrow> addr \<Rightarrow> MemoryDb \<Rightarrow> MemoryDb" where
  "MemoryDb_Put key data md = md\<lparr>dbMap := AList.update key data (dbMap md)\<rparr>"

text \<open>A missing key returns a fresh default and \<open>false\<close>.\<close>

definition MemoryDb_Get :: "string \<Rightarrow> MemoryDb \<Rightarrow> (addr \<times> bool) \<times> MemoryDb" where
  "MemoryDb_Get key md = (case map_of (dbMap md) key of
       Some a \<Rightarrow> ((a, True), md)
     | None \<Rightarrow> (case alloc zeroState md of (a, md') \<Rightarrow> ((a, False), md')))"

definition fakeKey :: string where "fakeKey = ''fakekey''"

definition getMerkleNode :: "'z lib_scheme \<Rightarrow> string \<Rightarrow> AccountState \<Rightarrow> MerkleNode" where
  "getMerkleNode E pubKey content =
     MerkleNode None None (Sum256 E (b58_Decode E pubKey @ AccountState_ToBytes content))"

definition lessNode :: "MerkleNode \<Rightarrow> MerkleNode \<Rightarrow> bool" where
  "lessNode a b \<longleftrightarrow> be_value (Data a) < be_value (Data b)"

definition GetMerkleNodes :: "'z env_scheme \<Rightarrow> MemoryDb \<Rightarrow> MerkleNode list go" where
  "GetMerkleNodes E md =
     (case NextPowerOf2 (of_nat (length (dbMap md))) of
        None \<Rightarrow> Blocked
      | Some tot \<Rightarrow>
          let ns = map (\<lambda>(k, a). getMerkleNode E k (heap md ! a)) (rangeDb E (dbMap md)) in
          if length ns > unat tot then Panic ''index out of range''
          else let srt = SortNodes E lessNode ns;
                   fake = getMerkleNode E fakeKey zeroState
               in Ok (srt @ replicate (unat tot - length ns) fake))"

subsection \<open>Requests and the service\<close>

datatype RequestKind = Append | Remove | Get | Put

record MempoolRequest =
  mr_kind :: RequestKind
  mr_Tx :: "Transaction option"
  mr_Keys :: "string list option"

record StateMemRequest =
  sr_kind :: RequestKind
  sr_PublicKey :: slice
  sr_State :: "addr option"
  sr_ResultCh :: nat

text \<open>A reply is a pointer to a \<open>Result\<close>: \<open>None\<close> for \<open>nil\<close>, else its value and its error.\<close>

type_synonym reply = "(addr \<times> string option) option"

record MemoryService =
  mempool :: Mempool
  stateMem :: MemoryDb
  txCh :: "MempoolRequest list"
  stateCh :: "StateMemRequest list"
  pending :: "(nat \<times> reply) option"
  nextCh :: nat

definition chanCap :: nat where "chanCap = 10"

definition NewMemoryService :: MemoryService where
  "NewMemoryService = \<lparr>mempool = NewMempool, stateMem = NewMemoryDb, txCh = [], stateCh = [],
     pending = None, nextCh = 0\<rparr>"

definition MemoryService_handleTx :: "'z lib_scheme \<Rightarrow> MempoolRequest \<Rightarrow> MemoryService \<Rightarrow> MemoryService" where
  "MemoryService_handleTx E req ms = (case mr_kind req of
       Append \<Rightarrow> (case mr_Tx req of None \<Rightarrow> ms
         | Some tx \<Rightarrow> ms\<lparr>mempool := Mempool_Append E tx (mempool ms)\<rparr>)
     | Remove \<Rightarrow> (case mr_Keys req of None \<Rightarrow> ms
         | Some keys \<Rightarrow> ms\<lparr>mempool := Mempool_Remove keys (mempool ms)\<rparr>)
     | _ \<Rightarrow> ms)"

text \<open>The reply to be sent on the channel of the request, and the database after the request.\<close>

definition MemoryService_handleState ::
  "'z lib_scheme \<Rightarrow> StateMemRequest \<Rightarrow> MemoryDb \<Rightarrow> reply \<times> MemoryDb" where
  "MemoryService_handleState E req md = (case sr_kind req of
       Get \<Rightarrow> (case sr_PublicKey req of None \<Rightarrow> (None, md)
         | Some pk \<Rightarrow> (case MemoryDb_Get (b58_Encode E pk) md of ((a, ok), md') \<Rightarrow>
             if ok then (Some (a, None), md')
             else (case alloc zeroState md' of (z, md'') \<Rightarrow> (Some (z, Some ''not found the key''), md''))))
     | Put \<Rightarrow> (case (sr_PublicKey req, sr_State req) of
           (Some pk, Some st) \<Rightarrow> (None, MemoryDb_Put (b58_Encode E pk) st md)
         | _ \<Rightarrow> (None, md))
     | _ \<Rightarrow> (None, md))"

text \<open>
  The loop of the goroutine, as far as it runs without a receiver: while no reply is pending it
  handles the mempool requests and then one account request, whose reply becomes pending.
\<close>

definition MemoryService_run :: "'z lib_scheme \<Rightarrow> MemoryService \<Rightarrow> MemoryService" where
  "MemoryService_run E ms =
     (if pending ms \<noteq> None then ms
      else let ms1 = fold (MemoryService_handleTx E) (txCh ms) (ms\<lparr>txCh := []\<rparr>) in
        (case stateCh ms1 of [] \<Rightarrow> ms1
         | req # reqs \<Rightarrow>
             (case MemoryService_handleState E req (stateMem ms1) of (rep, md) \<Rightarrow>
                ms1\<lparr>stateMem := md, stateCh := reqs, pending := Some (sr_ResultCh req, rep)\<rparr>)))"

definition send_state :: "'z lib_scheme \<Rightarrow> StateMemRequest \<Rightarrow> (MemoryService, unit) comp" where
  "send_state E req ms =
     (if length (stateCh ms) < chanCap
      then (Ok (), MemoryService_run E (ms\<lparr>stateCh := stateCh ms @ [req]\<rparr>))
      else (Blocked, ms))"

definition recv_state :: "'z lib_scheme \<Rightarrow> nat \<Rightarrow> (MemoryService, reply) comp" where
  "recv_state E ch ms = (case pending ms of
       None \<Rightarrow> (Blocked, ms)
     | Some (c, rep) \<Rightarrow>
         if c = ch then (Ok rep, MemoryService_run E (ms\<lparr>pending := None\<rparr>)) else (Blocked, ms))"

definition send_tx :: "'z lib_scheme \<Rightarrow> MempoolRequest \<Rightarrow> (MemoryService, unit) comp" where
  "send_tx E req ms =
     (if length (txCh ms) < chanCap
      then (Ok (), MemoryService_run E (ms\<lparr>txCh := txCh ms @ [req]\<rparr>))
      else (Blocked, ms))"

definition MemoryService_LenTx :: "MemoryService \<Rightarrow> nat" where
  "MemoryService_LenTx ms = Mempool_Len (mempool ms)"

definition MemoryService_ContainsTx :: "'z lib_scheme \<Rightarrow> slice \<Rightarrow> MemoryService \<Rightarrow> bool" where
  "MemoryService_ContainsTx E key ms = Mempool_Contains (b58_Encode E (bytes_of key)) (mempool ms)"

definition MemoryService_AppendTx :: "'z lib_scheme \<Rightarrow> Transaction \<Rightarrow> (MemoryService, unit) comp" where
  "MemoryService_AppendTx E tx = send_tx E \<lparr>mr_kind = Append, mr_Tx = Some tx, mr_Keys = None\<rparr>"

definition MemoryService_RemoveTxs :: "'z lib_scheme \<Rightarrow> string list \<Rightarrow> (MemoryService, unit) comp" where
  "MemoryService_RemoveTxs E keys = send_tx E \<lparr>mr_kind = Remove, mr_Tx = None, mr_Keys = Some keys\<rparr>"

definition MemoryService_GetTxsForBlock ::
  "'z env_scheme \<Rightarrow> MemoryService \<Rightarrow> Transaction list option go" where
  "MemoryService_GetTxsForBlock E ms = Mempool_GetTxsForBlock E (mempool ms)"

definition MemoryService_GetStateHash :: "'z env_scheme \<Rightarrow> MemoryService \<Rightarrow> bytes go" where
  "MemoryService_GetStateHash E ms =
     go_bind (GetMerkleNodes E (stateMem ms)) (\<lambda>nodes.
     go_bind (NewMerkleTreeFromNodes E nodes) (\<lambda>merkleRoot. Ok (Data (RootNode merkleRoot))))"

text \<open>\<open>GetAccountState\<close> and \<open>PutAccountState\<close> send a request and return its reply channel.\<close>

definition MemoryService_GetAccountState :: "'z lib_scheme \<Rightarrow> slice \<Rightarrow> (MemoryService, nat) comp" where
  "MemoryService_GetAccountState E key ms =
     (let resCh = nextCh ms;
          req = \<lparr>sr_kind = Get, sr_PublicKey = key, sr_State = None, sr_ResultCh = resCh\<rparr>
      in st_bind (send_state E req) (\<lambda>_. st_out (Ok resCh)) (ms\<lparr>nextCh := Suc resCh\<rparr>))"

definition MemoryService_PutAccountState ::
  "'z lib_scheme \<Rightarrow> slice \<Rightarrow> addr option \<Rightarrow> (MemoryService, nat) comp" where
  "MemoryService_PutAccountState E key state ms =
     (let resCh = nextCh ms;
          req = \<lparr>sr_kind = Put, sr_PublicKey = key, sr_State = state, sr_ResultCh = resCh\<rparr>
      in st_bind (send_state E req) (\<lambda>_. st_out (Ok resCh)) (ms\<lparr>nextCh := Suc resCh\<rparr>))"

text \<open>A method call through a pointer to an account state: the object in the heap changes.\<close>

definition on_state :: "addr \<Rightarrow> (AccountState \<Rightarrow> bool \<times> AccountState) \<Rightarrow> (MemoryService, bool) comp" where
  "on_state a f ms = (case f (heap (stateMem ms) ! a) of (ok, s) \<Rightarrow>
     (Ok ok, ms\<lparr>stateMem := (stateMem ms)\<lparr>heap := (heap (stateMem ms))[a := s]\<rparr>\<rparr>))"

definition new_state :: "AccountState \<Rightarrow> (MemoryService, addr) comp" where
  "new_state s ms = (case alloc s (stateMem ms) of (a, md) \<Rightarrow> (Ok a, ms\<lparr>stateMem := md\<rparr>))"


subsection \<open>Stores with keys\<close>

text \<open>
  The mempool and the account database offer their clients the same contract: a key has at most
  one value, and putting a value changes the value of its key and nothing else.
\<close>

locale kv_store =
  fixes get :: "'s \<Rightarrow> 'k \<Rightarrow> 'v option"
    and put :: "'k \<Rightarrow> 'v \<Rightarrow> 's \<Rightarrow> 's"
    and remove :: "'k \<Rightarrow> 's \<Rightarrow> 's"
    and inv :: "'s \<Rightarrow> bool"
  assumes get_put: "inv s \<Longrightarrow> get (put k v s) = (get s)(k := Some v)"
    and get_remove: "inv s \<Longrightarrow> get (remove k s) = (get s)(k := None)"
    and inv_put: "inv s \<Longrightarrow> inv (put k v s)"
    and inv_remove: "inv s \<Longrightarrow> inv (remove k s)"
begin

lemma inv_puts: "inv s \<Longrightarrow> inv (fold (\<lambda>(k, v). put k v) kvs s)"
  by (induction kvs arbitrary: s) (auto intro: inv_put)

lemma get_puts: "inv s \<Longrightarrow> get (fold (\<lambda>(k, v). put k v) kvs s) = get s ++ map_of (rev kvs)"
  by (induction kvs arbitrary: s) (auto simp: get_put inv_put map_add_def fun_eq_iff split: option.splits)

lemma inv_removes: "inv s \<Longrightarrow> inv (fold remove ks s)"
  by (induction ks arbitrary: s) (auto intro: inv_remove)

lemma get_removes: "inv s \<Longrightarrow> get (fold remove ks s) = (\<lambda>k. if k \<in> set ks then None else get s k)"
  by (induction ks arbitrary: s) (auto simp: get_remove inv_remove fun_eq_iff)

end

definition pool_wf :: "Mempool \<Rightarrow> bool" where
  "pool_wf mp \<longleftrightarrow> distinct (map fst (pool mp))"

definition pool_get :: "Mempool \<Rightarrow> string \<Rightarrow> Transaction option" where
  "pool_get mp = map_of (pool mp)"

definition pool_put :: "string \<Rightarrow> Transaction \<Rightarrow> Mempool \<Rightarrow> Mempool" where
  "pool_put key tx mp = mp\<lparr>pool := AList.update key tx (pool mp)\<rparr>"

definition pool_delete :: "string \<Rightarrow> Mempool \<Rightarrow> Mempool" where
  "pool_delete key mp = mp\<lparr>pool := AList.delete key (pool mp)\<rparr>"

interpretation mpool: kv_store pool_get pool_put pool_delete pool_wf
  by unfold_locales
    (auto simp: pool_get_def pool_put_def pool_delete_def pool_wf_def update_conv' delete_conv'
      distinct_update distinct_delete)

lemma Append_pool_put:
  "Mempool_Append E tx = pool_put (b58_Encode E (bytes_of (tx_Hash tx))) tx"
  by (simp add: fun_eq_iff Mempool_Append_def pool_put_def Let_def)

lemma Remove_pool_delete: "Mempool_Remove keys = fold pool_delete keys"
proof (rule ext)
  fix mp show "Mempool_Remove keys mp = fold pool_delete keys mp"
  proof (induction keys arbitrary: mp)
    case (Cons k ks)
    then show ?case by (simp flip: Cons.IH) (simp add: Mempool_Remove_def pool_delete_def)
  qed (simp add: Mempool_Remove_def)
qed

lemma Contains_pool_get: "Mempool_Contains key mp \<longleftrightarrow> pool_get mp key \<noteq> None"
  by (simp add: Mempool_Contains_def pool_get_def)

lemma pool_wf_ops [simp]:
  "pool_wf NewMempool"
  "pool_wf mp \<Longrightarrow> pool_wf (Mempool_Append E tx mp)"
  "pool_wf mp \<Longrightarrow> pool_wf (Mempool_Remove keys mp)"
  by (simp_all add: Append_pool_put Remove_pool_delete mpool.inv_put mpool.inv_removes)
    (simp add: pool_wf_def NewMempool_def)

lemma handleTx_wf: "pool_wf (mempool ms) \<Longrightarrow> pool_wf (mempool (MemoryService_handleTx E req ms))"
  by (simp add: MemoryService_handleTx_def split: RequestKind.split option.split)

subsection \<open>The transactions of a block\<close>

lemma strict_weak_key: "strict_weak (\<lambda>a b. f a < (f b :: 'k::linorder))"
  by (auto simp: strict_weak_def)

lemma sorts_key:
  assumes "sorts srt"
  shows "mset (srt (\<lambda>a b. f a < (f b :: 'k::linorder)) xs) = mset xs"
    and "sorted (map f (srt (\<lambda>a b. f a < f b) xs))"
  using assms strict_weak_key [of f] unfolding sorts_def by (auto simp: sorted_map not_less)

lemma env_okD [simp]:
  assumes "env_ok E"
  shows "hash_ok E" "b58_ok E" "sorts (SortNodes E)" "sorts (SortTxs E)"
    "mset (rangeDb E m) = mset m" "mset (rangePool E p) = mset p"
  using assms by (simp_all add: env_ok_def)

lemma lessNonce_key: "lessNonce = (\<lambda>a b. td_Nonce (tx_InnerData a) < td_Nonce (tx_InnerData b))"
  by (simp add: fun_eq_iff lessNonce_def)

lemma Mempool_get_Some:
  assumes "env_ok E" "0 < k" "k \<le> length (pool mp)" "unat n = k" "k < 2 ^ 63" "k = 1 \<longrightarrow> length (pool mp) = 1"
  shows "\<exists>ts. Mempool_get E n mp = Some ts \<and> length ts = k \<and> mset ts \<subseteq># mset (map snd (pool mp))
     \<and> sorted (map (\<lambda>t. td_Nonce (tx_InnerData t)) ts)"
proof -
  let ?all = "map snd (rangePool E (pool mp))"
  have all: "mset ?all = mset (map snd (pool mp))" using env_okD(6) [OF assms(1), of "pool mp"] by simp
  then have len: "length ?all = length (pool mp)" by (metis length_map size_mset)
  have sn: "sint n = int k" using assms(4,5) sint_small [of n] by simp
  show ?thesis
  proof (cases "n = 1")
    case True
    with assms have "k = 1" "length (pool mp) = 1" by auto
    with True sn len all show ?thesis using assms(3) by (cases ?all) (auto simp: Mempool_get_def Let_def)
  next
    case False
    let ?s = "SortTxs E lessNonce ?all"
    have m: "mset ?s = mset ?all" and s: "sorted (map (\<lambda>t. td_Nonce (tx_InnerData t)) ?s)"
      unfolding lessNonce_key
      using sorts_key [OF env_okD(4) [OF assms(1)], of "\<lambda>t. td_Nonce (tx_InnerData t)" ?all] by simp_all
    have "length ?s = length (pool mp)" using m len by (metis size_mset)
    moreover have "mset (take k ?s) \<subseteq># mset ?s"
      by (metis append_take_drop_id mset_append mset_subset_eq_add_left)
    moreover have "sorted (map (\<lambda>t. td_Nonce (tx_InnerData t)) (take k ?s))"
      using s by (simp add: sorted_wrt_take flip: take_map)
    ultimately show ?thesis using False sn len assms(2-4) m all by (auto simp: Mempool_get_def Let_def)
  qed
qed


text \<open>A block takes the largest power of two of the transactions there are, by ascending nonce.\<close>

lemma GetTxsForBlock_cases:
  assumes "env_ok E" "length (pool mp) < 2 ^ 62"
  shows "pool mp = [] \<and> Mempool_GetTxsForBlock E mp = Ok None \<or>
    (\<exists>ts k. Mempool_GetTxsForBlock E mp = Ok (Some ts) \<and> length ts = 2 ^ k
       \<and> 2 ^ k \<le> length (pool mp) \<and> length (pool mp) < 2 ^ Suc k
       \<and> mset ts \<subseteq># mset (map snd (pool mp)) \<and> sorted (map (\<lambda>t. td_Nonce (tx_InnerData t)) ts))"
proof (cases "length (pool mp)")
  case 0
  then show ?thesis by (simp add: Mempool_GetTxsForBlock_def)
next
  case (Suc m)
  show ?thesis
  proof (cases m)
    case 0
    with Suc have one: "length (pool mp) = 1" by simp
    from Mempool_get_Some [OF assms(1), of 1 mp 1] one obtain ts
      where "Mempool_get E 1 mp = Some ts" "length ts = 1" "mset ts \<subseteq># mset (map snd (pool mp))"
        "sorted (map (\<lambda>t. td_Nonce (tx_InnerData t)) ts)" by auto
    with one show ?thesis by (intro disjI2 exI [of _ ts] exI [of _ 0]) (simp add: Mempool_GetTxsForBlock_def)
  next
    case (Suc m')
    with \<open>length (pool mp) = Suc m\<close> have two: "2 \<le> length (pool mp)" by simp
    define n :: int64 where "n = of_nat (length (pool mp))"
    have "length (pool mp) < 2 ^ 64" using assms(2) by (rule less_trans) simp
    then have un: "unat n = length (pool mp)" by (simp add: n_def unat_of_nat)
    obtain k l where l: "LastPowerOf2 n = Some l" "k < 62" "unat l = 2 ^ k" "2 ^ k \<le> length (pool mp)"
        "length (pool mp) < 2 ^ Suc k"
      using LastPowerOf2_correct [of n, unfolded un, OF _ assms(2)] two by fastforce
    have "k \<noteq> 0" using l(5) two by (cases k) auto
    have "(2::nat) ^ k < 2 ^ 63" by (rule power_strict_increasing) (use l(2) in auto)
    with Mempool_get_Some [OF assms(1), of "2 ^ k" mp l] l \<open>k \<noteq> 0\<close> obtain ts
      where "Mempool_get E l mp = Some ts" "length ts = 2 ^ k" "mset ts \<subseteq># mset (map snd (pool mp))"
        "sorted (map (\<lambda>t. td_Nonce (tx_InnerData t)) ts)" by auto
    with l two show ?thesis
      by (intro disjI2 exI [of _ ts] exI [of _ k]) (auto simp: Mempool_GetTxsForBlock_def n_def Let_def)
  qed
qed

subsection \<open>The ledger held in memory\<close>

type_synonym ledger = "string \<rightharpoonup> AccountState"

text \<open>No two keys share a state object, and every pointer is allocated.\<close>

definition mem_wf :: "MemoryDb \<Rightarrow> bool" where
  "mem_wf md \<longleftrightarrow> distinct (map fst (dbMap md)) \<and> distinct (map snd (dbMap md))
     \<and> (\<forall>a \<in> snd ` set (dbMap md). a < length (heap md))"

definition mem_state :: "MemoryDb \<Rightarrow> ledger" where
  "mem_state md k = map_option (\<lambda>a. heap md ! a) (map_of (dbMap md) k)"

definition fresh :: "MemoryDb \<Rightarrow> addr \<Rightarrow> bool" where
  "fresh md a \<longleftrightarrow> a < length (heap md) \<and> a \<notin> snd ` set (dbMap md)"

definition heap_upd :: "addr \<Rightarrow> AccountState \<Rightarrow> MemoryDb \<Rightarrow> MemoryDb" where
  "heap_upd a s md = md\<lparr>heap := (heap md)[a := s]\<rparr>"

lemma heap_upd_simps [simp]:
  "dbMap (heap_upd a s md) = dbMap md" "length (heap (heap_upd a s md)) = length (heap md)"
  "fresh (heap_upd a s md) b = fresh md b" "mem_wf (heap_upd a s md) = mem_wf md"
  by (simp_all add: heap_upd_def fresh_def mem_wf_def)

lemma nth_heap_upd [simp]:
  "heap (heap_upd a s md) ! b = (if a = b \<and> b < length (heap md) then s else heap md ! b)"
  by (cases "a = b"; cases "b < length (heap md)") (simp_all add: heap_upd_def list_update_beyond)

lemma mem_wf_New [simp]: "mem_wf NewMemoryDb" "mem_state NewMemoryDb = Map.empty"
  by (auto simp: mem_wf_def NewMemoryDb_def mem_state_def)

lemma owned_less: "mem_wf md \<Longrightarrow> map_of (dbMap md) k = Some a \<Longrightarrow> a < length (heap md)"
  by (auto simp: mem_wf_def dest!: map_of_SomeD)

lemma owned_inj:
  assumes "mem_wf md" "map_of (dbMap md) k = Some a" "map_of (dbMap md) k' = Some a"
  shows "k = k'"
proof -
  have "inj_on snd (set (dbMap md))" using assms(1) by (simp add: mem_wf_def distinct_map)
  then have "(k, a) = (k', a)" by (rule inj_onD) (use assms(2,3) in \<open>auto dest: map_of_SomeD\<close>)
  then show ?thesis by simp
qed

lemma fresh_not_owned: "fresh md a \<Longrightarrow> map_of (dbMap md) k \<noteq> Some a"
  by (force simp: fresh_def dest!: map_of_SomeD)

lemma mem_state_owned [simp]:
  "map_of (dbMap md) k = Some a \<Longrightarrow> mem_state md k = Some (heap md ! a)"
  "map_of (dbMap md) k = None \<Longrightarrow> mem_state md k = None"
  by (simp_all add: mem_state_def)

text \<open>A write through the pointer of a key changes its state; a write to a fresh object does not.\<close>

lemma mem_state_upd_owned:
  assumes "mem_wf md" "map_of (dbMap md) k = Some a"
  shows "mem_state (heap_upd a s md) = (mem_state md)(k := Some s)"
proof
  fix k'
  show "mem_state (heap_upd a s md) k' = ((mem_state md)(k := Some s)) k'"
  proof (cases "k' = k")
    case True
    with assms(2) owned_less [OF assms] show ?thesis by (simp add: mem_state_def)
  next
    case False
    then have "map_of (dbMap md) k' \<noteq> Some a" using owned_inj [OF assms] by blast
    with False show ?thesis by (cases "map_of (dbMap md) k'") (simp_all add: mem_state_def)
  qed
qed

lemma mem_state_upd_fresh:
  assumes "fresh md a" shows "mem_state (heap_upd a s md) = mem_state md"
proof
  fix k show "mem_state (heap_upd a s md) k = mem_state md k"
    using fresh_not_owned [OF assms, of k] by (cases "map_of (dbMap md) k") (auto simp: mem_state_def)
qed

lemma mem_state_Put: "mem_state (MemoryDb_Put k a md) = (mem_state md)(k := Some (heap md ! a))"
  by (auto simp: mem_state_def MemoryDb_Put_def update_conv' fun_eq_iff)

lemma Put_heap [simp]: "heap (MemoryDb_Put k a md) = heap md"
  by (simp add: MemoryDb_Put_def)

lemma snd_update: "snd ` set (AList.update k a al) \<subseteq> insert a (snd ` set al)"
  by (induction al) auto

lemma distinct_snd_update:
  "distinct (map snd al) \<Longrightarrow> a \<notin> snd ` set al \<or> map_of al k = Some a \<Longrightarrow>
     distinct (map snd (AList.update k a al))"
proof (induction al)
  case (Cons p al)
  obtain k' a' where p: "p = (k', a')" by (cases p)
  show ?case
  proof (cases "k' = k")
    case False
    with Cons p have "distinct (map snd (AList.update k a al))" by auto
    moreover have "a' \<noteq> a" "a' \<notin> snd ` set al"
      using Cons.prems p False by (force dest!: map_of_SomeD)+
    then have "a' \<notin> snd ` set (AList.update k a al)" using snd_update [of k a al] by blast
    ultimately show ?thesis using p False by simp
  qed (use Cons p in \<open>auto simp: image_iff\<close>)
qed simp

lemma mem_wf_Put:
  assumes "mem_wf md" "fresh md a \<or> map_of (dbMap md) k = Some a"
  shows "mem_wf (MemoryDb_Put k a md)"
proof -
  have "a < length (heap md)" using assms owned_less by (auto simp: fresh_def)
  moreover have "distinct (map snd (AList.update k a (dbMap md)))"
    using assms by (intro distinct_snd_update) (auto simp: mem_wf_def fresh_def)
  moreover have "\<forall>b \<in> snd ` set (AList.update k a (dbMap md)). b < length (heap md)"
    using assms(1) snd_update [of k a "dbMap md"] \<open>a < length (heap md)\<close> unfolding mem_wf_def by blast
  ultimately show ?thesis
    using assms(1) by (simp add: mem_wf_def MemoryDb_Put_def distinct_update)
qed

lemma alloc_facts:
  assumes "alloc s md = (a, md')"
  shows "dbMap md' = dbMap md" "heap md' = heap md @ [s]" "heap md' ! a = s" "a = length (heap md)"
    "mem_wf md \<Longrightarrow> fresh md' a" "mem_wf md \<Longrightarrow> mem_wf md'" "mem_wf md \<Longrightarrow> mem_state md' = mem_state md"
proof -
  show eqs: "dbMap md' = dbMap md" "heap md' = heap md @ [s]" "heap md' ! a = s" "a = length (heap md)"
    using assms by (auto simp: alloc_def)
  assume wf: "mem_wf md"
  then show "fresh md' a" "mem_wf md'" using eqs by (auto simp: fresh_def mem_wf_def)
  show "mem_state md' = mem_state md"
  proof
    fix k show "mem_state md' k = mem_state md k"
      using eqs owned_less [OF wf, of k] by (cases "map_of (dbMap md) k") (auto simp: mem_state_def nth_append)
  qed
qed


subsection \<open>One client and the service\<close>

definition idle :: "MemoryService \<Rightarrow> bool" where
  "idle ms \<longleftrightarrow> txCh ms = [] \<and> stateCh ms = [] \<and> pending ms = None"

text \<open>A service without buffered requests, by its database, its pending reply and its counter.\<close>

definition svc :: "MemoryService \<Rightarrow> MemoryDb \<Rightarrow> (nat \<times> reply) option \<Rightarrow> nat \<Rightarrow> MemoryService" where
  "svc ms md p n = ms\<lparr>stateMem := md, txCh := [], stateCh := [], pending := p, nextCh := n\<rparr>"

lemma svc_sel [simp]:
  "stateMem (svc ms md p n) = md" "pending (svc ms md p n) = p" "nextCh (svc ms md p n) = n"
  "mempool (svc ms md p n) = mempool ms" "stateCh (svc ms md p n) = []" "txCh (svc ms md p n) = []"
  "svc (svc ms md p n) md' p' n' = svc ms md' p' n'" "idle (svc ms md p n) \<longleftrightarrow> p = None"
  by (simp_all add: svc_def idle_def)

lemma svc_idle: "idle ms \<Longrightarrow> svc ms (stateMem ms) None (nextCh ms) = ms"
  by (simp add: svc_def idle_def)



definition handle_get :: "'z lib_scheme \<Rightarrow> slice \<Rightarrow> MemoryDb \<Rightarrow> reply \<times> MemoryDb" where
  "handle_get E pk = MemoryService_handleState E
     \<lparr>sr_kind = Get, sr_PublicKey = pk, sr_State = None, sr_ResultCh = 0\<rparr>"

definition handle_put :: "'z lib_scheme \<Rightarrow> slice \<Rightarrow> addr option \<Rightarrow> MemoryDb \<Rightarrow> reply \<times> MemoryDb" where
  "handle_put E pk st = MemoryService_handleState E
     \<lparr>sr_kind = Put, sr_PublicKey = pk, sr_State = st, sr_ResultCh = 0\<rparr>"

lemma handle_requests:
  "MemoryService_handleState E \<lparr>sr_kind = Get, sr_PublicKey = pk, sr_State = None, sr_ResultCh = c\<rparr>
     = handle_get E pk"
  "MemoryService_handleState E \<lparr>sr_kind = Put, sr_PublicKey = pk, sr_State = st, sr_ResultCh = c\<rparr>
     = handle_put E pk st"
  by (simp_all add: fun_eq_iff handle_get_def handle_put_def MemoryService_handleState_def)

text \<open>The same with requests waiting in the buffer of the channel.\<close>

definition svcq :: "MemoryService \<Rightarrow> MemoryDb \<Rightarrow> StateMemRequest list \<Rightarrow> nat \<times> reply \<Rightarrow> nat \<Rightarrow> MemoryService" where
  "svcq ms md q p n = (svc ms md (Some p) n)\<lparr>stateCh := q\<rparr>"

lemma svcq_sel [simp]:
  "stateMem (svcq ms md q p n) = md" "pending (svcq ms md q p n) = Some p" "nextCh (svcq ms md q p n) = n"
  "stateCh (svcq ms md q p n) = q" "svcq ms md [] p n = svc ms md (Some p) n"
  by (simp_all add: svc_def svcq_def)

lemma send_first:
  assumes "MemoryService_handleState E req md = (r, md')"
  shows "send_state E req (svc ms md None n) = (Ok (), svc ms md' (Some (sr_ResultCh req, r)) n)"
  using assms by (cases ms) (simp add: send_state_def chanCap_def MemoryService_run_def svc_def)

lemma send_more:
  "length q < 10 \<Longrightarrow> send_state E req (svcq ms md q p n) = (Ok (), svcq ms md (q @ [req]) p n)"
  "10 \<le> length q \<Longrightarrow> send_state E req (svcq ms md q p n) = (Blocked, svcq ms md q p n)"
  by (cases ms; simp add: send_state_def chanCap_def MemoryService_run_def svc_def svcq_def)+

lemma recv_more:
  assumes "MemoryService_handleState E req md = (r', md')"
  shows "recv_state E c (svcq ms md (req # q) (c, r) n) = (Ok r, svcq ms md' q (sr_ResultCh req, r') n)"
  using assms by (cases ms) (simp add: recv_state_def MemoryService_run_def svc_def svcq_def)

lemma new_state_svcq:
  "new_state s (svcq ms md q p n) = (Ok (length (heap md)), svcq ms (md\<lparr>heap := heap md @ [s]\<rparr>) q p n)"
  by (simp add: new_state_def svcq_def svc_def alloc_def)

lemma get_both:
  assumes "handle_get E from md = (rf, md1)" "handle_get E to md1 = (rt, md2)"
  shows "st_bind (MemoryService_GetAccountState E from) (\<lambda>c1.
           st_bind (MemoryService_GetAccountState E to) (\<lambda>c2.
           st_bind (recv_state E c1) (K c1 c2))) (svc ms md None n)
       = K n (Suc n) rf (svc ms md2 (Some (Suc n, rt)) (Suc (Suc n)))"
  using assms
  by (cases ms) (simp add: MemoryService_GetAccountState_def Let_def send_state_def recv_state_def
      chanCap_def MemoryService_run_def st_bind_def handle_requests svc_def)

lemma recv_last:
  "recv_state E c (svc ms md (Some (c, r)) n) = (Ok r, svc ms md None n)"
  "c \<noteq> d \<Longrightarrow> recv_state E d (svc ms md (Some (c, r)) n) = (Blocked, svc ms md (Some (c, r)) n)"
  by (simp_all add: recv_state_def MemoryService_run_def svc_def)

lemma on_state_svc:
  "on_state a f (svc ms md p n) =
     (Ok (fst (f (heap md ! a))), svc ms (heap_upd a (snd (f (heap md ! a))) md) p n)"
  by (simp add: on_state_def svc_def heap_upd_def split: prod.split)

lemma new_state_svc:
  "new_state s (svc ms md p n) = (Ok (fst (alloc s md)), svc ms (snd (alloc s md)) p n)"
  by (simp add: new_state_def svc_def split: prod.split)

lemma handle_put_Some: "handle_put E (Some pk) (Some a) md = (None, MemoryDb_Put (b58_Encode E pk) a md)"
  by (simp add: handle_put_def MemoryService_handleState_def)

lemma handle_get_None: "handle_get E None md = (None, md)"
  by (simp add: handle_get_def MemoryService_handleState_def)

lemma handle_get_known:
  "map_of (dbMap md) (b58_Encode E pk) = Some a \<Longrightarrow> handle_get E (Some pk) md = (Some (a, None), md)"
  by (simp add: handle_get_def MemoryService_handleState_def MemoryDb_Get_def)

lemma handle_get_unknown:
  assumes "map_of (dbMap md) (b58_Encode E pk) = None" "mem_wf md"
  obtains z md' where "handle_get E (Some pk) md = (Some (z, Some ''not found the key''), md')"
    "dbMap md' = dbMap md" "mem_wf md'" "mem_state md' = mem_state md" "fresh md' z" "heap md' ! z = zeroState"
    "\<forall>a < length (heap md). heap md' ! a = heap md ! a"
proof -
  obtain a md1 where a: "alloc zeroState md = (a, md1)" by (cases "alloc zeroState md")
  obtain z md2 where z: "alloc zeroState md1 = (z, md2)" by (cases "alloc zeroState md1")
  have "handle_get E (Some pk) md = (Some (z, Some ''not found the key''), md2)"
    using assms(1) a z by (simp add: handle_get_def MemoryService_handleState_def MemoryDb_Get_def)
  moreover have "mem_wf md1" "mem_state md1 = mem_state md" "dbMap md1 = dbMap md"
    using alloc_facts [OF a] assms(2) by simp_all
  moreover have "heap md2 = heap md @ [zeroState, zeroState]"
    using alloc_facts(2) [OF a] alloc_facts(2) [OF z] by simp
  ultimately show ?thesis using that [of z md2] alloc_facts [OF z] by (simp add: nth_append)
qed

text \<open>A lookup changes nothing the ledger shows.\<close>

lemma handle_get_state:
  assumes "handle_get E (Some pk) md = (r, md')" "mem_wf md"
  shows "mem_wf md'" "mem_state md' = mem_state md" "dbMap md' = dbMap md"
    "\<forall>a < length (heap md). heap md' ! a = heap md ! a"
proof -
  have "mem_wf md' \<and> mem_state md' = mem_state md \<and> dbMap md' = dbMap md
      \<and> (\<forall>a < length (heap md). heap md' ! a = heap md ! a)"
  proof (cases "map_of (dbMap md) (b58_Encode E pk)")
    case None
    then show ?thesis by (rule handle_get_unknown [OF _ assms(2)]) (use assms(1) in auto)
  next
    case (Some a)
    then show ?thesis using assms handle_get_known [OF Some] by auto
  qed
  then show "mem_wf md'" "mem_state md' = mem_state md" "dbMap md' = dbMap md"
    "\<forall>a < length (heap md). heap md' ! a = heap md ! a" by blast+
qed

lemma put_both:
  "st_bind (MemoryService_PutAccountState E (Some f) (Some a)) (\<lambda>c1.
     st_bind (MemoryService_PutAccountState E (Some t) (Some b)) (\<lambda>c2.
     st_bind (recv_state E c1) (\<lambda>_. st_bind (recv_state E c2) (\<lambda>_. st_out (Ok ()))))) (svc ms md None n)
   = (Ok (), svc ms (MemoryDb_Put (b58_Encode E t) b (MemoryDb_Put (b58_Encode E f) a md)) None (Suc (Suc n)))"
  by (cases ms) (simp add: MemoryService_PutAccountState_def Let_def send_state_def recv_state_def
      chanCap_def MemoryService_run_def st_bind_def handle_requests handle_put_Some svc_def)


subsection \<open>The state hash\<close>

definition account_nodes :: "'z lib_scheme \<Rightarrow> MemoryDb \<Rightarrow> (string \<times> addr) list \<Rightarrow> MerkleNode list" where
  "account_nodes E md = map (\<lambda>(k, a). getMerkleNode E k (heap md ! a))"

lemma lessNode_key: "lessNode = (\<lambda>a b. be_value (Data a) < be_value (Data b))"
  by (simp add: fun_eq_iff lessNode_def)

lemma node_key_inj: "hash_ok E \<Longrightarrow> inj_on (\<lambda>n. be_value (Data n)) (set (account_nodes E md al))"
  by (rule inj_onI)
    (auto simp: account_nodes_def getMerkleNode_def intro!: be_value_inj)

lemma sorted_unique:
  assumes "mset xs = mset ys" "sorted (map f xs)" "sorted (map f ys)" "inj_on f (set xs)"
  shows "xs = ys"
proof -
  have "mset (map f xs) = mset (map f ys)" using assms(1) by simp
  then have "sort (map f ys) = map f xs" using assms(2) by (intro properties_for_sort)
  then have "map f xs = map f ys" using sort_key_id_if_sorted [of "\<lambda>x. x" "map f ys"] assms(3) by simp
  moreover have "set xs = set ys" using assms(1) by (rule mset_eq_setD)
  ultimately show ?thesis using assms(4) by (simp add: inj_on_map_eq_map)
qed

lemma SortNodes_canonical:
  assumes "env_ok E"
  shows "SortNodes E lessNode (account_nodes E md (rangeDb E al))
     = sort_key (\<lambda>n. be_value (Data n)) (account_nodes E md al)"
proof -
  let ?f = "\<lambda>n. be_value (Data n)" and ?ns = "account_nodes E md (rangeDb E al)"
  have m: "mset ?ns = mset (account_nodes E md al)"
    using env_okD(5) [OF assms, of al] by (simp add: account_nodes_def)
  have s: "mset (SortNodes E lessNode ?ns) = mset ?ns" "sorted (map ?f (SortNodes E lessNode ?ns))"
    unfolding lessNode_key using sorts_key [OF env_okD(3) [OF assms], of ?f ?ns] by simp_all
  have "inj_on ?f (set (SortNodes E lessNode ?ns))"
    using node_key_inj [of E md "rangeDb E al"] assms mset_eq_setD [OF s(1)] by simp
  then show ?thesis using m s by (intro sorted_unique [of _ _ ?f]) simp_all
qed

text \<open>The digests of a ledger do not depend on where its states are in the heap.\<close>

lemma ledger_entries:
  assumes "mem_wf md"
  shows "set (map (\<lambda>(k, a). (k, heap md ! a)) (dbMap md)) = {(k, s). mem_state md k = Some s}"
    and "distinct (map (\<lambda>(k, a). (k, heap md ! a)) (dbMap md))"
proof -
  have d: "distinct (map fst (dbMap md))" using assms by (simp add: mem_wf_def)
  then show "set (map (\<lambda>(k, a). (k, heap md ! a)) (dbMap md)) = {(k, s). mem_state md k = Some s}"
    by (force simp: mem_state_def)
  have "distinct (map fst (map (\<lambda>(k, a). (k, heap md ! a)) (dbMap md)))"
    using d by (simp add: comp_def case_prod_unfold)
  then show "distinct (map (\<lambda>(k, a). (k, heap md ! a)) (dbMap md))" unfolding distinct_map by blast
qed

lemma mset_account_nodes:
  "mset (account_nodes E md (dbMap md)) =
     image_mset (\<lambda>(k, s). getMerkleNode E k s) (mset (map (\<lambda>(k, a). (k, heap md ! a)) (dbMap md)))"
  by (simp add: account_nodes_def image_mset.compositionality comp_def case_prod_unfold)

lemma account_nodes_ledger:
  assumes "mem_wf md1" "mem_wf md2" "mem_state md1 = mem_state md2"
    "Sum256 E1 = Sum256 E2" "b58_Decode E1 = b58_Decode E2"
  shows "mset (account_nodes E1 md1 (dbMap md1)) = mset (account_nodes E2 md2 (dbMap md2))"
proof -
  let ?e = "\<lambda>md. map (\<lambda>(k, a). (k, heap md ! a)) (dbMap md)"
  have "mset (?e md1) = mset (?e md2)"
    using ledger_entries [OF assms(1)] ledger_entries [OF assms(2)] assms(3)
    by (intro iffD1 [OF set_eq_iff_mset_eq_distinct]) simp_all
  moreover have "getMerkleNode E1 = getMerkleNode E2" using assms by (simp add: fun_eq_iff getMerkleNode_def)
  ultimately show ?thesis unfolding mset_account_nodes by (simp only:)
qed

lemma card_ledger: "mem_wf md \<Longrightarrow> card (dom (mem_state md)) = length (dbMap md)"
proof -
  assume wf: "mem_wf md"
  have "dom (mem_state md) = dom (map_of (dbMap md))" by (auto simp: mem_state_def)
  then have "dom (mem_state md) = set (map fst (dbMap md))" by (simp add: dom_map_of_conv_image_fst)
  then show ?thesis using wf distinct_card [of "map fst (dbMap md)"] by (simp add: mem_wf_def)
qed


text \<open>
  The hash is the Merkle root of the digests in ascending order, filled up to the next power of
  two with the digest of the fake account.
\<close>

definition state_leaves :: "'z lib_scheme \<Rightarrow> MemoryDb \<Rightarrow> nat \<Rightarrow> bytes list" where
  "state_leaves E md k =
     map Data (sort_key (\<lambda>n. be_value (Data n)) (account_nodes E md (dbMap md)))
     @ replicate (2 ^ k - length (dbMap md)) (Data (getMerkleNode E fakeKey zeroState))"

lemma GetStateHash_root:
  assumes "env_ok E" "length (dbMap (stateMem ms)) \<le> 2 ^ 62"
  obtains k where "length (dbMap (stateMem ms)) \<le> 2 ^ k" "\<forall>j<k. 2 ^ j < length (dbMap (stateMem ms))"
    "MemoryService_GetStateHash E ms = Ok (merkle_root E k (state_leaves E (stateMem ms) k))"
proof -
  let ?md = "stateMem ms"
  define n :: int64 where "n = of_nat (length (dbMap ?md))"
  have "length (dbMap ?md) < 2 ^ 64" using assms(2) by (rule le_less_trans) simp
  then have un: "unat n = length (dbMap ?md)" by (simp add: n_def unat_of_nat)
  obtain k m where k: "NextPowerOf2 n = Some m" "unat m = 2 ^ k" "length (dbMap ?md) \<le> 2 ^ k"
      "\<forall>j<k. 2 ^ j < length (dbMap ?md)"
    using NextPowerOf2_correct [of n, unfolded un, OF assms(2)] by blast
  let ?sorted = "sort_key (\<lambda>n. be_value (Data n)) (account_nodes E ?md (dbMap ?md))"
  let ?nodes = "?sorted @ replicate (2 ^ k - length (dbMap ?md)) (getMerkleNode E fakeKey zeroState)"
  have len: "length (rangeDb E (dbMap ?md)) = length (dbMap ?md)"
    using env_okD(5) [OF assms(1), of "dbMap ?md"] by (metis size_mset)
  have "GetMerkleNodes E ?md = Ok ?nodes"
    using k len SortNodes_canonical [OF assms(1), of ?md "dbMap ?md"]
    by (simp add: GetMerkleNodes_def n_def [symmetric] Let_def account_nodes_def)
  moreover have "length ?nodes = 2 ^ k" using k(3) by (simp add: account_nodes_def)
  then obtain t where "NewMerkleTreeFromNodes E ?nodes = Ok t"
      "Data (RootNode t) = merkle_root E k (map Data ?nodes)"
    using NewMerkleTreeFromNodes_root [of ?nodes k E] by blast
  moreover have "map Data ?nodes = state_leaves E ?md k" by (simp add: state_leaves_def)
  ultimately show ?thesis using that [OF k(3,4)] by (simp add: MemoryService_GetStateHash_def)
qed

lemma length_state_root:
  assumes "env_ok E" "length (dbMap md) \<le> 2 ^ k"
  shows "length (merkle_root E k (state_leaves E md k)) = 32"
  by (rule length_merkle_root)
    (use assms in \<open>auto simp: state_leaves_def account_nodes_def getMerkleNode_def\<close>)

lemma state_leaves_ledger:
  assumes "mem_wf md1" "mem_wf md2" "mem_state md1 = mem_state md2" "hash_ok E1"
    "Sum256 E1 = Sum256 E2" "b58_Decode E1 = b58_Decode E2"
  shows "state_leaves E1 md1 k = state_leaves E2 md2 k"
proof -
  let ?f = "\<lambda>n. be_value (Data n)"
  let ?n1 = "account_nodes E1 md1 (dbMap md1)" and ?n2 = "account_nodes E2 md2 (dbMap md2)"
  have "mset ?n1 = mset ?n2" using assms by (intro account_nodes_ledger)
  then have "sort_key ?f ?n1 = sort_key ?f ?n2"
    using node_key_inj [OF assms(4)] by (intro sorted_unique [of _ _ ?f]) simp_all
  moreover have "length (dbMap md1) = length (dbMap md2)" using card_ledger assms(1-3) by metis
  ultimately show ?thesis using assms(5,6) by (simp add: state_leaves_def getMerkleNode_def)
qed

lemma next_pow2_unique:
  assumes "(n::nat) \<le> 2 ^ k" "\<forall>j<k. 2 ^ j < n" "n \<le> 2 ^ k'" "\<forall>j<k'. 2 ^ j < n" shows "k = k'"
  using assms by (metis linorder_neqE_nat not_le)

text \<open>Two nodes with the same ledger compute the same hash, whatever their maps and heaps look like.\<close>

lemma GetStateHash_ledger:
  assumes "env_ok E1" "env_ok E2" "Sum256 E1 = Sum256 E2" "b58_Decode E1 = b58_Decode E2"
    "mem_wf (stateMem ms1)" "mem_wf (stateMem ms2)" "mem_state (stateMem ms1) = mem_state (stateMem ms2)"
    "card (dom (mem_state (stateMem ms1))) \<le> 2 ^ 62"
  shows "\<exists>h. MemoryService_GetStateHash E1 ms1 = Ok h \<and> MemoryService_GetStateHash E2 ms2 = Ok h"
proof -
  have l: "length (dbMap (stateMem ms2)) = length (dbMap (stateMem ms1))" using card_ledger assms(5-7) by metis
  have b: "length (dbMap (stateMem ms1)) \<le> 2 ^ 62" using assms(5,8) by (simp add: card_ledger)
  obtain k where k: "length (dbMap (stateMem ms1)) \<le> 2 ^ k" "\<forall>j<k. 2 ^ j < length (dbMap (stateMem ms1))"
    "MemoryService_GetStateHash E1 ms1 = Ok (merkle_root E1 k (state_leaves E1 (stateMem ms1) k))"
    using GetStateHash_root [OF assms(1) b] by blast
  obtain k' where k': "length (dbMap (stateMem ms1)) \<le> 2 ^ k'" "\<forall>j<k'. 2 ^ j < length (dbMap (stateMem ms1))"
    "MemoryService_GetStateHash E2 ms2 = Ok (merkle_root E2 k' (state_leaves E2 (stateMem ms2) k'))"
    using GetStateHash_root [OF assms(2), of ms2] b unfolding l by blast
  have "k' = k" using next_pow2_unique k(1,2) k'(1,2) by blast
  with k(3) k'(3) show ?thesis
    using state_leaves_ledger [OF assms(5-7) _ assms(3,4)] merkle_root_cong [OF assms(3)] assms(1) by simp
qed

end
