(* ===== verification/Blocks.thy ===== *)
theory Blocks
  imports Txs
begin

text \<open>
  Package \<open>blocks\<close> (\<open>src/blocks/block.go\<close>): the block, its hash over the Merkle root of the
  transactions, the previous hash and the state hash, its verification, and its \<open>DbContent\<close>
  methods.
\<close>

record BlockInfo =
  bi_Height :: uint64
  bi_Hash :: slice
  bi_Signature :: slice
  bi_PublicKey :: slice
  bi_Timestamp :: int64

record Block =
  bl_Info :: BlockInfo
  bl_Bundle :: TxBundle
  bl_PreviousBlockHash :: slice
  bl_StateHash :: slice

definition NewBlock :: "uint64 \<Rightarrow> slice \<Rightarrow> TxBundle \<Rightarrow> slice \<Rightarrow> slice \<Rightarrow> int64 \<Rightarrow> Block" where
  "NewBlock height pubKey transactions prevHash stateHash now =
     \<lparr>bl_Info = \<lparr>bi_Height = height, bi_Hash = None, bi_Signature = None,
                 bi_PublicKey = pubKey, bi_Timestamp = now\<rparr>,
      bl_Bundle = transactions, bl_PreviousBlockHash = prevHash, bl_StateHash = stateHash\<rparr>"

definition HashBlock :: "'z lib_scheme \<Rightarrow> Block \<Rightarrow> Block go" where
  "HashBlock L b = go_bind (TxBundle_HashTransactions L (bl_Bundle b)) (\<lambda>txHash.
     let add = txHash @ bytes_of (bl_PreviousBlockHash b) @ bytes_of (bl_StateHash b)
     in Ok (b\<lparr>bl_Info := (bl_Info b)\<lparr>bi_Hash := Some (Sum256 L add)\<rparr>\<rparr>))"

definition BlockInfo_Verify :: "'z lib_scheme \<Rightarrow> BlockInfo \<Rightarrow> bool go" where
  "BlockInfo_Verify L bi =
     go_and (Ok (bi_PublicKey bi \<noteq> None \<and> slice_len (bi_PublicKey bi) = PublicKeySize \<and>
       bi_Hash bi \<noteq> None \<and> slice_len (bi_Hash bi) = HashSize \<and>
       bi_Signature bi \<noteq> None \<and> slice_len (bi_Signature bi) > 0 \<and>
       sint (bi_Timestamp bi) > 0))
     (ed25519_Verify L (bi_PublicKey bi) (bi_Hash bi) (bi_Signature bi))"

definition Block_Verify :: "'z lib_scheme \<Rightarrow> Block \<Rightarrow> bool go" where
  "Block_Verify L b =
     go_and (TxBundle_Verify L (bl_Bundle b))
     (go_and (Ok (bl_StateHash b \<noteq> None \<and> slice_len (bl_StateHash b) = HashSize \<and>
        bl_PreviousBlockHash b \<noteq> None \<and> slice_len (bl_PreviousBlockHash b) = HashSize))
     (BlockInfo_Verify L (bl_Info b)))"

subsection \<open>Encoding\<close>

definition BlockInfo_to_json :: "BlockInfo \<Rightarrow> json" where
  "BlockInfo_to_json i = JObj
     [(''Height'', enc_uint (bi_Height i)), (''Hash'', enc_bytes (bi_Hash i)),
      (''Signature'', enc_bytes (bi_Signature i)), (''PublicKey'', enc_bytes (bi_PublicKey i)),
      (''Timestamp'', enc_int64 (bi_Timestamp i))]"

definition zeroBlockInfo :: BlockInfo where
  "zeroBlockInfo = \<lparr>bi_Height = 0, bi_Hash = None, bi_Signature = None, bi_PublicKey = None,
     bi_Timestamp = 0\<rparr>"

definition BlockInfo_fields :: "BlockInfo fields" where
  "BlockInfo_fields =
     [(''Height'', \<lambda>j i. map_option (\<lambda>x. i\<lparr>bi_Height := x\<rparr>) (dec_uint j (bi_Height i))),
      (''Hash'', \<lambda>j i. map_option (\<lambda>x. i\<lparr>bi_Hash := x\<rparr>) (dec_bytes j (bi_Hash i))),
      (''Signature'', \<lambda>j i. map_option (\<lambda>x. i\<lparr>bi_Signature := x\<rparr>) (dec_bytes j (bi_Signature i))),
      (''PublicKey'', \<lambda>j i. map_option (\<lambda>x. i\<lparr>bi_PublicKey := x\<rparr>) (dec_bytes j (bi_PublicKey i))),
      (''Timestamp'', \<lambda>j i. map_option (\<lambda>x. i\<lparr>bi_Timestamp := x\<rparr>) (dec_int64 j (bi_Timestamp i)))]"

definition Block_to_json :: "Block \<Rightarrow> json" where
  "Block_to_json b = JObj
     [(''Info'', BlockInfo_to_json (bl_Info b)), (''Bundle'', TxBundle_to_json (bl_Bundle b)),
      (''PreviousBlockHash'', enc_bytes (bl_PreviousBlockHash b)),
      (''StateHash'', enc_bytes (bl_StateHash b))]"

definition zeroBlock :: Block where
  "zeroBlock = \<lparr>bl_Info = zeroBlockInfo, bl_Bundle = \<lparr>Transactions = None\<rparr>,
     bl_PreviousBlockHash = None, bl_StateHash = None\<rparr>"

definition Block_fields :: "Block fields" where
  "Block_fields =
     [(''Info'', \<lambda>j b. map_option (\<lambda>x. b\<lparr>bl_Info := x\<rparr>) (dec_struct BlockInfo_fields j (bl_Info b))),
      (''Bundle'', \<lambda>j b. map_option (\<lambda>x. b\<lparr>bl_Bundle := x\<rparr>) (dec_struct TxBundle_fields j (bl_Bundle b))),
      (''PreviousBlockHash'', \<lambda>j b. map_option (\<lambda>x. b\<lparr>bl_PreviousBlockHash := x\<rparr>)
         (dec_bytes j (bl_PreviousBlockHash b))),
      (''StateHash'', \<lambda>j b. map_option (\<lambda>x. b\<lparr>bl_StateHash := x\<rparr>) (dec_bytes j (bl_StateHash b)))]"

definition Block_ToBytes :: "Block \<Rightarrow> bytes" where
  "Block_ToBytes b = Marshal Block_to_json b"

definition Block_Unmarshal :: "bytes \<Rightarrow> Block go" where
  "Block_Unmarshal raw = Unmarshal (dec_struct Block_fields) zeroBlock raw"

definition Block_GetKey :: "Block \<Rightarrow> slice" where
  "Block_GetKey b = bi_Hash (bl_Info b)"

definition Block_GetIndex :: "Block \<Rightarrow> bytes" where
  "Block_GetIndex b = ToHex (bi_Height (bl_Info b))"

subsection \<open>Lemmas\<close>

lemma block_names [simp]: "good_str ''Height''" "good_str ''Info''" "good_str ''Bundle''"
  "good_str ''PreviousBlockHash''" "good_str ''StateHash''"
  by (rule good_str_plain, simp add: plain_def)+

lemma info_decode_any: "dec_struct BlockInfo_fields (BlockInfo_to_json i) old = Some i"
  by (simp add: BlockInfo_to_json_def BlockInfo_fields_def find_field_def)

interpretation block_codec: codec Block_to_json "dec_struct Block_fields" zeroBlock "\<lambda>_. True"
proof
  fix b :: Block
  show "good_json (Block_to_json b)"
    by (simp add: Block_to_json_def BlockInfo_to_json_def good_TxBundle)
  have "dec_struct TxBundle_fields (TxBundle_to_json (bl_Bundle b)) (bl_Bundle zeroBlock) = Some (bl_Bundle b)"
    by (simp add: zeroBlock_def decode_TxBundle)
  then show "dec_struct Block_fields (Block_to_json b) zeroBlock = Some b"
    by (simp add: Block_to_json_def Block_fields_def find_field_def
        info_decode_any)
qed

lemma Block_roundtrip [simp]: "Block_Unmarshal (Block_ToBytes b) = Ok b"
  by (simp add: Block_Unmarshal_def Block_ToBytes_def block_codec.roundtrip)

lemma TxBundle_Verify_total: "\<exists>b. TxBundle_Verify L txb = Ok b"
  using verifyAll_total by (auto simp: TxBundle_Verify_def split: option.splits)

text \<open>Verification never panics: the length of the key is checked before it is used.\<close>

lemma Block_Verify_total: "\<exists>ok. Block_Verify L b = Ok ok"
proof -
  obtain v where "TxBundle_Verify L (bl_Bundle b) = Ok v" using TxBundle_Verify_total by blast
  then show ?thesis
    by (cases v) (auto simp: Block_Verify_def BlockInfo_Verify_def ed25519_Verify_def PublicKeySize_def go_and_def)
qed

end
