(* ===== verification/Storage.thy ===== *)
theory Storage
  imports Memory Blocks
begin

text \<open>
  Package \<open>storage\<close>: the database of blocks and accounts (\<open>src/storage/storage_db.go\<close>) and the
  service in front of it (\<open>src/storage/storage_service.go\<close>). The engine is bbolt, a package
  outside the repository: a bucket is a value of a type \<open>'d\<close> with the operations \<open>bk_Get\<close>,
  \<open>bk_Put\<close> and \<open>bk_pairs\<close> (the cursor), fields of the environment, and \<open>tx_Commit\<close> is the error
  of committing a transaction, if any. \<open>bolt_ok\<close> states what bbolt documents of them.

  A \<open>StorageService.Get\<close> or \<open>Put\<close> request is always followed by the read of its reply, so the
  exchange is a call. \<open>FetchAllAccounts\<close>, \<open>FetchAccounts\<close> and \<open>PushAccounts\<close> talk to the memory
  service over its channels, request by request, as the code does.
\<close>

record 'd senv = env +
  bk_empty :: 'd
  bk_Get :: "'d \<Rightarrow> bytes \<Rightarrow> slice"
  bk_Put :: "'d \<Rightarrow> bytes \<Rightarrow> bytes \<Rightarrow> 'd go"
  bk_pairs :: "'d \<Rightarrow> (bytes \<times> bytes) list"
  tx_Commit :: "'d \<Rightarrow> string option"

definition bolt_ok :: "('d, 'z) senv_scheme \<Rightarrow> bool" where
  "bolt_ok E \<longleftrightarrow> (\<forall>k. bk_Get E (bk_empty E) k = None)
     \<and> (\<forall>d. bk_Get E d [] = None)
     \<and> (\<forall>d k v. k \<noteq> [] \<longrightarrow> length k \<le> 32768 \<longrightarrow> length v \<le> 2147483646 \<longrightarrow>
          (\<exists>d'. bk_Put E d k v = Ok d' \<and> bk_Get E d' = (bk_Get E d)(k := Some v)))
     \<and> (\<forall>d. distinct (map fst (bk_pairs E d)) \<and> map_of (bk_pairs E d) = bk_Get E d)
     \<and> (\<forall>d. tx_Commit E d = None)"

text \<open>A value that is too large is refused, which bbolt documents too; only the safety of the synchronisation relies on it.\<close>

definition bolt_refuses :: "('d, 'z) senv_scheme \<Rightarrow> bool" where
  "bolt_refuses E \<longleftrightarrow> (\<forall>d k v. 2147483646 < length v \<longrightarrow> (\<exists>e. bk_Put E d k v = Err e))"

subsection \<open>The database\<close>

datatype DbContent = BlockContent Block | AccountContent Account

primrec DbContent_ToBytes :: "DbContent \<Rightarrow> bytes" where
  "DbContent_ToBytes (BlockContent b) = Block_ToBytes b"
| "DbContent_ToBytes (AccountContent a) = Account_ToBytes a"

primrec DbContent_GetKey :: "DbContent \<Rightarrow> slice" where
  "DbContent_GetKey (BlockContent b) = Block_GetKey b"
| "DbContent_GetKey (AccountContent a) = Account_GetKey a"

primrec DbContent_GetIndex :: "DbContent \<Rightarrow> bytes" where
  "DbContent_GetIndex (BlockContent b) = Block_GetIndex b"
| "DbContent_GetIndex (AccountContent a) = Account_GetIndex a"

definition latestKey :: bytes where "latestKey = ''latest''"
definition latestIndex :: bytes where "latestIndex = ''latestIdx''"

record 'd StorageDb = innerDb :: "(bytes \<times> 'd) list"

text \<open>\<open>tx.Bucket\<close> is \<open>nil\<close> for a missing bucket, and its use panics.\<close>

definition db_View :: "bytes \<Rightarrow> 'd StorageDb \<Rightarrow> ('d \<Rightarrow> 'a go) \<Rightarrow> 'a go" where
  "db_View bucket db f = (case map_of (innerDb db) bucket of
       None \<Rightarrow> Panic ''nil bucket'' | Some b \<Rightarrow> f b)"

text \<open>An error rolls the transaction back, success commits it.\<close>

definition db_Update ::
  "('d, 'z) senv_scheme \<Rightarrow> bytes \<Rightarrow> ('d \<Rightarrow> 'd go) \<Rightarrow> ('d StorageDb, unit) comp" where
  "db_Update E bucket f db = (case db_View bucket db f of
       Ok b' \<Rightarrow> (case tx_Commit E b' of
           None \<Rightarrow> (Ok (), db\<lparr>innerDb := AList.update bucket b' (innerDb db)\<rparr>)
         | Some e \<Rightarrow> (Err e, db))
     | Err e \<Rightarrow> (Err e, db) | Panic p \<Rightarrow> (Panic p, db) | Blocked \<Rightarrow> (Blocked, db))"

definition makeBucket :: "('d, 'z) senv_scheme \<Rightarrow> bytes \<Rightarrow> 'd StorageDb \<Rightarrow> 'd StorageDb" where
  "makeBucket E name db =
     (if map_of (innerDb db) name \<noteq> None \<or> name = [] then db
      else (case tx_Commit E (bk_empty E) of
          None \<Rightarrow> db\<lparr>innerDb := AList.update name (bk_empty E) (innerDb db)\<rparr>
        | Some e \<Rightarrow> db))"

text \<open>\<open>bolt.Open\<close> fails with \<open>openErr\<close>, or gives the content of the file (\<open>None\<close>: no file).\<close>

definition NewStorageDb ::
  "('d, 'z) senv_scheme \<Rightarrow> string option \<Rightarrow> 'd StorageDb option \<Rightarrow> bytes list \<Rightarrow> 'd StorageDb go" where
  "NewStorageDb E openErr file buckets = (case openErr of
       Some e \<Rightarrow> Err e
     | None \<Rightarrow> (case file of
         Some db \<Rightarrow> Ok db
       | None \<Rightarrow> Ok (fold (makeBucket E) buckets \<lparr>innerDb = []\<rparr>)))"

definition StorageDb_Put ::
  "('d, 'z) senv_scheme \<Rightarrow> bytes \<Rightarrow> DbContent \<Rightarrow> ('d StorageDb, unit) comp" where
  "StorageDb_Put E bucket content = db_Update E bucket (\<lambda>b.
     let enc = DbContent_ToBytes content;
         key = bytes_of (DbContent_GetKey content);
         idx = DbContent_GetIndex content in
     go_bind (bk_Put E b key enc) (\<lambda>b.
     go_bind (bk_Put E b idx key) (\<lambda>b.
     go_bind (bk_Put E b latestKey key) (\<lambda>b. bk_Put E b latestIndex idx))))"

definition StorageDb_GetByKey :: "('d, 'z) senv_scheme \<Rightarrow> bytes \<Rightarrow> slice \<Rightarrow> 'd StorageDb \<Rightarrow> slice go" where
  "StorageDb_GetByKey E bucket key db = db_View bucket db (\<lambda>b. Ok (bk_Get E b (bytes_of key)))"

definition StorageDb_GetByIndex :: "('d, 'z) senv_scheme \<Rightarrow> bytes \<Rightarrow> slice \<Rightarrow> 'd StorageDb \<Rightarrow> slice go" where
  "StorageDb_GetByIndex E bucket index db = db_View bucket db (\<lambda>b.
     let key = bk_Get E b (bytes_of index) in Ok (bk_Get E b (bytes_of key)))"

definition StorageDb_GetLatestKey :: "('d, 'z) senv_scheme \<Rightarrow> bytes \<Rightarrow> 'd StorageDb \<Rightarrow> slice go" where
  "StorageDb_GetLatestKey E bucket db = db_View bucket db (\<lambda>b. Ok (bk_Get E b latestKey))"

definition StorageDb_GetLatestIndex :: "('d, 'z) senv_scheme \<Rightarrow> bytes \<Rightarrow> 'd StorageDb \<Rightarrow> slice go" where
  "StorageDb_GetLatestIndex E bucket db = db_View bucket db (\<lambda>b. Ok (bk_Get E b latestIndex))"

definition StorageDb_GetLatest :: "('d, 'z) senv_scheme \<Rightarrow> bytes \<Rightarrow> 'd StorageDb \<Rightarrow> slice go" where
  "StorageDb_GetLatest E bucket db = db_View bucket db (\<lambda>b.
     let key = bk_Get E b latestKey in Ok (bk_Get E b (bytes_of key)))"

subsection \<open>The service\<close>

datatype ReferenceKind = RefKey | RefIndex | RefLatest | RefLatestKey | RefLatestIndex
datatype BucketKind = BlocksBucket | AccountsBucket

definition blocksBucket :: bytes where "blocksBucket = ''blocks''"
definition accountsBucket :: bytes where "accountsBucket = ''accounts''"

primrec bucketName :: "BucketKind \<Rightarrow> bytes" where
  "bucketName BlocksBucket = blocksBucket"
| "bucketName AccountsBucket = accountsBucket"

definition NewStorageService ::
  "('d, 'z) senv_scheme \<Rightarrow> string option \<Rightarrow> 'd StorageDb option \<Rightarrow> 'd StorageDb go" where
  "NewStorageService E openErr file = NewStorageDb E openErr file [blocksBucket, accountsBucket]"

definition StorageService_put ::
  "('d, 'z) senv_scheme \<Rightarrow> BucketKind \<Rightarrow> DbContent option \<Rightarrow> ('d StorageDb, unit) comp" where
  "StorageService_put E bucket content = (case content of
       None \<Rightarrow> st_out (Ok ())
     | Some c \<Rightarrow> StorageDb_Put E (bucketName bucket) c)"

definition StorageService_get ::
  "('d, 'z) senv_scheme \<Rightarrow> BucketKind \<Rightarrow> ReferenceKind \<Rightarrow> slice \<Rightarrow> 'd StorageDb \<Rightarrow> slice go" where
  "StorageService_get E bucket refKind ref db =
     (if (refKind = RefKey \<or> refKind = RefIndex) \<and> ref = None then Ok None
      else let b = bucketName bucket in
        (case refKind of
           RefKey \<Rightarrow> StorageDb_GetByKey E b ref db
         | RefIndex \<Rightarrow> StorageDb_GetByIndex E b ref db
         | RefLatest \<Rightarrow> StorageDb_GetLatest E b db
         | RefLatestKey \<Rightarrow> StorageDb_GetLatestKey E b db
         | RefLatestIndex \<Rightarrow> StorageDb_GetLatestIndex E b db))"

text \<open>
  Requests go over a channel to the goroutine \<open>run\<close>, which handles one at a time and answers on the
  unbuffered channel of the request. Every caller receives at once, so a request and its answer are
  one call; the answer \<open>Result\<close> is its outcome.
\<close>

datatype StorageRequestKind = StorageGet | StoragePut

record StorageRequest =
  rq_kind :: StorageRequestKind
  rq_bucket :: BucketKind
  rq_Content :: "DbContent option"
  rq_refKind :: ReferenceKind
  rq_Reference :: slice

definition StorageService_run :: "('d, 'z) senv_scheme \<Rightarrow> StorageRequest \<Rightarrow> ('d StorageDb, slice) comp" where
  "StorageService_run E req db = (case rq_kind req of
       StoragePut \<Rightarrow> st_bind (StorageService_put E (rq_bucket req) (rq_Content req)) (\<lambda>_. st_out (Ok None)) db
     | StorageGet \<Rightarrow> (StorageService_get E (rq_bucket req) (rq_refKind req) (rq_Reference req) db, db))"

definition StorageService_Get ::
  "('d, 'z) senv_scheme \<Rightarrow> BucketKind \<Rightarrow> ReferenceKind \<Rightarrow> slice \<Rightarrow> ('d StorageDb, slice) comp" where
  "StorageService_Get E bucket refKind ref = StorageService_run E
     \<lparr>rq_kind = StorageGet, rq_bucket = bucket, rq_Content = None, rq_refKind = refKind, rq_Reference = ref\<rparr>"

definition StorageService_Put ::
  "('d, 'z) senv_scheme \<Rightarrow> BucketKind \<Rightarrow> DbContent option \<Rightarrow> ('d StorageDb, slice) comp" where
  "StorageService_Put E bucket content = StorageService_run E
     \<lparr>rq_kind = StoragePut, rq_bucket = bucket, rq_Content = content, rq_refKind = RefKey, rq_Reference = None\<rparr>"

text \<open>The node's two stores: memory and database.\<close>

record 'd world =
  w_mem :: MemoryService
  w_db :: "'d StorageDb"

definition on_mem :: "(MemoryService, 'a) comp \<Rightarrow> ('d world, 'a) comp" where
  "on_mem m w = (case m (w_mem w) of (r, ms) \<Rightarrow> (r, w\<lparr>w_mem := ms\<rparr>))"

definition on_db :: "('d StorageDb, 'a) comp \<Rightarrow> ('d world, 'a) comp" where
  "on_db m w = (case m (w_db w) of (r, db) \<Rightarrow> (r, w\<lparr>w_db := db\<rparr>))"

text \<open>Reading a list of reply channels, in order.\<close>

fun recv_all :: "'z lib_scheme \<Rightarrow> nat list \<Rightarrow> (MemoryService, unit) comp" where
  "recv_all E [] = st_out (Ok ())"
| "recv_all E (ch # chs) = st_bind (recv_state E ch) (\<lambda>_. recv_all E chs)"

fun fetchAll_loop :: "'z lib_scheme \<Rightarrow> (bytes \<times> bytes) list \<Rightarrow> (MemoryService, nat list) comp" where
  "fetchAll_loop E [] = st_out (Ok [])"
| "fetchAll_loop E ((k, v) # kvs) =
     (if length k = PublicKeySize then
        st_bind (st_out (AccountState_Unmarshal v)) (\<lambda>state.
        st_bind (new_state state) (\<lambda>a.
        st_bind (MemoryService_PutAccountState E (Some k) (Some a)) (\<lambda>ch.
        st_bind (fetchAll_loop E kvs) (\<lambda>chs. st_out (Ok (ch # chs))))))
      else fetchAll_loop E kvs)"

definition FetchAllAccounts :: "('d, 'z) senv_scheme \<Rightarrow> ('d world, unit) comp" where
  "FetchAllAccounts E w =
     st_bind (st_out (db_View accountsBucket (w_db w) (\<lambda>b. Ok (bk_pairs E b)))) (\<lambda>kvs.
     st_bind (on_mem (fetchAll_loop E kvs)) (\<lambda>chs. on_mem (recv_all E chs))) w"

text \<open>The state a bucket holds for a key: the zero state when there is none.\<close>

definition stored_state :: "('d, 'z) senv_scheme \<Rightarrow> 'd \<Rightarrow> slice \<Rightarrow> AccountState go" where
  "stored_state E b pk = (case bk_Get E b (bytes_of pk) of
       None \<Rightarrow> Ok zeroState | Some raw \<Rightarrow> AccountState_Unmarshal raw)"

fun fetch_loop :: "('d, 'z) senv_scheme \<Rightarrow> 'd \<Rightarrow> slice list \<Rightarrow> (MemoryService, nat list) comp" where
  "fetch_loop E b [] = st_out (Ok [])"
| "fetch_loop E b (pk # pks) =
     st_bind (st_out (stored_state E b pk)) (\<lambda>state.
     st_bind (new_state state) (\<lambda>a.
     st_bind (MemoryService_PutAccountState E pk (Some a)) (\<lambda>ch.
     st_bind (fetch_loop E b pks) (\<lambda>chs. st_out (Ok (ch # chs))))))"

text \<open>The requests are sent inside a read-write transaction that writes nothing.\<close>

definition FetchAccounts :: "('d, 'z) senv_scheme \<Rightarrow> slice list \<Rightarrow> ('d world, unit) comp" where
  "FetchAccounts E pubKeys w =
     st_bind (st_out (db_View accountsBucket (w_db w) Ok)) (\<lambda>b.
     st_bind (on_mem (fetch_loop E b pubKeys)) (\<lambda>chs.
     st_bind (on_db (db_Update E accountsBucket Ok)) (\<lambda>_. on_mem (recv_all E chs)))) w"

fun push_requests :: "'z lib_scheme \<Rightarrow> slice list \<Rightarrow> (MemoryService, nat list) comp" where
  "push_requests E [] = st_out (Ok [])"
| "push_requests E (pk # pks) =
     st_bind (MemoryService_GetAccountState E pk) (\<lambda>ch.
     st_bind (push_requests E pks) (\<lambda>chs. st_out (Ok (ch # chs))))"

text \<open>The body of the transaction: receive, encode, put; the bucket is the second component.\<close>

fun push_loop :: "('d, 'z) senv_scheme \<Rightarrow> (slice \<times> nat) list \<Rightarrow> (MemoryService \<times> 'd, unit) comp" where
  "push_loop E [] s = (Ok (), s)"
| "push_loop E ((pk, ch) # rest) (ms, b) = (case recv_state E ch ms of
       (Ok None, ms') \<Rightarrow> (Panic ''nil pointer dereference'', (ms', b))
     | (Ok (Some (a, Some e)), ms') \<Rightarrow> (Err e, (ms', b))
     | (Ok (Some (a, None)), ms') \<Rightarrow>
         (case bk_Put E b (bytes_of pk) (AccountState_ToBytes (heap (stateMem ms') ! a)) of
            Ok b' \<Rightarrow> push_loop E rest (ms', b')
          | Err e \<Rightarrow> (Err e, (ms', b)) | Panic p \<Rightarrow> (Panic p, (ms', b)) | Blocked \<Rightarrow> (Blocked, (ms', b)))
     | (Err e, ms') \<Rightarrow> (Err e, (ms', b)) | (Panic p, ms') \<Rightarrow> (Panic p, (ms', b))
     | (Blocked, ms') \<Rightarrow> (Blocked, (ms', b)))"

definition PushAccounts :: "('d, 'z) senv_scheme \<Rightarrow> slice list \<Rightarrow> ('d world, unit) comp" where
  "PushAccounts E pubKeys =
     st_bind (on_mem (push_requests E pubKeys)) (\<lambda>chs w.
       (case map_of (innerDb (w_db w)) accountsBucket of
          None \<Rightarrow> (Panic ''nil bucket'', w)
        | Some b \<Rightarrow> (case push_loop E (zip pubKeys chs) (w_mem w, b) of
              (Ok _, (ms, b')) \<Rightarrow> on_db (db_Update E accountsBucket (\<lambda>_. Ok b')) (w\<lparr>w_mem := ms\<rparr>)
            | (Err e, (ms, b')) \<Rightarrow> (Err e, w\<lparr>w_mem := ms\<rparr>)
            | (Panic p, (ms, b')) \<Rightarrow> (Panic p, w\<lparr>w_mem := ms\<rparr>)
            | (Blocked, (ms, b')) \<Rightarrow> (Blocked, w\<lparr>w_mem := ms\<rparr>))))"


subsection \<open>Buckets\<close>

definition bucket_ok :: "bytes \<Rightarrow> 'd StorageDb \<Rightarrow> bool" where
  "bucket_ok name db \<longleftrightarrow> map_of (innerDb db) name \<noteq> None"

definition bucket_get :: "('d, 'z) senv_scheme \<Rightarrow> bytes \<Rightarrow> 'd StorageDb \<Rightarrow> bytes \<Rightarrow> slice" where
  "bucket_get E name db k = (case map_of (innerDb db) name of None \<Rightarrow> None | Some b \<Rightarrow> bk_Get E b k)"

lemma bolt_okD:
  assumes "bolt_ok E"
  shows "bk_Get E (bk_empty E) k = None" "bk_Get E d [] = None" "tx_Commit E d = None"
    "distinct (map fst (bk_pairs E d))" "map_of (bk_pairs E d) = bk_Get E d"
    "k \<noteq> [] \<Longrightarrow> length k \<le> 32768 \<Longrightarrow> length v \<le> 2147483646 \<Longrightarrow>
      \<exists>d'. bk_Put E d k v = Ok d' \<and> bk_Get E d' = (bk_Get E d)(k := Some v)"
  using assms unfolding bolt_ok_def by blast+

lemma AList_update_same: "map_of al k = Some v \<Longrightarrow> AList.update k v al = al"
  by (induction al) (auto split: if_splits)

lemma db_View_bucket:
  "bucket_ok name db \<Longrightarrow> \<exists>b. map_of (innerDb db) name = Some b \<and> db_View name db f = f b
     \<and> bucket_get E name db = bk_Get E b"
  by (auto simp: bucket_ok_def db_View_def bucket_get_def fun_eq_iff)

lemma StorageDb_gets:
  assumes "bucket_ok name db"
  shows "StorageDb_GetByKey E name key db = Ok (bucket_get E name db (bytes_of key))"
    "StorageDb_GetByIndex E name key db
       = Ok (bucket_get E name db (bytes_of (bucket_get E name db (bytes_of key))))"
    "StorageDb_GetLatestKey E name db = Ok (bucket_get E name db latestKey)"
    "StorageDb_GetLatestIndex E name db = Ok (bucket_get E name db latestIndex)"
    "StorageDb_GetLatest E name db
       = Ok (bucket_get E name db (bytes_of (bucket_get E name db latestKey)))"
  using assms
  by (auto simp: bucket_ok_def bucket_get_def db_View_def StorageDb_GetByKey_def StorageDb_GetByIndex_def
      StorageDb_GetLatestKey_def StorageDb_GetLatestIndex_def StorageDb_GetLatest_def Let_def)

text \<open>An update that fails leaves the database as it was.\<close>

lemma db_Update_rollback: "db_Update E name f db = (r, db') \<Longrightarrow> r \<noteq> Ok () \<Longrightarrow> db' = db"
  by (auto simp: db_Update_def split: go.splits option.splits)

lemma db_Update_commit:
  assumes "bolt_ok E" "map_of (innerDb db) name = Some b" "f b = Ok b'"
  shows "db_Update E name f db = (Ok (), db\<lparr>innerDb := AList.update name b' (innerDb db)\<rparr>)"
  using assms by (simp add: db_Update_def db_View_def bolt_okD(3))

lemma bucket_update:
  "bucket_get E name' (db\<lparr>innerDb := AList.update name b' (innerDb db)\<rparr>)
     = (if name' = name then bk_Get E b' else bucket_get E name' db)"
  "bucket_ok name' (db\<lparr>innerDb := AList.update name b' (innerDb db)\<rparr>) \<longleftrightarrow> name' = name \<or> bucket_ok name' db"
  by (auto simp: bucket_get_def bucket_ok_def update_conv' fun_eq_iff)

subsection \<open>What can be stored\<close>

text \<open>
  The contract between the database and its contents: keys and indices have lengths that keep them
  apart from each other and from the names of the latest entry, and the encoding can be read back.
\<close>

locale db_content =
  fixes wrap :: "'c \<Rightarrow> DbContent"
    and decode :: "bytes \<Rightarrow> 'v go"
    and view :: "'c \<Rightarrow> 'v"
    and valid :: "'c \<Rightarrow> bool"
  assumes key_size: "valid c \<Longrightarrow> slice_len (DbContent_GetKey (wrap c)) = 32"
    and index_size: "length (DbContent_GetIndex (wrap c)) = 8"
    and size: "valid c \<Longrightarrow> length (DbContent_ToBytes (wrap c)) \<le> 2147483646"
    and decode: "valid c \<Longrightarrow> decode (DbContent_ToBytes (wrap c)) = Ok (view c)"
begin

abbreviation key where "key c \<equiv> bytes_of (DbContent_GetKey (wrap c))"
abbreviation index where "index c \<equiv> DbContent_GetIndex (wrap c)"

lemma sizes:
  assumes "valid c"
  shows "length (key c) = 32" "key c \<noteq> []" "index c \<noteq> []" "index c \<noteq> key c" "latestKey \<noteq> key c"
    "latestIndex \<noteq> key c" "latestKey \<noteq> index c" "latestIndex \<noteq> index c" "latestKey \<noteq> latestIndex"
proof -
  show k: "length (key c) = 32" using key_size [OF assms] by (simp add: slice_len_def)
  have i: "length (index c) = 8" by (rule index_size)
  have l: "length latestKey = 6" "length latestIndex = 9" by (simp_all add: latestKey_def latestIndex_def)
  show "key c \<noteq> []" "index c \<noteq> []" using k i by auto
  show "index c \<noteq> key c" "latestKey \<noteq> key c" "latestIndex \<noteq> key c" "latestKey \<noteq> index c"
      "latestIndex \<noteq> index c"
    by (rule length_neq, simp add: k i l)+
  show "latestKey \<noteq> latestIndex" by (simp add: latestKey_def latestIndex_def)
qed

lemma put:
  assumes "bolt_ok E" "bucket_ok name db" "valid c"
  obtains db' where "StorageDb_Put E name (wrap c) db = (Ok (), db')"
    "bucket_get E name db' = (bucket_get E name db)(key c := Some (DbContent_ToBytes (wrap c)),
       index c := Some (key c), latestKey := Some (key c), latestIndex := Some (index c))"
    "\<And>n. bucket_ok n db' \<longleftrightarrow> bucket_ok n db" "\<And>n. n \<noteq> name \<Longrightarrow> bucket_get E n db' = bucket_get E n db"
proof -
  obtain b where b: "map_of (innerDb db) name = Some b" using assms(2) by (auto simp: bucket_ok_def)
  have l: "length (index c) = 8" "length latestKey = 6" "length latestIndex = 9"
    by (simp_all add: index_size latestKey_def latestIndex_def)
  note put1 = bolt_okD(6) [OF assms(1)]
  obtain b1 where b1: "bk_Put E b (key c) (DbContent_ToBytes (wrap c)) = Ok b1"
      "bk_Get E b1 = (bk_Get E b)(key c := Some (DbContent_ToBytes (wrap c)))"
    using put1 [of "key c"] sizes [OF assms(3)] size [OF assms(3)] by fastforce
  obtain b2 where b2: "bk_Put E b1 (index c) (key c) = Ok b2" "bk_Get E b2 = (bk_Get E b1)(index c := Some (key c))"
    using put1 [of "index c" "key c" b1] sizes [OF assms(3)] l by fastforce
  obtain b3 where b3: "bk_Put E b2 latestKey (key c) = Ok b3" "bk_Get E b3 = (bk_Get E b2)(latestKey := Some (key c))"
    using put1 [of latestKey "key c" b2] sizes [OF assms(3)] l by fastforce
  obtain b4 where b4: "bk_Put E b3 latestIndex (index c) = Ok b4"
      "bk_Get E b4 = (bk_Get E b3)(latestIndex := Some (index c))"
    using put1 [of latestIndex "index c" b3] l by fastforce
  let ?db = "db\<lparr>innerDb := AList.update name b4 (innerDb db)\<rparr>"
  have "StorageDb_Put E name (wrap c) db = (Ok (), ?db)"
    unfolding StorageDb_Put_def by (rule db_Update_commit [OF assms(1) b]) (simp add: Let_def b1 b2 b3 b4)
  moreover have "bucket_get E name db = bk_Get E b" using b by (simp add: bucket_get_def fun_eq_iff)
  ultimately show ?thesis using that [of ?db] assms(2) b1 b2 b3 b4 by (auto simp: bucket_update)
qed

text \<open>What the five lookups return after a put.\<close>

lemma put_lookups:
  assumes "bolt_ok E" "bucket_ok name db" "valid c"
  shows "\<exists>db'. StorageDb_Put E name (wrap c) db = (Ok (), db')
    \<and> StorageDb_GetByKey E name (Some (key c)) db' = Ok (Some (DbContent_ToBytes (wrap c)))
    \<and> StorageDb_GetByIndex E name (Some (index c)) db' = Ok (Some (DbContent_ToBytes (wrap c)))
    \<and> StorageDb_GetLatest E name db' = Ok (Some (DbContent_ToBytes (wrap c)))
    \<and> StorageDb_GetLatestKey E name db' = Ok (Some (key c))
    \<and> StorageDb_GetLatestIndex E name db' = Ok (Some (index c))"
proof -
  obtain db' where db': "StorageDb_Put E name (wrap c) db = (Ok (), db')"
    "bucket_get E name db' = (bucket_get E name db)(key c := Some (DbContent_ToBytes (wrap c)),
       index c := Some (key c), latestKey := Some (key c), latestIndex := Some (index c))"
    "bucket_ok name db'"
    using put [OF assms] assms(2) by metis
  then show ?thesis using sizes [OF assms(3)] sizes [OF assms(3), symmetric]
    by (intro exI [of _ db']) (simp add: StorageDb_gets)
qed

text \<open>An entry with another key stays what it was; one with another index is still found by it.\<close>

lemma put_other:
  assumes "bolt_ok E" "bucket_ok name db" "valid c" "length k = 32" "k \<noteq> key c"
    "StorageDb_Put E name (wrap c) db = (Ok (), db')"
  shows "StorageDb_GetByKey E name (Some k) db' = StorageDb_GetByKey E name (Some k) db"
    and "length i = 8 \<Longrightarrow> i \<noteq> index c \<Longrightarrow> bucket_get E name db i = Some k \<Longrightarrow>
      StorageDb_GetByIndex E name (Some i) db' = StorageDb_GetByIndex E name (Some i) db"
proof -
  have b: "bucket_get E name db' = (bucket_get E name db)(key c := Some (DbContent_ToBytes (wrap c)),
       index c := Some (key c), latestKey := Some (key c), latestIndex := Some (index c))"
      "bucket_ok name db'"
    using put [OF assms(1-3)] assms(2,6) by (metis prod.inject)+
  have l: "length (index c) = 8" "length latestKey = 6" "length latestIndex = 9" "length (key c) = 32"
    using sizes(1) [OF assms(3)] by (simp_all add: index_size latestKey_def latestIndex_def)
  have ne: "k \<noteq> index c" "k \<noteq> latestKey" "k \<noteq> latestIndex" by (rule length_neq, simp add: l assms(4))+
  show "StorageDb_GetByKey E name (Some k) db' = StorageDb_GetByKey E name (Some k) db"
    using b ne assms(2,5) by (simp add: StorageDb_gets)
  assume i: "length i = 8" "i \<noteq> index c" "bucket_get E name db i = Some k"
  have "i \<noteq> key c" "i \<noteq> latestKey" "i \<noteq> latestIndex" by (rule length_neq, simp add: l i)+
  then show "StorageDb_GetByIndex E name (Some i) db' = StorageDb_GetByIndex E name (Some i) db"
    using b ne i assms(2,5) by (simp add: StorageDb_gets)
qed

lemma put_decode:
  assumes "bolt_ok E" "bucket_ok name db" "valid c" "StorageDb_Put E name (wrap c) db = (Ok (), db')"
  shows "\<exists>raw. StorageDb_GetByKey E name (Some (key c)) db' = Ok (Some raw) \<and> decode raw = Ok (view c)"
  using put_lookups [OF assms(1-3)] assms(4) decode [OF assms(3)] by auto

end

definition block_storable :: "Block \<Rightarrow> bool" where
  "block_storable b \<longleftrightarrow> slice_len (bi_Hash (bl_Info b)) = 32 \<and> length (Block_ToBytes b) \<le> 2147483646"

definition account_storable :: "Account \<Rightarrow> bool" where
  "account_storable a \<longleftrightarrow> slice_len (ac_PublicKey a) = 32"

interpretation block_db: db_content BlockContent Block_Unmarshal "\<lambda>b. b" block_storable
  by unfold_locales
    (simp_all add: block_storable_def Block_GetKey_def Block_GetIndex_def ToHex_def)

interpretation account_db: db_content AccountContent AccountState_Unmarshal ac_State account_storable
proof (unfold_locales, goal_cases)
  case (3 a)
  have "Account_ToBytes a = AccountState_ToBytes (ac_State a)"
    by (simp add: Account_ToBytes_def AccountState_ToBytes_def)
  then show ?case using length_AccountState_ToBytes [of "ac_State a"] by simp
next
  case (4 a)
  show ?case using AccountState_roundtrip [of "ac_State a"]
    by (simp add: Account_ToBytes_def AccountState_ToBytes_def)
qed (simp_all add: account_storable_def Account_GetKey_def Account_GetIndex_def ToHex_def)

text \<open>The blocks bucket after a block was put, and that a database holds a block: it is found by its hash and by its height.\<close>

definition with_block :: "Block \<Rightarrow> (bytes \<Rightarrow> slice) \<Rightarrow> bytes \<Rightarrow> slice" where
  "with_block b m = (let key = bytes_of (Block_GetKey b); idx = Block_GetIndex b in
     m(key := Some (Block_ToBytes b), idx := Some key, latestKey := Some key, latestIndex := Some idx))"

definition holds_block :: "('d, 'z) senv_scheme \<Rightarrow> 'd StorageDb \<Rightarrow> Block \<Rightarrow> bool" where
  "holds_block E db b \<longleftrightarrow> StorageService_get E BlocksBucket RefKey (Block_GetKey b) db = Ok (Some (Block_ToBytes b))
     \<and> StorageService_get E BlocksBucket RefIndex (Some (Block_GetIndex b)) db = Ok (Some (Block_ToBytes b))"

lemma with_block_keys:
  assumes "block_storable b"
  shows "with_block b m (bytes_of (Block_GetKey b)) = Some (Block_ToBytes b)" "with_block b m (Block_GetIndex b) = Some (bytes_of (Block_GetKey b))"
    "with_block b m latestKey = Some (bytes_of (Block_GetKey b))" "with_block b m latestIndex = Some (Block_GetIndex b)"
  using block_db.sizes [OF assms] block_db.sizes [OF assms, symmetric] by (simp_all add: with_block_def Let_def)

lemma with_block_other:
  assumes "block_storable b" "block_storable c" "Block_GetKey c \<noteq> Block_GetKey b" "bi_Height (bl_Info c) \<noteq> bi_Height (bl_Info b)"
  shows "with_block b m (bytes_of (Block_GetKey c)) = m (bytes_of (Block_GetKey c))" "with_block b m (Block_GetIndex c) = m (Block_GetIndex c)"
proof -
  have k: "length (bytes_of (Block_GetKey b)) = 32" "length (bytes_of (Block_GetKey c)) = 32"
    using block_db.sizes(1) assms(1,2) by simp_all
  then have some: "Block_GetKey b = Some (bytes_of (Block_GetKey b))" "Block_GetKey c = Some (bytes_of (Block_GetKey c))"
    by (cases "Block_GetKey b"; cases "Block_GetKey c"; simp)+
  have l: "length (Block_GetIndex b) = 8" "length (Block_GetIndex c) = 8" "length latestKey = 6" "length latestIndex = 9"
    by (simp_all add: Block_GetIndex_def ToHex_def latestKey_def latestIndex_def)
  have "Block_GetIndex c \<noteq> Block_GetIndex b"
    using assms(4) hex_roundtrip [of "bi_Height (bl_Info c)" "[]"] hex_roundtrip [of "bi_Height (bl_Info b)" "[]"] by (auto simp: Block_GetIndex_def)
  moreover have "bytes_of (Block_GetKey c) \<noteq> bytes_of (Block_GetKey b)" using some assms(3) by metis
  moreover have "bytes_of (Block_GetKey c) \<notin> {Block_GetIndex b, latestKey, latestIndex}" "Block_GetIndex c \<notin> {bytes_of (Block_GetKey b), latestKey, latestIndex}"
    using k l by (auto dest!: arg_cong [where f = length])
  ultimately show "with_block b m (bytes_of (Block_GetKey c)) = m (bytes_of (Block_GetKey c))" "with_block b m (Block_GetIndex c) = m (Block_GetIndex c)"
    by (simp_all add: with_block_def Let_def)
qed

lemma holds_block_lookup:
  assumes "bucket_ok blocksBucket db" "block_storable b" "bucket_get E blocksBucket db (bytes_of (Block_GetKey b)) = Some (Block_ToBytes b)"
    "bucket_get E blocksBucket db (Block_GetIndex b) = Some (bytes_of (Block_GetKey b))"
  shows "holds_block E db b"
proof -
  have "Block_GetKey b \<noteq> None" using assms(2) by (cases "bi_Hash (bl_Info b)") (simp_all add: block_storable_def Block_GetKey_def)
  with assms show ?thesis by (auto simp: holds_block_def StorageService_get_def StorageDb_gets)
qed

lemma holds_new_block:
  "bucket_ok blocksBucket db \<Longrightarrow> block_storable b \<Longrightarrow> bucket_get E blocksBucket db = with_block b m \<Longrightarrow> holds_block E db b"
  by (rule holds_block_lookup) (simp_all add: with_block_keys)

text \<open>A put of a block that succeeds writes exactly its entries, and no other bucket.\<close>

lemma put_block_Ok:
  assumes "bolt_ok E" "bolt_refuses E" "slice_len (bi_Hash (bl_Info b)) = 32"
    "StorageService_put E BlocksBucket (Some (BlockContent b)) db = (Ok (), db')"
  shows "block_storable b" "bucket_get E blocksBucket db' = with_block b (bucket_get E blocksBucket db)"
proof -
  have p: "StorageDb_Put E blocksBucket (BlockContent b) db = (Ok (), db')" using assms(4) by (simp add: StorageService_put_def)
  then have ok: "bucket_ok blocksBucket db" by (auto simp: StorageDb_Put_def db_Update_def db_View_def bucket_ok_def split: option.splits)
  show st: "block_storable b"
  proof (rule ccontr)
    assume "\<not> block_storable b"
    then have "\<exists>e. bk_Put E d k (Block_ToBytes b) = Err e" for d k
      using assms(2,3) by (simp add: bolt_refuses_def block_storable_def)
    moreover have "\<exists>d d'. bk_Put E d (bytes_of (Block_GetKey b)) (Block_ToBytes b) = Ok d'"
      using p by (auto simp: StorageDb_Put_def db_Update_def db_View_def Let_def split: option.splits go.splits)
    ultimately show False by (metis go.distinct(1))
  qed
  show "bucket_get E blocksBucket db' = with_block b (bucket_get E blocksBucket db)"
    by (rule block_db.put [OF assms(1) ok st]) (use p in \<open>simp add: with_block_def Let_def\<close>)
qed

text \<open>Blocks of different hashes and heights, put one after the other, are all held.\<close>

lemma fold_with_block:
  assumes "\<forall>b\<in>set bs. block_storable b" "distinct (map Block_GetKey bs)" "distinct (map (\<lambda>b. bi_Height (bl_Info b)) bs)" "b \<in> set bs"
  shows "fold with_block bs m (bytes_of (Block_GetKey b)) = Some (Block_ToBytes b) \<and> fold with_block bs m (Block_GetIndex b) = Some (bytes_of (Block_GetKey b))"
  using assms
proof (induction bs rule: rev_induct)
  case (snoc c bs)
  show ?case
  proof (cases "b = c")
    case True
    with snoc.prems(1) show ?thesis by (simp add: with_block_keys)
  next
    case False
    then have "b \<in> set bs" using snoc.prems(4) by simp
    then have "Block_GetKey b \<noteq> Block_GetKey c" "bi_Height (bl_Info b) \<noteq> bi_Height (bl_Info c)" "block_storable b" "block_storable c"
      using snoc.prems(1-3) by (auto simp: image_iff)
    with snoc.IH snoc.prems(1-3) \<open>b \<in> set bs\<close> show ?thesis by (simp add: with_block_other)
  qed
qed simp

lemma holds_all_blocks:
  assumes "bucket_ok blocksBucket db" "\<forall>b\<in>set bs. block_storable b" "distinct (map Block_GetKey bs)" "distinct (map (\<lambda>b. bi_Height (bl_Info b)) bs)"
    "bucket_get E blocksBucket db = fold with_block bs m"
  shows "\<forall>b\<in>set bs. holds_block E db b"
  using assms fold_with_block [OF assms(2-4), of _ m] by (auto intro!: holds_block_lookup)

text \<open>A sequence of blocks, put in order.\<close>

primrec put_blocks :: "('d, 'z) senv_scheme \<Rightarrow> Block list \<Rightarrow> ('d StorageDb, unit) comp" where
  "put_blocks E [] = st_out (Ok ())"
| "put_blocks E (b # bs) = st_bind (StorageService_put E BlocksBucket (Some (BlockContent b))) (\<lambda>_. put_blocks E bs)"

lemma put_blocks_ok:
  assumes "bolt_ok E"
  shows "bucket_ok blocksBucket db \<Longrightarrow> \<forall>b\<in>set bs. block_storable b \<Longrightarrow> \<exists>db'. put_blocks E bs db = (Ok (), db')
    \<and> bucket_get E blocksBucket db' = fold with_block bs (bucket_get E blocksBucket db) \<and> bucket_ok blocksBucket db'
    \<and> (\<forall>n. n \<noteq> blocksBucket \<longrightarrow> bucket_get E n db' = bucket_get E n db)"
proof (induction bs arbitrary: db)
  case (Cons b bs)
  then have st: "block_storable b" by simp
  obtain db1 where db1: "StorageDb_Put E blocksBucket (BlockContent b) db = (Ok (), db1)"
    "bucket_get E blocksBucket db1 = with_block b (bucket_get E blocksBucket db)" "bucket_ok blocksBucket db1"
    "\<And>n. n \<noteq> blocksBucket \<Longrightarrow> bucket_get E n db1 = bucket_get E n db"
    by (rule block_db.put [OF assms Cons.prems(1) st]) (use Cons.prems(1) in \<open>simp add: with_block_def Let_def\<close>)
  with Cons.IH [OF db1(3)] Cons.prems(2) show ?case by (auto simp: StorageService_put_def)
qed simp

lemma NewStorageService_buckets:
  assumes "bolt_ok E" "NewStorageService E None None = Ok db"
  shows "bucket_ok blocksBucket db" "bucket_ok accountsBucket db"
    "bucket_get E blocksBucket db k = None" "bucket_get E accountsBucket db k = None"
  using assms(2) bolt_okD(1) [OF assms(1), of k] bolt_okD(3) [OF assms(1)]
  by (auto simp: NewStorageService_def NewStorageDb_def makeBucket_def bucket_ok_def bucket_get_def
      blocksBucket_def accountsBucket_def)

subsection \<open>From storage to memory\<close>

fun put_reqs :: "bytes list \<Rightarrow> addr \<Rightarrow> nat \<Rightarrow> StateMemRequest list" where
  "put_reqs [] a n = []"
| "put_reqs (pk # pks) a n =
     \<lparr>sr_kind = Put, sr_PublicKey = Some pk, sr_State = Some a, sr_ResultCh = n\<rparr> # put_reqs pks (Suc a) (Suc n)"

lemma length_put_reqs [simp]: "length (put_reqs pks a n) = length pks"
  by (induction pks arbitrary: a n) auto

definition run_puts :: "'z lib_scheme \<Rightarrow> bytes list \<Rightarrow> addr \<Rightarrow> MemoryDb \<Rightarrow> MemoryDb" where
  "run_puts E pks a md = fold (\<lambda>(pk, a). MemoryDb_Put (b58_Encode E pk) a) (zip pks [a..<a + length pks]) md"

lemma run_puts_simps [simp]:
  "run_puts E [] a md = md"
  "run_puts E (pk # pks) a md = run_puts E pks (Suc a) (MemoryDb_Put (b58_Encode E pk) a md)"
  by (simp_all add: run_puts_def upt_conv_Cons del: upt_Suc)

lemma PutAccountState_first:
  "MemoryService_PutAccountState E (Some pk) (Some a) (svc ms md None n)
     = (Ok n, svc ms (MemoryDb_Put (b58_Encode E pk) a md) (Some (n, None)) (Suc n))"
  by (cases ms) (simp add: MemoryService_PutAccountState_def Let_def send_state_def chanCap_def
      MemoryService_run_def st_bind_def handle_requests handle_put_Some svc_def)

lemma PutAccountState_more:
  "length q < 10 \<Longrightarrow> MemoryService_PutAccountState E (Some pk) (Some a) (svcq ms md q p n)
     = (Ok n, svcq ms md (q @ put_reqs [pk] a n) p (Suc n))"
  "10 \<le> length q \<Longrightarrow>
     \<exists>ms'. MemoryService_PutAccountState E (Some pk) (Some a) (svcq ms md q p n) = (Blocked, ms')"
  by (cases ms; simp add: MemoryService_PutAccountState_def Let_def send_state_def chanCap_def
      MemoryService_run_def st_bind_def svc_def svcq_def)+

text \<open>The requests of a fetch wait in the buffer, which holds ten of them.\<close>

lemma fetch_loop_busy:
  assumes "list_all2 (\<lambda>pk s. stored_state E b (Some pk) = Ok s) pks ss" "length q + length pks \<le> 10"
  shows "fetch_loop E b (map Some pks) (svcq ms md q p n)
     = (Ok [n..<n + length pks], svcq ms (md\<lparr>heap := heap md @ ss\<rparr>)
          (q @ put_reqs pks (length (heap md)) n) p (n + length pks))"
  using assms
proof (induction pks ss arbitrary: md q n rule: list_all2_induct)
  case (Cons pk pks s ss)
  then show ?case
    by (simp add: new_state_svcq PutAccountState_more Cons.IH [of "q @ put_reqs [pk] (length (heap md)) n"]
        upt_conv_Cons del: upt_Suc)
qed simp

lemma fetch_loop_overflow:
  assumes "list_all2 (\<lambda>pk s. stored_state E b (Some pk) = Ok s) pks ss" "length q \<le> 10"
    "10 < length q + length pks"
  shows "\<exists>ms'. fetch_loop E b (map Some pks) (svcq ms md q p n) = (Blocked, ms')"
  using assms
proof (induction pks ss arbitrary: md q n rule: list_all2_induct)
  case (Cons pk pks s ss)
  show ?case
  proof (cases "length q < 10")
    case True
    let ?md = "md\<lparr>heap := heap md @ [s]\<rparr>" and ?q = "q @ put_reqs [pk] (length (heap md)) n"
    obtain ms' where "fetch_loop E b (map Some pks) (svcq ms ?md ?q p (Suc n)) = (Blocked, ms')"
      using Cons.IH [of ?q ?md "Suc n"] Cons.prems True by auto
    with True Cons.hyps show ?thesis by (simp add: new_state_svcq PutAccountState_more)
  next
    case False
    then obtain ms' where "MemoryService_PutAccountState E (Some pk) (Some (length (heap md)))
        (svcq ms (md\<lparr>heap := heap md @ [s]\<rparr>) q p n) = (Blocked, ms')"
      using PutAccountState_more(2) [of q] by (meson not_less)
    with Cons.hyps show ?thesis by (simp add: new_state_svcq)
  qed
qed simp

lemma recv_all_puts:
  "recv_all E [c..<Suc c + length pks] (svcq ms md (put_reqs pks a (Suc c)) (c, r) n)
     = (Ok (), svc ms (run_puts E pks a md) None n)"
proof (induction pks arbitrary: c r md a)
  case Nil
  then show ?case by (simp add: recv_last)
next
  case (Cons pk pks)
  show ?case
    using Cons.IH [of "Suc c" "MemoryDb_Put (b58_Encode E pk) a md" "Suc a" None]
    by (simp add: upt_conv_Cons recv_more handle_requests handle_put_Some del: upt_Suc)
qed

lemma heap_run_puts [simp]: "heap (run_puts E pks a md) = heap md"
  by (induction pks arbitrary: a md) simp_all

lemma MemoryDb_Put_heap: "(MemoryDb_Put k a md)\<lparr>heap := h\<rparr> = MemoryDb_Put k a (md\<lparr>heap := h\<rparr>)"
  by (simp add: MemoryDb_Put_def)

text \<open>The effect of the queued puts: each key gets the state allocated for it.\<close>

definition fetched :: "'z lib_scheme \<Rightarrow> (bytes \<times> AccountState) list \<Rightarrow> ledger \<Rightarrow> ledger" where
  "fetched E pss L = fold (\<lambda>(pk, s) L. L(b58_Encode E pk \<mapsto> s)) pss L"

lemma fetched_simps [simp]:
  "fetched E [] L = L" "fetched E ((pk, s) # pss) L = fetched E pss (L(b58_Encode E pk \<mapsto> s))"
  by (simp_all add: fetched_def)

lemma run_puts_ledger:
  assumes "mem_wf md" "length pks = length ss" "\<And>i. i < length ss \<Longrightarrow> fresh md (a + i) \<and> heap md ! (a + i) = ss ! i"
  shows "mem_wf (run_puts E pks a md) \<and> mem_state (run_puts E pks a md) = fetched E (zip pks ss) (mem_state md)"
  using assms(2,1,3)
proof (induction pks ss arbitrary: md a rule: list_induct2)
  case (Cons pk pks s ss)
  let ?md = "MemoryDb_Put (b58_Encode E pk) a md"
  have a: "fresh md a" "heap md ! a = s" using Cons.prems(2) [of 0] by simp_all
  have wf: "mem_wf ?md" using mem_wf_Put Cons.prems(1) a(1) by blast
  have "fresh ?md (Suc a + i) \<and> heap ?md ! (Suc a + i) = ss ! i" if "i < length ss" for i
    using Cons.prems(2) [of "Suc i"] that snd_update [of "b58_Encode E pk" a "dbMap md"]
    by (auto simp: fresh_def MemoryDb_Put_def)
  then show ?case using Cons.IH [of ?md "Suc a"] wf a by (simp add: mem_state_Put fun_upd_def)
qed simp

lemma append_heap_facts:
  assumes "mem_wf md"
  shows "mem_wf (md\<lparr>heap := heap md @ ss\<rparr>)" "mem_state (md\<lparr>heap := heap md @ ss\<rparr>) = mem_state md"
    "i < length ss \<Longrightarrow> fresh (md\<lparr>heap := heap md @ ss\<rparr>) (length (heap md) + i)"
proof -
  show "mem_wf (md\<lparr>heap := heap md @ ss\<rparr>)" using assms by (auto simp: mem_wf_def)
  show "mem_state (md\<lparr>heap := heap md @ ss\<rparr>) = mem_state md"
  proof
    fix k show "mem_state (md\<lparr>heap := heap md @ ss\<rparr>) k = mem_state md k"
      using owned_less [OF assms, of k] by (cases "map_of (dbMap md) k") (auto simp: mem_state_def nth_append)
  qed
  show "i < length ss \<Longrightarrow> fresh (md\<lparr>heap := heap md @ ss\<rparr>) (length (heap md) + i)"
    using assms by (auto simp: fresh_def mem_wf_def)
qed

lemma fetch_from_idle:
  assumes "list_all2 (\<lambda>pk s. stored_state E b (Some pk) = Ok s) pks ss" "length pks \<le> 11" "mem_wf md"
  obtains md' where
    "st_bind (fetch_loop E b (map Some pks)) (recv_all E) (svc ms md None n) = (Ok (), svc ms md' None (n + length pks))"
    "mem_wf md'" "mem_state md' = fetched E (zip pks ss) (mem_state md)"
proof (cases pks)
  case Nil
  with assms that [of md] show ?thesis by (simp add: svc_def)
next
  case (Cons pk pks')
  then obtain s ss' where ss: "ss = s # ss'" "stored_state E b (Some pk) = Ok s"
      "list_all2 (\<lambda>pk s. stored_state E b (Some pk) = Ok s) pks' ss'"
    using assms(1) by (auto simp: list_all2_Cons1)
  let ?md1 = "md\<lparr>heap := heap md @ [s]\<rparr>"
  let ?md2 = "MemoryDb_Put (b58_Encode E pk) (length (heap md)) ?md1"
  let ?md = "run_puts E pks (length (heap md)) (md\<lparr>heap := heap md @ ss\<rparr>)"
  have len: "length pks = length ss" using assms(1) by (rule list_all2_lengthD)
  have "fetch_loop E b (map Some pks') (svcq ms ?md2 [] (n, None) (Suc n))
      = (Ok [Suc n..<Suc n + length pks'], svcq ms (?md2\<lparr>heap := heap ?md2 @ ss'\<rparr>)
          (put_reqs pks' (Suc (length (heap md))) (Suc n)) (n, None) (Suc n + length pks'))"
    using fetch_loop_busy [OF ss(3), of "[]" ms ?md2 "(n, None)" "Suc n"] assms(2) Cons by simp
  then have "fetch_loop E b (map Some pks) (svc ms md None n)
      = (Ok [n..<Suc n + length pks'], svcq ms (?md2\<lparr>heap := heap md @ ss\<rparr>)
          (put_reqs pks' (Suc (length (heap md))) (Suc n)) (n, None) (Suc n + length pks'))"
    using Cons ss by (simp add: new_state_svc alloc_def PutAccountState_first upt_conv_Cons del: upt_Suc)
  then have "st_bind (fetch_loop E b (map Some pks)) (recv_all E) (svc ms md None n)
      = (Ok (), svc ms ?md None (n + length pks))"
    using Cons recv_all_puts [of E n pks' ms] by (simp add: MemoryDb_Put_heap)
  moreover have "mem_wf ?md \<and> mem_state ?md = fetched E (zip pks ss) (mem_state (md\<lparr>heap := heap md @ ss\<rparr>))"
    by (rule run_puts_ledger) (use assms(3) len append_heap_facts in auto)
  ultimately show ?thesis using that append_heap_facts [OF assms(3)] by simp
qed


text \<open>The state the database holds for a key.\<close>

definition db_state :: "('d, 'z) senv_scheme \<Rightarrow> 'd StorageDb \<Rightarrow> bytes \<Rightarrow> AccountState go" where
  "db_state E db pk = (case bucket_get E accountsBucket db pk of
       None \<Rightarrow> Ok zeroState | Some raw \<Rightarrow> AccountState_Unmarshal raw)"

lemma stored_state_db:
  "map_of (innerDb db) accountsBucket = Some b \<Longrightarrow> stored_state E b (Some pk) = db_state E db pk"
  by (simp add: stored_state_def db_state_def bucket_get_def)

lemma db_Update_nothing:
  assumes "bolt_ok E" "map_of (innerDb db) name = Some b"
  shows "db_Update E name Ok db = (Ok (), db)"
  using db_Update_commit [of E db name b Ok b] assms AList_update_same [OF assms(2)] by simp

lemma st_bind_Blocked: "\<exists>s'. m s = (Blocked, s') \<Longrightarrow> \<exists>s'. st_bind m f s = (Blocked, s')"
  by (auto simp: st_bind_def)

lemma on_mem_simps [simp]: "m (w_mem w) = (r, ms) \<Longrightarrow> on_mem m w = (r, w\<lparr>w_mem := ms\<rparr>)"
  by (simp add: on_mem_def)

lemma on_db_simps [simp]: "m (w_db w) = (r, db) \<Longrightarrow> on_db m w = (r, w\<lparr>w_db := db\<rparr>)"
  by (simp add: on_db_def)

lemma FetchAccounts_ok:
  assumes "bolt_ok E" "bucket_ok accountsBucket (w_db w)" "idle (w_mem w)" "mem_wf (stateMem (w_mem w))"
    "list_all2 (\<lambda>pk s. db_state E (w_db w) pk = Ok s) pks ss" "length pks \<le> 11"
  obtains md n where "FetchAccounts E (map Some pks) w = (Ok (), w\<lparr>w_mem := svc (w_mem w) md None n\<rparr>)"
    "mem_wf md" "mem_state md = fetched E (zip pks ss) (mem_state (stateMem (w_mem w)))"
proof -
  let ?ms = "w_mem w"
  obtain b where b: "map_of (innerDb (w_db w)) accountsBucket = Some b" using assms(2) by (auto simp: bucket_ok_def)
  have st: "list_all2 (\<lambda>pk s. stored_state E b (Some pk) = Ok s) pks ss"
    using assms(5) by (simp add: stored_state_db [OF b])
  obtain md where md: "st_bind (fetch_loop E b (map Some pks)) (recv_all E)
        (svc ?ms (stateMem ?ms) None (nextCh ?ms)) = (Ok (), svc ?ms md None (nextCh ?ms + length pks))"
      "mem_wf md" "mem_state md = fetched E (zip pks ss) (mem_state (stateMem ?ms))"
    by (rule fetch_from_idle [OF st assms(6,4)])
  obtain chs ms1 where f: "fetch_loop E b (map Some pks) ?ms = (Ok chs, ms1)"
      "recv_all E chs ms1 = (Ok (), svc ?ms md None (nextCh ?ms + length pks))"
    using md(1) svc_idle [OF assms(3)]
    by (auto simp: st_bind_def split: prod.splits go.splits)
  have "FetchAccounts E (map Some pks) w = (Ok (), w\<lparr>w_mem := svc ?ms md None (nextCh ?ms + length pks)\<rparr>)"
    using f db_Update_nothing [OF assms(1) b] by (simp add: FetchAccounts_def db_View_def b)
  with md that show ?thesis by blast
qed

text \<open>Twelve keys or more: the eleventh request after the first waits for room for ever.\<close>

lemma fetch_loop_blocked:
  assumes "idle ms" "11 < length pks" "list_all2 (\<lambda>pk s. stored_state E b (Some pk) = Ok s) pks ss"
  shows "\<exists>ms'. fetch_loop E b (map Some pks) ms = (Blocked, ms')"
proof -
  let ?md = "stateMem ms"
  obtain pk pks' where pks: "pks = pk # pks'" using assms(2) by (cases pks) auto
  then obtain s ss' where ss: "ss = s # ss'" "stored_state E b (Some pk) = Ok s"
      "list_all2 (\<lambda>pk s. stored_state E b (Some pk) = Ok s) pks' ss'"
    using assms(3) by (auto simp: list_all2_Cons1)
  have "\<exists>ms'. fetch_loop E b (map Some pks') (svcq ms (MemoryDb_Put (b58_Encode E pk) (length (heap ?md))
      (?md\<lparr>heap := heap ?md @ [s]\<rparr>)) [] (nextCh ms, None) (Suc (nextCh ms))) = (Blocked, ms')"
    by (rule fetch_loop_overflow [OF ss(3)]) (use assms(2) pks in auto)
  then have "\<exists>ms'. fetch_loop E b (map Some pks) (svc ms ?md None (nextCh ms)) = (Blocked, ms')"
    using pks ss by (auto simp: new_state_svc alloc_def PutAccountState_first)
  then show ?thesis using svc_idle [OF assms(1)] by simp
qed

lemma FetchAccounts_blocked:
  assumes "bucket_ok accountsBucket (w_db w)" "idle (w_mem w)" "11 < length pks"
    "list_all2 (\<lambda>pk s. db_state E (w_db w) pk = Ok s) pks ss"
  shows "\<exists>w'. FetchAccounts E (map Some pks) w = (Blocked, w')"
proof -
  obtain b where b: "map_of (innerDb (w_db w)) accountsBucket = Some b" using assms(1) by (auto simp: bucket_ok_def)
  have "list_all2 (\<lambda>pk s. stored_state E b (Some pk) = Ok s) pks ss" using assms(4) by (simp add: stored_state_db [OF b])
  from fetch_loop_blocked [OF assms(2,3) this]
  obtain ms' where "fetch_loop E b (map Some pks) (w_mem w) = (Blocked, ms')" ..
  then show ?thesis by (simp add: FetchAccounts_def db_View_def b)
qed

text \<open>A state that cannot be decoded, or a service somebody else left waiting: no fetch succeeds.\<close>

lemma st_bind_Ok:
  "st_bind m f s = (Ok b, s2) \<longleftrightarrow> (\<exists>a s1. m s = (Ok a, s1) \<and> f a s1 = (Ok b, s2))"
  by (auto simp: st_bind_def split: prod.splits go.splits)

lemma fetch_loop_decodes:
  "fetch_loop E b pks ms = (Ok chs, ms') \<Longrightarrow> pk \<in> set pks \<Longrightarrow> \<exists>s. stored_state E b pk = Ok s"
  by (induction pks arbitrary: ms chs ms') (auto simp: st_bind_Ok)

lemma FetchAccounts_decodes:
  assumes "bucket_ok accountsBucket (w_db w)" "FetchAccounts E (map Some pks) w = (Ok u, w')" "pk \<in> set pks"
  shows "\<exists>s. db_state E (w_db w) pk = Ok s"
proof -
  obtain b where b: "map_of (innerDb (w_db w)) accountsBucket = Some b" using assms(1) by (auto simp: bucket_ok_def)
  then obtain chs ms' where "fetch_loop E b (map Some pks) (w_mem w) = (Ok chs, ms')"
    using assms(2) by (auto simp: FetchAccounts_def db_View_def st_bind_Ok on_mem_def split: prod.splits)
  then show ?thesis using fetch_loop_decodes [of E b "map Some pks" "w_mem w" chs ms' "Some pk"] assms(3)
    by (auto simp: stored_state_db [OF b])
qed

lemma FetchAccounts_stuck:
  assumes "bucket_ok accountsBucket (w_db w)" "w_mem w = svc ms md (Some (c, r)) n" "c < n" "pks \<noteq> []" "length pks \<le> 10"
  shows "fst (FetchAccounts E (map Some pks) w) \<noteq> Ok u"
proof
  assume "fst (FetchAccounts E (map Some pks) w) = Ok u"
  then obtain w' where ok: "FetchAccounts E (map Some pks) w = (Ok u, w')" by (metis prod.collapse)
  obtain b where b: "map_of (innerDb (w_db w)) accountsBucket = Some b" using assms(1) by (auto simp: bucket_ok_def)
  have "\<forall>pk \<in> set pks. \<exists>s. stored_state E b (Some pk) = Ok s"
    using FetchAccounts_decodes [OF assms(1) ok] by (simp add: stored_state_db [OF b])
  then have "list_all2 (\<lambda>pk s. stored_state E b (Some pk) = Ok s) pks
      (map (\<lambda>pk. SOME s. stored_state E b (Some pk) = Ok s) pks)"
    by (auto simp: list_all2_map2 list_all2_same intro: someI_ex)
  from fetch_loop_busy [OF this, of "[]" ms md "(c, r)" n] assms(5) obtain md' q
    where "fetch_loop E b (map Some pks) (w_mem w) = (Ok [n..<n + length pks], svcq ms md' q (c, r) (n + length pks))"
    by (auto simp: assms(2))
  moreover have "[n..<n + length pks] = n # [Suc n..<n + length pks]"
    using assms(4) by (simp add: upt_conv_Cons del: upt_Suc)
  moreover have "recv_state E n (svcq ms md' q (c, r) (n + length pks))
      = (Blocked, svcq ms md' q (c, r) (n + length pks))"
    using assms(3) by (simp add: recv_state_def)
  ultimately show False
    using ok b by (auto simp: FetchAccounts_def db_View_def st_bind_Ok on_mem_def on_db_def split: prod.splits)
qed

lemma FetchAccounts_hangs:
  assumes "bolt_ok E" "bucket_ok accountsBucket (w_db w)" "w_mem w = svc ms md (Some (c, r)) n" "c < n"
    "pks \<noteq> []" "length pks \<le> 10" "list_all2 (\<lambda>pk s. db_state E (w_db w) pk = Ok s) pks ss"
  shows "fst (FetchAccounts E (map Some pks) w) = Blocked"
proof -
  obtain b where b: "map_of (innerDb (w_db w)) accountsBucket = Some b" using assms(2) by (auto simp: bucket_ok_def)
  have "list_all2 (\<lambda>pk s. stored_state E b (Some pk) = Ok s) pks ss"
    using assms(7) by (simp add: stored_state_db [OF b])
  from fetch_loop_busy [OF this, of "[]" ms md "(c, r)" n] assms(6) obtain md' q
    where "fetch_loop E b (map Some pks) (w_mem w) = (Ok [n..<n + length pks], svcq ms md' q (c, r) (n + length pks))"
    by (auto simp: assms(3))
  moreover have "[n..<n + length pks] = n # [Suc n..<n + length pks]"
    using assms(5) by (simp add: upt_conv_Cons del: upt_Suc)
  moreover have "recv_state E n (svcq ms md' q (c, r) (n + length pks))
      = (Blocked, svcq ms md' q (c, r) (n + length pks))"
    using assms(4) by (simp add: recv_state_def)
  ultimately show ?thesis
    using db_Update_nothing [OF assms(1) b] by (simp add: FetchAccounts_def db_View_def b)
qed

subsection \<open>From memory to storage\<close>

fun get_reqs :: "bytes list \<Rightarrow> nat \<Rightarrow> StateMemRequest list" where
  "get_reqs [] n = []"
| "get_reqs (pk # pks) n =
     \<lparr>sr_kind = Get, sr_PublicKey = Some pk, sr_State = None, sr_ResultCh = n\<rparr> # get_reqs pks (Suc n)"

lemma length_get_reqs [simp]: "length (get_reqs pks n) = length pks"
  by (induction pks arbitrary: n) auto

lemma GetAccountState_first:
  "handle_get E pk md = (r, md') \<Longrightarrow> MemoryService_GetAccountState E pk (svc ms md None n)
     = (Ok n, svc ms md' (Some (n, r)) (Suc n))"
  by (cases ms) (simp add: MemoryService_GetAccountState_def Let_def send_state_def chanCap_def
      MemoryService_run_def st_bind_def handle_requests svc_def)

lemma GetAccountState_more:
  "length q < 10 \<Longrightarrow> MemoryService_GetAccountState E (Some pk) (svcq ms md q p n)
     = (Ok n, svcq ms md (q @ get_reqs [pk] n) p (Suc n))"
  "10 \<le> length q \<Longrightarrow> \<exists>ms'. MemoryService_GetAccountState E (Some pk) (svcq ms md q p n) = (Blocked, ms')"
  by (cases ms; simp add: MemoryService_GetAccountState_def Let_def send_state_def chanCap_def
      MemoryService_run_def st_bind_def svc_def svcq_def)+

lemma push_requests_busy:
  "length q + length pks \<le> 10 \<Longrightarrow> push_requests E (map Some pks) (svcq ms md q p n)
     = (Ok [n..<n + length pks], svcq ms md (q @ get_reqs pks n) p (n + length pks))"
proof (induction pks arbitrary: q n)
  case (Cons pk pks)
  then show ?case
    using Cons.IH [of "q @ get_reqs [pk] n" "Suc n"]
    by (simp add: GetAccountState_more upt_conv_Cons del: upt_Suc)
qed simp

lemma push_requests_overflow:
  "length q \<le> 10 \<Longrightarrow> 10 < length q + length pks \<Longrightarrow>
     \<exists>ms'. push_requests E (map Some pks) (svcq ms md q p n) = (Blocked, ms')"
proof (induction pks arbitrary: q n)
  case (Cons pk pks)
  show ?case
  proof (cases "length q < 10")
    case True
    obtain ms' where "push_requests E (map Some pks) (svcq ms md (q @ get_reqs [pk] n) p (Suc n)) = (Blocked, ms')"
      using Cons.IH [of "q @ get_reqs [pk] n" "Suc n"] Cons.prems True by auto
    with True show ?thesis by (simp add: GetAccountState_more)
  next
    case False
    then obtain ms' where "MemoryService_GetAccountState E (Some pk) (svcq ms md q p n) = (Blocked, ms')"
      using GetAccountState_more(2) [of q] by (meson not_less)
    then show ?thesis by simp
  qed
qed simp


definition pushed :: "'z lib_scheme \<Rightarrow> ledger \<Rightarrow> bytes list \<Rightarrow> (bytes \<Rightarrow> slice) \<Rightarrow> bytes \<Rightarrow> slice" where
  "pushed E L pks m = fold (\<lambda>pk m. m(pk \<mapsto> AccountState_ToBytes (the (L (b58_Encode E pk))))) pks m"

lemma pushed_simps [simp]:
  "pushed E L [] m = m"
  "pushed E L (pk # pks) m = pushed E L pks (m(pk \<mapsto> AccountState_ToBytes (the (L (b58_Encode E pk)))))"
  by (simp_all add: pushed_def)

lemma pushed_apply:
  "pushed E L pks m k = (if k \<in> set pks then Some (AccountState_ToBytes (the (L (b58_Encode E k)))) else m k)"
  by (induction pks arbitrary: m) auto

definition known :: "'z lib_scheme \<Rightarrow> MemoryDb \<Rightarrow> bytes \<Rightarrow> bool" where
  "known E md pk \<longleftrightarrow> length pk = 32 \<and> map_of (dbMap md) (b58_Encode E pk) \<noteq> None"

lemma knownD: "known E md pk \<Longrightarrow> \<exists>a. map_of (dbMap md) (b58_Encode E pk) = Some a"
  by (auto simp: known_def)

lemma put_state:
  assumes "bolt_ok E" "length pk = 32"
  obtains b' where "bk_Put E b pk (AccountState_ToBytes s) = Ok b'"
    "bk_Get E b' = (bk_Get E b)(pk \<mapsto> AccountState_ToBytes s)"
  using bolt_okD(6) [OF assms(1), of pk "AccountState_ToBytes s" b] assms(2)
    length_AccountState_ToBytes [of s] by fastforce

lemma recv_get:
  "recv_state E c (svcq ms md (get_reqs pks d) (c, r) n) = (Ok r,
     (case pks of [] \<Rightarrow> svc ms md None n
      | pk # pks' \<Rightarrow> (case handle_get E (Some pk) md of (r', md') \<Rightarrow> svcq ms md' (get_reqs pks' (Suc d)) (d, r') n)))"
  by (cases pks) (auto simp: recv_last recv_more handle_requests split: prod.splits)

lemma push_loop_ok:
  assumes "bolt_ok E" "known E md pk" "list_all (known E md) pks" "map_of (dbMap md) (b58_Encode E pk) = Some a"
  shows "\<exists>b'. push_loop E (zip (map Some (pk # pks)) [c..<Suc c + length pks])
        (svcq ms md (get_reqs pks (Suc c)) (c, Some (a, None)) n, b) = (Ok (), (svc ms md None n, b'))
     \<and> bk_Get E b' = pushed E (mem_state md) (pk # pks) (bk_Get E b)"
  using assms(2-4)
proof (induction pks arbitrary: pk a b c)
  case Nil
  obtain b' where b': "bk_Put E b pk (AccountState_ToBytes (heap md ! a)) = Ok b'"
      "bk_Get E b' = (bk_Get E b)(pk \<mapsto> AccountState_ToBytes (heap md ! a))"
    using put_state [OF assms(1)] Nil.prems(1) by (metis known_def)
  then show ?case using Nil.prems by (simp add: recv_last fun_upd_def)
next
  case (Cons pk2 pks)
  obtain a2 where a2: "map_of (dbMap md) (b58_Encode E pk2) = Some a2" "known E md pk2" "list_all (known E md) pks"
    using Cons.prems(2) knownD [of E md pk2] by auto
  obtain b1 where b1: "bk_Put E b pk (AccountState_ToBytes (heap md ! a)) = Ok b1"
      "bk_Get E b1 = (bk_Get E b)(pk \<mapsto> AccountState_ToBytes (heap md ! a))"
    using put_state [OF assms(1)] Cons.prems(1) by (metis known_def)
  obtain b' where b': "push_loop E (zip (map Some (pk2 # pks)) [Suc c..<Suc (Suc c) + length pks])
        (svcq ms md (get_reqs pks (Suc (Suc c))) (Suc c, Some (a2, None)) n, b1) = (Ok (), (svc ms md None n, b'))"
      "bk_Get E b' = pushed E (mem_state md) (pk2 # pks) (bk_Get E b1)"
    using Cons.IH [OF a2(2,3,1), of "Suc c" b1] by blast
  have "[c..<Suc c + length (pk2 # pks)] = c # [Suc c..<Suc (Suc c) + length pks]"
    by (simp add: upt_conv_Cons del: upt_Suc)
  then show ?case using b' b1 Cons.prems a2(1)
    by (simp add: recv_get handle_get_known del: upt_Suc get_reqs.simps pushed_simps(2) zip_Cons_Cons)
      (simp add: recv_get handle_get_known del: upt_Suc get_reqs.simps)
qed

text \<open>A push writes the states of memory to the database and leaves memory as it was.\<close>

lemma PushAccounts_ok:
  assumes "bolt_ok E" "bucket_ok accountsBucket (w_db w)" "idle (w_mem w)"
    "list_all (known E (stateMem (w_mem w))) pks" "length pks \<le> 11"
  obtains db n where "PushAccounts E (map Some pks) w =
      (Ok (), w\<lparr>w_mem := svc (w_mem w) (stateMem (w_mem w)) None n, w_db := db\<rparr>)"
    "bucket_get E accountsBucket db
       = pushed E (mem_state (stateMem (w_mem w))) pks (bucket_get E accountsBucket (w_db w))"
    "\<forall>name. bucket_ok name db = bucket_ok name (w_db w)"
    "\<forall>name. name \<noteq> accountsBucket \<longrightarrow> bucket_get E name db = bucket_get E name (w_db w)"
proof -
  let ?ms = "w_mem w" let ?md = "stateMem ?ms" let ?n = "nextCh ?ms" let ?db = "w_db w"
  obtain b where b: "map_of (innerDb ?db) accountsBucket = Some b" using assms(2) by (auto simp: bucket_ok_def)
  have bg: "bucket_get E accountsBucket ?db = bk_Get E b" using b by (simp add: bucket_get_def fun_eq_iff)
  have "\<exists>chs ms1 b'. push_requests E (map Some pks) ?ms = (Ok chs, ms1)
      \<and> push_loop E (zip (map Some pks) chs) (ms1, b) = (Ok (), (svc ?ms ?md None (?n + length pks), b'))
      \<and> bk_Get E b' = pushed E (mem_state ?md) pks (bk_Get E b)"
  proof (cases pks)
    case Nil
    then show ?thesis using svc_idle [OF assms(3)] by (simp add: exI [of _ b])
  next
    case (Cons pk pks')
    then obtain a where a: "map_of (dbMap ?md) (b58_Encode E pk) = Some a" "known E ?md pk"
        "list_all (known E ?md) pks'"
      using assms(4) knownD [of E ?md pk] by auto
    have "push_requests E (map Some pks) (svc ?ms ?md None ?n) = (Ok [?n..<Suc ?n + length pks'],
        svcq ?ms ?md (get_reqs pks' (Suc ?n)) (?n, Some (a, None)) (Suc ?n + length pks'))"
      using Cons assms(5) a GetAccountState_first [OF handle_get_known [OF a(1)], of ?ms ?n]
        push_requests_busy [of "[]" pks' E ?ms ?md "(?n, Some (a, None))" "Suc ?n"]
      by (simp add: upt_conv_Cons del: upt_Suc)
    then show ?thesis
      using push_loop_ok [OF assms(1) a(2,3,1), of ?n ?ms "Suc ?n + length pks'" b] Cons
      unfolding svc_idle [OF assms(3)] by auto
  qed
  then obtain chs ms1 b' where p: "push_requests E (map Some pks) ?ms = (Ok chs, ms1)"
      "push_loop E (zip (map Some pks) chs) (ms1, b) = (Ok (), (svc ?ms ?md None (?n + length pks), b'))"
      "bk_Get E b' = pushed E (mem_state ?md) pks (bk_Get E b)" by blast
  let ?db' = "?db\<lparr>innerDb := AList.update accountsBucket b' (innerDb ?db)\<rparr>"
  have "PushAccounts E (map Some pks) w = (Ok (), w\<lparr>w_mem := svc ?ms ?md None (?n + length pks), w_db := ?db'\<rparr>)"
    using p b db_Update_commit [OF assms(1) b, of "\<lambda>_. Ok b'" b'] by (simp add: PushAccounts_def)
  then show ?thesis using that [of ?db' "?n + length pks"] p(3) bg assms(2) by (auto simp: bucket_update)
qed

lemma PushAccounts_blocked:
  assumes "idle (w_mem w)" "11 < length pks" "known E (stateMem (w_mem w)) (hd pks)"
  shows "\<exists>w'. PushAccounts E (map Some pks) w = (Blocked, w')"
proof -
  let ?ms = "w_mem w" let ?md = "stateMem ?ms" let ?n = "nextCh ?ms"
  obtain pk pks' where pks: "pks = pk # pks'" using assms(2) by (cases pks) auto
  then obtain a where a: "map_of (dbMap ?md) (b58_Encode E pk) = Some a" using assms(3) by (auto simp: known_def)
  have "\<exists>ms'. push_requests E (map Some pks') (svcq ?ms ?md [] (?n, Some (a, None)) (Suc ?n)) = (Blocked, ms')"
    by (rule push_requests_overflow) (use assms(2) pks in auto)
  then obtain ms' where "push_requests E (map Some pks) (svc ?ms ?md None ?n) = (Blocked, ms')"
    using pks GetAccountState_first [OF handle_get_known [OF a], of ?ms ?n] by auto
  then have "push_requests E (map Some pks) ?ms = (Blocked, ms')" unfolding svc_idle [OF assms(1)] .
  then show ?thesis by (simp add: PushAccounts_def)
qed

end
