(* ===== verification/Rpc.thy ===== *)
theory Rpc
  imports Codec
begin

text \<open>
  Package \<open>rpc\<close> (\<open>src/rpc\<close>): the calls a transaction carries. A kind is a byte, because
  \<open>json.Unmarshal\<close> stores any byte in it; \<open>Call_Verify\<close> refuses the kinds that are not defined
  and checks the parameters of the others.
\<close>

type_synonym RpcKind = char

definition Rpc_Airdrop :: RpcKind where "Rpc_Airdrop = CHR 0x01"
definition Rpc_Transfer :: RpcKind where "Rpc_Transfer = CHR 0x02"
definition Rpc_GetAccountState :: RpcKind where "Rpc_GetAccountState = CHR 0x03"

definition UnsignedRpc :: char where "UnsignedRpc = CHR 0x00"
definition SifnedRpc :: char where "SifnedRpc = CHR 0x01"

record Call =
  ca_Call :: RpcKind
  ca_Params :: slice

record AirdropParam =
  ad_Amount :: uint64

record TransferParam =
  tp_Amount :: uint64
  tp_To :: slice

definition NewCall :: "RpcKind \<Rightarrow> slice \<Rightarrow> Call" where
  "NewCall call param = \<lparr>ca_Call = call, ca_Params = param\<rparr>"

definition NewAirdropParam :: "uint64 \<Rightarrow> AirdropParam" where
  "NewAirdropParam amount = \<lparr>ad_Amount = amount\<rparr>"

definition NewTransferParam :: "uint64 \<Rightarrow> slice \<Rightarrow> TransferParam" where
  "NewTransferParam amount to = \<lparr>tp_Amount = amount, tp_To = to\<rparr>"

subsection \<open>Encoding\<close>

definition Call_to_json :: "Call \<Rightarrow> json" where
  "Call_to_json c = JObj [(''Call'', enc_byte (ca_Call c)), (''Params'', enc_bytes (ca_Params c))]"

definition Call_fields :: "Call fields" where
  "Call_fields =
     [(''Call'', \<lambda>j c. map_option (\<lambda>x. c\<lparr>ca_Call := x\<rparr>) (dec_byte j (ca_Call c))),
      (''Params'', \<lambda>j c. map_option (\<lambda>x. c\<lparr>ca_Params := x\<rparr>) (dec_bytes j (ca_Params c)))]"

definition Call_Unmarshal :: "bytes \<Rightarrow> Call go" where
  "Call_Unmarshal raw = Unmarshal (dec_struct Call_fields) \<lparr>ca_Call = CHR 0x00, ca_Params = None\<rparr> raw"

definition AirdropParam_to_json :: "AirdropParam \<Rightarrow> json" where
  "AirdropParam_to_json p = JObj [(''Amount'', enc_uint (ad_Amount p))]"

definition AirdropParam_fields :: "AirdropParam fields" where
  "AirdropParam_fields =
     [(''Amount'', \<lambda>j p. map_option (\<lambda>x. p\<lparr>ad_Amount := x\<rparr>) (dec_uint j (ad_Amount p)))]"

definition AirdropParam_Unmarshal :: "bytes \<Rightarrow> AirdropParam go" where
  "AirdropParam_Unmarshal raw = Unmarshal (dec_struct AirdropParam_fields) \<lparr>ad_Amount = 0\<rparr> raw"

definition TransferParam_to_json :: "TransferParam \<Rightarrow> json" where
  "TransferParam_to_json p =
     JObj [(''Amount'', enc_uint (tp_Amount p)), (''To'', enc_bytes (tp_To p))]"

definition TransferParam_fields :: "TransferParam fields" where
  "TransferParam_fields =
     [(''Amount'', \<lambda>j p. map_option (\<lambda>x. p\<lparr>tp_Amount := x\<rparr>) (dec_uint j (tp_Amount p))),
      (''To'', \<lambda>j p. map_option (\<lambda>x. p\<lparr>tp_To := x\<rparr>) (dec_bytes j (tp_To p)))]"

definition TransferParam_Unmarshal :: "bytes \<Rightarrow> TransferParam go" where
  "TransferParam_Unmarshal raw =
     Unmarshal (dec_struct TransferParam_fields) \<lparr>tp_Amount = 0, tp_To = None\<rparr> raw"

subsection \<open>Verification\<close>

definition VerifyGetAccountStateCall :: "Call \<Rightarrow> bool" where
  "VerifyGetAccountStateCall call \<longleftrightarrow>
     ca_Call call = Rpc_GetAccountState \<and> slice_len (ca_Params call) = PublicKeySize"

definition VerifyTransferCall :: "Call \<Rightarrow> bool" where
  "VerifyTransferCall call \<longleftrightarrow>
     (if ca_Call call \<noteq> Rpc_Transfer then False
      else (case TransferParam_Unmarshal (bytes_of (ca_Params call)) of
          Ok param \<Rightarrow> tp_Amount param > 0 \<and> tp_Amount param < GeneratorBalance
            \<and> slice_len (tp_To param) = PublicKeySize
        | _ \<Rightarrow> False))"

definition VerifyAirdropCall :: "Call \<Rightarrow> bool" where
  "VerifyAirdropCall call \<longleftrightarrow>
     (if ca_Call call \<noteq> Rpc_Airdrop then False
      else (case AirdropParam_Unmarshal (bytes_of (ca_Params call)) of
          Ok param \<Rightarrow> ad_Amount param > 0 \<and> ad_Amount param < GeneratorBalance
        | _ \<Rightarrow> False))"

definition Call_Verify :: "Call \<Rightarrow> bool" where
  "Call_Verify c \<longleftrightarrow>
     (if ca_Call c = Rpc_GetAccountState then VerifyGetAccountStateCall c
      else if ca_Call c = Rpc_Airdrop then VerifyAirdropCall c
      else if ca_Call c = Rpc_Transfer then VerifyTransferCall c
      else False)"

lemmas rpc_kinds = Rpc_Airdrop_def Rpc_Transfer_def Rpc_GetAccountState_def
lemmas rpc_verify_defs = Call_Verify_def VerifyAirdropCall_def VerifyTransferCall_def
  VerifyGetAccountStateCall_def

subsection \<open>Lemmas\<close>

lemma rpc_names [simp]: "good_str ''Call''" "good_str ''Params''" "good_str ''Amount''" "good_str ''To''"
  by (rule good_str_plain, simp add: plain_def)+

interpretation call_codec: codec Call_to_json "dec_struct Call_fields"
  "\<lparr>ca_Call = CHR 0x00, ca_Params = None\<rparr>" "\<lambda>_. True"
  by unfold_locales (simp_all add: Call_to_json_def Call_fields_def find_field_def)

interpretation airdrop_codec: codec AirdropParam_to_json "dec_struct AirdropParam_fields"
  "\<lparr>ad_Amount = 0\<rparr>" "\<lambda>_. True"
  by unfold_locales
    (simp_all add: AirdropParam_to_json_def AirdropParam_fields_def find_field_def)

interpretation transfer_codec: codec TransferParam_to_json "dec_struct TransferParam_fields"
  "\<lparr>tp_Amount = 0, tp_To = None\<rparr>" "\<lambda>_. True"
  by unfold_locales
    (simp_all add: TransferParam_to_json_def TransferParam_fields_def find_field_def)

lemma rpc_roundtrip [simp]:
  "Call_Unmarshal (Marshal Call_to_json c) = Ok c"
  "AirdropParam_Unmarshal (Marshal AirdropParam_to_json a) = Ok a"
  "TransferParam_Unmarshal (Marshal TransferParam_to_json t) = Ok t"
  by (simp_all add: Call_Unmarshal_def AirdropParam_Unmarshal_def TransferParam_Unmarshal_def
      call_codec.roundtrip airdrop_codec.roundtrip transfer_codec.roundtrip)

text \<open>What a client sends is verified exactly when its amount and its receiver are in range.\<close>

lemma Call_Verify_airdrop:
  "Call_Verify (NewCall Rpc_Airdrop (Some (Marshal AirdropParam_to_json p)))
     \<longleftrightarrow> 0 < ad_Amount p \<and> ad_Amount p < GeneratorBalance"
  by (simp add: rpc_verify_defs NewCall_def rpc_kinds)

lemma Call_Verify_transfer:
  "Call_Verify (NewCall Rpc_Transfer (Some (Marshal TransferParam_to_json p)))
     \<longleftrightarrow> 0 < tp_Amount p \<and> tp_Amount p < GeneratorBalance \<and> slice_len (tp_To p) = PublicKeySize"
  by (simp add: rpc_verify_defs NewCall_def rpc_kinds)

text \<open>A verified airdrop or transfer decodes, so the executer's second decoding cannot fail.\<close>

lemma Call_Verify_decodes:
  assumes "Call_Verify c"
  shows "ca_Call c = Rpc_Airdrop \<Longrightarrow>
      \<exists>p. AirdropParam_Unmarshal (bytes_of (ca_Params c)) = Ok p \<and> 0 < ad_Amount p"
    and "ca_Call c = Rpc_Transfer \<Longrightarrow>
      \<exists>p. TransferParam_Unmarshal (bytes_of (ca_Params c)) = Ok p \<and> 0 < tp_Amount p
        \<and> slice_len (tp_To p) = 32"
  using assms by (auto simp: rpc_verify_defs rpc_kinds PublicKeySize_def split: if_splits go.splits)


text \<open>The size of an encoded transfer, far below the limit of a payload.\<close>

lemma length_TransferParam: "length (Marshal TransferParam_to_json p) \<le> 60 + 2 * slice_len (tp_To p)"
proof -
  have "unat (tp_Amount p) < 2 ^ LENGTH(64)" by (rule unsigned_less)
  then have "length (dec_digits (unat (tp_Amount p))) \<le> 20"
    using length_dec_digits [of "unat (tp_Amount p)" 19] by simp
  then show ?thesis using length_b64_encode [of "bytes_of (tp_To p)"]
    by (cases "tp_To p") (simp_all add: Marshal_def TransferParam_to_json_def enc_uint_def enc_bytes_def plain_def)
qed

lemma length_Call: "length (Marshal Call_to_json c) \<le> 60 + 2 * slice_len (ca_Params c)"
proof -
  have "code (ca_Call c) < 10 ^ Suc 2" by (rule less_trans [OF code_less]) simp
  then have "length (dec_digits (code (ca_Call c))) \<le> 3"
    using length_dec_digits [of "code (ca_Call c)" 2] by simp
  then show ?thesis using length_b64_encode [of "bytes_of (ca_Params c)"]
    by (cases "ca_Params c") (simp_all add: Marshal_def Call_to_json_def enc_byte_def enc_bytes_def plain_def)
qed

end
