(* ===== verification/Executer.thy ===== *)
theory Executer
  imports Storage Rpc
begin

text \<open>
  Package \<open>executers\<close>, execution of transactions (\<open>src/executers/executer.go\<close>,
  \<open>src/executers/faucet.go\<close>). \<open>airdropImpl\<close> and \<open>transferImpl\<close> ask the memory service for both
  accounts before they read either reply, and leave as soon as a check fails; a reply nobody
  reads leaves the service waiting. The slice of transactions is updated in place (\<open>Status\<close>), so
  \<open>ExecuteNow\<close> returns the transactions as well.
\<close>

subsection \<open>Faucet\<close>

record Faucet = generator :: slice

definition NewFaucet :: Faucet where
  "NewFaucet = \<lparr>generator = None\<rparr>"

definition Faucet_Init :: "('d, 'z) senv_scheme \<Rightarrow> int64 \<Rightarrow> Faucet \<Rightarrow> ('d world, Faucet) comp" where
  "Faucet_Init E now f w =
     st_bind (st_out (StorageService_get E BlocksBucket RefIndex (Some (replicate 8 (CHR 0x00))) (w_db w)))
     (\<lambda>v. case v of
        None \<Rightarrow> st_out (Ok f)
      | Some raw \<Rightarrow>
          st_bind (st_out (Block_Unmarshal raw)) (\<lambda>blk.
          st_bind (st_out (StorageService_get E AccountsBucket RefKey (bi_PublicKey (bl_Info blk)) (w_db w)))
          (\<lambda>acc.
             st_bind (case acc of
                 Some _ \<Rightarrow> st_out (Ok ())
               | None \<Rightarrow> on_db (StorageService_put E AccountsBucket (Some (AccountContent
                   \<lparr>ac_PublicKey = bi_PublicKey (bl_Info blk),
                    ac_State = \<lparr>as_Nonce = 0, as_Balance = GeneratorBalance\<rparr>,
                    ac_Timestamp = now\<rparr>))))
             (\<lambda>_. st_out (Ok (f\<lparr>generator := bi_PublicKey (bl_Info blk)\<rparr>)))))) w"

definition Faucet_Generator :: "Faucet \<Rightarrow> slice go" where
  "Faucet_Generator f = (if generator f = None then Err ''generator is not initialized yet''
     else Ok (generator f))"

subsection \<open>Sets of keys\<close>

type_synonym publicKeys = "slice list"

definition publicKeys_add :: "slice \<Rightarrow> publicKeys \<Rightarrow> publicKeys" where
  "publicKeys_add pubKey pk = (if \<not> list_ex (\<lambda>k. bytes_Equal pubKey k) pk then pk @ [pubKey] else pk)"

subsection \<open>The two calls\<close>

text \<open>A field access through the pointer \<open><-ch\<close> received panics when it is \<open>nil\<close>.\<close>

definition deref :: "reply \<Rightarrow> (addr \<times> string option) go" where
  "deref rep = (case rep of None \<Rightarrow> Panic ''nil pointer dereference'' | Some r \<Rightarrow> Ok r)"

definition guard :: "bool \<Rightarrow> string \<Rightarrow> unit go" where
  "guard ok e = (if ok then Ok () else Err e)"

text \<open>Both implementations end by putting the two states back and reading both replies.\<close>

definition putBoth :: "'z lib_scheme \<Rightarrow> slice \<Rightarrow> addr \<Rightarrow> slice \<Rightarrow> addr \<Rightarrow> (MemoryService, unit) comp" where
  "putBoth E from fromState to toState =
     st_bind (MemoryService_PutAccountState E from (Some fromState)) (\<lambda>fromCh.
     st_bind (MemoryService_PutAccountState E to (Some toState)) (\<lambda>toCh.
     st_bind (recv_state E fromCh) (\<lambda>_.
     st_bind (recv_state E toCh) (\<lambda>_. st_out (Ok ())))))"

definition airdropImpl ::
  "'z lib_scheme \<Rightarrow> slice \<Rightarrow> uint64 \<Rightarrow> slice \<Rightarrow> uint64 \<Rightarrow> (MemoryService, unit) comp" where
  "airdropImpl E to nonce from amount =
     st_bind (MemoryService_GetAccountState E from) (\<lambda>fromCh.
     st_bind (MemoryService_GetAccountState E to) (\<lambda>toCh.
     st_bind (recv_state E fromCh) (\<lambda>fromRep.
     st_bind (st_out (deref fromRep)) (\<lambda>(fromState, fromErr).
     case fromErr of Some e \<Rightarrow> st_out (Err e) | None \<Rightarrow>
     st_bind (recv_state E toCh) (\<lambda>toRep.
     st_bind (st_out (deref toRep)) (\<lambda>(toState, toErr).
     st_bind (on_state toState (AccountState_CheckNonce nonce)) (\<lambda>ok.
     st_bind (st_out (guard ok ''nonce is Invalid'')) (\<lambda>_.
     st_bind (on_state fromState (AccountState_Subtract amount)) (\<lambda>ok.
     st_bind (st_out (guard ok ''not enough balance'')) (\<lambda>_.
     st_bind (on_state toState (AccountState_Add amount)) (\<lambda>ok.
     st_bind (st_out (guard ok ''overflow'')) (\<lambda>_.
     putBoth E from fromState to toState))))))))))))"

definition transferImpl ::
  "'z lib_scheme \<Rightarrow> slice \<Rightarrow> uint64 \<Rightarrow> slice \<Rightarrow> uint64 \<Rightarrow> (MemoryService, unit) comp" where
  "transferImpl E from nonce to amount =
     st_bind (MemoryService_GetAccountState E from) (\<lambda>fromCh.
     st_bind (MemoryService_GetAccountState E to) (\<lambda>toCh.
     st_bind (recv_state E fromCh) (\<lambda>fromRep.
     st_bind (st_out (deref fromRep)) (\<lambda>(fromState, fromErr).
     case fromErr of Some e \<Rightarrow> st_out (Err e) | None \<Rightarrow>
     st_bind (on_state fromState (AccountState_CheckNonce nonce)) (\<lambda>ok.
     st_bind (st_out (guard ok ''nonce is Invalid'')) (\<lambda>_.
     st_bind (recv_state E toCh) (\<lambda>toRep.
     st_bind (st_out (deref toRep)) (\<lambda>(toState, toErr).
     case toErr of Some e \<Rightarrow> st_out (Err e) | None \<Rightarrow>
     st_bind (on_state fromState (AccountState_Subtract amount)) (\<lambda>ok.
     st_bind (st_out (guard ok ''not enough balance'')) (\<lambda>_.
     st_bind (on_state toState (AccountState_Add amount)) (\<lambda>ok.
     st_bind (st_out (guard ok ''overflow'')) (\<lambda>_.
     putBoth E from fromState to toState))))))))))))"

text \<open>The error of the call, and the keys it adds to \<open>executed\<close> and to \<open>dirty\<close>.\<close>

definition executeAirdrop ::
  "'z lib_scheme \<Rightarrow> Faucet \<Rightarrow> slice \<Rightarrow> slice \<Rightarrow> uint64 \<Rightarrow> publicKeys \<Rightarrow> MemoryService
     \<Rightarrow> (unit go \<times> publicKeys \<times> publicKeys) \<times> MemoryService" where
  "executeAirdrop E f rawParam caller nonce executed ms =
     (case AirdropParam_Unmarshal (bytes_of rawParam) of
        Ok param \<Rightarrow>
          (case Faucet_Generator f of
             Ok gen \<Rightarrow>
               (case airdropImpl E caller nonce gen (ad_Amount param) ms of
                  (Ok _, ms') \<Rightarrow>
                    ((Ok (), publicKeys_add gen (publicKeys_add caller executed), []), ms')
                | (r, ms') \<Rightarrow>
                    ((r, executed, publicKeys_add gen (publicKeys_add caller [])), ms'))
           | Err e \<Rightarrow> ((Err e, executed, []), ms)
           | Panic p \<Rightarrow> ((Panic p, executed, []), ms) | Blocked \<Rightarrow> ((Blocked, executed, []), ms))
      | _ \<Rightarrow> ((Err ''failed to umarshal airdrop param, should be checked before execute'',
               executed, []), ms))"

definition executeTransfer ::
  "'z lib_scheme \<Rightarrow> slice \<Rightarrow> slice \<Rightarrow> uint64 \<Rightarrow> publicKeys \<Rightarrow> MemoryService
     \<Rightarrow> (unit go \<times> publicKeys \<times> publicKeys) \<times> MemoryService" where
  "executeTransfer E rawParam caller nonce executed ms =
     (case TransferParam_Unmarshal (bytes_of rawParam) of
        Ok param \<Rightarrow>
          (case transferImpl E caller nonce (tp_To param) (tp_Amount param) ms of
             (Ok _, ms') \<Rightarrow>
               ((Ok (), publicKeys_add (tp_To param) (publicKeys_add caller executed), []), ms')
           | (r, ms') \<Rightarrow>
               ((r, executed, publicKeys_add (tp_To param) (publicKeys_add caller [])), ms'))
      | _ \<Rightarrow> ((Err ''failed to umarshal transfer param, should be checked before execute'',
               executed, []), ms))"

subsection \<open>Blocks of transactions\<close>

definition Executer_revert ::
  "('d, 'z) senv_scheme \<Rightarrow> publicKeys \<Rightarrow> string \<Rightarrow> ('d world, unit) comp" where
  "Executer_revert E dirty prevError w = (case FetchAccounts E dirty w of
       (Err e, w') \<Rightarrow> (Err (''original error: '' @ prevError
          @ '', another error accoured on revert: '' @ e), w')
     | (r, w') \<Rightarrow> (r, w'))"

text \<open>One iteration of the loop up to \<open>revert\<close>: \<open>None\<close> where the code continues.\<close>

definition executeTx ::
  "'z lib_scheme \<Rightarrow> Faucet \<Rightarrow> Transaction \<Rightarrow> publicKeys \<Rightarrow> MemoryService
     \<Rightarrow> (unit go \<times> publicKeys \<times> publicKeys) option \<times> MemoryService" where
  "executeTx E f tx executed ms =
     (case Call_Unmarshal (bytes_of (td_Data (tx_InnerData tx))) of
        Ok call \<Rightarrow>
          if \<not> Call_Verify call then (None, ms)
          else if ca_Call call = Rpc_Airdrop then
            apfst Some (executeAirdrop E f (ca_Params call) (td_PublicKey (tx_InnerData tx))
              (td_Nonce (tx_InnerData tx)) executed ms)
          else if ca_Call call = Rpc_Transfer then
            apfst Some (executeTransfer E (ca_Params call) (td_PublicKey (tx_InnerData tx))
              (td_Nonce (tx_InnerData tx)) executed ms)
          else (None, ms)
      | _ \<Rightarrow> (None, ms))"

fun ExecuteNow_loop ::
  "('d, 'z) senv_scheme \<Rightarrow> Faucet \<Rightarrow> Transaction list \<Rightarrow> publicKeys
     \<Rightarrow> ('d world, publicKeys \<times> Transaction list) comp" where
  "ExecuteNow_loop E f [] executed w = (Ok (executed, []), w)"
| "ExecuteNow_loop E f (tx # txs) executed w =
     (case executeTx E f tx executed (w_mem w) of
        (None, ms) \<Rightarrow>
          st_bind (ExecuteNow_loop E f txs executed)
            (\<lambda>(ex, ts). st_out (Ok (ex, tx # ts))) (w\<lparr>w_mem := ms\<rparr>)
      | (Some (Ok _, executed', dirty), ms) \<Rightarrow>
          st_bind (ExecuteNow_loop E f txs executed')
            (\<lambda>(ex, ts). st_out (Ok (ex, tx\<lparr>tx_Status := True\<rparr> # ts))) (w\<lparr>w_mem := ms\<rparr>)
      | (Some (Err err, executed', dirty), ms) \<Rightarrow>
          st_bind (Executer_revert E dirty err)
            (\<lambda>_. st_bind (ExecuteNow_loop E f txs executed')
              (\<lambda>(ex, ts). st_out (Ok (ex, tx\<lparr>tx_Status := False, tx_Status := True\<rparr> # ts))))
            (w\<lparr>w_mem := ms\<rparr>)
      | (Some (Panic p, executed', dirty), ms) \<Rightarrow> (Panic p, w\<lparr>w_mem := ms\<rparr>)
      | (Some (Blocked, executed', dirty), ms) \<Rightarrow> (Blocked, w\<lparr>w_mem := ms\<rparr>))"

definition ExecuteNow ::
  "('d, 'z) senv_scheme \<Rightarrow> Faucet \<Rightarrow> Transaction list
     \<Rightarrow> ('d world, publicKeys \<times> Transaction list) comp" where
  "ExecuteNow E f transactions = ExecuteNow_loop E f transactions []"

text \<open>
  \<open>Execute\<close> runs the transactions and starts a goroutine that waits on the channel it returns;
  what that goroutine holds is the list of executed keys. \<open>waitForFinality\<close> is its reaction.
\<close>

definition Execute ::
  "('d, 'z) senv_scheme \<Rightarrow> Faucet \<Rightarrow> Transaction list
     \<Rightarrow> ('d world, publicKeys \<times> Transaction list) comp" where
  "Execute E f transactions = ExecuteNow E f transactions"

definition Executer_waitForFinality ::
  "('d, 'z) senv_scheme \<Rightarrow> publicKeys \<Rightarrow> bool \<Rightarrow> ('d world, unit) comp" where
  "Executer_waitForFinality E executed ok =
     (if ok then PushAccounts E executed else Executer_revert E executed ''block was rejected'')"


subsection \<open>What the two calls do to the ledger\<close>

text \<open>
  The calls over a ledger, a map from keys to states, with neither heap nor channels. A call that
  fails after its first write leaves that write behind.
\<close>

definition ledger_transfer :: "string \<Rightarrow> uint64 \<Rightarrow> string \<Rightarrow> uint64 \<Rightarrow> ledger \<Rightarrow> unit go \<times> ledger" where
  "ledger_transfer from nonce to amount L =
     (case L from of None \<Rightarrow> (Err ''not found the key'', L)
      | Some s \<Rightarrow>
        (case AccountState_CheckNonce nonce s of (ok, s1) \<Rightarrow>
         if \<not> ok then (Err ''nonce is Invalid'', L)
         else let L1 = L(from \<mapsto> s1) in
         if L1 to = None then (Err ''not found the key'', L1)
         else (case AccountState_Subtract amount s1 of (ok, s2) \<Rightarrow>
           if \<not> ok then (Err ''not enough balance'', L1)
           else let L2 = L1(from \<mapsto> s2) in
           (case AccountState_Add amount (the (L2 to)) of (ok, t) \<Rightarrow>
             if \<not> ok then (Err ''overflow'', L2) else (Ok (), L2(to \<mapsto> t))))))"

definition ledger_airdrop :: "string \<Rightarrow> uint64 \<Rightarrow> string \<Rightarrow> uint64 \<Rightarrow> ledger \<Rightarrow> unit go \<times> ledger" where
  "ledger_airdrop to nonce from amount L =
     (if L from = None then (Err ''not found the key'', L)
      else let t = (case L to of None \<Rightarrow> zeroState | Some t \<Rightarrow> t) in
        (case AccountState_CheckNonce nonce t of (ok, t1) \<Rightarrow>
         if \<not> ok then (Err ''nonce is Invalid'', L)
         else let L1 = (if L to = None then L else L(to \<mapsto> t1)) in
         (case AccountState_Subtract amount (the (L1 from)) of (ok, s2) \<Rightarrow>
           if \<not> ok then (Err ''not enough balance'', L1)
           else let L2 = L1(from \<mapsto> s2) in
           (case AccountState_Add amount (if L to = None then t1 else the (L2 to)) of (ok, t2) \<Rightarrow>
             if \<not> ok then (Err ''overflow'', L2) else (Ok (), L2(to \<mapsto> t2))))))"

text \<open>The transfers that read both replies: the sender is known and its nonce is the expected one.\<close>

definition nonce_ready :: "string \<Rightarrow> uint64 \<Rightarrow> ledger \<Rightarrow> bool" where
  "nonce_ready from nonce L \<longleftrightarrow> (\<exists>s. L from = Some s \<and> as_Nonce s = nonce)"

lemma CheckNonce_simps [simp]:
  "as_Nonce s = nonce \<Longrightarrow> AccountState_CheckNonce nonce s = (True, s\<lparr>as_Nonce := as_Nonce s + 1\<rparr>)"
  "as_Nonce s \<noteq> nonce \<Longrightarrow> AccountState_CheckNonce nonce s = (False, s)"
  by (simp_all add: AccountState_CheckNonce_def Let_def)

lemma Put_owned: "map_of (dbMap md) k = Some a \<Longrightarrow> MemoryDb_Put k a md = md"
  by (simp add: MemoryDb_Put_def AList_update_same)

lemma putBoth_svc:
  "putBoth E (Some f) a (Some t) b (svc ms md None n) =
     (Ok (), svc ms (MemoryDb_Put (b58_Encode E t) b (MemoryDb_Put (b58_Encode E f) a md)) None (Suc (Suc n)))"
  unfolding putBoth_def by (rule put_both)

lemmas impl_simps = on_state_svc recv_last deref_def guard_def putBoth_svc Put_owned

text \<open>
  An implementation lands on a specification when it has the same outcome, leaves the service
  idle and the memory well-formed, and the ledger in memory is the specified one.
\<close>

definition lands :: "MemoryService \<Rightarrow> unit go \<times> MemoryService \<Rightarrow> unit go \<times> ledger \<Rightarrow> bool" where
  "lands ms out spec \<longleftrightarrow> (\<exists>md n. out = (fst spec, svc ms md None n) \<and> mem_wf md \<and> mem_state md = snd spec)"

lemma landsI: "out = (r, svc ms md None n) \<Longrightarrow> spec = (r, L) \<Longrightarrow> mem_wf md \<Longrightarrow> mem_state md = L \<Longrightarrow> lands ms out spec"
  by (auto simp: lands_def)

text \<open>Every branch of a transfer from an idle service.\<close>

lemma transferImpl_ready:
  assumes "mem_wf md" "nonce_ready (b58_Encode E f) nonce (mem_state md)"
  shows "lands ms (transferImpl E (Some f) nonce (Some t) amount (svc ms md None n))
     (ledger_transfer (b58_Encode E f) nonce (b58_Encode E t) amount (mem_state md))"
proof -
  let ?fk = "b58_Encode E f" and ?tk = "b58_Encode E t"
  obtain a where a: "map_of (dbMap md) ?fk = Some a" "as_Nonce (heap md ! a) = nonce"
    using assms(2) by (auto simp: nonce_ready_def mem_state_def)
  let ?s = "heap md ! a" let ?s1 = "?s\<lparr>as_Nonce := as_Nonce ?s + 1\<rparr>"
  have al: "a < length (heap md)" using owned_less [OF assms(1) a(1)] .
  show ?thesis
  proof (cases "map_of (dbMap md) ?tk")
    case None
    then have "?tk \<noteq> ?fk" using a by auto
    obtain z md2 where md2: "handle_get E (Some t) md = (Some (z, Some ''not found the key''), md2)"
      "dbMap md2 = dbMap md" "mem_wf md2" "mem_state md2 = mem_state md"
      "fresh md2 z" "heap md2 ! z = zeroState" "\<forall>a < length (heap md). heap md2 ! a = heap md ! a"
      by (rule handle_get_unknown [OF None assms(1)])
    have impl: "transferImpl E (Some f) nonce (Some t) amount (svc ms md None n)
        = (Err ''not found the key'', svc ms (heap_upd a ?s1 md2) None (Suc (Suc n)))"
      unfolding transferImpl_def get_both [OF handle_get_known [OF a(1)] md2(1)]
      using a md2 al by (simp add: impl_simps)
    have spec: "ledger_transfer ?fk nonce ?tk amount (mem_state md)
        = (Err ''not found the key'', (mem_state md)(?fk \<mapsto> ?s1))"
      using None a \<open>?tk \<noteq> ?fk\<close> by (simp add: ledger_transfer_def Let_def)
    have "mem_state (heap_upd a ?s1 md2) = (mem_state md)(?fk \<mapsto> ?s1)"
      using mem_state_upd_owned [OF md2(3), of ?fk a] md2 a by simp
    then show ?thesis by (rule landsI [OF impl spec, rotated]) (simp add: md2(3))
  next
    case (Some b)
    have bl: "b < length (heap md)" using owned_less [OF assms(1) Some] .
    let ?md1 = "heap_upd a ?s1 md"
    have L1: "mem_wf ?md1" "mem_state ?md1 = (mem_state md)(?fk \<mapsto> ?s1)"
      using mem_state_upd_owned [OF assms(1) a(1)] assms(1) by simp_all
    obtain ok s2 where sub: "AccountState_Subtract amount ?s1 = (ok, s2)" by (cases "AccountState_Subtract amount ?s1")
    let ?md2 = "heap_upd a s2 ?md1"
    have L2: "mem_wf ?md2" "mem_state ?md2 = (mem_state md)(?fk \<mapsto> s2)"
      using mem_state_upd_owned [OF L1(1), of ?fk a s2] a L1 by simp_all
    obtain ok2 t2 where add: "AccountState_Add amount (heap ?md2 ! b) = (ok2, t2)"
      by (cases "AccountState_Add amount (heap ?md2 ! b)")
    let ?md3 = "heap_upd b t2 ?md2"
    have L3: "mem_wf ?md3" "mem_state ?md3 = (mem_state md)(?fk \<mapsto> s2, ?tk \<mapsto> t2)"
      using mem_state_upd_owned [OF L2(1), of ?tk b t2] Some L2 by simp_all
    have same: "\<not> ok \<Longrightarrow> ?md2 = ?md1" "\<not> ok2 \<Longrightarrow> ?md3 = ?md2"
      using sub add by (auto simp: account_defs Let_def heap_upd_def split: if_splits)
    have tk: "(mem_state ?md2) ?tk = Some (heap ?md2 ! b)" using Some by simp
    then have tk': "the (((mem_state md)(?fk \<mapsto> s2)) ?tk) = heap ?md2 ! b" by (simp only: L2(2) option.sel)
    have impl: "transferImpl E (Some f) nonce (Some t) amount (svc ms md None n) =
       (if \<not> ok then (Err ''not enough balance'', svc ms ?md2 None (Suc (Suc n)))
        else if \<not> ok2 then (Err ''overflow'', svc ms ?md3 None (Suc (Suc n)))
        else (Ok (), svc ms ?md3 None (Suc (Suc (Suc (Suc n))))))"
      unfolding transferImpl_def get_both [OF handle_get_known [OF a(1)] handle_get_known [OF Some]]
      using a Some sub add al by (simp add: impl_simps)
    have spec: "ledger_transfer ?fk nonce ?tk amount (mem_state md) =
       (if \<not> ok then (Err ''not enough balance'', (mem_state md)(?fk \<mapsto> ?s1))
        else if \<not> ok2 then (Err ''overflow'', (mem_state md)(?fk \<mapsto> s2))
        else (Ok (), (mem_state md)(?fk \<mapsto> s2, ?tk \<mapsto> t2)))"
      using a Some sub add tk' by (simp add: ledger_transfer_def Let_def)
    consider "\<not> ok" | "ok" "\<not> ok2" | "ok" "ok2" by blast
    then show ?thesis
    proof cases
      case 1
      then show ?thesis using impl spec same L1 by (intro landsI [of _ _ _ ?md1]) simp_all
    next
      case 2
      then show ?thesis using impl spec same L2 by (intro landsI [of _ _ _ ?md2]) simp_all
    next
      case 3
      then show ?thesis using impl spec L3 by (intro landsI [of _ _ _ ?md3]) simp_all
    qed
  qed
qed


text \<open>A transfer that stops before it reads the second reply leaves the service waiting.\<close>

lemma transferImpl_stuck:
  assumes "mem_wf md" "\<not> nonce_ready (b58_Encode E f) nonce (mem_state md)"
  shows "\<exists>md' r e. transferImpl E (Some f) nonce (Some t) amount (svc ms md None n)
       = (Err e, svc ms md' (Some (Suc n, r)) (Suc (Suc n))) \<and> mem_wf md' \<and> mem_state md' = mem_state md
     \<and> ledger_transfer (b58_Encode E f) nonce (b58_Encode E t) amount (mem_state md) = (Err e, mem_state md)"
proof (cases "map_of (dbMap md) (b58_Encode E f)")
  case None
  obtain z md1 where z: "handle_get E (Some f) md = (Some (z, Some ''not found the key''), md1)"
    using handle_get_unknown [OF None assms(1)] by metis
  obtain rt md2 where rt: "handle_get E (Some t) md1 = (rt, md2)" by (cases "handle_get E (Some t) md1")
  have "mem_wf md2" "mem_state md2 = mem_state md"
    using handle_get_state [OF z assms(1)] handle_get_state [OF rt] by simp_all
  then show ?thesis
    unfolding transferImpl_def get_both [OF z rt] using None by (auto simp: deref_def ledger_transfer_def)
next
  case (Some a)
  then have n: "as_Nonce (heap md ! a) \<noteq> nonce" using assms(2) by (auto simp: nonce_ready_def)
  obtain rt md2 where g: "handle_get E (Some t) md = (rt, md2)" by (cases "handle_get E (Some t) md")
  note st = handle_get_state [OF g assms(1)]
  have a: "heap md2 ! a = heap md ! a" using st(4) owned_less [OF assms(1) Some] by blast
  then have "heap_upd a (heap md ! a) md2 = md2" by (simp add: heap_upd_def flip: a)
  show ?thesis
    unfolding transferImpl_def get_both [OF handle_get_known [OF Some] g]
    using Some n a st(1,2) \<open>heap_upd a (heap md ! a) md2 = md2\<close> by (auto simp: impl_simps ledger_transfer_def)
qed

lemma ledger_airdrop_cases:
  assumes "L from \<noteq> None" "t = (case L to of None \<Rightarrow> zeroState | Some t \<Rightarrow> t)" "as_Nonce t = nonce"
    "t1 = t\<lparr>as_Nonce := as_Nonce t + 1\<rparr>" "L1 = (if L to = None then L else L(to \<mapsto> t1))"
    "AccountState_Subtract amount (the (L1 from)) = (ok, s2)"
    "AccountState_Add amount (if L to = None then t1 else the ((L1(from \<mapsto> s2)) to)) = (ok2, t2)"
  shows "ledger_airdrop to nonce from amount L =
     (if \<not> ok then (Err ''not enough balance'', L1)
      else if \<not> ok2 then (Err ''overflow'', L1(from \<mapsto> s2))
      else (Ok (), L1(from \<mapsto> s2, to \<mapsto> t2)))"
  unfolding ledger_airdrop_def Let_def assms(2) [symmetric] CheckNonce_simps(1) [OF assms(3)]
    assms(4) [symmetric] prod.case assms(5) [symmetric] assms(6,7)
  using assms(1) by auto

lemma airdropImpl_ready:
  assumes "mem_wf md" "mem_state md (b58_Encode E f) \<noteq> None"
  shows "lands ms (airdropImpl E (Some t) nonce (Some f) amount (svc ms md None n))
     (ledger_airdrop (b58_Encode E t) nonce (b58_Encode E f) amount (mem_state md))"
proof -
  let ?fk = "b58_Encode E f" and ?tk = "b58_Encode E t" and ?L = "mem_state md"
  obtain a where a: "map_of (dbMap md) ?fk = Some a" using assms(2) by (auto simp: mem_state_def)
  have al: "a < length (heap md)" using owned_less [OF assms(1) a] .
  \<comment> \<open>the recipient's object: the one of its key, or a fresh zero state\<close>
  obtain b te md0 where g: "handle_get E (Some t) md = (Some (b, te), md0)" and md0: "mem_wf md0"
      "mem_state md0 = ?L" "dbMap md0 = dbMap md"
      "heap md0 ! b = (case ?L ?tk of None \<Rightarrow> zeroState | Some t \<Rightarrow> t)" "b < length (heap md0)"
      "if ?L ?tk = None then fresh md0 b else map_of (dbMap md0) ?tk = Some b"
  proof (cases "map_of (dbMap md) ?tk")
    case None
    obtain z md' where "handle_get E (Some t) md = (Some (z, Some ''not found the key''), md')"
      "dbMap md' = dbMap md" "mem_wf md'" "mem_state md' = mem_state md" "fresh md' z" "heap md' ! z = zeroState"
      "\<forall>a < length (heap md). heap md' ! a = heap md ! a"
      by (rule handle_get_unknown [OF None assms(1)])
    with None that [of z "Some ''not found the key''" md'] show ?thesis by (simp add: fresh_def)
  next
    case (Some b)
    with that [of b None md] handle_get_known [OF Some] assms(1) owned_less [OF assms(1) Some] show ?thesis by simp
  qed
  let ?t = "heap md0 ! b" let ?t1 = "?t\<lparr>as_Nonce := as_Nonce ?t + 1\<rparr>"
  let ?L1 = "if ?L ?tk = None then ?L else ?L(?tk \<mapsto> ?t1)"
  have a0: "map_of (dbMap md0) ?fk = Some a" "a < length (heap md0)"
    using a md0 owned_less [OF md0(1)] by simp_all
  let ?md1 = "heap_upd b ?t1 md0"
  have L1: "mem_wf ?md1" "mem_state ?md1 = ?L1"
    using md0 mem_state_upd_owned [OF md0(1), of ?tk b] mem_state_upd_fresh [of md0 b] by (auto split: if_splits)
  let ?s = "heap ?md1 ! a"
  have "mem_state ?md1 ?fk = Some ?s" by (rule mem_state_owned(1)) (simp add: a0)
  then have fk: "the (?L1 ?fk) = ?s" unfolding L1(2) by (simp only: option.sel)
  obtain ok s2 where sub: "AccountState_Subtract amount ?s = (ok, s2)" by (cases "AccountState_Subtract amount ?s")
  let ?md2 = "heap_upd a s2 ?md1"
  have L2: "mem_wf ?md2" "mem_state ?md2 = ?L1(?fk \<mapsto> s2)"
    using mem_state_upd_owned [OF L1(1), of ?fk a s2] a0 L1 by simp_all
  obtain ok2 t2 where add: "AccountState_Add amount (heap ?md2 ! b) = (ok2, t2)"
    by (cases "AccountState_Add amount (heap ?md2 ! b)")
  have tk: "heap ?md2 ! b = (if ?L ?tk = None then ?t1 else the ((?L1(?fk \<mapsto> s2)) ?tk))"
  proof (cases "?L ?tk")
    case None
    then have "b \<noteq> a" using md0(6) fresh_not_owned a0(1) by (metis (full_types))
    then show ?thesis using None md0(5) by simp
  next
    case (Some t')
    then have "map_of (dbMap ?md2) ?tk = Some b" using md0(6) by simp
    then have "mem_state ?md2 ?tk = Some (heap ?md2 ! b)" by (rule mem_state_owned(1))
    with Some L2(2) show ?thesis by simp
  qed
  let ?md3 = "heap_upd b t2 ?md2"
  have L3: "mem_wf (MemoryDb_Put ?tk b ?md3)" "mem_state (MemoryDb_Put ?tk b ?md3) = ?L1(?fk \<mapsto> s2, ?tk \<mapsto> t2)"
  proof -
    have own: "fresh ?md3 b \<or> map_of (dbMap ?md3) ?tk = Some b" using md0(6) by (simp split: if_splits)
    then show "mem_wf (MemoryDb_Put ?tk b ?md3)" by (rule mem_wf_Put [rotated]) (use L2 in simp)
    have "mem_state (MemoryDb_Put ?tk b ?md3) = (mem_state ?md3)(?tk \<mapsto> t2)"
      using md0(5) by (simp add: mem_state_Put)
    moreover have "(mem_state ?md3)(?tk \<mapsto> t2) = (mem_state ?md2)(?tk \<mapsto> t2)"
      using own mem_state_upd_owned [OF L2(1), of ?tk b t2] mem_state_upd_fresh [of ?md2 b t2] by auto
    ultimately show "mem_state (MemoryDb_Put ?tk b ?md3) = ?L1(?fk \<mapsto> s2, ?tk \<mapsto> t2)"
      by (simp only: L2(2))
  qed
  show ?thesis
  proof (cases "as_Nonce ?t = nonce")
    case False
    have impl: "airdropImpl E (Some t) nonce (Some f) amount (svc ms md None n)
        = (Err ''nonce is Invalid'', svc ms (heap_upd b ?t md0) None (Suc (Suc n)))"
      unfolding airdropImpl_def get_both [OF handle_get_known [OF a] g]
      using False by (simp add: impl_simps)
    have spec: "ledger_airdrop ?tk nonce ?fk amount ?L = (Err ''nonce is Invalid'', ?L)"
      using False assms(2) md0(4) by (simp add: ledger_airdrop_def Let_def)
    have "heap_upd b ?t md0 = md0" by (simp add: heap_upd_def)
    then show ?thesis by (intro landsI [OF impl spec]) (simp_all add: md0)
  next
    case True
    have same: "\<not> ok \<Longrightarrow> ?md2 = ?md1" "\<not> ok2 \<Longrightarrow> ?md3 = ?md2"
      using sub add a0 md0(5) by (auto simp: account_defs Let_def heap_upd_def split: if_splits)
    have impl: "airdropImpl E (Some t) nonce (Some f) amount (svc ms md None n) =
       (if \<not> ok then (Err ''not enough balance'', svc ms ?md2 None (Suc (Suc n)))
        else if \<not> ok2 then (Err ''overflow'', svc ms ?md3 None (Suc (Suc n)))
        else (Ok (), svc ms (MemoryDb_Put ?tk b ?md3) None (Suc (Suc (Suc (Suc n))))))"
      unfolding airdropImpl_def get_both [OF handle_get_known [OF a] g]
      using True a0 sub add md0(5) by (simp add: impl_simps)
    have spec: "ledger_airdrop ?tk nonce ?fk amount ?L =
       (if \<not> ok then (Err ''not enough balance'', ?L1)
        else if \<not> ok2 then (Err ''overflow'', ?L1(?fk \<mapsto> s2))
        else (Ok (), ?L1(?fk \<mapsto> s2, ?tk \<mapsto> t2)))"
      by (rule ledger_airdrop_cases
          [of ?L ?fk ?t ?tk nonce ?t1 ?L1 amount ok s2 ok2 t2, OF assms(2) md0(4) True refl refl])
        (unfold fk tk [symmetric], rule sub, rule add)
    consider "\<not> ok" | "ok" "\<not> ok2" | "ok" "ok2" by blast
    then show ?thesis
    proof cases
      case 1
      then show ?thesis using impl spec same L1 by (intro landsI [of _ _ _ ?md1]) simp_all
    next
      case 2
      then show ?thesis using impl spec same L2 by (intro landsI [of _ _ _ ?md2]) simp_all
    next
      case 3
      then show ?thesis using impl spec L3 by (intro landsI [of _ _ _ "MemoryDb_Put ?tk b ?md3"]) simp_all
    qed
  qed
qed


lemma airdropImpl_stuck:
  assumes "mem_wf md" "mem_state md (b58_Encode E f) = None"
  shows "\<exists>md' r. airdropImpl E (Some t) nonce (Some f) amount (svc ms md None n)
       = (Err ''not found the key'', svc ms md' (Some (Suc n, r)) (Suc (Suc n)))
     \<and> mem_wf md' \<and> mem_state md' = mem_state md"
proof -
  have None: "map_of (dbMap md) (b58_Encode E f) = None" using assms(2) by (simp add: mem_state_def)
  obtain z md1 where z: "handle_get E (Some f) md = (Some (z, Some ''not found the key''), md1)"
    using handle_get_unknown [OF None assms(1)] by metis
  obtain rt md2 where rt: "handle_get E (Some t) md1 = (rt, md2)" by (cases "handle_get E (Some t) md1")
  have "mem_wf md2" "mem_state md2 = mem_state md"
    using handle_get_state [OF z assms(1)] handle_get_state [OF rt] by simp_all
  then show ?thesis unfolding airdropImpl_def get_both [OF z rt] by (auto simp: deref_def)
qed

subsection \<open>Transactions as actions on the ledger\<close>

datatype action =
    NoCall
  | Failing string
  | Airdrop (drop_to: bytes) uint64 (drop_from: bytes) uint64
  | Transfer (move_from: bytes) uint64 (move_to: bytes) uint64

definition action_of :: "Faucet \<Rightarrow> Transaction \<Rightarrow> action" where
  "action_of f tx =
     (let d = tx_InnerData tx in
      case Call_Unmarshal (bytes_of (td_Data d)) of
        Ok call \<Rightarrow>
          if \<not> Call_Verify call then NoCall
          else if ca_Call call = Rpc_Airdrop then
            (case AirdropParam_Unmarshal (bytes_of (ca_Params call)) of
               Ok p \<Rightarrow> (case generator f of
                   None \<Rightarrow> Failing ''generator is not initialized yet''
                 | Some g \<Rightarrow> Airdrop (bytes_of (td_PublicKey d)) (td_Nonce d) g (ad_Amount p))
             | _ \<Rightarrow> NoCall)
          else if ca_Call call = Rpc_Transfer then
            (case TransferParam_Unmarshal (bytes_of (ca_Params call)) of
               Ok p \<Rightarrow> Transfer (bytes_of (td_PublicKey d)) (td_Nonce d) (bytes_of (tp_To p)) (tp_Amount p)
             | _ \<Rightarrow> NoCall)
          else NoCall
      | _ \<Rightarrow> NoCall)"

fun act_run :: "(bytes \<Rightarrow> string) \<Rightarrow> action \<Rightarrow> ledger \<Rightarrow> unit go \<times> ledger" where
  "act_run enc (Airdrop t n f amt) L = ledger_airdrop (enc t) n (enc f) amt L"
| "act_run enc (Transfer f n t amt) L = ledger_transfer (enc f) n (enc t) amt L"
| "act_run enc (Failing e) L = (Err e, L)"
| "act_run enc NoCall L = (Ok (), L)"

fun act_ready :: "(bytes \<Rightarrow> string) \<Rightarrow> action \<Rightarrow> ledger \<Rightarrow> bool" where
  "act_ready enc (Airdrop t n f amt) L \<longleftrightarrow> L (enc f) \<noteq> None"
| "act_ready enc (Transfer f n t amt) L \<longleftrightarrow> nonce_ready (enc f) n L"
| "act_ready enc a L \<longleftrightarrow> True"

fun act_keys :: "action \<Rightarrow> bytes list" where
  "act_keys (Airdrop t n f amt) = [t, f]"
| "act_keys (Transfer f n t amt) = [f, t]"
| "act_keys a = []"

definition add_key :: "bytes \<Rightarrow> bytes list \<Rightarrow> bytes list" where
  "add_key k ks = (if k \<in> set ks then ks else ks @ [k])"

definition add_keys :: "bytes list \<Rightarrow> bytes list \<Rightarrow> bytes list" where
  "add_keys new ks = fold add_key new ks"

lemma set_add_keys [simp]: "set (add_keys new ks) = set ks \<union> set new"
  unfolding add_keys_def by (induction new arbitrary: ks) (auto simp: add_key_def)

lemma distinct_add_keys: "distinct ks \<Longrightarrow> distinct (add_keys new ks)"
  unfolding add_keys_def by (induction new arbitrary: ks) (auto simp: add_key_def)

lemma length_add_keys: "length (add_keys new ks) \<le> length ks + length new"
  unfolding add_keys_def
proof (induction new arbitrary: ks)
  case (Cons k new)
  have "length (add_key k ks) \<le> Suc (length ks)" by (simp add: add_key_def)
  then show ?case using Cons [of "add_key k ks"] by simp
qed simp

lemma publicKeys_add_map: "publicKeys_add (Some k) (map Some ks) = map Some (add_key k ks)"
  by (auto simp: publicKeys_add_def add_key_def list_ex_iff bytes_Equal_def)

lemma publicKeys_add_two:
  "publicKeys_add (Some b) (publicKeys_add (Some a) (map Some ks)) = map Some (add_keys [a, b] ks)"
  "publicKeys_add (Some b) (publicKeys_add (Some a) []) = map Some (add_keys [a, b] [])"
  using publicKeys_add_map [of a "[]"] by (simp_all add: publicKeys_add_map add_keys_def)

text \<open>The outcome of one transaction, its keys, and the ledger: \<open>executeTx\<close> over an idle service.\<close>

lemma executeTx_none:
  shows "action_of f tx = NoCall \<Longrightarrow> executeTx E f tx ex ms = (None, ms)"
    and "action_of f tx = Failing e \<Longrightarrow> executeTx E f tx ex ms = (Some (Err e, ex, []), ms)"
proof -
  have "(action_of f tx = NoCall \<longrightarrow> executeTx E f tx ex ms = (None, ms)) \<and>
     (action_of f tx = Failing e \<longrightarrow> executeTx E f tx ex ms = (Some (Err e, ex, []), ms))"
  proof (cases "Call_Unmarshal (bytes_of (td_Data (tx_InnerData tx)))")
    case (Ok call)
    show ?thesis
    proof (cases "Call_Verify call \<and> (ca_Call call = Rpc_Airdrop \<or> ca_Call call = Rpc_Transfer)")
      case True
      then consider p where "ca_Call call = Rpc_Airdrop" "AirdropParam_Unmarshal (bytes_of (ca_Params call)) = Ok p"
        | p where "ca_Call call = Rpc_Transfer" "ca_Call call \<noteq> Rpc_Airdrop"
            "TransferParam_Unmarshal (bytes_of (ca_Params call)) = Ok p"
        using Call_Verify_decodes [of call] by (metis (full_types))
      then show ?thesis
        using Ok True by cases (cases "generator f"; simp add: action_of_def executeTx_def executeAirdrop_def
            Faucet_Generator_def Let_def)+
    qed (use Ok in \<open>auto simp: action_of_def executeTx_def Let_def\<close>)
  qed (simp_all add: action_of_def executeTx_def Let_def)
  then show "action_of f tx = NoCall \<Longrightarrow> executeTx E f tx ex ms = (None, ms)"
    "action_of f tx = Failing e \<Longrightarrow> executeTx E f tx ex ms = (Some (Err e, ex, []), ms)" by simp_all
qed

lemma executeTx_call:
  assumes "td_PublicKey (tx_InnerData tx) \<noteq> None" "action_of f tx = a" "act_keys a \<noteq> []"
    "(case a of Airdrop t n g amt \<Rightarrow> airdropImpl E (Some t) n (Some g) amt ms
      | Transfer g n t amt \<Rightarrow> transferImpl E (Some g) n (Some t) amt ms
      | _ \<Rightarrow> (r, ms')) = (r, ms')"
  shows "executeTx E f tx (map Some ks) ms = (Some (if r = Ok () then (Ok (), map Some (add_keys (act_keys a) ks), [])
       else (r, map Some ks, map Some (add_keys (act_keys a) []))), ms')"
proof (cases a)
  case (Airdrop t n g amt)
  with assms(2) obtain call p where c: "Call_Unmarshal (bytes_of (td_Data (tx_InnerData tx))) = Ok call" "Call_Verify call"
      "ca_Call call = Rpc_Airdrop" "AirdropParam_Unmarshal (bytes_of (ca_Params call)) = Ok p" "generator f = Some g"
      "t = bytes_of (td_PublicKey (tx_InnerData tx))" "td_Nonce (tx_InnerData tx) = n" "ad_Amount p = amt"
    by (auto simp: action_of_def Let_def split: go.splits if_splits option.splits)
  have "td_PublicKey (tx_InnerData tx) = Some t" using c(6) assms(1) by auto
  then show ?thesis using Airdrop c(1-5,7,8) assms(4)
    by (cases r) (simp_all add: executeTx_def executeAirdrop_def Faucet_Generator_def publicKeys_add_two)
next
  case (Transfer g n t amt)
  with assms(2) obtain call p where c: "Call_Unmarshal (bytes_of (td_Data (tx_InnerData tx))) = Ok call" "Call_Verify call"
      "ca_Call call = Rpc_Transfer" "TransferParam_Unmarshal (bytes_of (ca_Params call)) = Ok p" "t = bytes_of (tp_To p)"
      "g = bytes_of (td_PublicKey (tx_InnerData tx))" "td_Nonce (tx_InnerData tx) = n" "tp_Amount p = amt"
    by (auto simp: action_of_def Let_def split: go.splits if_splits option.splits)
  have "slice_len (tp_To p) = 32" using Call_Verify_decodes(2) [OF c(2,3)] c(4) by auto
  then have "tp_To p = Some t" using c(5) by (cases "tp_To p") auto
  moreover have "td_PublicKey (tx_InnerData tx) = Some g" using c(6) assms(1) by auto
  moreover have "Rpc_Transfer \<noteq> Rpc_Airdrop" by (simp add: rpc_kinds)
  ultimately show ?thesis using Transfer c(1-4,7,8) assms(4)
    by (cases r) (simp_all add: executeTx_def executeTransfer_def publicKeys_add_two)
qed (use assms in auto)


subsection \<open>Blocks of transactions as functions on the ledger\<close>

text \<open>
  \<open>ledger_tx\<close> and \<open>ledger_block\<close> say what a transaction and a block do to the ledger, given the
  names \<open>enc\<close> of the keys and the states \<open>sto\<close> the database holds; \<open>None\<close> when the code does not
  get to the end of the block.
\<close>

definition state_or_zero :: "AccountState go \<Rightarrow> AccountState" where
  "state_or_zero r = (case r of Ok s \<Rightarrow> s | _ \<Rightarrow> zeroState)"

definition is_Ok :: "'a go \<Rightarrow> bool" where
  "is_Ok r \<longleftrightarrow> (case r of Ok _ \<Rightarrow> True | _ \<Rightarrow> False)"

definition reverted ::
  "(bytes \<Rightarrow> string) \<Rightarrow> (bytes \<Rightarrow> AccountState go) \<Rightarrow> bytes list \<Rightarrow> ledger \<Rightarrow> ledger option" where
  "reverted enc sto ks L =
     (if list_all (\<lambda>k. is_Ok (sto k)) ks
      then Some (fold (\<lambda>k L. L(enc k \<mapsto> state_or_zero (sto k))) ks L) else None)"

definition ledger_tx ::
  "(bytes \<Rightarrow> string) \<Rightarrow> (bytes \<Rightarrow> AccountState go) \<Rightarrow> Faucet \<Rightarrow> Transaction \<Rightarrow> bytes list \<Rightarrow> ledger
     \<Rightarrow> (bytes list \<times> Transaction \<times> ledger) option" where
  "ledger_tx enc sto f tx ks L =
     (let a = action_of f tx; tx' = tx\<lparr>tx_Status := True\<rparr> in
      if a = NoCall then Some (ks, tx, L)
      else if \<not> act_ready enc a L then None
      else (case act_run enc a L of
          (Ok _, L') \<Rightarrow> Some (add_keys (act_keys a) ks, tx', L')
        | (_, L') \<Rightarrow> map_option (\<lambda>L''. (ks, tx', L'')) (reverted enc sto (add_keys (act_keys a) []) L')))"

fun ledger_block ::
  "(bytes \<Rightarrow> string) \<Rightarrow> (bytes \<Rightarrow> AccountState go) \<Rightarrow> Faucet \<Rightarrow> Transaction list \<Rightarrow> bytes list \<Rightarrow> ledger
     \<Rightarrow> (bytes list \<times> Transaction list \<times> ledger) option" where
  "ledger_block enc sto f [] ks L = Some (ks, [], L)"
| "ledger_block enc sto f (tx # txs) ks L =
     (case ledger_tx enc sto f tx ks L of None \<Rightarrow> None
      | Some (ks', tx', L') \<Rightarrow> map_option (\<lambda>(ks'', ts, L''). (ks'', tx' # ts, L'')) (ledger_block enc sto f txs ks' L'))"

lemma fetched_reverted:
  "fetched E (map (\<lambda>k. (k, state_or_zero (sto k))) ks) L
     = fold (\<lambda>k L. L(b58_Encode E k \<mapsto> state_or_zero (sto k))) ks L"
  by (induction ks arbitrary: L) auto

text \<open>A node between two blocks.\<close>

definition node_ok :: "('d, 'z) senv_scheme \<Rightarrow> 'd world \<Rightarrow> bool" where
  "node_ok E w \<longleftrightarrow> bolt_ok E \<and> bucket_ok accountsBucket (w_db w) \<and> idle (w_mem w) \<and> mem_wf (stateMem (w_mem w))"

abbreviation led :: "'d world \<Rightarrow> ledger" where
  "led w \<equiv> mem_state (stateMem (w_mem w))"

lemma Fetch_reverted:
  assumes "node_ok E w" "length ks \<le> 11"
  shows "case reverted (b58_Encode E) (db_state E (w_db w)) ks (led w) of
      None \<Rightarrow> \<forall>u. fst (FetchAccounts E (map Some ks) w) \<noteq> Ok u
    | Some L \<Rightarrow> \<exists>ms'. FetchAccounts E (map Some ks) w = (Ok (), w\<lparr>w_mem := ms'\<rparr>)
        \<and> node_ok E (w\<lparr>w_mem := ms'\<rparr>) \<and> mem_state (stateMem ms') = L"
proof (cases "list_all (\<lambda>k. is_Ok (db_state E (w_db w) k)) ks")
  case False
  then have "\<exists>k \<in> set ks. \<forall>s. db_state E (w_db w) k \<noteq> Ok s"
    by (auto simp: list_all_iff is_Ok_def split: go.splits)
  then have "fst (FetchAccounts E (map Some ks) w) \<noteq> Ok u" for u
    using FetchAccounts_decodes [of w E ks u] assms(1) by (metis node_ok_def prod.collapse)
  with False show ?thesis by (simp add: reverted_def)
next
  case True
  let ?st = "\<lambda>k. state_or_zero (db_state E (w_db w) k)"
  have "list_all2 (\<lambda>pk s. db_state E (w_db w) pk = Ok s) ks (map ?st ks)"
    using True by (auto simp: list_all2_map2 list_all2_same list_all_iff is_Ok_def state_or_zero_def split: go.splits)
  then obtain md n where "FetchAccounts E (map Some ks) w = (Ok (), w\<lparr>w_mem := svc (w_mem w) md None n\<rparr>)"
      "mem_wf md" "mem_state md = fetched E (zip ks (map ?st ks)) (led w)"
    using FetchAccounts_ok [of E w ks "map ?st ks"] assms by (auto simp: node_ok_def)
  then show ?thesis using True assms(1)
    by (auto simp: reverted_def node_ok_def zip_map2 zip_same_conv_map fetched_reverted [symmetric] comp_def)
qed


definition impl_of :: "'z lib_scheme \<Rightarrow> action \<Rightarrow> (MemoryService, unit) comp" where
  "impl_of E a = (case a of
       Airdrop t n g amt \<Rightarrow> airdropImpl E (Some t) n (Some g) amt
     | Transfer g n t amt \<Rightarrow> transferImpl E (Some g) n (Some t) amt
     | _ \<Rightarrow> st_out (Ok ()))"

text \<open>Whatever branch a call takes, the ledger in memory ends where the specification says.\<close>

lemma impl_of_refines:
  assumes "mem_wf md" "act_keys a \<noteq> []"
  shows "\<exists>md' p n'. impl_of E a (svc ms md None n) = (fst (act_run (b58_Encode E) a (mem_state md)), svc ms md' p n')
     \<and> mem_wf md' \<and> mem_state md' = snd (act_run (b58_Encode E) a (mem_state md))
     \<and> (p = None \<longleftrightarrow> act_ready (b58_Encode E) a (mem_state md))"
proof (cases "act_ready (b58_Encode E) a (mem_state md)")
  case True
  then have "lands ms (impl_of E a (svc ms md None n)) (act_run (b58_Encode E) a (mem_state md))"
    using assms by (cases a) (simp_all add: impl_of_def transferImpl_ready airdropImpl_ready)
  with True show ?thesis by (auto simp: lands_def)
next
  case False
  show ?thesis
  proof (cases a)
    case (Airdrop t m g amt)
    with False airdropImpl_stuck [OF assms(1), of E g t m amt ms n] obtain md' r
      where "airdropImpl E (Some t) m (Some g) amt (svc ms md None n)
         = (Err ''not found the key'', svc ms md' (Some (Suc n, r)) (Suc (Suc n)))"
        "mem_wf md'" "mem_state md' = mem_state md" by auto
    with Airdrop False show ?thesis
      by (intro exI [of _ md'] exI [of _ "Some (Suc n, r)"] exI [of _ "Suc (Suc n)"])
        (simp add: impl_of_def ledger_airdrop_def)
  next
    case (Transfer g m t amt)
    with False transferImpl_stuck [OF assms(1), of E g m t amt ms n] obtain md' r e
      where "transferImpl E (Some g) m (Some t) amt (svc ms md None n)
         = (Err e, svc ms md' (Some (Suc n, r)) (Suc (Suc n)))" "mem_wf md'" "mem_state md' = mem_state md"
        "ledger_transfer (b58_Encode E g) m (b58_Encode E t) amt (mem_state md) = (Err e, mem_state md)" by auto
    with Transfer False show ?thesis
      by (intro exI [of _ md'] exI [of _ "Some (Suc n, r)"] exI [of _ "Suc (Suc n)"]) (simp add: impl_of_def)
  qed (use assms in auto)
qed

text \<open>Both calls, ready or not.\<close>

lemma impl_of_ready:
  assumes "mem_wf md" "act_keys a \<noteq> []" "act_ready (b58_Encode E) a (mem_state md)"
  shows "lands ms (impl_of E a (svc ms md None n)) (act_run (b58_Encode E) a (mem_state md))"
  using assms by (cases a) (simp_all add: impl_of_def transferImpl_ready airdropImpl_ready)

lemma impl_of_stuck:
  assumes "mem_wf md" "act_keys a \<noteq> []" "\<not> act_ready (b58_Encode E) a (mem_state md)"
  obtains e md' r where "impl_of E a (svc ms md None n) = (Err e, svc ms md' (Some (Suc n, r)) (Suc (Suc n)))"
proof (cases a)
  case (Airdrop t m g amt)
  with that assms airdropImpl_stuck [of md E g t m amt ms n] show ?thesis by (auto simp: impl_of_def)
next
  case (Transfer g m t amt)
  with that assms transferImpl_stuck [of md E g m t amt ms n] show ?thesis by (auto simp: impl_of_def)
qed (use assms in auto)

lemma executeTx_impl:
  assumes "td_PublicKey (tx_InnerData tx) \<noteq> None" "act_keys (action_of f tx) \<noteq> []"
    "impl_of E (action_of f tx) ms = (r, ms')"
  shows "executeTx E f tx (map Some ks) ms =
     (Some (if r = Ok () then (Ok (), map Some (add_keys (act_keys (action_of f tx)) ks), [])
       else (r, map Some ks, map Some (add_keys (act_keys (action_of f tx)) []))), ms')"
  by (rule executeTx_call [OF assms(1) refl assms(2)])
    (use assms(2,3) in \<open>simp add: impl_of_def split: action.splits\<close>)

lemma act_run_cases:
  "act_run enc a L = (r, L') \<Longrightarrow> r = Ok () \<or> (\<exists>e. r = Err e)"
  by (cases a) (auto simp: ledger_airdrop_def ledger_transfer_def Let_def split: if_splits option.splits prod.splits)

lemma keyless: "act_keys a = [] \<longleftrightarrow> a = NoCall \<or> (\<exists>e. a = Failing e)"
  by (cases a) auto

definition continue :: "('d, 'z) senv_scheme \<Rightarrow> Faucet \<Rightarrow> Transaction list \<Rightarrow> bytes list \<Rightarrow> Transaction
     \<Rightarrow> ('d world, publicKeys \<times> Transaction list) comp" where
  "continue E f txs ks tx =
     st_bind (ExecuteNow_loop E f txs (map Some ks)) (\<lambda>(ex, ts). st_out (Ok (ex, tx # ts)))"

text \<open>A failed revert ends the block.\<close>

lemma ExecuteNow_loop_no_revert:
  assumes "executeTx E f tx ex (w_mem w) = (Some (Err e, ex', dirty), ms)"
    "\<forall>u. fst (FetchAccounts E dirty (w\<lparr>w_mem := ms\<rparr>)) \<noteq> Ok u"
  shows "fst (ExecuteNow_loop E f (tx # txs) ex w) \<noteq> Ok u"
  using assms
  by (cases "FetchAccounts E dirty (w\<lparr>w_mem := ms\<rparr>)"; cases "fst (FetchAccounts E dirty (w\<lparr>w_mem := ms\<rparr>))")
    (auto simp: Executer_revert_def)

lemma dirty_keys:
  assumes "act_keys a \<noteq> []"
  shows "add_keys (act_keys a) [] \<noteq> []" "length (add_keys (act_keys a) []) \<le> 2"
  using assms length_add_keys [of "act_keys a" "[]"] set_add_keys [of "act_keys a" "[]"]
  by (cases a; auto simp del: set_add_keys)+

lemma ExecuteNow_loop_stuck:
  assumes "node_ok E w" "td_PublicKey (tx_InnerData tx) \<noteq> None" "act_keys (action_of f tx) \<noteq> []"
    "\<not> act_ready (b58_Encode E) (action_of f tx) (led w)"
  shows "fst (ExecuteNow_loop E f (tx # txs) (map Some ks) w) \<noteq> Ok u"
proof -
  let ?a = "action_of f tx" and ?ms = "w_mem w"
  let ?n = "nextCh ?ms"
  have wf: "mem_wf (stateMem ?ms)" "idle ?ms" using assms(1) by (simp_all add: node_ok_def)
  obtain e md' r where
    impl: "impl_of E ?a ?ms = (Err e, svc ?ms md' (Some (Suc ?n, r)) (Suc (Suc ?n)))"
    using impl_of_stuck [OF wf(1) assms(3,4), of ?ms ?n] unfolding svc_idle [OF wf(2)] by metis
  let ?w = "w\<lparr>w_mem := svc ?ms md' (Some (Suc ?n, r)) (Suc (Suc ?n))\<rparr>"
  have "fst (FetchAccounts E (map Some (add_keys (act_keys ?a) [])) ?w) \<noteq> Ok u" for u
    by (rule FetchAccounts_stuck [of ?w ?ms md' "Suc ?n" r "Suc (Suc ?n)"])
      (use assms(1) dirty_keys [OF assms(3)] in \<open>auto simp: node_ok_def\<close>)
  then show ?thesis
    using executeTx_impl [OF assms(2,3) impl, of ks] by (intro ExecuteNow_loop_no_revert) auto
qed

text \<open>With a database that decodes, that end is a wait that never returns.\<close>

lemma ExecuteNow_loop_hangs:
  assumes "node_ok E w" "td_PublicKey (tx_InnerData tx) \<noteq> None" "act_keys (action_of f tx) \<noteq> []"
    "\<not> act_ready (b58_Encode E) (action_of f tx) (led w)" "\<forall>k\<in>set (act_keys (action_of f tx)). is_Ok (db_state E (w_db w) k)"
  shows "fst (ExecuteNow_loop E f (tx # txs) (map Some ks) w) = Blocked"
proof -
  let ?a = "action_of f tx" and ?ms = "w_mem w"
  let ?n = "nextCh ?ms" and ?dirty = "add_keys (act_keys ?a) []"
  have wf: "mem_wf (stateMem ?ms)" "idle ?ms" using assms(1) by (simp_all add: node_ok_def)
  obtain e md' r where
    impl: "impl_of E ?a ?ms = (Err e, svc ?ms md' (Some (Suc ?n, r)) (Suc (Suc ?n)))"
    using impl_of_stuck [OF wf(1) assms(3,4), of ?ms ?n] unfolding svc_idle [OF wf(2)] by metis
  let ?w = "w\<lparr>w_mem := svc ?ms md' (Some (Suc ?n, r)) (Suc (Suc ?n))\<rparr>"
  have "list_all2 (\<lambda>pk s. db_state E (w_db w) pk = Ok s) ?dirty (map (\<lambda>k. state_or_zero (db_state E (w_db w) k)) ?dirty)"
    using assms(5)
    by (auto simp: list_all2_map2 list_all2_same is_Ok_def state_or_zero_def split: go.splits dest!: bspec)
  then have "fst (FetchAccounts E (map Some ?dirty) ?w) = Blocked"
    using assms(1) dirty_keys [OF assms(3)]
    by (intro FetchAccounts_hangs [of E ?w ?ms md' "Suc ?n" r "Suc (Suc ?n)"]) (auto simp: node_ok_def)
  then show ?thesis
    using executeTx_impl [OF assms(2,3) impl, of ks]
    by (cases "FetchAccounts E (map Some ?dirty) ?w") (simp add: Executer_revert_def)
qed

text \<open>One transaction is one step of the ledger.\<close>

lemma ExecuteNow_loop_step:
  assumes "node_ok E w" "td_PublicKey (tx_InnerData tx) \<noteq> None"
  shows "case ledger_tx (b58_Encode E) (db_state E (w_db w)) f tx ks (led w) of
      None \<Rightarrow> \<forall>r. fst (ExecuteNow_loop E f (tx # txs) (map Some ks) w) \<noteq> Ok r
    | Some (ks', tx', L) \<Rightarrow> \<exists>ms'. node_ok E (w\<lparr>w_mem := ms'\<rparr>) \<and> mem_state (stateMem ms') = L
        \<and> ExecuteNow_loop E f (tx # txs) (map Some ks) w = continue E f txs ks' tx' (w\<lparr>w_mem := ms'\<rparr>)"
proof -
  let ?a = "action_of f tx" and ?ms = "w_mem w" and ?enc = "b58_Encode E" and ?sto = "db_state E (w_db w)"
  let ?dirty = "add_keys (act_keys ?a) []"
  consider "?a = NoCall" | e where "?a = Failing e" | "act_keys ?a \<noteq> []" "\<not> act_ready ?enc ?a (led w)"
    | "act_keys ?a \<noteq> []" "act_ready ?enc ?a (led w)" using keyless by blast
  then show ?thesis
  proof cases
    case 1
    then show ?thesis using assms(1)
      by (auto simp: ledger_tx_def Let_def executeTx_none continue_def intro!: exI [of _ ?ms])
  next
    case 2
    obtain ms' where "FetchAccounts E [] w = (Ok (), w\<lparr>w_mem := ms'\<rparr>)" "node_ok E (w\<lparr>w_mem := ms'\<rparr>)"
        "mem_state (stateMem ms') = led w"
      using Fetch_reverted [OF assms(1), of "[]"] by (auto simp: reverted_def)
    then show ?thesis using 2
      by (auto simp: ledger_tx_def Let_def reverted_def add_keys_def executeTx_none continue_def Executer_revert_def
          intro!: exI [of _ ms'])
  next
    case 3
    then have "ledger_tx ?enc ?sto f tx ks (led w) = None" by (auto simp: ledger_tx_def Let_def)
    then show ?thesis using ExecuteNow_loop_stuck [OF assms 3] by simp
  next
    case 4
    then have nocall: "?a \<noteq> NoCall" by auto
    have wf: "mem_wf (stateMem ?ms)" "idle ?ms" using assms(1) by (simp_all add: node_ok_def)
    obtain r L where run: "act_run ?enc ?a (led w) = (r, L)" by (cases "act_run ?enc ?a (led w)")
    obtain md n where md: "impl_of E ?a ?ms = (r, svc ?ms md None n)" "mem_wf md" "mem_state md = L"
      using impl_of_ready [OF wf(1) 4, of ?ms "nextCh ?ms"] run unfolding svc_idle [OF wf(2)]
      by (auto simp: lands_def)
    let ?w = "w\<lparr>w_mem := svc ?ms md None n\<rparr>"
    have ok: "node_ok E ?w" using assms(1) md by (simp add: node_ok_def)
    note tx = executeTx_impl [OF assms(2) 4(1) md(1)]
    from act_run_cases [OF run] show ?thesis
    proof
      assume "r = Ok ()"
      then show ?thesis using tx run 4 nocall ok md(3)
        by (auto simp: ledger_tx_def Let_def continue_def intro!: exI [of _ "svc ?ms md None n"])
    next
      assume "\<exists>e. r = Err e"
      then obtain e where e: "r = Err e" ..
      have lt: "ledger_tx ?enc ?sto f tx ks (led w)
          = map_option (\<lambda>L''. (ks, tx\<lparr>tx_Status := True\<rparr>, L'')) (reverted ?enc ?sto ?dirty L)"
        using run 4 nocall e by (simp add: ledger_tx_def Let_def)
      have rv: "case reverted ?enc ?sto ?dirty L of
          None \<Rightarrow> \<forall>u. fst (FetchAccounts E (map Some ?dirty) ?w) \<noteq> Ok u
        | Some L \<Rightarrow> \<exists>ms'. FetchAccounts E (map Some ?dirty) ?w = (Ok (), ?w\<lparr>w_mem := ms'\<rparr>)
            \<and> node_ok E (?w\<lparr>w_mem := ms'\<rparr>) \<and> mem_state (stateMem ms') = L"
        using Fetch_reverted [OF ok, of ?dirty] dirty_keys(2) [OF 4(1)] md(3) by simp
      show ?thesis
      proof (cases "reverted ?enc ?sto ?dirty L")
        case None
        then have "fst (ExecuteNow_loop E f (tx # txs) (map Some ks) w) \<noteq> Ok u" for u
          using tx e rv by (intro ExecuteNow_loop_no_revert) auto
        with lt None show ?thesis by simp
      next
        case (Some L')
        with rv obtain ms' where "FetchAccounts E (map Some ?dirty) ?w = (Ok (), w\<lparr>w_mem := ms'\<rparr>)"
            "node_ok E (w\<lparr>w_mem := ms'\<rparr>)" "mem_state (stateMem ms') = L'" by auto
        then show ?thesis using lt Some tx e
          by (auto simp: continue_def Executer_revert_def intro!: exI [of _ ms'])
      qed
    qed
  qed
qed

text \<open>Executing a block is running it on the ledger; it does not touch the database.\<close>

lemma ExecuteNow_loop_block:
  assumes "node_ok E w" "\<forall>tx\<in>set txs. td_PublicKey (tx_InnerData tx) \<noteq> None"
  shows "case ledger_block (b58_Encode E) (db_state E (w_db w)) f txs ks (led w) of
      None \<Rightarrow> \<forall>r. fst (ExecuteNow_loop E f txs (map Some ks) w) \<noteq> Ok r
    | Some (ks', ts, L) \<Rightarrow> \<exists>ms'. node_ok E (w\<lparr>w_mem := ms'\<rparr>) \<and> mem_state (stateMem ms') = L
        \<and> ExecuteNow_loop E f txs (map Some ks) w = (Ok (map Some ks', ts), w\<lparr>w_mem := ms'\<rparr>)"
  using assms
proof (induction txs arbitrary: w ks)
  case Nil
  then show ?case by (auto intro!: exI [of _ "w_mem w"])
next
  case (Cons tx txs)
  let ?enc = "b58_Encode E" and ?sto = "db_state E (w_db w)"
  note step = ExecuteNow_loop_step [where f = f and tx = tx and ks = ks and txs = txs, OF Cons.prems(1)]
  show ?case
  proof (cases "ledger_tx ?enc ?sto f tx ks (led w)")
    case None
    with step Cons.prems(2) show ?thesis by (auto simp del: ExecuteNow_loop.simps)
  next
    case (Some p)
    obtain ks1 tx1 L1 where p: "p = (ks1, tx1, L1)" by (cases p)
    with Some step Cons.prems(2) obtain ms1 where ms1: "node_ok E (w\<lparr>w_mem := ms1\<rparr>)" "mem_state (stateMem ms1) = L1"
        "ExecuteNow_loop E f (tx # txs) (map Some ks) w = continue E f txs ks1 tx1 (w\<lparr>w_mem := ms1\<rparr>)"
      by (auto simp del: ExecuteNow_loop.simps)
    show ?thesis
    proof (cases "ledger_block ?enc ?sto f txs ks1 L1")
      case None
      then have "\<forall>r. fst (ExecuteNow_loop E f txs (map Some ks1) (w\<lparr>w_mem := ms1\<rparr>)) \<noteq> Ok r"
        using Cons.IH [OF ms1(1), of ks1] Cons.prems(2) ms1(2) by simp
      then have "fst (continue E f txs ks1 tx1 (w\<lparr>w_mem := ms1\<rparr>)) \<noteq> Ok r" for r
        by (auto simp: continue_def st_bind_def split: prod.splits go.splits)
      with None Some p ms1(3) show ?thesis by (simp del: ExecuteNow_loop.simps)
    next
      case (Some q)
      obtain ks2 ts L2 where q: "q = (ks2, ts, L2)" by (cases q)
      from Cons.IH [OF ms1(1), of ks1] Cons.prems(2) ms1(2) Some q obtain ms2 where
        "node_ok E (w\<lparr>w_mem := ms2\<rparr>)" "mem_state (stateMem ms2) = L2"
        "ExecuteNow_loop E f txs (map Some ks1) (w\<lparr>w_mem := ms1\<rparr>) = (Ok (map Some ks2, ts), w\<lparr>w_mem := ms2\<rparr>)"
        by auto
      with \<open>ledger_tx ?enc ?sto f tx ks (led w) = Some p\<close> p Some q ms1(3) show ?thesis
        by (auto simp: continue_def simp del: ExecuteNow_loop.simps intro!: exI [of _ ms2])
    qed
  qed
qed

end
