(* ===== verification/Ledger.thy ===== *)
theory Ledger
  imports Executer
begin

text \<open>
  What execution preserves: the supply (no branch of a call creates money; while the sum of the balances
  is within what the generator was given none is lost either and the overflow check of
  \<open>AccountState.Add\<close> never fires), and the agreement of memory with the
  database before and after the finality of a block.
\<close>

subsection \<open>Supply\<close>

definition balance_of :: "ledger \<Rightarrow> string \<Rightarrow> nat" where
  "balance_of L k = (case L k of None \<Rightarrow> 0 | Some s \<Rightarrow> unat (as_Balance s))"

definition total_supply :: "ledger \<Rightarrow> nat" where
  "total_supply L = (\<Sum>k\<in>dom L. balance_of L k)"

text \<open>Finitely many accounts that hold no more than the generator was given.\<close>

definition ledger_ok :: "ledger \<Rightarrow> bool" where
  "ledger_ok L \<longleftrightarrow> finite (dom L) \<and> total_supply L \<le> unat GeneratorBalance"

lemma supply_update:
  assumes "finite (dom L)"
  shows "total_supply (L(k \<mapsto> s)) + balance_of L k = total_supply L + unat (as_Balance s)"
proof -
  have "total_supply (L(k \<mapsto> s)) = (\<Sum>j\<in>insert k (dom L). balance_of (L(k \<mapsto> s)) j)" by (simp add: total_supply_def)
  also have "\<dots> = balance_of (L(k \<mapsto> s)) k + (\<Sum>j\<in>dom L - {k}. balance_of (L(k \<mapsto> s)) j)"
    using assms by (rule sum.insert_remove)
  also have "(\<Sum>j\<in>dom L - {k}. balance_of (L(k \<mapsto> s)) j) = (\<Sum>j\<in>dom L - {k}. balance_of L j)"
    by (rule sum.cong) (auto simp: balance_of_def)
  finally have "total_supply (L(k \<mapsto> s)) = unat (as_Balance s) + (\<Sum>j\<in>dom L - {k}. balance_of L j)"
    by (simp add: balance_of_def fun_upd_def)
  moreover have "total_supply L = balance_of L k + (\<Sum>j\<in>dom L - {k}. balance_of L j)"
  proof (cases "k \<in> dom L")
    case True
    then show ?thesis using assms unfolding total_supply_def by (rule sum.remove [rotated])
  qed (simp add: total_supply_def balance_of_def domIff)
  ultimately show ?thesis by simp
qed

lemma balance_le_supply: "finite (dom L) \<Longrightarrow> balance_of L k \<le> total_supply L"
  unfolding total_supply_def by (cases "k \<in> dom L") (auto intro: member_le_sum simp: balance_of_def domIff)

lemma supply_same_balance:
  assumes "finite (dom L)" "unat (as_Balance s) = balance_of L k"
  shows "total_supply (L(k \<mapsto> s)) = total_supply L"
  using supply_update [OF assms(1), of k s] assms(2) by simp

text \<open>Moving an amount between two accounts, the second one perhaps new, always fits.\<close>

lemma move_fits:
  assumes "ledger_ok L" "L from = Some s" "AccountState_Subtract amount s = (True, s2)"
    "unat (as_Balance t) = balance_of (L(from \<mapsto> s2)) to"
  shows "AccountState_Add amount t = (True, t\<lparr>as_Balance := as_Balance t + amount\<rparr>)"
    and "ledger_ok (L(from \<mapsto> s2, to \<mapsto> t\<lparr>as_Balance := as_Balance t + amount\<rparr>))"
    and "total_supply (L(from \<mapsto> s2, to \<mapsto> t\<lparr>as_Balance := as_Balance t + amount\<rparr>)) = total_supply L"
proof -
  let ?L2 = "L(from \<mapsto> s2)" and ?t = "t\<lparr>as_Balance := as_Balance t + amount\<rparr>"
  have fin: "finite (dom L)" "total_supply L \<le> unat GeneratorBalance" using assms(1) by (simp_all add: ledger_ok_def)
  have s2: "unat amount \<le> unat (as_Balance s)" "unat (as_Balance s2) = unat (as_Balance s) - unat amount"
    using assms(3) by (auto simp: Subtract_cases unat_Subtract split: if_splits)
  have "total_supply ?L2 + unat amount = total_supply L"
    using supply_update [OF fin(1), of "from" s2] s2 assms(2) by (simp add: balance_of_def)
  moreover have "unat (as_Balance t) \<le> total_supply ?L2" using balance_le_supply [of ?L2 to] fin assms(4) by simp
  ultimately have le: "unat (as_Balance t) + unat amount \<le> unat GeneratorBalance" using fin(2) by linarith
  then have tok: "state_ok t" by (simp add: state_ok_def)
  show "AccountState_Add amount t = (True, ?t)" using Add_cases [OF tok, of amount] le by simp
  have "unat (as_Balance ?t) = unat (as_Balance t) + unat amount" using unat_Add [OF le] by simp
  then show sup: "total_supply (?L2(to \<mapsto> ?t)) = total_supply L"
    using supply_update [of ?L2 to ?t] fin(1) assms(4) \<open>total_supply ?L2 + unat amount = total_supply L\<close> by simp
  then show "ledger_ok (?L2(to \<mapsto> ?t))" using fin by (simp add: ledger_ok_def)
qed

lemma ledger_transfer_supply:
  assumes "ledger_ok L"
  shows "ledger_ok (snd (ledger_transfer from nonce to amount L))
    \<and> total_supply (snd (ledger_transfer from nonce to amount L)) = total_supply L
    \<and> fst (ledger_transfer from nonce to amount L) \<noteq> Err ''overflow''"
proof (cases "L from")
  case (Some s)
  show ?thesis
  proof (cases "as_Nonce s = nonce")
    case True
    let ?s1 = "s\<lparr>as_Nonce := as_Nonce s + 1\<rparr>"
    let ?L1 = "L(from \<mapsto> ?s1)"
    have L1: "total_supply ?L1 = total_supply L" "ledger_ok ?L1"
      using supply_same_balance [of L ?s1 "from"] assms Some by (simp_all add: ledger_ok_def balance_of_def)
    obtain ok s2 where sub: "AccountState_Subtract amount ?s1 = (ok, s2)" by (cases "AccountState_Subtract amount ?s1")
    let ?t = "the ((?L1(from \<mapsto> s2)) to)"
    show ?thesis
    proof (cases "?L1 to = None \<or> \<not> ok")
      case True
      then show ?thesis using Some \<open>as_Nonce s = nonce\<close> sub L1 by (auto simp: ledger_transfer_def Let_def)
    next
      case False
      then have "unat (as_Balance ?t) = balance_of (?L1(from \<mapsto> s2)) to" by (auto simp: balance_of_def)
      from move_fits [OF L1(2) _ _ this, of ?s1 amount] False sub
      have "AccountState_Add amount ?t = (True, ?t\<lparr>as_Balance := as_Balance ?t + amount\<rparr>)"
        "ledger_ok (?L1(from \<mapsto> s2, to \<mapsto> ?t\<lparr>as_Balance := as_Balance ?t + amount\<rparr>))"
        "total_supply (?L1(from \<mapsto> s2, to \<mapsto> ?t\<lparr>as_Balance := as_Balance ?t + amount\<rparr>)) = total_supply L"
        using L1(1) by auto
      moreover have "ledger_transfer from nonce to amount L
          = (Ok (), ?L1(from \<mapsto> s2, to \<mapsto> ?t\<lparr>as_Balance := as_Balance ?t + amount\<rparr>))"
        using Some \<open>as_Nonce s = nonce\<close> sub False calculation(1) unfolding ledger_transfer_def Let_def by simp
      ultimately show ?thesis by simp
    qed
  qed (use Some assms in \<open>simp add: ledger_transfer_def\<close>)
qed (use assms in \<open>simp add: ledger_transfer_def\<close>)

lemma ledger_airdrop_supply:
  assumes "ledger_ok L"
  shows "ledger_ok (snd (ledger_airdrop to nonce from amount L))
    \<and> total_supply (snd (ledger_airdrop to nonce from amount L)) = total_supply L
    \<and> fst (ledger_airdrop to nonce from amount L) \<noteq> Err ''overflow''"
proof -
  define t where "t = (case L to of None \<Rightarrow> zeroState | Some t \<Rightarrow> t)"
  show ?thesis
  proof (cases "L from \<noteq> None \<and> as_Nonce t = nonce")
    case True
    define t1 where "t1 = t\<lparr>as_Nonce := as_Nonce t + 1\<rparr>"
    define L1 where "L1 = (if L to = None then L else L(to \<mapsto> t1))"
    have bal: "unat (as_Balance t1) = balance_of L to"
      by (simp add: t1_def t_def balance_of_def zeroState_def split: option.split)
    then have L1: "total_supply L1 = total_supply L" "ledger_ok L1"
      using supply_same_balance [of L t1 to] assms by (simp_all add: ledger_ok_def L1_def)
    have "L1 from \<noteq> None" using True by (simp add: L1_def)
    then obtain s where s: "L1 from = Some s" by blast
    obtain ok s2 where sub: "AccountState_Subtract amount s = (ok, s2)" by (cases "AccountState_Subtract amount s")
    let ?t = "if L to = None then t1 else the ((L1(from \<mapsto> s2)) to)"
    let ?t2 = "?t\<lparr>as_Balance := as_Balance ?t + amount\<rparr>"
    obtain ok2 t2 where add: "AccountState_Add amount ?t = (ok2, t2)" by (cases "AccountState_Add amount ?t")
    have run: "ledger_airdrop to nonce from amount L =
       (if \<not> ok then (Err ''not enough balance'', L1)
        else if \<not> ok2 then (Err ''overflow'', L1(from \<mapsto> s2)) else (Ok (), L1(from \<mapsto> s2, to \<mapsto> t2)))"
      by (rule ledger_airdrop_cases [of L "from" t to nonce t1 L1 amount ok s2 ok2 t2])
        (use True t_def t1_def L1_def s sub add in simp_all)
    have "unat (as_Balance ?t) = balance_of (L1(from \<mapsto> s2)) to"
      using bal True by (auto simp: balance_of_def L1_def)
    from move_fits [OF L1(2) s _ this] sub add run L1 show ?thesis by (cases ok) auto
  qed (use assms in \<open>auto simp: ledger_airdrop_def Let_def t_def\<close>)
qed

lemma act_run_supply:
  assumes "ledger_ok L"
  shows "ledger_ok (snd (act_run enc a L))" "total_supply (snd (act_run enc a L)) = total_supply L"
    "fst (act_run enc a L) = Err ''overflow'' \<Longrightarrow> a = Failing ''overflow''"
  using assms ledger_transfer_supply ledger_airdrop_supply by (cases a; simp)+


lemma two_balances:
  assumes "ledger_ok L" "j \<noteq> k" "L j = Some s" "L k = Some t" "unat amount \<le> unat (as_Balance s)"
  shows "unat (as_Balance t) + unat amount \<le> unat GeneratorBalance"
proof -
  have "sum (balance_of L) {j, k} \<le> total_supply L"
    unfolding total_supply_def using assms(1,3,4) by (intro sum_mono2) (auto simp: ledger_ok_def)
  then have "unat (as_Balance s) + unat (as_Balance t) \<le> unat GeneratorBalance"
    using assms(1-4) by (simp add: balance_of_def ledger_ok_def)
  with assms(5) show ?thesis by linarith
qed

text \<open>The effect of a transfer between two accounts.\<close>

lemma ledger_transfer_effect:
  assumes "ledger_ok L" "from \<noteq> to" "L from = Some s" "L to = Some t" "as_Nonce s = nonce"
    "unat amount \<le> unat (as_Balance s)"
  shows "ledger_transfer from nonce to amount L = (Ok (), L(
     from \<mapsto> s\<lparr>as_Nonce := as_Nonce s + 1, as_Balance := as_Balance s - amount\<rparr>,
     to \<mapsto> t\<lparr>as_Balance := as_Balance t + amount\<rparr>))"
proof -
  let ?s1 = "s\<lparr>as_Nonce := as_Nonce s + 1\<rparr>"
  let ?s2 = "?s1\<lparr>as_Balance := as_Balance s - amount\<rparr>"
  have sub: "AccountState_Subtract amount ?s1 = (True, ?s2)" using assms(6) by (simp add: Subtract_cases)
  have L1: "ledger_ok (L(from \<mapsto> ?s1))"
    using supply_same_balance [of L ?s1 "from"] assms by (simp add: ledger_ok_def balance_of_def)
  have "AccountState_Add amount t = (True, t\<lparr>as_Balance := as_Balance t + amount\<rparr>)"
    by (rule move_fits(1) [OF L1 _ sub, of "from" t to]) (use assms in \<open>simp_all add: balance_of_def\<close>)
  with sub assms(2-5) show ?thesis by (simp add: ledger_transfer_def Let_def)
qed

text \<open>
  No balance is above what the generator was given; the sum may be, since a reverted block can create
  money. Then a credit can be refused after the debit, and the amount is lost from memory.
\<close>

definition balances_ok :: "ledger \<Rightarrow> bool" where
  "balances_ok L \<longleftrightarrow> finite (dom L) \<and> (\<forall>s\<in>ran L. state_ok s)"

lemma ledger_ok_balances: "ledger_ok L \<Longrightarrow> balances_ok L"
proof -
  assume a: "ledger_ok L"
  have "state_ok s" if "L k = Some s" for k s
    using balance_le_supply [of L k] a that by (simp add: ledger_ok_def state_ok_def balance_of_def)
  with a show ?thesis by (auto simp: balances_ok_def ledger_ok_def ran_def)
qed

lemma balances_ok_state: "balances_ok L \<Longrightarrow> L k = Some s \<Longrightarrow> state_ok s"
  by (auto simp: balances_ok_def intro: ranI)

lemma balances_ok_update: "balances_ok L \<Longrightarrow> state_ok s \<Longrightarrow> balances_ok (L(k \<mapsto> s))"
  by (auto simp: balances_ok_def ran_def split: if_splits)

lemma ledger_transfer_balances:
  assumes "balances_ok L" "ledger_transfer from nonce to amount L = (r, L')"
  shows "balances_ok L' \<and> total_supply L' + (if r = Err ''overflow'' then unat amount else 0) = total_supply L"
proof (cases "\<exists>s. L from = Some s \<and> as_Nonce s = nonce")
  case True
  then obtain s where s: "L from = Some s" "as_Nonce s = nonce" by blast
  define L1 where "L1 = L(from \<mapsto> s\<lparr>as_Nonce := as_Nonce s + 1\<rparr>)"
  have L1: "total_supply L1 = total_supply L" "balances_ok L1"
    using supply_same_balance [of L "s\<lparr>as_Nonce := as_Nonce s + 1\<rparr>" "from"] assms(1) s(1) balances_ok_state [OF assms(1) s(1)]
    by (simp_all add: L1_def balances_ok_update balances_ok_def [of L] balance_of_def state_ok_def)
  obtain ok s2 where sub: "AccountState_Subtract amount (s\<lparr>as_Nonce := as_Nonce s + 1\<rparr>) = (ok, s2)" by fastforce
  define L2 where "L2 = L1(from \<mapsto> s2)"
  obtain ok2 t2 where add: "AccountState_Add amount (the (L2 to)) = (ok2, t2)" by fastforce
  have run: "(r, L') = (if L1 to = None then (Err ''not found the key'', L1) else if \<not> ok then (Err ''not enough balance'', L1)
      else if \<not> ok2 then (Err ''overflow'', L2) else (Ok (), L2(to \<mapsto> t2)))"
    using assms(2) s sub add by (auto simp: ledger_transfer_def Let_def L1_def L2_def)
  show ?thesis
  proof (cases "L1 to \<noteq> None \<and> ok")
    case covered: True
    have s2: "unat amount \<le> unat (as_Balance s)" "unat (as_Balance s2) = unat (as_Balance s) - unat amount"
      using sub covered by (auto simp: Subtract_cases unat_Subtract split: if_splits)
    have fin: "finite (dom L1)" "finite (dom L2)" using L1(2) by (simp_all add: balances_ok_def L2_def)
    have sup: "total_supply L2 + unat amount = total_supply L"
      using supply_update [OF fin(1), of "from" s2] s2 L1(1) by (simp add: L2_def L1_def balance_of_def)
    have "state_ok s2" using s2 balances_ok_state [OF assms(1) s(1)] by (simp add: state_ok_def)
    then have L2: "balances_ok L2" using L1(2) by (simp add: L2_def balances_ok_update)
    obtain t where t: "L2 to = Some t" using covered by (cases "to = from") (auto simp: L2_def)
    note tok = balances_ok_state [OF L2 t]
    show ?thesis
    proof (cases ok2)
      case True
      then have t2: "unat (as_Balance t2) = unat (as_Balance t) + unat amount"
        using add t by (auto simp: Add_cases [OF tok] unat_Add split: if_splits)
      then have "total_supply (L2(to \<mapsto> t2)) = total_supply L2 + unat amount"
        using supply_update [OF fin(2), of to t2] t by (simp add: balance_of_def)
      moreover have "state_ok t2" using Add_ok [OF _ tok] add t by auto
      then have "balances_ok (L2(to \<mapsto> t2))" by (rule balances_ok_update [OF L2])
      ultimately show ?thesis using run covered True sup by auto
    qed (use run covered sup L2 in auto)
  qed (use run L1 in \<open>auto split: if_splits\<close>)
qed (use assms in \<open>auto simp: ledger_transfer_def split: option.splits\<close>)

text \<open>The outcome of a transfer with the expected nonce and a covered amount, whoever the receiver is.\<close>

lemma ledger_transfer_covered:
  assumes "L from = Some s" "as_Nonce s = nonce" "unat amount \<le> unat (as_Balance s)" "\<forall>t. L to = Some t \<longrightarrow> state_ok t"
  shows "ledger_transfer from nonce to amount L = (case L to of
       None \<Rightarrow> (Err ''not found the key'', L(from \<mapsto> s\<lparr>as_Nonce := nonce + 1\<rparr>))
     | Some t \<Rightarrow> if to = from then (Ok (), L(from \<mapsto> s\<lparr>as_Nonce := nonce + 1\<rparr>))
         else if unat (as_Balance t) + unat amount \<le> unat GeneratorBalance
         then (Ok (), L(from \<mapsto> s\<lparr>as_Nonce := nonce + 1, as_Balance := as_Balance s - amount\<rparr>, to \<mapsto> t\<lparr>as_Balance := as_Balance t + amount\<rparr>))
         else (Err ''overflow'', L(from \<mapsto> s\<lparr>as_Nonce := nonce + 1, as_Balance := as_Balance s - amount\<rparr>)))"
proof -
  have sub: "AccountState_Subtract amount (s\<lparr>as_Nonce := nonce + 1\<rparr>) = (True, s\<lparr>as_Nonce := nonce + 1, as_Balance := as_Balance s - amount\<rparr>)"
    using assms(3) by (simp add: Subtract_cases)
  show ?thesis
  proof (cases "to = from")
    case True
    let ?s = "s\<lparr>as_Nonce := nonce + 1, as_Balance := as_Balance s - amount\<rparr>"
    have "unat (as_Balance s) \<le> unat GeneratorBalance" using assms(1,4) True by (simp add: state_ok_def)
    moreover from this have "state_ok ?s" using assms(3) by (simp add: state_ok_def unat_Subtract)
    ultimately have "AccountState_Add amount ?s = (True, s\<lparr>as_Nonce := nonce + 1\<rparr>)" using assms(3) by (simp add: Add_cases unat_Subtract)
    then show ?thesis using assms(1,2) True sub by (simp add: ledger_transfer_def Let_def)
  qed (use assms sub in \<open>auto simp: ledger_transfer_def Let_def Add_cases split: option.split\<close>)
qed

lemma ledger_airdrop_new:
  assumes "ledger_ok L" "L from = Some g" "L to = None" "unat amount \<le> unat (as_Balance g)"
  shows "ledger_airdrop to 0 from amount L = (Ok (), L(
     from \<mapsto> g\<lparr>as_Balance := as_Balance g - amount\<rparr>, to \<mapsto> \<lparr>as_Nonce = 1, as_Balance = amount\<rparr>))"
proof -
  let ?t = "zeroState\<lparr>as_Nonce := 1\<rparr>"
  have sub: "AccountState_Subtract amount g = (True, g\<lparr>as_Balance := as_Balance g - amount\<rparr>)"
    using assms(4) by (simp add: Subtract_cases)
  have "AccountState_Add amount ?t = (True, ?t\<lparr>as_Balance := as_Balance ?t + amount\<rparr>)"
    by (rule move_fits(1) [OF assms(1,2) sub, of ?t to])
      (use assms(2,3) in \<open>auto simp: balance_of_def zeroState_def\<close>)
  with sub assms(2,3) show ?thesis by (simp add: ledger_airdrop_def Let_def zeroState_def)
qed

subsection \<open>Which accounts a call touches\<close>

lemma act_run_frame:
  assumes "act_run enc a L = (r, L')"
  shows "j \<notin> enc ` set (act_keys a) \<Longrightarrow> L' j = L j" "dom L \<subseteq> dom L'"
    "r = Ok () \<Longrightarrow> k \<in> set (act_keys a) \<Longrightarrow> L' (enc k) \<noteq> None"
  using assms
  by (cases a; auto simp: ledger_airdrop_def ledger_transfer_def Let_def split: if_splits option.splits prod.splits)+

lemma fold_upd_apply:
  assumes "inj enc"
  shows "fold (\<lambda>k L. L(enc k \<mapsto> g k)) ks L (enc k) = (if k \<in> set ks then Some (g k) else L (enc k))"
    and "j \<notin> enc ` set ks \<Longrightarrow> fold (\<lambda>k L. L(enc k \<mapsto> g k)) ks L j = L j"
  using assms by (induction ks arbitrary: L) (auto simp: inj_eq)

lemma reverted_apply:
  assumes "inj enc" "reverted enc sto ks L = Some L'"
  shows "k \<in> set ks \<Longrightarrow> \<exists>s. sto k = Ok s \<and> L' (enc k) = Some s" "j \<notin> enc ` set ks \<Longrightarrow> L' j = L j"
    "dom L \<subseteq> dom L'"
proof -
  have ok: "\<forall>k\<in>set ks. is_Ok (sto k)" and L': "L' = fold (\<lambda>k L. L(enc k \<mapsto> state_or_zero (sto k))) ks L"
    using assms(2) by (auto simp: reverted_def list_all_iff split: if_splits)
  have "k \<in> set ks \<Longrightarrow> L' (enc k) = Some (state_or_zero (sto k))"
    using fold_upd_apply(1) [OF assms(1), where g = "\<lambda>k. state_or_zero (sto k)"] by (simp add: L')
  then show "k \<in> set ks \<Longrightarrow> \<exists>s. sto k = Ok s \<and> L' (enc k) = Some s"
    using ok by (auto simp: is_Ok_def state_or_zero_def split: go.splits)
  show frame: "j \<notin> enc ` set ks \<Longrightarrow> L' j = L j" for j using fold_upd_apply(2) [OF assms(1)] by (simp add: L')
  show "dom L \<subseteq> dom L'"
  proof
    fix j assume "j \<in> dom L"
    then show "j \<in> dom L'"
      using frame [of j] fold_upd_apply(1) [OF assms(1), where g = "\<lambda>k. state_or_zero (sto k)"] by (cases "j \<in> enc ` set ks") (auto simp: L' domIff)
  qed
qed

subsection \<open>Memory and database\<close>

text \<open>
  Outside the keys a block has executed so far, an account that memory holds is the account that
  the database holds.
\<close>

definition synced :: "(bytes \<Rightarrow> string) \<Rightarrow> (bytes \<Rightarrow> AccountState go) \<Rightarrow> bytes list \<Rightarrow> ledger \<Rightarrow> bool" where
  "synced enc sto ks L \<longleftrightarrow> (\<forall>k. k \<notin> set ks \<longrightarrow> L (enc k) = None \<or> (\<exists>s. L (enc k) = Some s \<and> sto k = Ok s))"

lemma synced_known: "synced enc sto ks L \<Longrightarrow> k \<notin> set ks \<Longrightarrow> L (enc k) = Some s \<Longrightarrow> sto k = Ok s"
  unfolding synced_def by (metis option.distinct(1) option.inject)

lemma ledger_tx_synced:
  assumes "inj enc" "synced enc sto ks L" "ledger_tx enc sto f tx ks L = Some (ks', tx', L')"
  shows "synced enc sto ks' L'" "set ks \<subseteq> set ks'" "dom L \<subseteq> dom L'"
    "set ks' \<subseteq> set ks \<union> set (act_keys (action_of f tx))"
    "k \<in> set ks' \<Longrightarrow> k \<in> set ks \<or> L' (enc k) \<noteq> None"
proof -
  let ?a = "action_of f tx"
  have "synced enc sto ks' L' \<and> set ks \<subseteq> set ks' \<and> dom L \<subseteq> dom L' \<and> set ks' \<subseteq> set ks \<union> set (act_keys ?a)
      \<and> (\<forall>k\<in>set ks'. k \<in> set ks \<or> L' (enc k) \<noteq> None)"
  proof (cases "?a = NoCall")
    case True
    with assms show ?thesis by (auto simp: ledger_tx_def)
  next
    case False
    obtain r L1 where run: "act_run enc ?a L = (r, L1)" by (cases "act_run enc ?a L")
    note fr = act_run_frame [OF run]
    have out: "L1 (enc k) = L (enc k)" if "k \<notin> set (act_keys ?a)" for k
      using fr(1) [of "enc k"] that assms(1) by (auto simp: inj_image_mem_iff)
    show ?thesis
    proof (cases "r = Ok ()")
      case True
      then have eq: "ks' = add_keys (act_keys ?a) ks" "L' = L1"
        using assms(3) run False by (auto simp: ledger_tx_def Let_def split: if_splits)
      then have "synced enc sto ks' L'" using assms(2) out by (auto simp: synced_def)
      with eq fr(2,3) True show ?thesis by auto
    next
      case False
      with act_run_cases [OF run] obtain e where "r = Err e" by blast
      then have rv: "reverted enc sto (add_keys (act_keys ?a) []) L1 = Some L'" "ks' = ks"
        using assms(3) run \<open>?a \<noteq> NoCall\<close> by (auto simp: ledger_tx_def Let_def split: if_splits)
      note ra = reverted_apply [OF assms(1) rv(1)]
      have "L' (enc k) = L1 (enc k)" if "k \<notin> set (act_keys ?a)" for k
        using ra(2) [of "enc k"] that assms(1) by (auto simp: inj_image_mem_iff)
      then have "synced enc sto ks' L'"
        using assms(2) out ra(1) rv(2) by (fastforce simp: synced_def)
      with rv fr(2) ra(3) show ?thesis by auto
    qed
  qed
  then show "synced enc sto ks' L'" "set ks \<subseteq> set ks'" "dom L \<subseteq> dom L'"
    "set ks' \<subseteq> set ks \<union> set (act_keys (action_of f tx))"
    "k \<in> set ks' \<Longrightarrow> k \<in> set ks \<or> L' (enc k) \<noteq> None" by auto
qed

lemma ledger_block_synced:
  assumes "inj enc"
  shows "synced enc sto ks L \<Longrightarrow> \<forall>k\<in>set ks. L (enc k) \<noteq> None \<Longrightarrow> ledger_block enc sto f txs ks L = Some (ks', ts, L') \<Longrightarrow>
    synced enc sto ks' L' \<and> dom L \<subseteq> dom L' \<and> (\<forall>k\<in>set ks'. L' (enc k) \<noteq> None)
    \<and> set ks' \<subseteq> set ks \<union> (\<Union>tx\<in>set txs. set (act_keys (action_of f tx)))"
proof (induction txs arbitrary: ks L ts)
  case (Cons tx txs)
  obtain ks1 tx1 L1 ts1 where 1: "ledger_tx enc sto f tx ks L = Some (ks1, tx1, L1)"
      "ledger_block enc sto f txs ks1 L1 = Some (ks', ts1, L')"
    using Cons.prems(3) by (auto split: option.splits)
  note s = ledger_tx_synced [OF assms Cons.prems(1) 1(1)]
  have "\<forall>k\<in>set ks1. L1 (enc k) \<noteq> None" using s(3,5) Cons.prems(2) by blast
  from Cons.IH [OF s(1) this 1(2)] have IH: "synced enc sto ks' L'" "dom L1 \<subseteq> dom L'"
      "\<forall>k\<in>set ks'. L' (enc k) \<noteq> None"
      "set ks' \<subseteq> set ks1 \<union> (\<Union>tx\<in>set txs. set (act_keys (action_of f tx)))" by blast+
  moreover have "dom L \<subseteq> dom L'" using s(3) IH(2) by (rule subset_trans)
  ultimately show ?case using s(4) by auto
qed auto


subsection \<open>Finality\<close>

text \<open>Keys of the right size: of the callers, which verification checks, and of the generator.\<close>

definition callers_ok :: "Transaction list \<Rightarrow> bool" where
  "callers_ok txs \<longleftrightarrow> list_all (\<lambda>tx. slice_len (td_PublicKey (tx_InnerData tx)) = 32) txs"

definition generator_ok :: "Faucet \<Rightarrow> bool" where
  "generator_ok f \<longleftrightarrow> (case generator f of None \<Rightarrow> True | Some g \<Rightarrow> length g = 32)"

lemma callers_not_nil: "callers_ok txs \<Longrightarrow> \<forall>tx\<in>set txs. td_PublicKey (tx_InnerData tx) \<noteq> None"
  by (intro ballI notI) (auto simp: callers_ok_def list_all_iff dest!: bspec)

lemma act_keys_size:
  assumes "slice_len (td_PublicKey (tx_InnerData tx)) = 32" "generator_ok f" "k \<in> set (act_keys (action_of f tx))"
  shows "length k = 32"
proof (cases "action_of f tx")
  case (Airdrop t n g amt)
  then show ?thesis using assms
    by (auto simp: action_of_def Let_def generator_ok_def slice_len_def split: go.splits if_splits option.splits)
next
  case (Transfer g n t amt)
  then obtain call p where c: "Call_Verify call" "ca_Call call = Rpc_Transfer"
      "TransferParam_Unmarshal (bytes_of (ca_Params call)) = Ok p" "t = bytes_of (tp_To p)"
      "g = bytes_of (td_PublicKey (tx_InnerData tx))"
    by (auto simp: action_of_def Let_def split: go.splits if_splits option.splits)
  have "slice_len (tp_To p) = 32" using Call_Verify_decodes(2) [OF c(1,2)] c(3) by auto
  with c Transfer assms(1,3) show ?thesis by (auto simp: slice_len_def)
qed (use assms in auto)

text \<open>
  Two databases hold the same accounts. Only the keys that a transaction can name count: the index and
  the \<open>latest\<close> entries, which depend on when the generator was stored, are not compared.
\<close>

definition same_accounts ::
  "Faucet \<Rightarrow> ('d, 'z) senv_scheme \<Rightarrow> 'd StorageDb \<Rightarrow> ('e, 'y) senv_scheme \<Rightarrow> 'e StorageDb \<Rightarrow> bool" where
  "same_accounts f E1 db1 E2 db2 \<longleftrightarrow> (\<forall>k. length k = 32 \<or> generator f = Some k \<longrightarrow> db_state E1 db1 k = db_state E2 db2 k)"

lemma act_keys_named:
  assumes "slice_len (td_PublicKey (tx_InnerData tx)) = 32" "k \<in> set (act_keys (action_of f tx))"
  shows "length k = 32 \<or> generator f = Some k"
proof (cases "generator f = Some k")
  case False
  show ?thesis
  proof (cases "action_of f tx")
    case (Airdrop t n g amt)
    then have "t = bytes_of (td_PublicKey (tx_InnerData tx))" "generator f = Some g"
      by (auto simp: action_of_def Let_def split: go.splits if_splits option.splits)
    with Airdrop False assms show ?thesis by (auto simp: slice_len_def)
  next
    case (Transfer g n t amt)
    then have "action_of (f\<lparr>generator := None\<rparr>) tx = Transfer g n t amt"
      by (auto simp: action_of_def Let_def split: go.splits if_splits option.splits)
    with act_keys_size [OF assms(1), of "f\<lparr>generator := None\<rparr>" k] Transfer assms(2) show ?thesis by (simp add: generator_ok_def)
  qed (use assms in auto)
qed simp

lemma ledger_tx_stored:
  "\<forall>k\<in>set (act_keys (action_of f tx)). sto1 k = sto2 k \<Longrightarrow> ledger_tx enc sto1 f tx ks L = ledger_tx enc sto2 f tx ks L"
proof -
  assume a: "\<forall>k\<in>set (act_keys (action_of f tx)). sto1 k = sto2 k"
  have "reverted enc sto1 (add_keys (act_keys (action_of f tx)) []) L' = reverted enc sto2 (add_keys (act_keys (action_of f tx)) []) L'" for L'
    using a by (auto simp: reverted_def list_all_iff intro!: fold_cong)
  then show ?thesis by (simp add: ledger_tx_def Let_def cong: go.case_cong prod.case_cong)
qed

text \<open>A block has the same effect on two databases with the same accounts.\<close>

lemma ledger_block_stored:
  assumes "same_accounts f E1 db1 E2 db2" "callers_ok txs"
  shows "ledger_block enc (db_state E1 db1) f txs ks L = ledger_block enc (db_state E2 db2) f txs ks L"
  using assms(2)
proof (induction txs arbitrary: ks L)
  case (Cons tx txs)
  have "slice_len (td_PublicKey (tx_InnerData tx)) = 32" using Cons.prems by (simp add: callers_ok_def)
  then have "\<forall>k\<in>set (act_keys (action_of f tx)). db_state E1 db1 k = db_state E2 db2 k"
    using act_keys_named assms(1) unfolding same_accounts_def by blast
  from ledger_tx_stored [OF this] Cons.IH Cons.prems show ?case by (simp add: callers_ok_def split: option.split)
qed simp

text \<open>
  The states under the keys of the database decode; the entries under an index and under the
  \<open>latest\<close> keys are no states.
\<close>

definition db_decodes :: "('d, 'z) senv_scheme \<Rightarrow> 'd StorageDb \<Rightarrow> bool" where
  "db_decodes E db \<longleftrightarrow> (\<forall>k. length k = 32 \<longrightarrow> is_Ok (db_state E db k))"

text \<open>What the execution of a block leaves: a synced node and the keys it executed.\<close>

lemma ExecuteNow_synced:
  assumes "node_ok E w" "b58_ok E" "callers_ok txs" "generator_ok f"
    "synced (b58_Encode E) (db_state E (w_db w)) [] (led w)" "ExecuteNow E f txs w = (Ok (ex, ts), w')"
  obtains ks where "ex = map Some ks" "node_ok E w'" "w_db w' = w_db w"
    "ledger_block (b58_Encode E) (db_state E (w_db w)) f txs [] (led w) = Some (ks, ts, led w')"
    "synced (b58_Encode E) (db_state E (w_db w)) ks (led w')" "dom (led w) \<subseteq> dom (led w')"
    "list_all (known E (stateMem (w_mem w'))) ks"
proof -
  let ?enc = "b58_Encode E" and ?sto = "db_state E (w_db w)"
  have inj: "inj ?enc" using b58_inj [OF assms(2)] by (auto intro: injI)
  note blk = ExecuteNow_loop_block [OF assms(1) callers_not_nil [OF assms(3)], of f "[]"]
  obtain ks L ms' where ks: "ledger_block ?enc ?sto f txs [] (led w) = Some (ks, ts, L)" "ex = map Some ks"
      "node_ok E (w\<lparr>w_mem := ms'\<rparr>)" "mem_state (stateMem ms') = L" "w' = w\<lparr>w_mem := ms'\<rparr>"
    using blk assms(6) by (auto simp: ExecuteNow_def split: option.splits)
  have s: "synced ?enc ?sto ks L" "dom (led w) \<subseteq> dom L" "\<forall>k\<in>set ks. L (?enc k) \<noteq> None"
      "set ks \<subseteq> (\<Union>tx\<in>set txs. set (act_keys (action_of f tx)))"
    using ledger_block_synced [OF inj assms(5) _ ks(1)] by auto
  have "length k = 32" if "k \<in> set ks" for k
    using that s(4) assms(3,4) act_keys_size by (fastforce simp: callers_ok_def list_all_iff)
  with s(3) have "list_all (known E (stateMem ms')) ks"
    using ks(4) by (auto simp: list_all_iff known_def mem_state_def)
  with that ks s(1,2) show ?thesis by simp
qed

lemma db_state_pushed:
  assumes "bucket_get E accountsBucket db' = pushed E L ks (bucket_get E accountsBucket db)"
  shows "db_state E db' k = (if k \<in> set ks then Ok (the (L (b58_Encode E k))) else db_state E db k)"
  by (simp add: db_state_def assms pushed_apply)

text \<open>The block is accepted: the executed accounts reach the database, memory does not change.\<close>

lemma PushAccounts_node:
  assumes "node_ok E w" "list_all (known E (stateMem (w_mem w))) ks" "length ks \<le> 11"
  shows "\<exists>w'. PushAccounts E (map Some ks) w = (Ok (), w') \<and> node_ok E w' \<and> led w' = led w
    \<and> (\<forall>k. db_state E (w_db w') k = (if k \<in> set ks then Ok (the (led w (b58_Encode E k))) else db_state E (w_db w) k))
    \<and> (\<forall>name. bucket_ok name (w_db w') = bucket_ok name (w_db w)) \<and> mempool (w_mem w') = mempool (w_mem w)
    \<and> bucket_get E blocksBucket (w_db w') = bucket_get E blocksBucket (w_db w)"
proof -
  have node: "bolt_ok E" "bucket_ok accountsBucket (w_db w)" "idle (w_mem w)" "mem_wf (stateMem (w_mem w))"
    using assms(1) by (simp_all add: node_ok_def)
  obtain db n where p: "PushAccounts E (map Some ks) w
        = (Ok (), w\<lparr>w_mem := svc (w_mem w) (stateMem (w_mem w)) None n, w_db := db\<rparr>)"
      "bucket_get E accountsBucket db = pushed E (led w) ks (bucket_get E accountsBucket (w_db w))"
      "\<forall>name. bucket_ok name db = bucket_ok name (w_db w)"
      "\<forall>name. name \<noteq> accountsBucket \<longrightarrow> bucket_get E name db = bucket_get E name (w_db w)"
    by (rule PushAccounts_ok [OF node(1-3) assms(2,3)])
  moreover have "blocksBucket \<noteq> accountsBucket" by (simp add: accountsBucket_def blocksBucket_def)
  moreover have "mempool (svc (w_mem w) (stateMem (w_mem w)) None n) = mempool (w_mem w)" by (simp add: svc_def)
  ultimately show ?thesis using node db_state_pushed [OF p(2)] by (simp add: node_ok_def)
qed

lemma finality_accepted:
  assumes "node_ok E w" "list_all (known E (stateMem (w_mem w))) ks" "length ks \<le> 11"
    "synced (b58_Encode E) (db_state E (w_db w)) ks (led w)"
  shows "\<exists>w'. Executer_waitForFinality E (map Some ks) True w = (Ok (), w') \<and> node_ok E w' \<and> led w' = led w
    \<and> (\<forall>k. db_state E (w_db w') k = (if k \<in> set ks then Ok (the (led w (b58_Encode E k))) else db_state E (w_db w) k))
    \<and> synced (b58_Encode E) (db_state E (w_db w')) [] (led w')"
proof -
  obtain w' where p: "PushAccounts E (map Some ks) w = (Ok (), w')" "node_ok E w'" "led w' = led w"
      "\<forall>k. db_state E (w_db w') k = (if k \<in> set ks then Ok (the (led w (b58_Encode E k))) else db_state E (w_db w) k)"
    using PushAccounts_node [OF assms(1-3)] by blast
  have "led w (b58_Encode E k) \<noteq> None" if "k \<in> set ks" for k
    using that assms(2) by (auto simp: list_all_iff known_def mem_state_def)
  then have "synced (b58_Encode E) (db_state E (w_db w')) [] (led w)"
    using assms(4) p(4) by (auto simp: synced_def)
  with p show ?thesis by (auto simp: Executer_waitForFinality_def)
qed

text \<open>The block is rejected: every account is back to what the database holds.\<close>

lemma finality_rejected:
  assumes "node_ok E w" "b58_ok E" "length ks \<le> 11" "\<forall>k\<in>set ks. is_Ok (db_state E (w_db w) k)"
    "synced (b58_Encode E) (db_state E (w_db w)) ks (led w)"
  shows "\<exists>w'. Executer_waitForFinality E (map Some ks) False w = (Ok (), w') \<and> node_ok E w' \<and> w_db w' = w_db w
    \<and> synced (b58_Encode E) (db_state E (w_db w)) [] (led w') \<and> dom (led w) \<subseteq> dom (led w')"
proof -
  let ?enc = "b58_Encode E" and ?sto = "db_state E (w_db w)"
  have inj: "inj ?enc" using b58_inj [OF assms(2)] by (auto intro: injI)
  obtain L where L: "reverted ?enc ?sto ks (led w) = Some L" using assms(4) by (simp add: reverted_def list_all_iff)
  then obtain ms' where ms': "FetchAccounts E (map Some ks) w = (Ok (), w\<lparr>w_mem := ms'\<rparr>)"
      "node_ok E (w\<lparr>w_mem := ms'\<rparr>)" "mem_state (stateMem ms') = L"
    using Fetch_reverted [OF assms(1,3)] by auto
  note ra = reverted_apply [OF inj L]
  have "L (?enc k) = led w (?enc k)" if "k \<notin> set ks" for k
    using ra(2) [of "?enc k"] that inj by (auto simp: inj_image_mem_iff)
  then have "synced ?enc ?sto [] L" using assms(5) ra(1) by (fastforce simp: synced_def)
  then show ?thesis using ms' ra(3)
    by (intro exI [of _ "w\<lparr>w_mem := ms'\<rparr>"]) (simp add: Executer_waitForFinality_def Executer_revert_def)
qed


subsection \<open>A failed transaction undoes earlier ones of its block\<close>

text \<open>
  The revert of a failed transaction reads the database, which has not seen the block yet. When
  the sender of a transfer fails with a second transfer in the same block, the sender gets its
  old state back and the receiver of the first transfer keeps the amount.
\<close>

lemma ledger_block_revert:
  assumes "inj enc" "ledger_ok L" "synced enc sto [] L" "action_of f tx1 = Transfer a n c amount"
    "action_of f tx2 = Transfer a (n + 1) b amount2" "a \<noteq> c" "b \<noteq> c"
    "L (enc a) = Some s" "L (enc b) = Some u" "L (enc c) = Some t" "as_Nonce s = n"
    "unat amount \<le> unat (as_Balance s)" "unat (as_Balance s) - unat amount < unat amount2"
  shows "\<exists>ks ts. ledger_block enc sto f [tx1, tx2] [] L
     = Some (ks, ts, L(enc c \<mapsto> t\<lparr>as_Balance := as_Balance t + amount\<rparr>))"
proof -
  let ?s1 = "s\<lparr>as_Nonce := as_Nonce s + 1, as_Balance := as_Balance s - amount\<rparr>"
  let ?t1 = "t\<lparr>as_Balance := as_Balance t + amount\<rparr>"
  let ?L1 = "L(enc a \<mapsto> ?s1, enc c \<mapsto> ?t1)"
  let ?s2 = "?s1\<lparr>as_Nonce := as_Nonce s + 1 + 1\<rparr>"
  have ne: "enc a \<noteq> enc c" "enc b \<noteq> enc c" using assms(1,6,7) by (auto simp: inj_eq)
  have run1: "ledger_transfer (enc a) n (enc c) amount L = (Ok (), ?L1)"
    by (rule ledger_transfer_effect) (use assms ne in simp_all)
  have run2: "ledger_transfer (enc a) (n + 1) (enc b) amount2 ?L1 = (Err ''not enough balance'', ?L1(enc a \<mapsto> ?s2))"
    using assms ne by (simp add: ledger_transfer_def Let_def Subtract_cases unat_Subtract)
  have "sto a = Ok s" "sto b = Ok u" using synced_known [OF assms(3)] assms(8,9) by simp_all
  then have "reverted enc sto (add_keys [a, b] []) (?L1(enc a \<mapsto> ?s2)) = Some (L(enc c \<mapsto> ?t1))"
    using ne assms(8,9) by (auto simp: reverted_def is_Ok_def state_or_zero_def add_keys_def add_key_def fun_eq_iff)
  then show ?thesis
    using run1 run2 assms ne by (auto simp: ledger_tx_def Let_def nonce_ready_def)
qed

end
