(* ===== verification/Wallets.thy ===== *)
theory Wallets
  imports Txs
begin

text \<open>
  Packages \<open>accounts/keys\<close> and \<open>accounts/wallets\<close> (\<open>src/accounts/keys/keypair.go\<close>,
  \<open>src/accounts/wallets/wallet.go\<close>): the key pair, the signing of transactions and of raw bytes,
  and the wallet that loads its key file or creates it. \<open>ed25519.GenerateKey\<close> and the file
  system are arguments: what the generator returns, what the file holds (\<open>None\<close> when it does not
  exist) and the error of the write, if any.
\<close>

record KeyPair =
  kp_PrivateKey :: slice
  kp_PublicKey :: slice

record Wallet =
  wa_keyPair :: KeyPair
  wa_nonce :: uint64
  wa_balance :: uint64

definition GenerateKey :: "(bytes \<times> bytes) go \<Rightarrow> KeyPair go" where
  "GenerateKey gen = go_bind gen (\<lambda>(pub, pri). Ok \<lparr>kp_PrivateKey = Some pri, kp_PublicKey = Some pub\<rparr>)"

definition KeyPair_Sign :: "'z lib_scheme \<Rightarrow> KeyPair \<Rightarrow> Transaction \<Rightarrow> Transaction go" where
  "KeyPair_Sign L kp tx =
     go_bind (ed25519_Sign L (kp_PrivateKey kp) (td_Data (tx_InnerData tx))) (\<lambda>sig.
       let tx' = tx\<lparr>tx_InnerData := (tx_InnerData tx)\<lparr>td_Signature := Some sig\<rparr>\<rparr>;
           enc = Marshal TransactionData_to_json (tx_InnerData tx')
       in Ok (tx'\<lparr>tx_Hash := Some (Sum256 L enc)\<rparr>))"

definition KeyPair_SignRaw :: "'z lib_scheme \<Rightarrow> KeyPair \<Rightarrow> slice \<Rightarrow> bytes go" where
  "KeyPair_SignRaw L kp data = ed25519_Sign L (kp_PrivateKey kp) data"

definition KeyPair_to_json :: "KeyPair \<Rightarrow> json" where
  "KeyPair_to_json kp = JObj
     [(''PrivateKey'', enc_bytes (kp_PrivateKey kp)), (''PublicKey'', enc_bytes (kp_PublicKey kp))]"

definition KeyPair_fields :: "KeyPair fields" where
  "KeyPair_fields =
     [(''PrivateKey'', \<lambda>j k. map_option (\<lambda>x. k\<lparr>kp_PrivateKey := x\<rparr>) (dec_bytes j (kp_PrivateKey k))),
      (''PublicKey'', \<lambda>j k. map_option (\<lambda>x. k\<lparr>kp_PublicKey := x\<rparr>) (dec_bytes j (kp_PublicKey k)))]"

definition KeyPair_Unmarshal :: "bytes \<Rightarrow> KeyPair go" where
  "KeyPair_Unmarshal raw =
     Unmarshal (dec_struct KeyPair_fields) \<lparr>kp_PrivateKey = None, kp_PublicKey = None\<rparr> raw"

definition fromKeyPair :: "KeyPair \<Rightarrow> Wallet" where
  "fromKeyPair kp = \<lparr>wa_keyPair = kp, wa_nonce = 0, wa_balance = 0\<rparr>"

text \<open>The result and the content of the key file afterwards.\<close>

definition NewWallet ::
  "(bytes \<times> bytes) go \<Rightarrow> string option \<Rightarrow> bytes option \<Rightarrow> Wallet go \<times> bytes option" where
  "NewWallet gen writeErr keyFile = (case keyFile of
       Some f \<Rightarrow> (go_bind (KeyPair_Unmarshal f) (\<lambda>key. Ok (fromKeyPair key)), keyFile)
     | None \<Rightarrow> (case GenerateKey gen of
           Ok key \<Rightarrow> (case writeErr of
               None \<Rightarrow> (Ok (fromKeyPair key), Some (Marshal KeyPair_to_json key))
             | Some e \<Rightarrow> (Err e, keyFile))
         | Err e \<Rightarrow> (Err e, keyFile) | Panic p \<Rightarrow> (Panic p, keyFile) | Blocked \<Rightarrow> (Blocked, keyFile)))"

definition Wallet_Init :: "uint64 \<Rightarrow> uint64 \<Rightarrow> Wallet \<Rightarrow> Wallet" where
  "Wallet_Init nonce balance w = w\<lparr>wa_nonce := nonce, wa_balance := balance\<rparr>"

definition Wallet_PublicKey :: "Wallet \<Rightarrow> slice" where
  "Wallet_PublicKey w = kp_PublicKey (wa_keyPair w)"

definition Wallet_Sign :: "'z lib_scheme \<Rightarrow> Wallet \<Rightarrow> Transaction \<Rightarrow> Transaction go" where
  "Wallet_Sign L w tx = KeyPair_Sign L (wa_keyPair w)
     (tx\<lparr>tx_InnerData := (tx_InnerData tx)\<lparr>td_PublicKey := Wallet_PublicKey w, td_Nonce := wa_nonce w\<rparr>\<rparr>)"

definition Wallet_SignRaw :: "'z lib_scheme \<Rightarrow> Wallet \<Rightarrow> slice \<Rightarrow> bytes go" where
  "Wallet_SignRaw L w data = KeyPair_SignRaw L (wa_keyPair w) data"

lemmas wallet_defs = Wallet_Init_def Wallet_PublicKey_def Wallet_Sign_def Wallet_SignRaw_def
  KeyPair_Sign_def KeyPair_SignRaw_def fromKeyPair_def

subsection \<open>Key pairs that work\<close>

text \<open>A pair as \<open>ed25519.GenerateKey\<close> documents it: sizes, and signatures that verify.\<close>

definition keypair_ok :: "'z lib_scheme \<Rightarrow> KeyPair \<Rightarrow> bool" where
  "keypair_ok L kp \<longleftrightarrow> slice_len (kp_PrivateKey kp) = 64 \<and> slice_len (kp_PublicKey kp) = 32
     \<and> (\<forall>m. length (ed_Sign L (bytes_of (kp_PrivateKey kp)) m) = 64
          \<and> ed_Verify L (bytes_of (kp_PublicKey kp)) m (ed_Sign L (bytes_of (kp_PrivateKey kp)) m))"

lemma slice_len_Some: "0 < slice_len s \<Longrightarrow> s \<noteq> None"
  by (cases s) auto

lemma SignRaw_ok:
  "keypair_ok L (wa_keyPair w) \<Longrightarrow>
     \<exists>sig. Wallet_SignRaw L w data = Ok sig \<and> length sig = 64
       \<and> ed25519_Verify L (Wallet_PublicKey w) data (Some sig) = Ok True"
  by (simp add: keypair_ok_def wallet_defs ed25519_Sign_def ed25519_Verify_def)

lemma Sign_Verify:
  assumes "keypair_ok L (wa_keyPair w)" "hash_ok L"
    and "0 < slice_len data" "slice_len data \<le> MaxPayloadSize" "0 < sint now"
  shows "\<exists>tx. Wallet_Sign L w (NewTransaction data now) = Ok tx \<and> Transaction_Verify L tx = Ok True
     \<and> td_Nonce (tx_InnerData tx) = wa_nonce w \<and> td_PublicKey (tx_InnerData tx) = Wallet_PublicKey w
     \<and> td_Data (tx_InnerData tx) = data \<and> \<not> tx_Status tx"
proof -
  have "0 < slice_len (kp_PublicKey (wa_keyPair w))" using assms(1) by (simp add: keypair_ok_def)
  then have "kp_PublicKey (wa_keyPair w) \<noteq> None" "data \<noteq> None"
    using assms(3) slice_len_Some by blast+
  then show ?thesis using assms
    by (simp add: wallet_defs ed25519_Sign_def keypair_ok_def NewTransaction_def Transaction_Verify_def
        CheckContents_def PublicKeySize_def HashSize_def bytes_Equal_def ed25519_Verify_def Let_def)
qed

lemma wallet_names [simp]: "good_str ''PrivateKey''"
  by (rule good_str_plain) (simp add: plain_def)

interpretation keypair_codec: codec KeyPair_to_json "dec_struct KeyPair_fields"
  "\<lparr>kp_PrivateKey = None, kp_PublicKey = None\<rparr>" "\<lambda>_. True"
  by unfold_locales (simp_all add: KeyPair_to_json_def KeyPair_fields_def find_field_def)

text \<open>A wallet opened again from the file the first call wrote has the same keys.\<close>

lemma NewWallet_reopen:
  "NewWallet gen None None = (Ok w, f) \<Longrightarrow> NewWallet gen' e f = (Ok w, f)"
  by (auto simp: NewWallet_def GenerateKey_def KeyPair_Unmarshal_def keypair_codec.roundtrip
      split: go.splits option.splits)

end
