(* ===== verification/Blockchain.thy ===== *)
theory Blockchain
  imports Common
begin

text \<open>
  Package \<open>blockchain\<close> (\<open>src/blockchain/blockchain.go\<close>): the position of the node in the chain,
  that is the height, epoch and slot of the next block and the hash of the last one. The
  interface \<open>BlockchainInfo\<close>, through which the block producer, the sync service and the
  consensus service read the position, is the locale \<open>blockchain_info\<close>; it is interpreted on
  the record \<open>Blockchain\<close> below.
\<close>

definition SlotsInEpoch :: uint32 where "SlotsInEpoch = 30"

record Blockchain =
  nextHeight :: uint64
  nextEpoch :: uint64
  nextSlot :: uint32
  previousBlockHash :: slice

definition NewBlockchain :: Blockchain where
  "NewBlockchain = \<lparr>nextHeight = 0, nextEpoch = 0, nextSlot = 0, previousBlockHash = None\<rparr>"

definition Blockchain_Init :: "uint64 \<Rightarrow> slice \<Rightarrow> Blockchain \<Rightarrow> Blockchain" where
  "Blockchain_Init height prevHash bc = bc\<lparr>
     nextHeight := height,
     nextEpoch := height div ucast SlotsInEpoch,
     nextSlot := ucast height mod SlotsInEpoch,
     previousBlockHash := prevHash\<rparr>"

definition incrementHeight :: "Blockchain \<Rightarrow> Blockchain" where
  "incrementHeight bc = bc\<lparr>nextHeight := nextHeight bc + 1\<rparr>"

definition incrementEpoch :: "Blockchain \<Rightarrow> Blockchain" where
  "incrementEpoch bc = bc\<lparr>nextEpoch := nextEpoch bc + 1\<rparr>"

definition icrementSlot :: "Blockchain \<Rightarrow> Blockchain" where
  "icrementSlot bc =
     (let bc' = bc\<lparr>nextSlot := (nextSlot bc + 1) mod SlotsInEpoch\<rparr>
      in if nextSlot bc' = 0 then incrementEpoch bc' else bc')"

definition Blockchain_Increment :: "slice \<Rightarrow> Blockchain \<Rightarrow> Blockchain" where
  "Blockchain_Increment blockHash bc =
     (icrementSlot (incrementHeight bc))\<lparr>previousBlockHash := blockHash\<rparr>"

definition Blockchain_NextHeight :: "Blockchain \<Rightarrow> uint64" where
  "Blockchain_NextHeight bc = nextHeight bc"

definition Blockchain_NextEpoch :: "Blockchain \<Rightarrow> uint64" where
  "Blockchain_NextEpoch bc = nextEpoch bc"

definition Blockchain_NextSlot :: "Blockchain \<Rightarrow> uint32" where
  "Blockchain_NextSlot bc = nextSlot bc"

definition Blockchain_PreviousBlockHash :: "Blockchain \<Rightarrow> slice" where
  "Blockchain_PreviousBlockHash bc = previousBlockHash bc"

lemmas blockchain_defs = NewBlockchain_def Blockchain_Init_def incrementHeight_def
  incrementEpoch_def icrementSlot_def Blockchain_Increment_def Blockchain_NextHeight_def
  Blockchain_NextEpoch_def Blockchain_NextSlot_def Blockchain_PreviousBlockHash_def
  SlotsInEpoch_def Let_def

subsection \<open>The position is consistent\<close>

text \<open>Epoch and slot are quotient and remainder of the height by the slots of an epoch.\<close>

definition bc_wf :: "Blockchain \<Rightarrow> bool" where
  "bc_wf bc \<longleftrightarrow> unat (nextEpoch bc) = unat (nextHeight bc) div 30
     \<and> unat (nextSlot bc) = unat (nextHeight bc) mod 30"

lemma bc_wf_New: "bc_wf NewBlockchain"
  by (simp add: bc_wf_def NewBlockchain_def)

lemma unat_suc: "unat (w::'a::len word) + 1 < 2 ^ LENGTH('a) \<Longrightarrow> unat (w + 1) = unat w + 1"
  by (simp add: unat_word_ariths)

lemma div_mod_suc:
  fixes h :: nat
  shows "(h + 1) mod 30 = (h mod 30 + 1) mod 30"
    and "(h + 1) div 30 = (if (h + 1) mod 30 = 0 then h div 30 + 1 else h div 30)"
  by (simp_all add: mod_Suc_eq div_Suc)

lemma slot_suc:
  assumes "unat (s::uint32) < 30" shows "unat ((s + 1) mod 30) = (unat s + 1) mod 30"
proof -
  have "unat (s + 1) = unat s + 1" by (rule unat_suc) (use assms in simp)
  then show ?thesis by (simp only: unat_mod) simp
qed

lemma bc_wf_Init:
  assumes "unat height < 2 ^ 32" shows "bc_wf (Blockchain_Init height prevHash bc)"
proof -
  have "unat (ucast height :: uint32) = unat height" using assms
    by (simp add: unsigned_ucast_eq take_bit_nat_eq_self_iff)
  then show ?thesis
    by (simp add: bc_wf_def Blockchain_Init_def SlotsInEpoch_def unat_div unat_mod)
qed

lemma bc_wf_Increment:
  assumes "bc_wf bc" "unat (nextHeight bc) < 2 ^ 64 - 1"
  shows "bc_wf (Blockchain_Increment blockHash bc)"
proof -
  let ?h = "unat (nextHeight bc)"
  have h: "unat (nextHeight bc + 1) = ?h + 1" using assms(2) by (simp add: unat_suc)
  have slot: "unat (nextSlot bc) = ?h mod 30" "unat (nextSlot bc) < 30"
    using assms(1) by (simp_all add: bc_wf_def)
  have s: "unat ((nextSlot bc + 1) mod 30) = (?h + 1) mod 30"
    by (simp only: slot_suc [OF slot(2)] slot(1) div_mod_suc(1) [symmetric])
  then have z: "(nextSlot bc + 1) mod 30 = 0 \<longleftrightarrow> (?h + 1) mod 30 = 0"
    by (metis unat_eq_0)
  have "?h div 30 + 1 < 2 ^ 64" using assms(2) by simp
  then have "unat (nextEpoch bc + 1) = ?h div 30 + 1"
    using assms(1) by (simp add: bc_wf_def unat_suc)
  then show ?thesis using assms(1) s z h div_mod_suc(2) [of ?h]
    by (simp add: bc_wf_def blockchain_defs)
qed

text \<open>The interface: what a client may rely on when a block is appended.\<close>

locale blockchain_info =
  fixes NextHeight :: "'b \<Rightarrow> uint64"
    and NextEpoch :: "'b \<Rightarrow> uint64"
    and NextSlot :: "'b \<Rightarrow> uint32"
    and PreviousBlockHash :: "'b \<Rightarrow> slice"
    and Increment :: "slice \<Rightarrow> 'b \<Rightarrow> 'b"
    and inv :: "'b \<Rightarrow> bool"
  assumes next_height: "NextHeight (Increment h b) = NextHeight b + 1"
    and prev_hash: "PreviousBlockHash (Increment h b) = h"
    and inv_increment: "inv b \<Longrightarrow> unat (NextHeight b) < 2 ^ 64 - 1 \<Longrightarrow> inv (Increment h b)"
    and inv_epoch: "inv b \<Longrightarrow> unat (NextEpoch b) = unat (NextHeight b) div 30"
    and inv_slot: "inv b \<Longrightarrow> unat (NextSlot b) = unat (NextHeight b) mod 30"
begin

lemma position_unique:
  assumes "inv b" "inv b'" "NextHeight b = NextHeight b'"
  shows "NextEpoch b = NextEpoch b' \<and> NextSlot b = NextSlot b'"
  using assms by (metis inv_epoch inv_slot unsigned_word_eqI)

lemma inv_fold:
  "inv b \<Longrightarrow> unat (NextHeight b) + length hs < 2 ^ 64 \<Longrightarrow>
     inv (fold Increment hs b) \<and> unat (NextHeight (fold Increment hs b)) = unat (NextHeight b) + length hs"
proof (induction hs arbitrary: b)
  case (Cons h hs)
  then have lt: "unat (NextHeight b) < 2 ^ 64 - 1" by simp
  then have "unat (NextHeight b + 1) = unat (NextHeight b) + 1"
    by (simp add: unat_word_ariths)
  with Cons lt show ?case by (simp add: next_height inv_increment)
qed simp

end

interpretation bci: blockchain_info Blockchain_NextHeight Blockchain_NextEpoch
  Blockchain_NextSlot Blockchain_PreviousBlockHash Blockchain_Increment bc_wf
proof (unfold_locales, goal_cases)
  case (3 b h)
  then show ?case by (intro bc_wf_Increment) (simp_all add: Blockchain_NextHeight_def)
qed (auto simp: bc_wf_def blockchain_defs)


subsection \<open>Properties\<close>

text \<open>
  From an initialisation below height \<open>2^32\<close> on, and through every block appended after it, the
  epoch and the slot are the quotient and the remainder of the height by the thirty slots of an
  epoch, the height grows by one per block and the previous hash is that of the last block.
\<close>

theorem chain_position:
  assumes "unat height < 2 ^ 32" "length hs < 2 ^ 32"
  shows "let bc = fold Blockchain_Increment hs (Blockchain_Init height prev NewBlockchain) in
     unat (Blockchain_NextHeight bc) = unat height + length hs
     \<and> unat (Blockchain_NextEpoch bc) = (unat height + length hs) div 30
     \<and> unat (Blockchain_NextSlot bc) = (unat height + length hs) mod 30
     \<and> Blockchain_PreviousBlockHash bc = last (prev # hs)"
proof -
  let ?b0 = "Blockchain_Init height prev NewBlockchain"
  let ?bc = "fold Blockchain_Increment hs ?b0"
  have h: "Blockchain_NextHeight ?b0 = height" by (simp add: blockchain_defs)
  have "unat height + length hs < 2 ^ 64" using assms by simp
  then have inv: "bc_wf ?bc" "unat (Blockchain_NextHeight ?bc) = unat height + length hs"
    using bci.inv_fold [OF bc_wf_Init [OF assms(1)], of prev NewBlockchain hs] h by simp_all
  have "Blockchain_PreviousBlockHash ?bc = last (prev # hs)"
  proof (cases hs rule: rev_cases)
    case (snoc hs' x)
    then show ?thesis using bci.prev_hash by simp
  qed (simp add: blockchain_defs)
  with inv bci.inv_epoch [OF inv(1)] bci.inv_slot [OF inv(1)] show ?thesis by (simp add: Let_def)
qed

theorem chain_position_witness:
  "let bc = fold Blockchain_Increment [Some ''h''] (Blockchain_Init 59 None NewBlockchain) in
     unat (Blockchain_NextHeight bc) = 60 \<and> unat (Blockchain_NextEpoch bc) = 2 \<and> unat (Blockchain_NextSlot bc) = 0
     \<and> Blockchain_PreviousBlockHash bc = Some ''h''"
  using chain_position [of 59 "[Some ''h'']" None] by (simp add: Let_def)

end
