(* ===== verification/Producer.thy ===== *)
theory Producer
  imports Ledger Wallets Blockchain
begin

text \<open>
  Package \<open>executers\<close>, production and verification of blocks (\<open>src/executers/block_producer.go\<close>).
  The finality channel both return is represented by the keys the waiting goroutine holds.
  \<open>BlockProducer_Verify\<close> executes the transactions of the block in place, so the block the hash
  is checked on carries the statuses the verifier computed.
\<close>

definition CheckBlockInfo :: "Blockchain \<Rightarrow> Block \<Rightarrow> bool" where
  "CheckBlockInfo bc blk \<longleftrightarrow>
     (if bi_Height (bl_Info blk) \<noteq> Blockchain_NextHeight bc then False
      else if \<not> bytes_Equal (bl_PreviousBlockHash blk) (Blockchain_PreviousBlockHash bc) then False
      else True)"

definition CheckStateHash :: "'z env_scheme \<Rightarrow> Block \<Rightarrow> MemoryService \<Rightarrow> (bool \<times> bytes) go" where
  "CheckStateHash E blk ms = go_bind (MemoryService_GetStateHash E ms) (\<lambda>stateHash.
     Ok (bytes_Equal (Some stateHash) (bl_StateHash blk), stateHash))"

definition CheckBlockHash :: "'z lib_scheme \<Rightarrow> Blockchain \<Rightarrow> Block \<Rightarrow> bytes \<Rightarrow> bool go" where
  "CheckBlockHash E bc blk stateHash =
     go_bind (TxBundle_HashTransactions E (bl_Bundle blk)) (\<lambda>txHash.
       let prevHash = Blockchain_PreviousBlockHash bc;
           hash = Sum256 E (txHash @ bytes_of prevHash @ stateHash)
       in Ok (bytes_Equal (bi_Hash (bl_Info blk)) (Some hash)))"

definition list_of :: "'a list option \<Rightarrow> 'a list" where
  "list_of xs = (case xs of None \<Rightarrow> [] | Some ys \<Rightarrow> ys)"

definition BlockProducer_NewBlock ::
  "('d, 'z) senv_scheme \<Rightarrow> Faucet \<Rightarrow> Blockchain \<Rightarrow> Wallet \<Rightarrow> int64 \<Rightarrow> ('d world, Block \<times> publicKeys) comp" where
  "BlockProducer_NewBlock E f bc wallet now w =
     st_bind (st_out (MemoryService_GetTxsForBlock E (w_mem w))) (\<lambda>txsInBlock.
     st_bind (Execute E f (list_of txsInBlock)) (\<lambda>(executed, ts) w'.
     st_bind (st_out (MemoryService_GetStateHash E (w_mem w'))) (\<lambda>state.
       let bundle = \<lparr>Transactions = map_option (\<lambda>_. ts) txsInBlock\<rparr>;
           blk = NewBlock (Blockchain_NextHeight bc) (Wallet_PublicKey wallet) bundle
                   (Blockchain_PreviousBlockHash bc) (Some state) now
       in
       st_bind (st_out (HashBlock E blk)) (\<lambda>blk.
       st_bind (st_out (Wallet_SignRaw E wallet (bi_Hash (bl_Info blk)))) (\<lambda>sig.
       st_out (Ok (blk\<lparr>bl_Info := (bl_Info blk)\<lparr>bi_Signature := Some sig\<rparr>\<rparr>, executed))))) w')) w"

text \<open>
  The answer, the finality channel if there is one, and the block with the statuses written by
  the execution. An error of the execution is only logged and the block refused.
\<close>

definition BlockProducer_Verify ::
  "('d, 'z) senv_scheme \<Rightarrow> Faucet \<Rightarrow> Blockchain \<Rightarrow> Block
     \<Rightarrow> ('d world, bool \<times> publicKeys option \<times> Block) comp" where
  "BlockProducer_Verify E f bc blk w =
     (if \<not> CheckBlockInfo bc blk then (Ok (False, None, blk), w)
      else (case Execute E f (txs_of (bl_Bundle blk)) w of
          (Ok (executed, ts), w') \<Rightarrow>
            let blk' = blk\<lparr>bl_Bundle := \<lparr>Transactions = map_option (\<lambda>_. ts) (Transactions (bl_Bundle blk))\<rparr>\<rparr>
            in st_bind (st_out (CheckStateHash E blk' (w_mem w'))) (\<lambda>(ok, state).
               if \<not> ok then st_out (Ok (False, Some executed, blk'))
               else st_bind (st_out (CheckBlockHash E bc blk' state)) (\<lambda>ok.
                 st_out (Ok (ok, Some executed, blk')))) w'
        | (Err e, w') \<Rightarrow> (Ok (False, None, blk), w')
        | (Panic p, w') \<Rightarrow> (Panic p, w')
        | (Blocked, w') \<Rightarrow> (Blocked, w')))"

text \<open>The channel that \<open>Verify\<close> hands out together with an error: the errors come from the checks after the execution.\<close>

definition Verify_channel ::
  "('d, 'z) senv_scheme \<Rightarrow> Faucet \<Rightarrow> Blockchain \<Rightarrow> Block \<Rightarrow> 'd world \<Rightarrow> publicKeys option" where
  "Verify_channel E f bc blk w =
     (if \<not> CheckBlockInfo bc blk then None
      else (case Execute E f (txs_of (bl_Bundle blk)) w of
          (Ok (executed, ts), w') \<Rightarrow> Some executed
        | _ \<Rightarrow> None))"


subsection \<open>Two nodes\<close>

text \<open>Two nodes that run the same packages; the order of maps and sorts, and the database, may differ.\<close>

definition same_lib :: "('d, 'y) senv_scheme \<Rightarrow> ('e, 'z) senv_scheme \<Rightarrow> bool" where
  "same_lib E1 E2 \<longleftrightarrow> Sum256 E1 = Sum256 E2 \<and> b58_Encode E1 = b58_Encode E2 \<and> b58_Decode E1 = b58_Decode E2"

lemma HashTransactions_cong:
  "Sum256 L = Sum256 L' \<Longrightarrow> TxBundle_HashTransactions L b = TxBundle_HashTransactions L' b"
  by (simp add: TxBundle_HashTransactions_def NewMerkleTreeFromRaw_cong [of L L'] split: option.split)

text \<open>Executing a block again, with the statuses a first execution wrote, gives the same block.\<close>

lemma action_of_Status [simp]: "action_of f (tx\<lparr>tx_Status := b\<rparr>) = action_of f tx"
  by (simp add: action_of_def)

lemma ledger_tx_again:
  "ledger_tx enc sto f tx ks L = Some (ks', tx', L') \<Longrightarrow> ledger_tx enc sto f tx' ks L = Some (ks', tx', L')"
  by (auto simp: ledger_tx_def Let_def split: if_splits prod.splits go.splits)

lemma ledger_block_again:
  "ledger_block enc sto f txs ks L = Some (ks', ts, L') \<Longrightarrow> ledger_block enc sto f ts ks L = Some (ks', ts, L')"
proof (induction txs arbitrary: ks L ts)
  case (Cons tx txs)
  then show ?case by (auto split: option.splits dest: ledger_tx_again)
qed auto

lemma ledger_tx_same:
  "ledger_tx enc sto f tx ks L = Some (ks', tx', L') \<Longrightarrow> tx_InnerData tx' = tx_InnerData tx \<and> tx_Hash tx' = tx_Hash tx"
  by (auto simp: ledger_tx_def Let_def split: if_splits prod.splits go.splits)

lemma ledger_block_same:
  "ledger_block enc sto f txs ks L = Some (ks', ts, L') \<Longrightarrow>
     list_all2 (\<lambda>t u. tx_InnerData u = tx_InnerData t \<and> tx_Hash u = tx_Hash t) txs ts"
  by (induction txs arbitrary: ks L ts) (auto split: option.splits dest: ledger_tx_same)

lemma NewBlock_Ok:
  assumes "BlockProducer_NewBlock E f bc wallet now w = (Ok (blk, ex), w')"
  obtains txsInBlock ts state txHash sig where
    "MemoryService_GetTxsForBlock E (w_mem w) = Ok txsInBlock"
    "ExecuteNow E f (list_of txsInBlock) w = (Ok (ex, ts), w')"
    "MemoryService_GetStateHash E (w_mem w') = Ok state"
    "TxBundle_HashTransactions E \<lparr>Transactions = map_option (\<lambda>_. ts) txsInBlock\<rparr> = Ok txHash"
    "blk = \<lparr>bl_Info = \<lparr>bi_Height = Blockchain_NextHeight bc,
       bi_Hash = Some (Sum256 E (txHash @ bytes_of (Blockchain_PreviousBlockHash bc) @ state)),
       bi_Signature = Some sig, bi_PublicKey = Wallet_PublicKey wallet, bi_Timestamp = now\<rparr>,
      bl_Bundle = \<lparr>Transactions = map_option (\<lambda>_. ts) txsInBlock\<rparr>,
      bl_PreviousBlockHash = Blockchain_PreviousBlockHash bc, bl_StateHash = Some state\<rparr>"
    "Wallet_SignRaw E wallet (bi_Hash (bl_Info blk)) = Ok sig"
  using assms that
  by (auto simp: BlockProducer_NewBlock_def Execute_def st_bind_Ok HashBlock_def NewBlock_def Let_def)

definition pool_callers_ok :: "Mempool \<Rightarrow> bool" where
  "pool_callers_ok mp \<longleftrightarrow> callers_ok (map snd (pool mp))"

lemma callers_of_block:
  assumes "env_ok E" "length (pool mp) < 2 ^ 62" "Mempool_GetTxsForBlock E mp = Ok txs"
  shows "set (list_of txs) \<subseteq> snd ` set (pool mp)"
  using GetTxsForBlock_cases [OF assms(1,2)] assms(3)
  by (auto simp: list_of_def dest!: set_mset_mono)

lemma block_callers:
  assumes "env_ok E" "length (pool mp) < 2 ^ 62" "pool_callers_ok mp" "Mempool_GetTxsForBlock E mp = Ok txs"
  shows "callers_ok (list_of txs)"
proof -
  have "set (list_of txs) \<subseteq> snd ` set (pool mp)" by (rule callers_of_block [OF assms(1,2,4)])
  then show ?thesis using assms(3) by (auto simp: pool_callers_ok_def callers_ok_def list_all_iff)
qed

text \<open>
  A block is accepted by every node that has the state the producer had, and the two nodes have
  the same ledger after it.
\<close>

lemma NewBlock_accepted:
  assumes "env_ok E1" "env_ok E2" "same_lib E1 E2" "node_ok E1 w1" "node_ok E2 w2" "led w1 = led w2"
    "same_accounts f E1 (w_db w1) E2 (w_db w2)" "pool_callers_ok (mempool (w_mem w1))"
    "length (pool (mempool (w_mem w1))) < 2 ^ 62"
    "BlockProducer_NewBlock E1 f bc wallet now w1 = (Ok (blk, ex), w1')" "card (dom (led w1')) \<le> 2 ^ 62"
  shows "\<exists>w2'. BlockProducer_Verify E2 f bc blk w2 = (Ok (True, Some ex, blk), w2')
     \<and> node_ok E2 w2' \<and> led w2' = led w1' \<and> w_db w2' = w_db w2
     \<and> (synced (b58_Encode E2) (db_state E2 (w_db w2)) [] (led w2) \<longrightarrow>
          synced (b58_Encode E2) (db_state E2 (w_db w2)) (map the ex) (led w2'))"
proof -
  obtain txs ts state txHash sig where b: "MemoryService_GetTxsForBlock E1 (w_mem w1) = Ok txs"
    "ExecuteNow E1 f (list_of txs) w1 = (Ok (ex, ts), w1')"
    "MemoryService_GetStateHash E1 (w_mem w1') = Ok state"
    "TxBundle_HashTransactions E1 \<lparr>Transactions = map_option (\<lambda>_. ts) txs\<rparr> = Ok txHash"
    "blk = \<lparr>bl_Info = \<lparr>bi_Height = Blockchain_NextHeight bc,
       bi_Hash = Some (Sum256 E1 (txHash @ bytes_of (Blockchain_PreviousBlockHash bc) @ state)),
       bi_Signature = Some sig, bi_PublicKey = Wallet_PublicKey wallet, bi_Timestamp = now\<rparr>,
      bl_Bundle = \<lparr>Transactions = map_option (\<lambda>_. ts) txs\<rparr>,
      bl_PreviousBlockHash = Blockchain_PreviousBlockHash bc, bl_StateHash = Some state\<rparr>"
    "Wallet_SignRaw E1 wallet (bi_Hash (bl_Info blk)) = Ok sig"
    by (rule NewBlock_Ok [OF assms(10)])
  have lib: "Sum256 E1 = Sum256 E2" "b58_Encode E1 = b58_Encode E2" "b58_Decode E1 = b58_Decode E2"
    using assms(3) by (simp_all add: same_lib_def)
  have callers: "callers_ok (list_of txs)"
    using block_callers [OF assms(1,9,8)] b(1) by (simp add: MemoryService_GetTxsForBlock_def)
  note nn = callers_not_nil [OF this]
  obtain ks L ms1 where run: "ledger_block (b58_Encode E1) (db_state E1 (w_db w1)) f (list_of txs) [] (led w1) = Some (ks, ts, L)"
      "ex = map Some ks" "node_ok E1 w1'" "led w1' = L"
    using ExecuteNow_loop_block [OF assms(4) nn, of f "[]"] b(2) by (auto simp: ExecuteNow_def split: option.splits)
  have ts: "txs_of (bl_Bundle blk) = ts"
  proof (cases txs)
    case None
    with run(1) b(5) show ?thesis by (simp add: list_of_def txs_of_def)
  qed (simp add: b(5) txs_of_def)
  have callers2: "callers_ok ts"
    using callers list_all2_set2 [OF ledger_block_same [OF run(1)]] unfolding callers_ok_def list_all_iff by metis
  note nn2 = callers_not_nil [OF this]
  have run2: "ledger_block (b58_Encode E2) (db_state E2 (w_db w2)) f ts [] (led w2) = Some (ks, ts, L)"
    using ledger_block_again [OF run(1)] ledger_block_stored [OF assms(7) callers2] lib(2) assms(6) by simp
  have "b58_ok E2" using assms(2) unfolding env_ok_def by blast
  then have "inj (b58_Encode E2)" using b58_inj by (blast intro: injI)
  from ledger_block_synced [OF this _ _ run2]
  have sy: "synced (b58_Encode E2) (db_state E2 (w_db w2)) [] (led w2) \<Longrightarrow> synced (b58_Encode E2) (db_state E2 (w_db w2)) ks L" by simp
  obtain ms2 where ms2: "node_ok E2 (w2\<lparr>w_mem := ms2\<rparr>)" "mem_state (stateMem ms2) = L"
      "ExecuteNow E2 f ts w2 = (Ok (ex, ts), w2\<lparr>w_mem := ms2\<rparr>)"
    using ExecuteNow_loop_block [OF assms(5) nn2, of f "[]"] run2 run(2)
    by (auto simp: ExecuteNow_def split: option.splits)
  have blk': "blk\<lparr>bl_Bundle := \<lparr>Transactions = map_option (\<lambda>_. ts) (Transactions (bl_Bundle blk))\<rparr>\<rparr> = blk"
    by (simp add: b(5) option.map_comp comp_def)
  have "MemoryService_GetStateHash E2 ms2 = Ok state"
    using GetStateHash_ledger [OF assms(1,2) lib(1,3), of "w_mem w1'" ms2] run(3,4) ms2 b(3) assms(11)
    by (auto simp: node_ok_def)
  moreover have "TxBundle_HashTransactions E2 (bl_Bundle blk) = Ok txHash"
    using b(4,5) HashTransactions_cong [OF lib(1)] by simp
  ultimately have "BlockProducer_Verify E2 f bc blk w2 = (Ok (True, Some ex, blk), w2\<lparr>w_mem := ms2\<rparr>)"
    using ms2(3) blk' lib(1)
    by (simp add: BlockProducer_Verify_def Execute_def ts CheckBlockInfo_def CheckStateHash_def CheckBlockHash_def
        Let_def) (simp add: b(5))
  moreover have "map the ex = ks" by (simp add: run(2) map_idI)
  ultimately show ?thesis using ms2 run(4) sy by simp
qed


lemma Transaction_Verify_cong:
  "tx_InnerData t = tx_InnerData u \<Longrightarrow> tx_Hash t = tx_Hash u \<Longrightarrow> Transaction_Verify E t = Transaction_Verify E u"
  by (simp add: Transaction_Verify_def CheckContents_def)

lemma Verify_caller: "Transaction_Verify E tx = Ok True \<Longrightarrow> slice_len (td_PublicKey (tx_InnerData tx)) = 32"
  by (auto simp: Transaction_Verify_def CheckContents_def PublicKeySize_def Let_def split: if_splits)

lemma executed_verify:
  assumes "ledger_block enc sto f txs ks L = Some (ks', ts, L')" "\<forall>tx\<in>set txs. Transaction_Verify E tx = Ok True"
  shows "\<forall>tx\<in>set ts. Transaction_Verify E tx = Ok True"
  using list_all2_set2 [OF ledger_block_same [OF assms(1)]] assms(2) Transaction_Verify_cong by metis

text \<open>
  A producer with verified transactions in its mempool makes a block as soon as the execution of
  the chosen transactions gets to its end, and the block passes the stateless verification.
\<close>

lemma NewBlock_valid:
  assumes "env_ok E" "node_ok E w" "length (pool (mempool (w_mem w))) < 2 ^ 62"
    "\<forall>tx\<in>snd ` set (pool (mempool (w_mem w))). Transaction_Verify E tx = Ok True"
    "MemoryService_GetTxsForBlock E (w_mem w) = Ok (Some txs)"
    "ledger_block (b58_Encode E) (db_state E (w_db w)) f txs [] (led w) = Some (ks, ts, L)"
    "card (dom L) \<le> 2 ^ 62" "keypair_ok E (wa_keyPair wallet)"
    "slice_len (Blockchain_PreviousBlockHash bc) = 32" "0 < sint now"
  shows "\<exists>blk w'. BlockProducer_NewBlock E f bc wallet now w = (Ok (blk, map Some ks), w') \<and> led w' = L
     \<and> txs_of (bl_Bundle blk) = ts \<and> Block_Verify E blk = Ok True"
proof -
  let ?mp = "mempool (w_mem w)"
  obtain k where k: "length txs = 2 ^ k" "2 ^ k \<le> length (pool ?mp)" "set txs \<subseteq> snd ` set (pool ?mp)"
    using GetTxsForBlock_cases [OF assms(1,3)] assms(5)
    by (auto simp: MemoryService_GetTxsForBlock_def dest!: set_mset_mono)
  have "(2::nat) ^ k < 2 ^ 62" using k(2) assms(3) by (rule le_less_trans)
  then have "k < 62" by (rule power_less_imp_less_exp [rotated]) simp
  then have "k < 64" by simp
  have nn: "\<forall>tx\<in>set txs. td_PublicKey (tx_InnerData tx) \<noteq> None"
    using k(3) assms(4) Verify_caller by (intro ballI notI) fastforce
  obtain ms' where ms': "node_ok E (w\<lparr>w_mem := ms'\<rparr>)" "mem_state (stateMem ms') = L"
      "ExecuteNow E f txs w = (Ok (map Some ks, ts), w\<lparr>w_mem := ms'\<rparr>)"
    using ExecuteNow_loop_block [OF assms(2) nn, of f "[]"] assms(6) by (auto simp: ExecuteNow_def)
  have same: "list_all2 (\<lambda>t u. tx_InnerData u = tx_InnerData t \<and> tx_Hash u = tx_Hash t) txs ts"
    by (rule ledger_block_same [OF assms(6)])
  then have len: "length ts = 2 ^ k" using k(1) by (simp add: list_all2_lengthD)
  have "\<forall>tx\<in>set txs. Transaction_Verify E tx = Ok True" using k(3) assms(4) by blast
  then have ver: "\<forall>tx\<in>set ts. Transaction_Verify E tx = Ok True" by (rule executed_verify [OF assms(6)])
  let ?b = "\<lparr>Transactions = Some ts\<rparr>"
  obtain txHash where tx: "TxBundle_HashTransactions E ?b = Ok txHash"
    using HashTransactions_root [of ?b ts k E] len \<open>k < 64\<close> by simp
  obtain state where st: "MemoryService_GetStateHash E ms' = Ok state" "length state = 32"
  proof -
    have b: "length (dbMap (stateMem ms')) \<le> 2 ^ 62"
      using card_ledger [of "stateMem ms'"] ms'(1,2) assms(7) by (simp add: node_ok_def)
    obtain j where j: "length (dbMap (stateMem ms')) \<le> 2 ^ j" "\<forall>i<j. 2 ^ i < length (dbMap (stateMem ms'))"
        "MemoryService_GetStateHash E ms' = Ok (merkle_root E j (state_leaves E (stateMem ms') j))"
      by (rule GetStateHash_root [OF assms(1) b])
    have "length (merkle_root E j (state_leaves E (stateMem ms') j)) = 32"
      using length_state_root [OF assms(1) j(1)] .
    with that j(3) show thesis by blast
  qed
  define hash where "hash = Sum256 E (txHash @ bytes_of (Blockchain_PreviousBlockHash bc) @ state)"
  obtain sig where sig: "Wallet_SignRaw E wallet (Some hash) = Ok sig" "length sig = 64"
      "ed25519_Verify E (Wallet_PublicKey wallet) (Some hash) (Some sig) = Ok True"
    using SignRaw_ok [OF assms(8)] by blast
  define blk where "blk = \<lparr>bl_Info = \<lparr>bi_Height = Blockchain_NextHeight bc, bi_Hash = Some hash,
       bi_Signature = Some sig, bi_PublicKey = Wallet_PublicKey wallet, bi_Timestamp = now\<rparr>,
      bl_Bundle = ?b, bl_PreviousBlockHash = Blockchain_PreviousBlockHash bc, bl_StateHash = Some state\<rparr>"
  have "BlockProducer_NewBlock E f bc wallet now w = (Ok (blk, map Some ks), w\<lparr>w_mem := ms'\<rparr>)"
    using ms'(3) assms(5) tx st(1) sig(1)
    by (simp add: BlockProducer_NewBlock_def Execute_def list_of_def HashBlock_def NewBlock_def Let_def
        blk_def hash_def)
  moreover have "Block_Verify E blk = Ok True"
  proof -
    have "0 < slice_len (kp_PublicKey (wa_keyPair wallet))" "0 < slice_len (Blockchain_PreviousBlockHash bc)"
      using assms(8,9) by (simp_all add: keypair_ok_def)
    then have "Wallet_PublicKey wallet \<noteq> None" "Blockchain_PreviousBlockHash bc \<noteq> None"
      using slice_len_Some by (auto simp: Wallet_PublicKey_def)
    moreover have "slice_len (Wallet_PublicKey wallet) = 32" using assms(8) by (simp add: keypair_ok_def Wallet_PublicKey_def)
    moreover have "length hash = 32" using assms(1) by (simp add: hash_def)
    moreover have "ts \<noteq> []" using len by auto
    then have "TxBundle_Verify E ?b = Ok True" using ver by (simp add: TxBundle_Verify_def verifyAll_True)
    ultimately show ?thesis using st(2) sig(2,3) assms(9,10)
      by (simp add: Block_Verify_def BlockInfo_Verify_def blk_def PublicKeySize_def HashSize_def)
  qed
  ultimately show ?thesis using ms'(2) by (intro exI [of _ blk] exI [of _ "w\<lparr>w_mem := ms'\<rparr>"]) (simp add: blk_def txs_of_def)
qed

end
