(* ===== verification/P2p.thy ===== *)
theory P2p
  imports Codec
begin

text \<open>
  Package \<open>p2p\<close> (\<open>src/p2p\<close>): node addresses, the two discovery messages, the framing of payloads and
  the service that keeps the known peers. A payload handed to the transporter is sent by a goroutine
  of its own; the service records it in \<open>sent\<close>, in the order the goroutines are started. What is
  read from a connection is an outcome, so that a failing read is a case of its own.
\<close>

subsection \<open>Addresses\<close>

type_synonym NetworkKind = char

definition SyncNode :: NetworkKind where "SyncNode = CHR 0x01"
definition ConsensusNode :: NetworkKind where "ConsensusNode = CHR 0x02"

record NodeInfo =
  Ip4 :: string
  Network :: NetworkKind

definition NewNodeInfo :: "string \<Rightarrow> NetworkKind \<Rightarrow> NodeInfo" where
  "NewNodeInfo port network = \<lparr>Ip4 = ''localhost:'' @ port, Network = network\<rparr>"

definition IsSameIp :: "NodeInfo \<Rightarrow> NodeInfo \<Rightarrow> bool" where
  "IsSameIp ni other \<longleftrightarrow> Ip4 ni = Ip4 other"

definition NodeInfo_Verify :: "NodeInfo \<Rightarrow> bool" where
  "NodeInfo_Verify ni \<longleftrightarrow> length (Ip4 ni) = 14 \<and> take 10 (Ip4 ni) = ''localhost:''"

definition NodeInfo_to_json :: "NodeInfo \<Rightarrow> json" where
  "NodeInfo_to_json n = JObj [(''Ip4'', JStr (Ip4 n)), (''Network'', enc_byte (Network n))]"

definition zeroNodeInfo :: NodeInfo where
  "zeroNodeInfo = \<lparr>Ip4 = [], Network = CHR 0x00\<rparr>"

definition NodeInfo_fields :: "NodeInfo fields" where
  "NodeInfo_fields =
     [(''Ip4'', \<lambda>j n. map_option (\<lambda>x. n\<lparr>Ip4 := x\<rparr>) (dec_string j (Ip4 n))),
      (''Network'', \<lambda>j n. map_option (\<lambda>x. n\<lparr>Network := x\<rparr>) (dec_byte j (Network n)))]"

subsection \<open>Messages\<close>

type_synonym MessageKind = char

definition HelloMessage :: MessageKind where "HelloMessage = CHR 0x01"
definition WelcomeMessage :: MessageKind where "WelcomeMessage = CHR 0x02"
definition SyncMessage :: MessageKind where "SyncMessage = CHR 0x03"
definition ConsensusMessage :: MessageKind where "ConsensusMessage = CHR 0x04"

lemmas message_kinds = HelloMessage_def WelcomeMessage_def SyncMessage_def ConsensusMessage_def

definition PackPayload :: "('a \<Rightarrow> json) \<Rightarrow> 'a \<Rightarrow> bytes \<Rightarrow> bytes" where
  "PackPayload to_json data msgKinds = msgKinds @ Marshal to_json data"

record HelloMsg = he_From :: NodeInfo

record WelcomeMsg =
  we_From :: NodeInfo
  we_KnownPeer :: "NodeInfo list option"

definition HelloMsg_Verify :: "HelloMsg \<Rightarrow> bool" where
  "HelloMsg_Verify hm \<longleftrightarrow> NodeInfo_Verify (he_From hm)"

definition nodes_of :: "NodeInfo list option \<Rightarrow> NodeInfo list" where
  "nodes_of ns = (case ns of None \<Rightarrow> [] | Some xs \<Rightarrow> xs)"

definition WelcomeMsg_Verify :: "WelcomeMsg \<Rightarrow> bool" where
  "WelcomeMsg_Verify wm \<longleftrightarrow>
     (if \<not> NodeInfo_Verify (we_From wm) then False
      else list_all NodeInfo_Verify (nodes_of (we_KnownPeer wm)))"

definition HelloMsg_to_json :: "HelloMsg \<Rightarrow> json" where
  "HelloMsg_to_json m = JObj [(''From'', NodeInfo_to_json (he_From m))]"

definition HelloMsg_fields :: "HelloMsg fields" where
  "HelloMsg_fields =
     [(''From'', \<lambda>j m. map_option (\<lambda>x. m\<lparr>he_From := x\<rparr>) (dec_struct NodeInfo_fields j (he_From m)))]"

definition HelloMsg_Unmarshal :: "bytes \<Rightarrow> HelloMsg go" where
  "HelloMsg_Unmarshal raw = Unmarshal (dec_struct HelloMsg_fields) \<lparr>he_From = zeroNodeInfo\<rparr> raw"

definition WelcomeMsg_to_json :: "WelcomeMsg \<Rightarrow> json" where
  "WelcomeMsg_to_json m = JObj
     [(''From'', NodeInfo_to_json (we_From m)), (''KnownPeer'', enc_list NodeInfo_to_json (we_KnownPeer m))]"

definition WelcomeMsg_fields :: "WelcomeMsg fields" where
  "WelcomeMsg_fields =
     [(''From'', \<lambda>j m. map_option (\<lambda>x. m\<lparr>we_From := x\<rparr>) (dec_struct NodeInfo_fields j (we_From m))),
      (''KnownPeer'', \<lambda>j m. map_option (\<lambda>x. m\<lparr>we_KnownPeer := x\<rparr>)
         (dec_list (dec_struct NodeInfo_fields) zeroNodeInfo j (we_KnownPeer m)))]"

definition WelcomeMsg_Unmarshal :: "bytes \<Rightarrow> WelcomeMsg go" where
  "WelcomeMsg_Unmarshal raw =
     Unmarshal (dec_struct WelcomeMsg_fields) \<lparr>we_From = zeroNodeInfo, we_KnownPeer = None\<rparr> raw"

subsection \<open>The service\<close>

record P2pService =
  info :: NodeInfo
  peers :: "NodeInfo list"
  sent :: "(NodeInfo \<times> bytes) list"

definition NewP2pService :: "string \<Rightarrow> NetworkKind \<Rightarrow> P2pService" where
  "NewP2pService port network = \<lparr>info = NewNodeInfo port network, peers = [], sent = []\<rparr>"

definition Transporter_Send :: "NodeInfo \<Rightarrow> bytes \<Rightarrow> P2pService \<Rightarrow> P2pService" where
  "Transporter_Send to data ps = ps\<lparr>sent := sent ps @ [(to, data)]\<rparr>"

definition P2pService_Send :: "NodeInfo \<Rightarrow> bytes \<Rightarrow> P2pService \<Rightarrow> P2pService" where
  "P2pService_Send to data ps = (if \<not> IsSameIp to (info ps) then Transporter_Send to data ps else ps)"

definition Broadcast :: "bytes \<Rightarrow> NodeInfo list \<Rightarrow> P2pService \<Rightarrow> P2pService" where
  "Broadcast data except ps =
     (if length except = 0 then fold (\<lambda>p. Transporter_Send p data) (peers ps) ps
      else fold (\<lambda>p. fold (\<lambda>exc ps. if \<not> IsSameIp p exc then Transporter_Send p data ps else ps) except)
             (peers ps) ps)"

definition LenPeers :: "P2pService \<Rightarrow> nat" where
  "LenPeers ps = length (peers ps)"

definition KnowsPeer :: "NodeInfo \<Rightarrow> P2pService \<Rightarrow> bool" where
  "KnowsPeer peer ps \<longleftrightarrow> list_ex (\<lambda>p. IsSameIp peer p) (peers ps)"

definition PeerByIndex :: "int \<Rightarrow> P2pService \<Rightarrow> NodeInfo option go" where
  "PeerByIndex idx ps =
     (let peerLen = int (length (peers ps)) in
      if peerLen = 0 then Ok None
      else if idx < 0 \<or> idx > peerLen then Ok None
      else go_bind (go_index (peers ps) (nat idx)) (\<lambda>p. Ok (Some p)))"

definition addPeer :: "NodeInfo \<Rightarrow> P2pService \<Rightarrow> P2pService" where
  "addPeer peer ps =
     (if \<not> KnowsPeer peer ps \<and> \<not> IsSameIp (info ps) peer then ps\<lparr>peers := peers ps @ [peer]\<rparr> else ps)"

definition removePeer :: "NodeInfo \<Rightarrow> P2pService \<Rightarrow> P2pService" where
  "removePeer peer ps =
     (case IndexFunc (\<lambda>p. IsSameIp peer p) (peers ps) of
        None \<Rightarrow> ps | Some idx \<Rightarrow> ps\<lparr>peers := Delete (peers ps) idx\<rparr>)"

definition localDiscovery :: "nat \<Rightarrow> nat \<Rightarrow> P2pService \<Rightarrow> P2pService" where
  "localDiscovery discoveryMin discoveryMax ps =
     (let self = info ps;
          payload = PackPayload HelloMsg_to_json \<lparr>he_From = self\<rparr> [HelloMessage]
      in fold (\<lambda>p ps. let to = NewNodeInfo (dec_digits p) (CHR 0x00) in
           if IsSameIp self to then ps else Transporter_Send to payload ps)
           [discoveryMin ..< Suc discoveryMax] ps)"

definition handleJoin :: "bytes \<Rightarrow> (P2pService, unit) comp" where
  "handleJoin raw ps = (case HelloMsg_Unmarshal raw of
       Ok hello \<Rightarrow>
         if \<not> HelloMsg_Verify hello then (Ok (), ps)
         else if Network (he_From hello) \<noteq> Network (info ps) then (Ok (), ps)
         else let ps = addPeer (he_From hello) ps;
                  payload = PackPayload WelcomeMsg_to_json
                    \<lparr>we_From = info ps, we_KnownPeer = Some (peers ps)\<rparr> [WelcomeMessage]
              in (Ok (), Transporter_Send (he_From hello) payload ps)
     | _ \<Rightarrow> (Ok (), ps))"

definition handleWelcome :: "bytes \<Rightarrow> (P2pService, unit) comp" where
  "handleWelcome raw ps = (case WelcomeMsg_Unmarshal raw of
       Ok welcome \<Rightarrow>
         if \<not> WelcomeMsg_Verify welcome then (Ok (), ps)
         else let ps = addPeer (we_From welcome) ps;
                  self = info ps;
                  payload = PackPayload HelloMsg_to_json \<lparr>he_From = self\<rparr> [HelloMessage]
              in (Ok (), if length (nodes_of (we_KnownPeer welcome)) > 0
                   then fold (\<lambda>peer ps. if \<not> KnowsPeer peer ps \<and> \<not> IsSameIp self peer
                          then Transporter_Send peer payload ps else ps)
                          (nodes_of (we_KnownPeer welcome)) ps
                   else ps)
     | _ \<Rightarrow> (Ok (), ps))"

text \<open>
  The owner of the service gives a handler for its own messages; \<open>lift\<close> runs an operation of the
  service on the state of the owner.
\<close>

definition handleInbound ::
  "((P2pService, unit) comp \<Rightarrow> ('s, unit) comp) \<Rightarrow> (bytes \<Rightarrow> ('s, unit) comp) \<Rightarrow> bytes go \<Rightarrow> ('s, unit) comp" where
  "handleInbound lift handlerFn conn =
     st_bind (st_out conn) (\<lambda>raw.
       if length raw > MaxPayloadSize then st_out (Ok ())
       else st_bind (st_out (go_index raw 0)) (\<lambda>kind.
         if kind = HelloMessage then lift (handleJoin (drop 1 raw))
         else if kind = WelcomeMessage then lift (handleWelcome (drop 1 raw))
         else handlerFn raw))"

definition onFail ::
  "((P2pService, unit) comp \<Rightarrow> ('s, unit) comp) \<Rightarrow> (NodeInfo \<Rightarrow> 's \<Rightarrow> 's) \<Rightarrow> NodeInfo \<Rightarrow> ('s, unit) comp" where
  "onFail lift onFailFn failed =
     st_bind (st_upd (onFailFn failed)) (\<lambda>_. lift (st_upd (removePeer failed)))"

subsection \<open>Encodings\<close>

lemma p2p_names [simp]: "good_str ''Ip4''" "good_str ''Network''" "good_str ''From''" "good_str ''KnownPeer''"
  by (rule good_str_plain, simp add: plain_def)+

interpretation node_codec: codec NodeInfo_to_json "dec_struct NodeInfo_fields" zeroNodeInfo "\<lambda>n. good_str (Ip4 n)"
  by unfold_locales
    (simp_all add: NodeInfo_to_json_def NodeInfo_fields_def find_field_def dec_string_def)

lemma node_decode_any: "dec_struct NodeInfo_fields (NodeInfo_to_json n) old = Some n"
  by (simp add: NodeInfo_to_json_def NodeInfo_fields_def find_field_def dec_string_def)

interpretation hello_codec: codec HelloMsg_to_json "dec_struct HelloMsg_fields" "\<lparr>he_From = zeroNodeInfo\<rparr>"
  "\<lambda>m. good_str (Ip4 (he_From m))"
  by unfold_locales
    (simp_all add: HelloMsg_to_json_def HelloMsg_fields_def find_field_def node_codec.good node_decode_any)

lemma good_nodes: "\<forall>n\<in>set (nodes_of ns). good_str (Ip4 n) \<Longrightarrow> good_json (enc_list NodeInfo_to_json ns)"
  by (auto simp: enc_list_def nodes_of_def node_codec.good split: option.splits)

lemma decode_nodes: "dec_list (dec_struct NodeInfo_fields) zeroNodeInfo (enc_list NodeInfo_to_json ns) None = Some ns"
  by (rule dec_enc_list) (rule node_decode_any)

interpretation welcome_codec: codec WelcomeMsg_to_json "dec_struct WelcomeMsg_fields"
  "\<lparr>we_From = zeroNodeInfo, we_KnownPeer = None\<rparr>"
  "\<lambda>m. good_str (Ip4 (we_From m)) \<and> (\<forall>n\<in>set (nodes_of (we_KnownPeer m)). good_str (Ip4 n))"
  by unfold_locales
    (simp_all add: WelcomeMsg_to_json_def WelcomeMsg_fields_def find_field_def node_codec.good node_decode_any
      good_nodes decode_nodes)

text \<open>Addresses as the program makes them: a port of four printable characters.\<close>

definition address_ok :: "NodeInfo \<Rightarrow> bool" where
  "address_ok n \<longleftrightarrow> (\<exists>port. length port = 4 \<and> list_all plain port \<and> Ip4 n = ''localhost:'' @ port)"

lemma address_plain: "address_ok n \<Longrightarrow> \<forall>c\<in>set (Ip4 n). plain c"
proof -
  assume "address_ok n"
  then obtain port where port: "list_all plain port" "Ip4 n = ''localhost:'' @ port" by (auto simp: address_ok_def)
  have "list_all plain ''localhost:''" by (simp add: plain_def)
  with port show ?thesis by (simp only: list_all_append list_all_iff [symmetric] simp_thms)
qed

lemma address_good: "address_ok n \<Longrightarrow> good_str (Ip4 n)"
  by (intro good_str_plain address_plain)

lemma address_verify: "address_ok n \<Longrightarrow> NodeInfo_Verify n"
  by (auto simp: address_ok_def NodeInfo_Verify_def)

lemma length_NodeInfo: "address_ok n \<Longrightarrow> length (print_json (NodeInfo_to_json n)) \<le> 38"
proof -
  assume a: "address_ok n"
  then have "escape (Ip4 n) = Ip4 n" by (intro escape_plain address_plain)
  moreover have "length (Ip4 n) = 14" using address_verify [OF a] by (simp add: NodeInfo_Verify_def)
  moreover have "code (Network n) < 10 ^ Suc 2" by (rule less_trans [OF code_less]) simp
  then have "length (dec_digits (code (Network n))) \<le> 3" using length_dec_digits [of "code (Network n)" 2] by simp
  ultimately show ?thesis by (simp add: NodeInfo_to_json_def enc_byte_def plain_def)
qed

subsection \<open>The set of peers\<close>

text \<open>
  The peers of a node are a slice used as a set: compared by address, without the node itself.
\<close>

definition peers_add :: "NodeInfo \<Rightarrow> NodeInfo \<Rightarrow> NodeInfo list \<Rightarrow> NodeInfo list" where
  "peers_add self p ps = peers (addPeer p \<lparr>info = self, peers = ps, sent = []\<rparr>)"

definition peers_remove :: "NodeInfo \<Rightarrow> NodeInfo list \<Rightarrow> NodeInfo list" where
  "peers_remove p ps = peers (removePeer p \<lparr>info = p, peers = ps, sent = []\<rparr>)"

lemma addPeer_sel [simp]:
  "peers (addPeer p ps) = peers_add (info ps) p (peers ps)" "info (addPeer p ps) = info ps" "sent (addPeer p ps) = sent ps"
  by (simp_all add: addPeer_def peers_add_def KnowsPeer_def)

lemma removePeer_sel [simp]:
  "peers (removePeer p ps) = peers_remove p (peers ps)" "info (removePeer p ps) = info ps" "sent (removePeer p ps) = sent ps"
  by (simp_all add: removePeer_def peers_remove_def split: option.splits)

lemma peers_remove_first: "peers_remove p ps = delete_first (\<lambda>q. Ip4 q = Ip4 p) ps"
  by (auto simp: peers_remove_def removePeer_def delete_first_def IsSameIp_def eq_commute [of "Ip4 p"] split: option.splits)

interpretation peer_set: key_slice Ip4 "\<lambda>p. Ip4 p \<noteq> Ip4 self" "peers_add self" peers_remove for self
proof
  fix p ps
  show "peers_add self p ps = (if Ip4 p \<noteq> Ip4 self \<and> Ip4 p \<notin> Ip4 ` set ps then ps @ [p] else ps)"
    by (auto simp: peers_add_def addPeer_def KnowsPeer_def IsSameIp_def list_ex_iff)
next
  fix p and ps :: "NodeInfo list"
  assume "distinct (map Ip4 ps)"
  then show "peers_remove p ps = filter (\<lambda>q. Ip4 q \<noteq> Ip4 p) ps"
    by (simp add: peers_remove_first delete_first_key)
qed

lemma KnowsPeer_keys: "KnowsPeer p ps \<longleftrightarrow> Ip4 p \<in> peer_set.keys (peers ps)"
  by (auto simp: KnowsPeer_def IsSameIp_def list_ex_iff peer_set.keys_def)

definition p2p_ok :: "P2pService \<Rightarrow> bool" where
  "p2p_ok ps \<longleftrightarrow> distinct (map Ip4 (peers ps)) \<and> Ip4 (info ps) \<notin> Ip4 ` set (peers ps)
     \<and> (\<forall>p\<in>set (peers ps). NodeInfo_Verify p)"

lemma p2p_ok_slice: "p2p_ok ps \<longleftrightarrow> peer_set.slice_ok (info ps) (peers ps) \<and> (\<forall>p\<in>set (peers ps). NodeInfo_Verify p)"
  by (auto simp: p2p_ok_def peer_set.slice_ok_def image_iff)

lemma p2p_ok_add: "p2p_ok ps \<Longrightarrow> NodeInfo_Verify p \<Longrightarrow> p2p_ok (addPeer p ps)"
  unfolding p2p_ok_slice by (simp add: peer_set.ok_add) (simp add: peer_set.add)

lemma p2p_ok_remove: "p2p_ok ps \<Longrightarrow> p2p_ok (removePeer p ps)"
  unfolding p2p_ok_slice
  using set_delete_first [of "\<lambda>q. Ip4 q = Ip4 p" "peers ps"] peer_set.ok_remove [of "info ps" "peers ps" p]
  by (auto simp: peers_remove_first)

text \<open>Sending changes \<open>sent\<close> only.\<close>

lemma Send_sel [simp]:
  "peers (Transporter_Send to d ps) = peers ps" "info (Transporter_Send to d ps) = info ps"
  "sent (Transporter_Send to d ps) = sent ps @ [(to, d)]" "KnowsPeer p (Transporter_Send to d ps) = KnowsPeer p ps"
  by (simp_all add: Transporter_Send_def KnowsPeer_def)

lemma fold_Send:
  "fold (\<lambda>p ps. if Q p then Transporter_Send p d ps else ps) xs ps
     = ps\<lparr>sent := sent ps @ map (\<lambda>p. (p, d)) (filter Q xs)\<rparr>"
  by (induction xs arbitrary: ps) (simp_all add: Transporter_Send_def)

lemma fold_Send_unknown:
  "fold (\<lambda>p ps. if \<not> KnowsPeer p ps \<and> Q p then Transporter_Send p d ps else ps) xs ps
     = ps\<lparr>sent := sent ps @ map (\<lambda>p. (p, d)) (filter (\<lambda>p. \<not> KnowsPeer p ps \<and> Q p) xs)\<rparr>"
  by (induction xs arbitrary: ps) (simp_all add: Transporter_Send_def KnowsPeer_def)

lemma fold_Send_except:
  "fold (\<lambda>exc ps. if Q exc then Transporter_Send p d ps else ps) except ps
     = ps\<lparr>sent := sent ps @ replicate (length (filter Q except)) (p, d)\<rparr>"
  by (induction except arbitrary: ps) (simp_all add: Transporter_Send_def)

definition copies :: "NodeInfo list \<Rightarrow> NodeInfo \<Rightarrow> nat" where
  "copies except p = (if except = [] then 1 else length (filter (\<lambda>e. \<not> IsSameIp p e) except))"

lemma Broadcast_sent:
  "Broadcast d except ps = ps\<lparr>sent := sent ps @ concat (map (\<lambda>p. replicate (copies except p) (p, d)) (peers ps))\<rparr>"
proof -
  have "fold (\<lambda>p. Transporter_Send p d) xs ps = ps\<lparr>sent := sent ps @ concat (map (\<lambda>p. [(p, d)]) xs)\<rparr>" for xs ps
    using fold_Send [of "\<lambda>_. True" d xs ps] by (simp add: concat_map_singleton)
  moreover have "fold (\<lambda>p. fold (\<lambda>exc ps. if \<not> IsSameIp p exc then Transporter_Send p d ps else ps) except) xs ps
      = ps\<lparr>sent := sent ps @ concat (map (\<lambda>p. replicate (length (filter (\<lambda>e. \<not> IsSameIp p e) except)) (p, d)) xs)\<rparr>" for xs ps
    by (induction xs arbitrary: ps) (simp_all add: fold_Send_except)
  ultimately show ?thesis by (simp add: Broadcast_def copies_def)
qed

lemma Broadcast_sel [simp]: "peers (Broadcast d except ps) = peers ps" "info (Broadcast d except ps) = info ps"
  by (simp_all add: Broadcast_sent)

lemma localDiscovery_sel [simp]: "peers (localDiscovery a b ps) = peers ps" "info (localDiscovery a b ps) = info ps"
proof -
  have "peers (fold (\<lambda>p ps. if Q p then ps else Transporter_Send (t p) d ps) xs ps) = peers ps
      \<and> info (fold (\<lambda>p ps. if Q p then ps else Transporter_Send (t p) d ps) xs ps) = info ps"
    for t :: "nat \<Rightarrow> NodeInfo" and Q :: "nat \<Rightarrow> bool" and d xs ps
    by (induction xs arbitrary: ps) simp_all
  then show "peers (localDiscovery a b ps) = peers ps" "info (localDiscovery a b ps) = info ps"
    by (simp_all only: localDiscovery_def Let_def simp_thms)
qed

subsection \<open>Runs\<close>

text \<open>What happens to the service: messages, failed sends, and the sends of its owner.\<close>

inductive p2p_step :: "P2pService \<Rightarrow> P2pService \<Rightarrow> bool" where
  join: "p2p_step ps (snd (handleJoin raw ps))"
| greeted: "p2p_step ps (snd (handleWelcome raw ps))"
| failed: "p2p_step ps (removePeer peer ps)"
| discover: "p2p_step ps (localDiscovery a b ps)"
| send: "p2p_step ps (P2pService_Send to d ps)"
| broadcast: "p2p_step ps (Broadcast d except ps)"

lemma handleJoin_cases:
  "handleJoin raw ps = (Ok (), ps)
   \<or> (\<exists>n d. NodeInfo_Verify n \<and> Network n = Network (info ps)
        \<and> handleJoin raw ps = (Ok (), Transporter_Send n d (addPeer n ps)))"
  unfolding handleJoin_def
  by (auto simp: HelloMsg_Verify_def Let_def split: go.split)

lemma handleWelcome_cases:
  "handleWelcome raw ps = (Ok (), ps)
   \<or> (\<exists>n out. NodeInfo_Verify n \<and> handleWelcome raw ps = (Ok (), (addPeer n ps)\<lparr>sent := sent ps @ out\<rparr>))"
proof (cases "WelcomeMsg_Unmarshal raw")
  case (Ok w)
  have "addPeer n ps = (addPeer n ps)\<lparr>sent := sent ps @ []\<rparr>" for n by (simp add: addPeer_def)
  then have "\<exists>out. addPeer n ps = (addPeer n ps)\<lparr>sent := sent ps @ out\<rparr>" for n by blast
  then have "\<exists>out. handleWelcome raw ps = (Ok (), (addPeer (we_From w) ps)\<lparr>sent := sent ps @ out\<rparr>)" if "WelcomeMsg_Verify w"
    using Ok that by (auto simp: handleWelcome_def Let_def fold_Send_unknown)
  then show ?thesis using Ok by (auto simp: handleWelcome_def WelcomeMsg_Verify_def split: if_splits)
qed (simp_all add: handleWelcome_def)

lemma p2p_ok_sent [simp]: "p2p_ok (ps\<lparr>sent := x\<rparr>) = p2p_ok ps"
  by (simp add: p2p_ok_def)

lemma p2p_step_ok: "p2p_step ps ps' \<Longrightarrow> p2p_ok ps \<Longrightarrow> p2p_ok ps' \<and> info ps' = info ps"
proof (induction rule: p2p_step.induct)
  case (join ps raw)
  then show ?case using p2p_ok_add [of ps] handleJoin_cases [of raw ps] by (auto simp: Transporter_Send_def)
next
  case (greeted ps raw)
  then show ?case using p2p_ok_add [of ps] handleWelcome_cases [of raw ps] by auto
next
  case (failed ps peer)
  then show ?case by (simp add: p2p_ok_remove)
qed (simp_all add: p2p_ok_def P2pService_Send_def)

text \<open>
  C31: In every run of the service, whatever messages arrive and whatever sends fail, the peers have
  pairwise different addresses of the form the service accepts, the node itself is not among them,
  and a failed peer is forgotten.
\<close>

theorem peers_invariant:
  assumes "p2p_step\<^sup>*\<^sup>* (NewP2pService port network) ps"
  shows "distinct (map Ip4 (peers ps)) \<and> (\<forall>p\<in>set (peers ps). NodeInfo_Verify p \<and> \<not> IsSameIp p (info ps))
     \<and> info ps = NewNodeInfo port network \<and> \<not> KnowsPeer p (removePeer p ps)"
proof -
  have "p2p_ok ps \<and> info ps = info (NewP2pService port network)"
    using assms
  proof induction
    case base
    then show ?case by (simp add: NewP2pService_def p2p_ok_def)
  next
    case (step ps1 ps2)
    then show ?case using p2p_step_ok by metis
  qed
  then have ok: "p2p_ok ps" "info ps = NewNodeInfo port network" by (simp_all add: NewP2pService_def)
  then have "\<not> KnowsPeer p (removePeer p ps)"
    using peer_set.keys_remove [of "info ps" "peers ps" p] by (auto simp: KnowsPeer_keys p2p_ok_slice)
  with ok show ?thesis by (auto simp: p2p_ok_def IsSameIp_def image_iff)
qed

theorem peers_invariant_witness:
  "let n = NewNodeInfo ''3001'' SyncNode; ps = snd (handleJoin (Marshal HelloMsg_to_json \<lparr>he_From = n\<rparr>) (NewP2pService ''3000'' SyncNode))
   in peers ps = [n] \<and> distinct (map Ip4 (peers ps)) \<and> \<not> KnowsPeer n (removePeer n ps)"
proof -
  let ?n = "NewNodeInfo ''3001'' SyncNode" and ?ps = "NewP2pService ''3000'' SyncNode"
  let ?raw = "Marshal HelloMsg_to_json \<lparr>he_From = ?n\<rparr>"
  have a: "address_ok ?n" by (simp add: address_ok_def NewNodeInfo_def plain_def)
  have "HelloMsg_Unmarshal ?raw = Ok \<lparr>he_From = ?n\<rparr>"
    using hello_codec.roundtrip [of "\<lparr>he_From = ?n\<rparr>"] a by (simp add: HelloMsg_Unmarshal_def address_good)
  then have "peers (snd (handleJoin ?raw ?ps)) = [?n]"
    using a by (simp add: handleJoin_def HelloMsg_Verify_def address_verify Let_def NewP2pService_def addPeer_def KnowsPeer_def
        IsSameIp_def NewNodeInfo_def Transporter_Send_def)
  with peers_invariant [OF r_into_rtranclp [of p2p_step, OF p2p_step.join]] show ?thesis unfolding Let_def by blast
qed

text \<open>
  A broadcast without exceptions goes to every peer once, in order, and one with a single
  exception to every other peer once. With two or more exceptions the code sends one copy to a peer
  for every exception that is not that peer: the peers that are not excepted get several copies, and
  the excepted ones are not spared.
\<close>

theorem broadcast_copies:
  "sent (Broadcast d except ps) = sent ps @ concat (map (\<lambda>p. replicate (copies except p) (p, d)) (peers ps))
   \<and> sent (Broadcast d [] ps) = sent ps @ map (\<lambda>p. (p, d)) (peers ps)
   \<and> sent (Broadcast d [e] ps) = sent ps @ map (\<lambda>p. (p, d)) (filter (\<lambda>p. \<not> IsSameIp p e) (peers ps))
   \<and> (distinct (map Ip4 except) \<and> p \<in> set except \<longrightarrow> copies except p = length except - 1)"
proof -
  have one: "concat (map (\<lambda>p. replicate (copies [e] p) (p, d)) xs) = map (\<lambda>p. (p, d)) (filter (\<lambda>p. \<not> IsSameIp p e) xs)" for xs
    by (induction xs) (simp_all add: copies_def)
  have none: "concat (map (\<lambda>p. replicate (copies [] p) (p, d)) xs) = map (\<lambda>p. (p, d)) xs" for xs
    by (induction xs) (simp_all add: copies_def)
  have "length (filter (\<lambda>e. \<not> IsSameIp p e) xs) = length xs - 1" if "distinct (map Ip4 xs)" "p \<in> set xs" for xs
    using that
  proof (induction xs)
    case (Cons x xs)
    show ?case
    proof (cases "x = p")
      case True
      with Cons.prems have "filter (\<lambda>e. \<not> IsSameIp p e) xs = xs"
        by (auto simp: filter_id_conv IsSameIp_def image_iff)
      with True show ?thesis by (simp add: IsSameIp_def)
    next
      case False
      with Cons have "\<not> IsSameIp p x" "xs \<noteq> []" by (auto simp: IsSameIp_def image_iff)
      with False Cons show ?thesis by (cases xs) auto
    qed
  qed simp
  then show ?thesis using one none by (auto simp: Broadcast_sent copies_def)
qed

theorem broadcast_copies_witness:
  "copies [NewNodeInfo ''3001'' SyncNode, NewNodeInfo ''3002'' SyncNode, NewNodeInfo ''3003'' SyncNode]
     (NewNodeInfo ''3001'' SyncNode) = 2"
proof -
  let ?ex = "[NewNodeInfo ''3001'' SyncNode, NewNodeInfo ''3002'' SyncNode, NewNodeInfo ''3003'' SyncNode]"
  have "distinct (map Ip4 ?ex) \<and> NewNodeInfo ''3001'' SyncNode \<in> set ?ex" by (simp add: NewNodeInfo_def)
  with broadcast_copies [where except = ?ex and p = "NewNodeInfo ''3001'' SyncNode"] show ?thesis by simp
qed

subsection \<open>Discovery\<close>

lemma length_print_nodes:
  "\<forall>n\<in>set ns. address_ok n \<Longrightarrow> length (print_elems (map NodeInfo_to_json ns)) \<le> 39 * length ns"
proof (induction ns)
  case (Cons n ns)
  then have "length (print_json (NodeInfo_to_json n)) \<le> 38" by (simp add: length_NodeInfo)
  with Cons show ?case by (auto simp del: print_json.simps)
qed simp

lemma length_hello: "address_ok n \<Longrightarrow> length (PackPayload HelloMsg_to_json \<lparr>he_From = n\<rparr> [HelloMessage]) \<le> 60"
  using length_NodeInfo [of n] by (simp add: PackPayload_def Marshal_def HelloMsg_to_json_def plain_def)

lemma length_welcome:
  assumes "address_ok n" "\<forall>p\<in>set ns. address_ok p"
  shows "length (PackPayload WelcomeMsg_to_json \<lparr>we_From = n, we_KnownPeer = Some ns\<rparr> [WelcomeMessage]) \<le> 80 + 39 * length ns"
  using length_NodeInfo [OF assms(1)] length_print_nodes [OF assms(2)]
  by (simp add: PackPayload_def Marshal_def WelcomeMsg_to_json_def enc_list_def plain_def)

lemma hello_received:
  assumes "address_ok n" "Network n = Network (info ps)"
  shows "handleInbound (\<lambda>m. m) h (Ok (PackPayload HelloMsg_to_json \<lparr>he_From = n\<rparr> [HelloMessage])) ps
     = (Ok (), Transporter_Send n (PackPayload WelcomeMsg_to_json
         \<lparr>we_From = info ps, we_KnownPeer = Some (peers_add (info ps) n (peers ps))\<rparr> [WelcomeMessage]) (addPeer n ps))"
proof -
  have "HelloMsg_Unmarshal (Marshal HelloMsg_to_json \<lparr>he_From = n\<rparr>) = Ok \<lparr>he_From = n\<rparr>"
    using hello_codec.roundtrip [of "\<lparr>he_From = n\<rparr>"] assms(1) by (simp add: HelloMsg_Unmarshal_def address_good)
  moreover have "\<not> MaxPayloadSize < length (PackPayload HelloMsg_to_json \<lparr>he_From = n\<rparr> [HelloMessage])"
    using length_hello [OF assms(1)] by (simp add: MaxPayloadSize_def)
  ultimately show ?thesis using assms
    by (simp add: handleInbound_def handleJoin_def PackPayload_def HelloMsg_Verify_def address_verify Let_def)
qed

lemma welcome_received:
  assumes "address_ok n" "\<forall>p\<in>set ns. address_ok p" "length ns \<le> 50"
  shows "handleInbound (\<lambda>m. m) h
       (Ok (PackPayload WelcomeMsg_to_json \<lparr>we_From = n, we_KnownPeer = Some ns\<rparr> [WelcomeMessage])) ps
     = (Ok (), (addPeer n ps)\<lparr>sent := sent ps @ map (\<lambda>p. (p, PackPayload HelloMsg_to_json \<lparr>he_From = info ps\<rparr> [HelloMessage]))
         (filter (\<lambda>p. \<not> KnowsPeer p (addPeer n ps) \<and> \<not> IsSameIp (info ps) p) ns)\<rparr>)"
proof -
  let ?m = "\<lparr>we_From = n, we_KnownPeer = Some ns\<rparr>"
  have "WelcomeMsg_Unmarshal (Marshal WelcomeMsg_to_json ?m) = Ok ?m"
    using welcome_codec.roundtrip [of ?m] assms(1,2) by (simp add: WelcomeMsg_Unmarshal_def address_good nodes_of_def)
  moreover have "\<not> MaxPayloadSize < length (PackPayload WelcomeMsg_to_json ?m [WelcomeMessage])"
    using length_welcome [OF assms(1,2)] assms(3) by (simp add: MaxPayloadSize_def)
  moreover have "WelcomeMsg_Verify ?m" using assms(1,2) by (simp add: WelcomeMsg_Verify_def nodes_of_def list_all_iff address_verify)
  moreover have "(addPeer n ps)\<lparr>sent := sent ps\<rparr> = addPeer n ps" by (simp add: addPeer_def)
  ultimately show ?thesis
    by (simp add: handleInbound_def handleWelcome_def PackPayload_def Let_def nodes_of_def message_kinds fold_Send_unknown)
qed

text \<open>
  Discovery works: when a node receives the greeting of another one of its network it adds the
  sender to its peers and answers with a welcome, and the other node, when it receives that answer,
  adds the first and greets every peer it learns of and does not know yet. The peers are at most 49,
  so that the welcome fits into a payload.
\<close>

theorem discovery_handshake:
  assumes "address_ok (info a)" "address_ok (info b)" "\<forall>p\<in>set (peers b). address_ok p" "length (peers b) \<le> 49"
    "Network (info a) = Network (info b)" "\<not> IsSameIp (info a) (info b)"
  shows "\<exists>b' reply a'. handleInbound (\<lambda>m. m) h (Ok (PackPayload HelloMsg_to_json \<lparr>he_From = info a\<rparr> [HelloMessage])) b
       = (Ok (), b') \<and> KnowsPeer (info a) b' \<and> sent b' = sent b @ [(info a, reply)]
     \<and> handleInbound (\<lambda>m. m) h (Ok reply) a = (Ok (), a') \<and> KnowsPeer (info b) a'
     \<and> (\<forall>p\<in>set (peers b). \<not> IsSameIp p (info a) \<and> \<not> KnowsPeer p a' \<longrightarrow>
          (p, PackPayload HelloMsg_to_json \<lparr>he_From = info a\<rparr> [HelloMessage]) \<in> set (sent a'))"
proof -
  let ?ns = "peers_add (info b) (info a) (peers b)"
  let ?reply = "PackPayload WelcomeMsg_to_json \<lparr>we_From = info b, we_KnownPeer = Some ?ns\<rparr> [WelcomeMessage]"
  have ns: "set ?ns = insert (info a) (set (peers b)) \<or> set ?ns = set (peers b)" "length ?ns \<le> 50" "set (peers b) \<subseteq> set ?ns"
    using assms(4) by (auto simp: peer_set.add)
  have adds: "\<forall>p\<in>set ?ns. address_ok p" using ns(1) assms(1,3) by auto
  have known: "KnowsPeer (info a) (addPeer (info a) b)" "KnowsPeer (info b) (addPeer (info b) a)"
    using assms(6) by (auto simp: KnowsPeer_keys peer_set.keys_add IsSameIp_def)
  obtain a' where a': "handleInbound (\<lambda>m. m) h (Ok ?reply) a = (Ok (), a')" "peers a' = peers (addPeer (info b) a)"
      "sent a' = sent a @ map (\<lambda>p. (p, PackPayload HelloMsg_to_json \<lparr>he_From = info a\<rparr> [HelloMessage]))
         (filter (\<lambda>p. \<not> KnowsPeer p (addPeer (info b) a) \<and> \<not> IsSameIp (info a) p) ?ns)"
    using welcome_received [OF assms(2) adds ns(2)] by simp
  then have "KnowsPeer p a' = KnowsPeer p (addPeer (info b) a)" for p by (simp add: KnowsPeer_def)
  with a' known ns(3) show ?thesis using hello_received [OF assms(1,5), of h]
    by (intro exI [of _ "Transporter_Send (info a) ?reply (addPeer (info a) b)"] exI [of _ ?reply] exI [of _ a'])
      (auto simp: IsSameIp_def)
qed

theorem discovery_handshake_witness:
  "\<exists>b' reply a'. handleInbound (\<lambda>m. m) (\<lambda>_. st_out (Ok ())) (Ok (PackPayload HelloMsg_to_json \<lparr>he_From = NewNodeInfo ''3000'' SyncNode\<rparr> [HelloMessage]))
       (NewP2pService ''3001'' SyncNode) = (Ok (), b')
     \<and> handleInbound (\<lambda>m. m) (\<lambda>_. st_out (Ok ())) (Ok reply) (NewP2pService ''3000'' SyncNode) = (Ok (), a')
     \<and> KnowsPeer (NewNodeInfo ''3001'' SyncNode) a'"
proof -
  have "address_ok (NewNodeInfo ''3000'' SyncNode)" "address_ok (NewNodeInfo ''3001'' SyncNode)"
    by (simp_all add: address_ok_def NewNodeInfo_def plain_def)
  then show ?thesis
    using discovery_handshake [of "NewP2pService ''3000'' SyncNode" "NewP2pService ''3001'' SyncNode" "\<lambda>_. st_out (Ok ())"]
    by (auto simp: NewP2pService_def NewNodeInfo_def IsSameIp_def)
qed

end
