(* ===== verification/Sync.thy ===== *)
theory Sync
  imports Producer P2p
begin

text \<open>
  Package \<open>sync\<close> (\<open>src/nodes/sync\<close>): relaying of transactions, serving and requesting blocks, storing
  final blocks. The goroutine \<open>sync\<close> is a loop over rounds; its local variables are the record
  \<open>SyncLoop\<close>, and its pieces between two receives are definitions, so that handlers can run in between.
  A channel for a height is the list of the sends that wait on it. Node-level state (\<open>node\<close>) is
  declared here because the service works on all of it; the event that runs after a block is stored
  is the argument \<open>stored\<close>, as in the code.
\<close>

subsection \<open>Messages\<close>

type_synonym SyncMsgKind = char

definition TxMsg :: SyncMsgKind where "TxMsg = CHR 0x01"
definition BlockRequestMessage :: SyncMsgKind where "BlockRequestMessage = CHR 0x02"
definition BlockResponseMessage :: SyncMsgKind where "BlockResponseMessage = CHR 0x03"

lemmas sync_kinds = TxMsg_def BlockRequestMessage_def BlockResponseMessage_def

record TransactionMsg =
  tm_Origins :: "NodeInfo list option"
  tm_Tx :: Transaction

record BlockRequestMsg =
  bq_From :: NodeInfo
  bq_Height :: uint64

record BlockResponseMsg =
  bs_From :: NodeInfo
  bs_Block :: Block

definition TransactionMsg_Verify :: "'z lib_scheme \<Rightarrow> TransactionMsg \<Rightarrow> bool go" where
  "TransactionMsg_Verify L tm =
     (if \<not> list_all NodeInfo_Verify (nodes_of (tm_Origins tm)) then Ok False
      else Transaction_Verify L (tm_Tx tm))"

definition BlockRequestMsg_Verify :: "BlockRequestMsg \<Rightarrow> bool" where
  "BlockRequestMsg_Verify bqm \<longleftrightarrow> NodeInfo_Verify (bq_From bqm)"

definition BlockResponseMsg_Verify :: "'z lib_scheme \<Rightarrow> BlockResponseMsg \<Rightarrow> bool go" where
  "BlockResponseMsg_Verify L bsm = go_and (Ok (NodeInfo_Verify (bs_From bsm))) (Block_Verify L (bs_Block bsm))"

definition TransactionMsg_to_json :: "TransactionMsg \<Rightarrow> json" where
  "TransactionMsg_to_json m = JObj
     [(''Origins'', enc_list NodeInfo_to_json (tm_Origins m)), (''Tx'', Transaction_to_json (tm_Tx m))]"

definition TransactionMsg_fields :: "TransactionMsg fields" where
  "TransactionMsg_fields =
     [(''Origins'', \<lambda>j m. map_option (\<lambda>x. m\<lparr>tm_Origins := x\<rparr>)
         (dec_list (dec_struct NodeInfo_fields) zeroNodeInfo j (tm_Origins m))),
      (''Tx'', \<lambda>j m. map_option (\<lambda>x. m\<lparr>tm_Tx := x\<rparr>) (dec_struct Transaction_fields j (tm_Tx m)))]"

definition TransactionMsg_Unmarshal :: "bytes \<Rightarrow> TransactionMsg go" where
  "TransactionMsg_Unmarshal raw =
     Unmarshal (dec_struct TransactionMsg_fields) \<lparr>tm_Origins = None, tm_Tx = zeroTransaction\<rparr> raw"

definition BlockRequestMsg_to_json :: "BlockRequestMsg \<Rightarrow> json" where
  "BlockRequestMsg_to_json m = JObj [(''From'', NodeInfo_to_json (bq_From m)), (''Height'', enc_uint (bq_Height m))]"

definition BlockRequestMsg_fields :: "BlockRequestMsg fields" where
  "BlockRequestMsg_fields =
     [(''From'', \<lambda>j m. map_option (\<lambda>x. m\<lparr>bq_From := x\<rparr>) (dec_struct NodeInfo_fields j (bq_From m))),
      (''Height'', \<lambda>j m. map_option (\<lambda>x. m\<lparr>bq_Height := x\<rparr>) (dec_uint j (bq_Height m)))]"

definition BlockRequestMsg_Unmarshal :: "bytes \<Rightarrow> BlockRequestMsg go" where
  "BlockRequestMsg_Unmarshal raw =
     Unmarshal (dec_struct BlockRequestMsg_fields) \<lparr>bq_From = zeroNodeInfo, bq_Height = 0\<rparr> raw"

definition BlockResponseMsg_to_json :: "BlockResponseMsg \<Rightarrow> json" where
  "BlockResponseMsg_to_json m = JObj [(''From'', NodeInfo_to_json (bs_From m)), (''Block'', Block_to_json (bs_Block m))]"

definition BlockResponseMsg_fields :: "BlockResponseMsg fields" where
  "BlockResponseMsg_fields =
     [(''From'', \<lambda>j m. map_option (\<lambda>x. m\<lparr>bs_From := x\<rparr>) (dec_struct NodeInfo_fields j (bs_From m))),
      (''Block'', \<lambda>j m. map_option (\<lambda>x. m\<lparr>bs_Block := x\<rparr>) (dec_struct Block_fields j (bs_Block m)))]"

definition BlockResponseMsg_Unmarshal :: "bytes \<Rightarrow> BlockResponseMsg go" where
  "BlockResponseMsg_Unmarshal raw =
     Unmarshal (dec_struct BlockResponseMsg_fields) \<lparr>bs_From = zeroNodeInfo, bs_Block = zeroBlock\<rparr> raw"

subsection \<open>State\<close>

record SyncLoop =
  sl_target :: uint64
  sl_current :: uint64
  sl_cache :: uint64
  sl_waiting :: nat

record SyncService =
  sy_p2p :: P2pService
  chs :: "(uint64 \<times> Block go list) list option"
  isSyncing :: bool
  sy_loop :: "SyncLoop option"

record 'd node =
  n_world :: "'d world"
  blockchain :: Blockchain
  faucet :: Faucet
  n_sync :: SyncService

definition NewSyncService :: "string \<Rightarrow> SyncService" where
  "NewSyncService port = \<lparr>sy_p2p = NewP2pService port SyncNode, chs = None, isSyncing = False, sy_loop = None\<rparr>"

definition on_world :: "('d world, 'a) comp \<Rightarrow> ('d node, 'a) comp" where
  "on_world m n = (case m (n_world n) of (r, w) \<Rightarrow> (r, n\<lparr>n_world := w\<rparr>))"

definition on_sync :: "(SyncService, 'a) comp \<Rightarrow> ('d node, 'a) comp" where
  "on_sync m n = (case m (n_sync n) of (r, s) \<Rightarrow> (r, n\<lparr>n_sync := s\<rparr>))"

definition sync_p2p :: "(P2pService, 'a) comp \<Rightarrow> (SyncService, 'a) comp" where
  "sync_p2p m s = (case m (sy_p2p s) of (r, ps) \<Rightarrow> (r, s\<lparr>sy_p2p := ps\<rparr>))"

subsection \<open>Transactions\<close>

definition BroadcastTx :: "Transaction \<Rightarrow> NodeInfo list \<Rightarrow> (P2pService, unit) comp" where
  "BroadcastTx tx origin ps =
     (let origin = origin @ [info ps];
          payload = PackPayload TransactionMsg_to_json \<lparr>tm_Origins = Some origin, tm_Tx = tx\<rparr> [SyncMessage, TxMsg]
      in (Ok (), Broadcast payload origin ps))"

definition SyncService_handleTx :: "'z lib_scheme \<Rightarrow> bytes \<Rightarrow> ('d node, unit) comp" where
  "SyncService_handleTx E raw n =
     st_bind (st_out (TransactionMsg_Unmarshal raw)) (\<lambda>msg.
     st_bind (st_out (TransactionMsg_Verify E msg)) (\<lambda>ok.
       if \<not> ok then st_out (Ok ())
       else (case Call_Unmarshal (bytes_of (td_Data (tx_InnerData (tm_Tx msg)))) of
           Ok call \<Rightarrow>
             if \<not> Call_Verify call then st_out (Ok ())
             else if list_ex (\<lambda>m. IsSameIp m (info (sy_p2p (n_sync n)))) (nodes_of (tm_Origins msg)) then st_out (Ok ())
             else if MemoryService_ContainsTx E (tx_Hash (tm_Tx msg)) (w_mem (n_world n)) then st_out (Ok ())
             else st_bind (on_world (on_mem (MemoryService_AppendTx E (tm_Tx msg)))) (\<lambda>_.
               on_sync (sync_p2p (BroadcastTx (tm_Tx msg) (nodes_of (tm_Origins msg)))))
         | _ \<Rightarrow> st_out (Ok ())))) n"

subsection \<open>Final blocks\<close>

text \<open>\<open>NewBlock\<close> starts this goroutine; the boolean is what the finality channel delivers.\<close>

definition SyncService_waitForFinality ::
  "('d, 'z) senv_scheme \<Rightarrow> (Block \<Rightarrow> ('d node, unit) comp) \<Rightarrow> Block \<Rightarrow> bool \<Rightarrow> ('d node, unit) comp" where
  "SyncService_waitForFinality E stored blk ok =
     (let keys = TxBundle_ToKeys E (bl_Bundle blk) in
      if ok then
        st_bind (on_world (on_db (StorageService_Put E BlocksBucket (Some (BlockContent blk))))) (\<lambda>_.
        st_bind (on_world (on_mem (MemoryService_RemoveTxs E keys))) (\<lambda>_. stored blk))
      else st_out (Ok ()))"

subsection \<open>Requests for blocks\<close>

definition chan_send :: "uint64 \<Rightarrow> Block go \<Rightarrow> SyncService \<Rightarrow> SyncService" where
  "chan_send h v s = s\<lparr>chs := map_option (map (\<lambda>(k, q). if k = h then (k, q @ [v]) else (k, q))) (chs s)\<rparr>"

text \<open>
  The code starts a goroutine per request, which looks up the peer and sends. Here it runs at once, as a
  step of the round that starts it, so that the peers it sees are those of the start of the round.
\<close>

definition blockRequest :: "uint64 \<Rightarrow> nat \<Rightarrow> (SyncService, unit) comp" where
  "blockRequest height index s =
     (let payload = PackPayload BlockRequestMsg_to_json \<lparr>bq_From = info (sy_p2p s), bq_Height = height\<rparr>
            [SyncMessage, BlockRequestMessage] in
      st_bind (st_out (PeerByIndex (int index) (sy_p2p s))) (\<lambda>p. case p of
          None \<Rightarrow> st_upd (chan_send height (Err ''index out of peers''))
        | Some p \<Rightarrow> sync_p2p (st_upd (P2pService_Send p payload))) s)"

text \<open>The inner loop that asks each peer for one height, up to the target.\<close>

fun requests :: "uint64 \<Rightarrow> nat list \<Rightarrow> uint64 \<Rightarrow> (SyncService, uint64) comp" where
  "requests target [] current = st_out (Ok current)"
| "requests target (i # is) current =
     st_bind (st_upd (\<lambda>s. s\<lparr>chs := map_option (AList.update current []) (chs s)\<rparr>)) (\<lambda>_.
     st_bind (blockRequest current i) (\<lambda>_.
       if current + 1 > target then st_out (Ok (current + 1)) else requests target is (current + 1)))"

text \<open>The head of the outer loop: fresh channels, requests, and how many answers to wait for.\<close>

definition sync_round :: "uint64 \<Rightarrow> uint64 \<Rightarrow> (SyncService, unit) comp" where
  "sync_round target current =
     st_bind (st_upd (\<lambda>s. s\<lparr>chs := Some []\<rparr>)) (\<lambda>_ s.
     st_bind (requests target [0 ..< LenPeers (sy_p2p s)] current) (\<lambda>current'.
       st_upd (\<lambda>s. s\<lparr>sy_loop := Some \<lparr>sl_target = target, sl_current = current', sl_cache = current,
         sl_waiting = (case chs s of None \<Rightarrow> 0 | Some m \<Rightarrow> length m)\<rparr>\<rparr>)) s)"

definition stopSync :: "SyncService \<Rightarrow> SyncService" where
  "stopSync s = s\<lparr>chs := None, isSyncing := False, sy_loop := None\<rparr>"

text \<open>The end of a round: the loop is left, or the next round begins.\<close>

definition sync_next :: "SyncLoop \<Rightarrow> (SyncService, unit) comp" where
  "sync_next l = (if sl_current l > sl_target l then st_upd stopSync else sync_round (sl_target l) (sl_current l))"

definition StartSync :: "uint64 \<Rightarrow> ('d node, unit) comp" where
  "StartSync targetHeight n =
     (if isSyncing (n_sync n) then (Ok (), n)
      else on_sync (st_bind (st_upd (\<lambda>s. s\<lparr>isSyncing := True\<rparr>)) (\<lambda>_.
        sync_round targetHeight (Blockchain_NextHeight (blockchain n)))) n)"

text \<open>
  What the loop does with a block it received: verification and execution (not for the first
  block), the accounts and the block into the database, the event. False: the loop gave up, and the
  node is not syncing any more.
\<close>

definition giveUp :: "('d node, bool) comp" where
  "giveUp = on_sync (st_bind (st_upd stopSync) (\<lambda>_. st_out (Ok False)))"

definition sync_execute :: "('d, 'z) senv_scheme \<Rightarrow> Block \<Rightarrow> ('d node, Block option) comp" where
  "sync_execute E blk n =
     (if \<not> CheckBlockInfo (blockchain n) blk then st_bind giveUp (\<lambda>_. st_out (Ok None)) n
      else st_bind (on_world (ExecuteNow E (faucet n) (txs_of (bl_Bundle blk)))) (\<lambda>(executed, ts) n.
        let blk = blk\<lparr>bl_Bundle := \<lparr>Transactions = map_option (\<lambda>_. ts) (Transactions (bl_Bundle blk))\<rparr>\<rparr> in
        st_bind (st_out (CheckStateHash E blk (w_mem (n_world n)))) (\<lambda>(ok, state).
          if \<not> ok then st_bind giveUp (\<lambda>_. st_out (Ok None))
          else st_bind (st_out (CheckBlockHash E (blockchain n) blk state)) (\<lambda>ok.
            if \<not> ok then st_bind giveUp (\<lambda>_. st_out (Ok None))
            else st_bind (on_world (PushAccounts E executed)) (\<lambda>_. st_out (Ok (Some blk))))) n) n)"

definition sync_block ::
  "('d, 'z) senv_scheme \<Rightarrow> (Block \<Rightarrow> ('d node, unit) comp) \<Rightarrow> Block \<Rightarrow> ('d node, bool) comp" where
  "sync_block E stored blk =
     st_bind (if bi_Height (bl_Info blk) > 0 then sync_execute E blk else st_out (Ok (Some blk))) (\<lambda>res.
       case res of None \<Rightarrow> st_out (Ok False)
       | Some blk \<Rightarrow>
           st_bind (on_world (on_db (StorageService_Put E BlocksBucket (Some (BlockContent blk))))) (\<lambda>_.
           st_bind (stored blk) (\<lambda>_. st_out (Ok True))))"

text \<open>
  One turn of the inner loop when the block arrived: receive on the channel of \<open>cache\<close>, handle it,
  count. \<open>None\<close> of the receive is a channel nobody sends on.
\<close>

definition chan_recv :: "uint64 \<Rightarrow> SyncService \<Rightarrow> (Block go \<times> SyncService) option" where
  "chan_recv h s = (case chs s of None \<Rightarrow> None
     | Some m \<Rightarrow> (case map_of m h of None \<Rightarrow> None | Some [] \<Rightarrow> None
        | Some (v # q) \<Rightarrow> Some (v, s\<lparr>chs := Some (AList.update h q m)\<rparr>)))"

definition sync_advance :: "SyncService \<Rightarrow> SyncService" where
  "sync_advance s = s\<lparr>sy_loop := map_option (\<lambda>l. l\<lparr>sl_cache := sl_cache l + 1, sl_waiting := sl_waiting l - 1\<rparr>) (sy_loop s)\<rparr>"

definition sync_receive ::
  "('d, 'z) senv_scheme \<Rightarrow> (Block \<Rightarrow> ('d node, unit) comp) \<Rightarrow> SyncLoop \<Rightarrow> ('d node, unit) comp" where
  "sync_receive E stored l n = (case chan_recv (sl_cache l) (n_sync n) of
       None \<Rightarrow> (Blocked, n)
     | Some (res, s) \<Rightarrow>
         st_bind (st_out res) (\<lambda>blk.
         st_bind (sync_block E stored blk) (\<lambda>ok.
           if ok then on_sync (st_upd sync_advance) else st_out (Ok ()))) (n\<lparr>n_sync := s\<rparr>))"

definition sync_timeout :: "SyncService \<Rightarrow> SyncService" where
  "sync_timeout = stopSync"

subsection \<open>Handlers\<close>

definition hash_sized :: "slice \<Rightarrow> bool" where
  "hash_sized h \<longleftrightarrow> \<not> (h = None \<or> slice_len h \<noteq> HashSize)"

definition handleBlockRes :: "'z lib_scheme \<Rightarrow> bytes \<Rightarrow> (SyncService, unit) comp" where
  "handleBlockRes E raw =
     st_bind (st_out (BlockResponseMsg_Unmarshal raw)) (\<lambda>msg.
       let blk = bs_Block msg in
       st_bind (st_out (if bi_Height (bl_Info blk) \<noteq> 0 then BlockResponseMsg_Verify E msg
          else Ok (hash_sized (bi_Hash (bl_Info blk)) \<and> hash_sized (bl_PreviousBlockHash blk)
                   \<and> hash_sized (bl_StateHash blk)))) (\<lambda>ok.
         if \<not> ok then st_out (Ok ())
         else (\<lambda>s. case chs s of
             None \<Rightarrow> (Ok (), s)
           | Some m \<Rightarrow> (case map_of m (bi_Height (bl_Info blk)) of
               None \<Rightarrow> (Ok (), s)
             | Some _ \<Rightarrow> (Ok (), chan_send (bi_Height (bl_Info blk)) (Ok blk) s)))))"

definition handleBlockReq :: "('d, 'z) senv_scheme \<Rightarrow> bytes \<Rightarrow> ('d node, unit) comp" where
  "handleBlockReq E raw n =
     st_bind (st_out (BlockRequestMsg_Unmarshal raw)) (\<lambda>reqmsg.
       if \<not> BlockRequestMsg_Verify reqmsg then st_out (Ok ())
       else if bq_Height reqmsg > Blockchain_NextHeight (blockchain n) - 1 then st_out (Ok ())
       else st_bind (on_world (on_db (StorageService_Get E BlocksBucket RefIndex (Some (ToHex (bq_Height reqmsg)))))) (\<lambda>v.
         case v of None \<Rightarrow> st_out (Ok ())
         | Some raw \<Rightarrow>
             st_bind (st_out (Block_Unmarshal raw)) (\<lambda>blk.
             on_sync (sync_p2p (\<lambda>ps. st_upd (P2pService_Send (bq_From reqmsg)
               (PackPayload BlockResponseMsg_to_json \<lparr>bs_From = info ps, bs_Block = blk\<rparr>
                  [SyncMessage, BlockResponseMessage])) ps))))) n"

definition handleSyncMessage :: "('d, 'z) senv_scheme \<Rightarrow> bytes \<Rightarrow> ('d node, unit) comp" where
  "handleSyncMessage E raw =
     st_bind (st_out (go_index raw 0)) (\<lambda>k.
       if k \<noteq> SyncMessage then st_out (Ok ())
       else st_bind (st_out (go_index raw 1)) (\<lambda>kind.
         if kind = TxMsg then SyncService_handleTx E (drop 2 raw)
         else if kind = BlockRequestMessage then handleBlockReq E (drop 2 raw)
         else if kind = BlockResponseMessage then on_sync (handleBlockRes E (drop 2 raw))
         else st_out (Ok ())))"

subsection \<open>Evaluation\<close>

lemma on_world_eval [simp]:
  "m (n_world n) = (r, w) \<Longrightarrow> on_world m n = (r, n\<lparr>n_world := w\<rparr>)"
  by (simp add: on_world_def)

lemma on_sync_eval [simp]: "m (n_sync n) = (r, s) \<Longrightarrow> on_sync m n = (r, n\<lparr>n_sync := s\<rparr>)"
  by (simp add: on_sync_def)

lemma sync_p2p_eval [simp]: "m (sy_p2p s) = (r, ps) \<Longrightarrow> sync_p2p m s = (r, s\<lparr>sy_p2p := ps\<rparr>)"
  by (simp add: sync_p2p_def)

lemma giveUp_eval [simp]: "giveUp n = (Ok False, n\<lparr>n_sync := stopSync (n_sync n)\<rparr>)"
  by (simp add: giveUp_def)

lemma StorageService_eval [simp]:
  "StorageService_put E bk c db = (Ok (), db') \<Longrightarrow> StorageService_Put E bk c db = (Ok None, db')"
  "StorageService_Get E bk k ref db = (StorageService_get E bk k ref db, db)"
  by (simp_all add: StorageService_Put_def StorageService_Get_def StorageService_run_def)

subsection \<open>Encodings\<close>

lemma sync_names [simp]: "good_str ''Origins''" "good_str ''Tx''" "good_str ''Block''"
  by (rule good_str_plain, simp add: plain_def)+

interpretation txmsg_codec: codec TransactionMsg_to_json "dec_struct TransactionMsg_fields"
  "\<lparr>tm_Origins = None, tm_Tx = zeroTransaction\<rparr>" "\<lambda>m. \<forall>n\<in>set (nodes_of (tm_Origins m)). good_str (Ip4 n)"
  by unfold_locales
    (simp_all add: TransactionMsg_to_json_def TransactionMsg_fields_def find_field_def good_nodes decode_nodes
      tx_codec.good tx_codec.decode)

interpretation blockreq_codec: codec BlockRequestMsg_to_json "dec_struct BlockRequestMsg_fields"
  "\<lparr>bq_From = zeroNodeInfo, bq_Height = 0\<rparr>" "\<lambda>m. good_str (Ip4 (bq_From m))"
  by unfold_locales
    (simp_all add: BlockRequestMsg_to_json_def BlockRequestMsg_fields_def find_field_def node_codec.good node_decode_any)

interpretation blockres_codec: codec BlockResponseMsg_to_json "dec_struct BlockResponseMsg_fields"
  "\<lparr>bs_From = zeroNodeInfo, bs_Block = zeroBlock\<rparr>" "\<lambda>m. good_str (Ip4 (bs_From m))"
  by unfold_locales
    (simp_all add: BlockResponseMsg_to_json_def BlockResponseMsg_fields_def find_field_def node_codec.good node_decode_any
      block_codec.good block_codec.decode)

lemmas sync_roundtrip = txmsg_codec.roundtrip blockreq_codec.roundtrip blockres_codec.roundtrip

subsection \<open>Channels and rounds\<close>

text \<open>What a round leaves: a channel without senders for every height it asked for, in order.\<close>

lemma P2pService_Send_sel [simp]:
  "peers (P2pService_Send to d ps) = peers ps" "info (P2pService_Send to d ps) = info ps"
  by (simp_all add: P2pService_Send_def)

lemma blockRequest_eval:
  assumes "i < LenPeers (sy_p2p s)"
  shows "blockRequest h i s = (Ok (), s\<lparr>sy_p2p := P2pService_Send (peers (sy_p2p s) ! i)
     (PackPayload BlockRequestMsg_to_json \<lparr>bq_From = info (sy_p2p s), bq_Height = h\<rparr> [SyncMessage, BlockRequestMessage]) (sy_p2p s)\<rparr>)"
proof -
  have "peers (sy_p2p s) \<noteq> []" "i < length (peers (sy_p2p s))" using assms by (auto simp: LenPeers_def)
  then show ?thesis by (simp add: blockRequest_def PeerByIndex_def Let_def)
qed

definition heights :: "uint64 \<Rightarrow> nat \<Rightarrow> uint64 list" where
  "heights h k = map (\<lambda>i. h + of_nat i) [0 ..< k]"

lemma heights_simps [simp]: "heights h 0 = []" "heights h (Suc k) = h # heights (h + 1) k" "length (heights h k) = k"
  by (simp_all add: heights_def map_upt_Suc comp_def add.assoc del: upt_Suc)

lemma unat_next: "unat h + 1 < 2 ^ 64 \<Longrightarrow> unat (h + 1) = unat h + 1" for h :: uint64
  using unat_add_lem [of h 1] by simp

lemma update_new: "k \<notin> fst ` set m \<Longrightarrow> AList.update k v m = m @ [(k, v)]"
  by (induction m) auto

text \<open>\<open>requests\<close> asks for consecutive heights, as many as there are peers or up to the target.\<close>

lemma requests_eval:
  assumes "chs s = Some m" "\<forall>h\<in>fst ` set m. unat h < unat current" "unat current \<le> unat target"
    "unat target + 1 < 2 ^ 64" "\<forall>i\<in>set is. i < LenPeers (sy_p2p s)"
  shows "\<exists>ps. requests target is current s
       = (Ok (current + of_nat (min (length is) (unat target - unat current + 1))), s\<lparr>sy_p2p := ps, chs := Some (m @
           map (\<lambda>h. (h, [])) (heights current (min (length is) (unat target - unat current + 1))))\<rparr>)
     \<and> peers ps = peers (sy_p2p s) \<and> info ps = info (sy_p2p s)"
  using assms
proof (induction "is" arbitrary: current s m)
  case Nil
  then show ?case by (auto intro!: exI [of _ "sy_p2p s"])
next
  case (Cons i "is")
  let ?s = "s\<lparr>chs := Some (m @ [(current, [])])\<rparr>"
  let ?ps = "P2pService_Send (peers (sy_p2p s) ! i)
     (PackPayload BlockRequestMsg_to_json \<lparr>bq_From = info (sy_p2p s), bq_Height = current\<rparr> [SyncMessage, BlockRequestMessage]) (sy_p2p s)"
  have new: "current \<notin> fst ` set m" using Cons.prems(2) by blast
  have req: "blockRequest current i ?s = (Ok (), ?s\<lparr>sy_p2p := ?ps\<rparr>)"
    using blockRequest_eval [of i ?s current] Cons.prems(5) by simp
  have nxt: "unat (current + 1) = unat current + 1" using Cons.prems(3,4) by (intro unat_next) simp
  show ?case
  proof (cases "unat current = unat target")
    case True
    then have "current + 1 > target" using nxt by (simp add: word_less_nat_alt)
    then show ?thesis using Cons.prems(1) True req update_new [OF new, of "[]"]
      by (auto intro!: exI [of _ ?ps])
  next
    case False
    then have le: "unat (current + 1) \<le> unat target" using nxt Cons.prems(3) by simp
    have lt: "\<forall>h\<in>fst ` set (m @ [(current, [])]). unat h < unat (current + 1)" using Cons.prems(2) nxt by force
    from le have "\<not> current + 1 > target" by (simp add: word_less_nat_alt)
    moreover have "min (length (i # is)) (unat target - unat current + 1) = Suc (min (length is) (unat target - unat (current + 1) + 1))"
      using False Cons.prems(3) nxt by simp
    moreover obtain ps where "requests target is (current + 1) (?s\<lparr>sy_p2p := ?ps\<rparr>)
       = (Ok (current + 1 + of_nat (min (length is) (unat target - unat (current + 1) + 1))), ?s\<lparr>sy_p2p := ps, chs := Some ((m @ [(current, [])]) @
           map (\<lambda>h. (h, [])) (heights (current + 1) (min (length is) (unat target - unat (current + 1) + 1))))\<rparr>)"
        "peers ps = peers (sy_p2p s)" "info ps = info (sy_p2p s)"
      using Cons.IH [OF _ lt le Cons.prems(4), of "?s\<lparr>sy_p2p := ?ps\<rparr>"] Cons.prems(5) by (auto simp: LenPeers_def)
    ultimately show ?thesis using Cons.prems(1) req update_new [OF new, of "[]"]
      by (auto simp: add.assoc intro!: exI [of _ ps])
  qed
qed

lemma sync_round_eval:
  assumes "unat current \<le> unat target" "unat target + 1 < 2 ^ 64"
    "k = min (LenPeers (sy_p2p s)) (unat target - unat current + 1)"
  obtains ps where "sync_round target current s = (Ok (), s\<lparr>sy_p2p := ps, chs := Some (map (\<lambda>h. (h, [])) (heights current k)),
      sy_loop := Some \<lparr>sl_target = target, sl_current = current + of_nat k, sl_cache = current, sl_waiting = k\<rparr>\<rparr>)"
    "peers ps = peers (sy_p2p s)" "info ps = info (sy_p2p s)"
proof -
  let ?s = "s\<lparr>chs := Some []\<rparr>"
  obtain ps where "requests target [0..<LenPeers (sy_p2p s)] current ?s
       = (Ok (current + of_nat k), ?s\<lparr>sy_p2p := ps, chs := Some (map (\<lambda>h. (h, [])) (heights current k))\<rparr>)"
     "peers ps = peers (sy_p2p s)" "info ps = info (sy_p2p s)"
    using requests_eval [OF _ _ assms(1,2), of ?s "[]" "[0..<LenPeers (sy_p2p s)]"] assms(3) by auto
  with that show thesis by (simp add: sync_round_def)
qed

text \<open>The loop waits for \<open>k\<close> heights from \<open>c\<close> on, on channels nobody has sent to.\<close>

definition loop_at :: "SyncService \<Rightarrow> uint64 \<Rightarrow> uint64 \<Rightarrow> nat \<Rightarrow> bool" where
  "loop_at s t c k \<longleftrightarrow> isSyncing s
     \<and> sy_loop s = Some \<lparr>sl_target = t, sl_current = c + of_nat k, sl_cache = c, sl_waiting = k\<rparr>
     \<and> (\<exists>m. chs s = Some m \<and> (\<forall>h\<in>set (heights c k). map_of m h = Some []))"

lemma map_of_fresh: "h \<in> set hs \<Longrightarrow> map_of (map (\<lambda>h. (h, [])) hs) h = Some []"
  by (induction hs) auto

lemma loop_at_round:
  assumes "isSyncing s" "unat c \<le> unat t" "unat t + 1 < 2 ^ 64" "peers (sy_p2p s) \<noteq> []"
  shows "\<exists>s' k. sync_round t c s = (Ok (), s') \<and> loop_at s' t c k \<and> 0 < k \<and> k \<le> unat t + 1 - unat c
     \<and> peers (sy_p2p s') = peers (sy_p2p s) \<and> info (sy_p2p s') = info (sy_p2p s)"
proof -
  define k where "k = min (LenPeers (sy_p2p s)) (unat t - unat c + 1)"
  obtain ps where "sync_round t c s = (Ok (), s\<lparr>sy_p2p := ps, chs := Some (map (\<lambda>h. (h, [])) (heights c k)),
      sy_loop := Some \<lparr>sl_target = t, sl_current = c + of_nat k, sl_cache = c, sl_waiting = k\<rparr>\<rparr>)"
      "peers ps = peers (sy_p2p s)" "info ps = info (sy_p2p s)"
    by (rule sync_round_eval [OF assms(2,3) k_def])
  moreover have "0 < k" "k \<le> unat t + 1 - unat c" using assms(2,4) by (auto simp: k_def LenPeers_def)
  ultimately show ?thesis using assms(1) by (auto simp: loop_at_def map_of_fresh)
qed

lemma heights_ge: "h \<in> set (heights c k) \<Longrightarrow> unat c + k \<le> 2 ^ 64 \<Longrightarrow> unat c \<le> unat h"
proof (induction k arbitrary: c)
  case (Suc k)
  show ?case
  proof (cases "h = c")
    case False
    then have k: "h \<in> set (heights (c + 1) k)" using Suc.prems(1) by simp
    then have "0 < k" by (cases k) auto
    then have "unat (c + 1) = unat c + 1" using Suc.prems(2) by (intro unat_next) simp
    with Suc.IH [OF k] Suc.prems(2) show ?thesis by simp
  qed simp
qed simp

text \<open>A block that arrives for the first height is received, and the loop goes on with the next one.\<close>

lemma map_of_send:
  "map_of (map (\<lambda>(k, q). if k = h then (k, q @ [v]) else (k, q)) m) h'
     = (if h' = h then map_option (\<lambda>q. q @ [v]) (map_of m h) else map_of m h')"
  by (induction m) auto

lemma send_recv:
  assumes "chs s = Some m" "map_of m c = Some []"
  shows "chan_recv c (chan_send c v s) = Some (v, (chan_send c v s)\<lparr>chs := Some (AList.update c []
     (map (\<lambda>(k, q). if k = c then (k, q @ [v]) else (k, q)) m))\<rparr>)"
  using assms by (simp add: chan_recv_def chan_send_def map_of_send)

lemma loop_at_advance:
  assumes "loop_at s t c (Suc k)" "unat c + Suc k < 2 ^ 64" "chan_recv c (chan_send c v s) = Some (v', s')"
  shows "loop_at (sync_advance s') t (c + 1) k \<and> v' = v \<and> sy_p2p (sync_advance s') = sy_p2p s"
proof -
  obtain m where m: "chs s = Some m" "\<forall>h\<in>set (heights c (Suc k)). map_of m h = Some []"
    using assms(1) by (auto simp: loop_at_def)
  then have "map_of m c = Some []" by simp
  note r = send_recv [OF m(1) this, of v]
  have "unat (c + 1) = unat c + 1" using assms(2) by (intro unat_next) simp
  then have "c \<notin> set (heights (c + 1) k)" using heights_ge [of c "c + 1" k] assms(2) by auto
  with m r assms(1,3) show ?thesis
    by (auto simp: loop_at_def sync_advance_def chan_send_def update_conv map_of_send add.assoc)
qed

end
