(* ===== verification/Node.thy ===== *)
theory Node
  imports Sync
begin

text \<open>
  Package \<open>nodes\<close> (\<open>src/nodes/node.go\<close>): how the parts of a node are put together, what happens when
  it starts, and the event that runs after a block was stored. Here the synchronisation loop meets
  the event, so what a node that catches up ends with is shown here.
\<close>

definition NewNode ::
  "('d, 'z) senv_scheme \<Rightarrow> string option \<Rightarrow> 'd StorageDb option \<Rightarrow> string \<Rightarrow> MemoryService \<Rightarrow> 'd node go" where
  "NewNode E openErr file syncPort memory =
     go_bind (NewStorageService E openErr file) (\<lambda>storage.
       Ok \<lparr>n_world = \<lparr>w_mem = memory, w_db = storage\<rparr>, blockchain = NewBlockchain, faucet = NewFaucet,
           n_sync = NewSyncService syncPort\<rparr>)"

definition Executer_Init :: "('d, 'z) senv_scheme \<Rightarrow> int64 \<Rightarrow> ('d node, unit) comp" where
  "Executer_Init E now n =
     st_bind (on_world (Faucet_Init E now (faucet n))) (\<lambda>f. st_upd (\<lambda>n. n\<lparr>faucet := f\<rparr>)) n"

definition SyncService_Run :: "(SyncService, unit) comp" where
  "SyncService_Run =
     st_bind (st_upd (\<lambda>s. s\<lparr>isSyncing := False\<rparr>)) (\<lambda>_. sync_p2p (st_upd (localDiscovery 3000 3002)))"

definition OnBlockStored :: "('d, 'z) senv_scheme \<Rightarrow> int64 \<Rightarrow> Block \<Rightarrow> ('d node, unit) comp" where
  "OnBlockStored E now b =
     st_bind (if bi_Height (bl_Info b) = 0
        then st_bind (Executer_Init E now) (\<lambda>_. on_world (FetchAccounts E [bi_PublicKey (bl_Info b)]))
        else st_out (Ok ())) (\<lambda>_.
     st_upd (\<lambda>n. n\<lparr>blockchain := Blockchain_Increment (bi_Hash (bl_Info b)) (blockchain n)\<rparr>))"

definition Node_Run :: "('d, 'z) senv_scheme \<Rightarrow> int64 \<Rightarrow> ('d node, unit) comp" where
  "Node_Run E now =
     st_bind (on_sync SyncService_Run) (\<lambda>_.
     st_bind (Executer_Init E now) (\<lambda>_.
     st_bind (on_world (on_db (StorageService_Get E BlocksBucket RefLatest None))) (\<lambda>v.
     st_bind (case v of
         None \<Rightarrow> st_out (Ok ())
       | Some raw \<Rightarrow> st_bind (st_out (Block_Unmarshal raw)) (\<lambda>blk.
           st_upd (\<lambda>n. n\<lparr>blockchain := Blockchain_Init (bi_Height (bl_Info blk) + 1) (bi_Hash (bl_Info blk)) (blockchain n)\<rparr>))) (\<lambda>_.
     on_world (FetchAllAccounts E)))))"

subsection \<open>A block in the synchronisation loop\<close>

text \<open>The loop checks a block as the consensus does (\<open>BlockProducer.Verify\<close>), then pushes the accounts at once.\<close>

lemma sync_execute_Verify:
  assumes "BlockProducer_Verify E (faucet n) (blockchain n) blk (n_world n) = (Ok (ok, ex, blk'), w)"
    "ok \<or> ex \<noteq> None \<or> \<not> CheckBlockInfo (blockchain n) blk"
  shows "sync_execute E blk n = (if ok then st_bind (on_world (PushAccounts E (the ex))) (\<lambda>_. st_out (Ok (Some blk'))) (n\<lparr>n_world := w\<rparr>)
     else (Ok None, n\<lparr>n_world := w, n_sync := stopSync (n_sync n)\<rparr>))"
proof (cases "CheckBlockInfo (blockchain n) blk")
  case True
  then obtain executed ts w' where x: "ExecuteNow E (faucet n) (txs_of (bl_Bundle blk)) (n_world n) = (Ok (executed, ts), w')"
    using assms by (auto simp: BlockProducer_Verify_def Execute_def split: go.splits prod.splits)
  let ?b = "blk\<lparr>bl_Bundle := \<lparr>Transactions = map_option (\<lambda>_. ts) (Transactions (bl_Bundle blk))\<rparr>\<rparr>"
  obtain state h where h: "CheckStateHash E ?b (w_mem w') = Ok (h, state)" "w = w'" "blk' = ?b" "ex = Some executed"
      "h \<Longrightarrow> CheckBlockHash E (blockchain n) ?b state = Ok ok" "\<not> h \<Longrightarrow> \<not> ok"
    using assms(1) True x by (auto simp: BlockProducer_Verify_def Execute_def st_bind_Ok Let_def split: if_splits)
  then show ?thesis using True x by (cases h; cases ok) (simp_all add: sync_execute_def Let_def)
next
  case False
  then show ?thesis using assms(1) by (simp add: BlockProducer_Verify_def sync_execute_def)
qed

text \<open>
  The node \<open>n\<close> has the accounts, in memory and in the database, and the place in the chain of another
  one, and its memory is in step with its database. The databases may have been filled at different times.
\<close>

definition mirrors ::
  "('e, 'y) senv_scheme \<Rightarrow> ('d, 'z) senv_scheme \<Rightarrow> Faucet \<Rightarrow> 'e world \<Rightarrow> Blockchain \<Rightarrow> 'd node \<Rightarrow> bool" where
  "mirrors E1 E2 f w bc n \<longleftrightarrow> node_ok E2 (n_world n) \<and> bucket_ok blocksBucket (w_db (n_world n))
     \<and> led (n_world n) = led w \<and> same_accounts f E1 (w_db w) E2 (w_db (n_world n))
     \<and> synced (b58_Encode E2) (db_state E2 (w_db (n_world n))) [] (led w)
     \<and> blockchain n = bc \<and> faucet n = f"

lemma put_block:
  assumes "bolt_ok E" "bucket_ok blocksBucket db" "block_storable b"
  obtains db' where "StorageService_put E BlocksBucket (Some (BlockContent b)) db = (Ok (), db')"
    "db_state E db' = db_state E db" "\<forall>name. bucket_ok name db' = bucket_ok name db"
    "bucket_get E blocksBucket db' = with_block b (bucket_get E blocksBucket db)"
proof -
  obtain db' where db': "StorageDb_Put E blocksBucket (BlockContent b) db = (Ok (), db')"
      "\<And>n. n \<noteq> blocksBucket \<Longrightarrow> bucket_get E n db' = bucket_get E n db" "\<And>n. bucket_ok n db' \<longleftrightarrow> bucket_ok n db"
      "bucket_get E blocksBucket db' = with_block b (bucket_get E blocksBucket db)"
    by (rule block_db.put [OF assms]) (simp add: with_block_def Let_def)
  have "accountsBucket \<noteq> blocksBucket" by (simp add: accountsBucket_def blocksBucket_def)
  with db'(2) have "db_state E db' = db_state E db" by (simp add: fun_eq_iff db_state_def)
  with db' that show thesis by (simp add: StorageService_put_def)
qed

lemma stored_eval:
  assumes "bolt_ok E" "bucket_ok blocksBucket (w_db (n_world n))" "block_storable b" "bi_Height (bl_Info b) \<noteq> 0"
  obtains db' where
    "st_bind (on_world (on_db (StorageService_Put E BlocksBucket (Some (BlockContent b))))) (\<lambda>_.
       st_bind (OnBlockStored E now b) (\<lambda>_. st_out (Ok True))) n
     = (Ok True, n\<lparr>n_world := (n_world n)\<lparr>w_db := db'\<rparr>, blockchain := Blockchain_Increment (bi_Hash (bl_Info b)) (blockchain n)\<rparr>)"
    "db_state E db' = db_state E (w_db (n_world n))" "\<forall>name. bucket_ok name db' = bucket_ok name (w_db (n_world n))"
    "bucket_get E blocksBucket db' = with_block b (bucket_get E blocksBucket (w_db (n_world n)))"
proof -
  obtain db' where db': "StorageService_put E BlocksBucket (Some (BlockContent b)) (w_db (n_world n)) = (Ok (), db')"
    "db_state E db' = db_state E (w_db (n_world n))" "\<forall>name. bucket_ok name db' = bucket_ok name (w_db (n_world n))"
    "bucket_get E blocksBucket db' = with_block b (bucket_get E blocksBucket (w_db (n_world n)))"
    by (rule put_block [OF assms(1-3)])
  then have "on_db (StorageService_Put E BlocksBucket (Some (BlockContent b))) (n_world n) = (Ok None, (n_world n)\<lparr>w_db := db'\<rparr>)"
    by (simp add: on_db_def)
  with that db'(2-4) assms(4) show thesis by (simp add: OnBlockStored_def)
qed

lemma known_led: "known E md pk \<longleftrightarrow> length pk = 32 \<and> mem_state md (b58_Encode E pk) \<noteq> None"
  by (auto simp: known_def mem_state_def)

text \<open>
  A producer makes a block and the block becomes final; the node that mirrored the producer before
  receives the block in its synchronisation loop and mirrors it again.
\<close>

lemma follow_block:
  assumes "env_ok E1" "env_ok E2" "same_lib E1 E2" "generator_ok f" "node_ok E1 w"
    "synced (b58_Encode E1) (db_state E1 (w_db w)) [] (led w)" "mirrors E1 E2 f w bc n"
    "pool_callers_ok (mempool (w_mem w))" "length (pool (mempool (w_mem w))) < 2 ^ 62"
    "BlockProducer_NewBlock E1 f bc wallet t w = (Ok (blk, ex), w1)" "card (dom (led w1)) \<le> 2 ^ 62"
    "length ex \<le> 11" "Executer_waitForFinality E1 ex True w1 = (Ok (), w2)" "0 < Blockchain_NextHeight bc" "block_storable blk"
  obtains n' where "sync_block E2 (OnBlockStored E2 now) blk n = (Ok True, n')" "n_sync n' = n_sync n"
    "mirrors E1 E2 f w2 (Blockchain_Increment (bi_Hash (bl_Info blk)) bc) n'" "node_ok E1 w2"
    "synced (b58_Encode E1) (db_state E1 (w_db w2)) [] (led w2)"
    "bucket_get E2 blocksBucket (w_db (n_world n')) = with_block blk (bucket_get E2 blocksBucket (w_db (n_world n)))"
proof -
  have n: "node_ok E2 (n_world n)" "led (n_world n) = led w" "same_accounts f E1 (w_db w) E2 (w_db (n_world n))"
      "blockchain n = bc" "faucet n = f" "bucket_ok blocksBucket (w_db (n_world n))"
      "synced (b58_Encode E2) (db_state E2 (w_db (n_world n))) [] (led w)"
    using assms(7) by (simp_all add: mirrors_def)
  have b58: "b58_ok E1" "b58_Encode E1 = b58_Encode E2"
    using assms(1,3) unfolding env_ok_def same_lib_def by blast+
  obtain txs ts state txHash sig where b: "MemoryService_GetTxsForBlock E1 (w_mem w) = Ok txs"
    "ExecuteNow E1 f (list_of txs) w = (Ok (ex, ts), w1)"
    "blk = \<lparr>bl_Info = \<lparr>bi_Height = Blockchain_NextHeight bc,
       bi_Hash = Some (Sum256 E1 (txHash @ bytes_of (Blockchain_PreviousBlockHash bc) @ state)),
       bi_Signature = Some sig, bi_PublicKey = Wallet_PublicKey wallet, bi_Timestamp = t\<rparr>,
      bl_Bundle = \<lparr>Transactions = map_option (\<lambda>_. ts) txs\<rparr>,
      bl_PreviousBlockHash = Blockchain_PreviousBlockHash bc, bl_StateHash = Some state\<rparr>"
    by (rule NewBlock_Ok [OF assms(10)])
  have "Mempool_GetTxsForBlock E1 (mempool (w_mem w)) = Ok txs"
    using b(1) by (simp add: MemoryService_GetTxsForBlock_def)
  with assms(1,9,8) have "callers_ok (list_of txs)" by (rule block_callers)
  then obtain ks where ks: "ex = map Some ks" "node_ok E1 w1" "w_db w1 = w_db w"
      "synced (b58_Encode E1) (db_state E1 (w_db w)) ks (led w1)" "list_all (known E1 (stateMem (w_mem w1))) ks"
    by (rule ExecuteNow_synced [OF assms(5) b58(1) _ assms(4,6) b(2)])
  have len: "length ks \<le> 11" using assms(12) ks(1) by simp
  have s1: "synced (b58_Encode E1) (db_state E1 (w_db w1)) ks (led w1)" using ks(3,4) by simp
  have fin: "node_ok E1 w2" "led w2 = led w1" "synced (b58_Encode E1) (db_state E1 (w_db w2)) [] (led w2)"
      "\<forall>k. db_state E1 (w_db w2) k = (if k \<in> set ks then Ok (the (led w1 (b58_Encode E1 k))) else db_state E1 (w_db w) k)"
    using finality_accepted [OF ks(2,5) len s1] assms(13) unfolding ks(1) ks(3) by force+
  obtain v where v: "BlockProducer_Verify E2 f bc blk (n_world n) = (Ok (True, Some ex, blk), v)" "node_ok E2 v"
      "led v = led w1" "w_db v = w_db (n_world n)" "synced (b58_Encode E2) (db_state E2 (w_db (n_world n))) (map the ex) (led v)"
    using NewBlock_accepted [OF assms(1-3,5) n(1) n(2) [symmetric] n(3) assms(8,9,10,11)] n(7) unfolding n(2) by blast
  have sv: "synced (b58_Encode E2) (db_state E2 (w_db v)) ks (led v)" using v(4,5) by (simp add: ks(1) map_idI)
  have kn: "list_all (known E2 (stateMem (w_mem v))) ks" using ks(5) v(3) b58(2) by (simp add: list_all_iff known_led)
  then obtain v2 where v2: "PushAccounts E2 (map Some ks) v = (Ok (), v2)" "node_ok E2 v2" "led v2 = led v"
      "\<forall>k. db_state E2 (w_db v2) k = (if k \<in> set ks then Ok (the (led v (b58_Encode E2 k))) else db_state E2 (w_db v) k)"
      "\<forall>name. bucket_ok name (w_db v2) = bucket_ok name (w_db v)"
      "bucket_get E2 blocksBucket (w_db v2) = bucket_get E2 blocksBucket (w_db v)"
    using PushAccounts_node [OF v(2) _ len] by metis
  have dbs: "same_accounts f E1 (w_db w2) E2 (w_db v2)"
    using v2(4) fin(4) v(3,4) n(3) b58(2) by (simp add: same_accounts_def)
  have sy: "synced (b58_Encode E2) (db_state E2 (w_db v2)) [] (led v2)"
    using finality_accepted [OF v(2) kn len sv] v2(1) by (auto simp: Executer_waitForFinality_def)
  have bo: "bucket_ok blocksBucket (w_db v2)" using n(6) v(4) v2(5) by simp
  have h: "bi_Height (bl_Info blk) \<noteq> 0" "0 < bi_Height (bl_Info blk)" using b(3) assms(14) by auto
  have x: "sync_execute E2 blk n = (Ok (Some blk), n\<lparr>n_world := v2\<rparr>)"
    using sync_execute_Verify [of E2 n blk True "Some ex" blk v] v(1) v2(1) n(4,5) ks(1) by simp
  let ?n = "n\<lparr>n_world := v2\<rparr>"
  have "bolt_ok E2" using v2(2) by (simp add: node_ok_def)
  from stored_eval [OF this _ assms(15) h(1), of ?n now] bo
  obtain db' where db': "st_bind (on_world (on_db (StorageService_Put E2 BlocksBucket (Some (BlockContent blk))))) (\<lambda>_.
       st_bind (OnBlockStored E2 now blk) (\<lambda>_. st_out (Ok True))) ?n
     = (Ok True, ?n\<lparr>n_world := v2\<lparr>w_db := db'\<rparr>, blockchain := Blockchain_Increment (bi_Hash (bl_Info blk)) bc\<rparr>)"
    "db_state E2 db' = db_state E2 (w_db v2)" "\<forall>name. bucket_ok name db' = bucket_ok name (w_db v2)"
    "bucket_get E2 blocksBucket db' = with_block blk (bucket_get E2 blocksBucket (w_db v2))"
    using n(4) by auto
  have "sync_block E2 (OnBlockStored E2 now) blk n
     = (Ok True, ?n\<lparr>n_world := v2\<lparr>w_db := db'\<rparr>, blockchain := Blockchain_Increment (bi_Hash (bl_Info blk)) bc\<rparr>)"
    using x h(2) db'(1) by (simp add: sync_block_def)
  then show thesis using that db'(2-4) v2(2,3,6) v(3,4) dbs sy bo fin n(5) by (simp add: mirrors_def node_ok_def same_accounts_def)
qed

subsection \<open>Runs of the synchronisation loop\<close>

text \<open>Messages, the start of a synchronisation, and the loop itself, in any order, with any reading of the clock.\<close>

abbreviation sync_inbound :: "('d, 'z) senv_scheme \<Rightarrow> bytes \<Rightarrow> ('d node, unit) comp" where
  "sync_inbound E raw \<equiv> handleInbound (\<lambda>m. on_sync (sync_p2p m)) (handleSyncMessage E) (Ok raw)"

inductive sync_step :: "('d, 'z) senv_scheme \<Rightarrow> 'd node \<Rightarrow> 'd node \<Rightarrow> bool" for E where
  inbound: "sync_inbound E raw n = (Ok (), n') \<Longrightarrow> sync_step E n n'"
| start: "StartSync t n = (Ok (), n') \<Longrightarrow> sync_step E n n'"
| receive: "sy_loop (n_sync n) = Some l \<Longrightarrow> 0 < sl_waiting l \<Longrightarrow>
    sync_receive E (OnBlockStored E now) l n = (Ok (), n') \<Longrightarrow> sync_step E n n'"
| timeout: "sy_loop (n_sync n) = Some l \<Longrightarrow> 0 < sl_waiting l \<Longrightarrow>
    sync_step E n (n\<lparr>n_sync := sync_timeout (n_sync n)\<rparr>)"
| round_done: "sy_loop (n_sync n) = Some l \<Longrightarrow> sl_waiting l = 0 \<Longrightarrow>
    on_sync (sync_next l) n = (Ok (), n') \<Longrightarrow> sync_step E n n'"

text \<open>A block as a peer at \<open>from\<close> answers it, and when that answer gets through.\<close>

definition response :: "NodeInfo \<Rightarrow> Block \<Rightarrow> bytes" where
  "response from b = PackPayload BlockResponseMsg_to_json \<lparr>bs_From = from, bs_Block = b\<rparr> [SyncMessage, BlockResponseMessage]"

definition deliverable :: "('d, 'z) senv_scheme \<Rightarrow> NodeInfo \<Rightarrow> Block \<Rightarrow> bool" where
  "deliverable E from b \<longleftrightarrow> Block_Verify E b = Ok True \<and> block_storable b \<and> length (response from b) \<le> MaxPayloadSize"

lemma response_delivered:
  assumes "address_ok from" "deliverable E from b" "bi_Height (bl_Info b) \<noteq> 0"
    "chs (n_sync n) = Some m" "map_of m (bi_Height (bl_Info b)) \<noteq> None"
  shows "sync_inbound E (response from b) n = (Ok (), n\<lparr>n_sync := chan_send (bi_Height (bl_Info b)) (Ok b) (n_sync n)\<rparr>)"
proof -
  let ?m = "\<lparr>bs_From = from, bs_Block = b\<rparr>"
  have "BlockResponseMsg_Unmarshal (Marshal BlockResponseMsg_to_json ?m) = Ok ?m"
    using blockres_codec.roundtrip [of ?m] assms(1) by (simp add: BlockResponseMsg_Unmarshal_def address_good)
  moreover have "BlockResponseMsg_Verify E ?m = Ok True"
    using assms(1,2) by (simp add: BlockResponseMsg_Verify_def address_verify deliverable_def)
  ultimately have "handleBlockRes E (Marshal BlockResponseMsg_to_json ?m) (n_sync n)
      = (Ok (), chan_send (bi_Height (bl_Info b)) (Ok b) (n_sync n))"
    using assms(3-5) by (auto simp: handleBlockRes_def Let_def split: option.splits)
  with assms(2) show ?thesis
    by (simp add: handleInbound_def deliverable_def response_def PackPayload_def handleSyncMessage_def message_kinds sync_kinds)
qed

text \<open>The blocks a producer makes one after the other, each of which becomes final.\<close>

inductive chain :: "('e, 'y) senv_scheme \<Rightarrow> Faucet \<Rightarrow> 'e world \<Rightarrow> Blockchain \<Rightarrow> Block list \<Rightarrow> 'e world \<Rightarrow> Blockchain \<Rightarrow> bool"
  for E f where
  finished: "chain E f w bc [] w bc"
| block: "BlockProducer_NewBlock E f bc wallet t w = (Ok (blk, ex), w1) \<Longrightarrow> length ex \<le> 11 \<Longrightarrow>
    pool_callers_ok (mempool (w_mem w)) \<Longrightarrow> length (pool (mempool (w_mem w))) < 2 ^ 62 \<Longrightarrow> card (dom (led w1)) \<le> 2 ^ 62 \<Longrightarrow>
    Executer_waitForFinality E ex True w1 = (Ok (), w2) \<Longrightarrow>
    node_ok E w3 \<Longrightarrow> led w3 = led w2 \<Longrightarrow> db_state E (w_db w3) = db_state E (w_db w2) \<Longrightarrow>
    chain E f w3 (Blockchain_Increment (bi_Hash (bl_Info blk)) bc) blks w' bc' \<Longrightarrow>
    chain E f w bc (blk # blks) w' bc'"

lemma Increment_height: "Blockchain_NextHeight (Blockchain_Increment h bc) = Blockchain_NextHeight bc + 1"
  by (simp add: Blockchain_Increment_def Blockchain_NextHeight_def icrementSlot_def incrementHeight_def incrementEpoch_def Let_def)

lemma mirrors_same:
  "mirrors E1 E2 f w bc n \<Longrightarrow> led w' = led w \<Longrightarrow> db_state E1 (w_db w') = db_state E1 (w_db w) \<Longrightarrow> mirrors E1 E2 f w' bc n"
  "mirrors E1 E2 f w bc (n\<lparr>n_sync := s\<rparr>) = mirrors E1 E2 f w bc n"
  by (simp_all add: mirrors_def same_accounts_def)

text \<open>
  The invariant of catching up: the loop waits for \<open>k\<close> of the blocks \<open>bs\<close> that are still to come, the
  last of which is the one it was started for.
\<close>

definition catching_up ::
  "('e, 'y) senv_scheme \<Rightarrow> ('d, 'z) senv_scheme \<Rightarrow> Faucet \<Rightarrow> 'e world \<Rightarrow> Blockchain \<Rightarrow> uint64 \<Rightarrow> nat \<Rightarrow> nat \<Rightarrow> 'd node \<Rightarrow> bool" where
  "catching_up E1 E2 f w bc t k left n \<longleftrightarrow> mirrors E1 E2 f w bc n \<and> node_ok E1 w
     \<and> synced (b58_Encode E1) (db_state E1 (w_db w)) [] (led w)
     \<and> loop_at (n_sync n) t (Blockchain_NextHeight bc) k \<and> k \<le> left
     \<and> unat t + 1 = unat (Blockchain_NextHeight bc) + left \<and> unat t + 1 < 2 ^ 64
     \<and> 0 < unat (Blockchain_NextHeight bc) \<and> peers (sy_p2p (n_sync n)) \<noteq> []"

lemma sync_steps1: "sync_step E n n' \<Longrightarrow> (sync_step E)\<^sup>*\<^sup>* n n'"
  by blast

text \<open>What the blocks bucket of a node has gained.\<close>

definition stores :: "('d, 'z) senv_scheme \<Rightarrow> Block list \<Rightarrow> 'd node \<Rightarrow> 'd node \<Rightarrow> bool" where
  "stores E bs n n' \<longleftrightarrow> bucket_get E blocksBucket (w_db (n_world n')) = fold with_block bs (bucket_get E blocksBucket (w_db (n_world n)))"

lemma stores_trans: "stores E bs n n1 \<Longrightarrow> stores E cs n1 n' \<Longrightarrow> stores E (bs @ cs) n n'"
  by (simp add: stores_def)

lemma catching_up_round:
  assumes "catching_up E1 E2 f w bc t k (Suc left) n"
  shows "\<exists>n' k'. (sync_step E2)\<^sup>*\<^sup>* n n' \<and> catching_up E1 E2 f w bc t (Suc k') (Suc left) n' \<and> stores E2 [] n n'"
proof (cases k)
  case 0
  let ?c = "Blockchain_NextHeight bc" and ?s = "n_sync n"
  have a: "isSyncing ?s" "peers (sy_p2p ?s) \<noteq> []" "unat ?c \<le> unat t" "unat t + 1 < 2 ^ 64"
      "sy_loop ?s = Some \<lparr>sl_target = t, sl_current = ?c, sl_cache = ?c, sl_waiting = 0\<rparr>"
    using assms 0 by (auto simp: catching_up_def loop_at_def)
  obtain s' k' where s': "sync_round t ?c ?s = (Ok (), s')" "loop_at s' t ?c k'" "0 < k'" "k' \<le> unat t + 1 - unat ?c"
      "peers (sy_p2p s') = peers (sy_p2p ?s)"
    using loop_at_round [OF a(1,3,4,2)] by blast
  have "\<not> ?c > t" using a(3) by (simp add: word_less_nat_alt)
  then have "sync_step E2 n (n\<lparr>n_sync := s'\<rparr>)"
    using a(5) s'(1) by (intro sync_step.round_done [OF a(5)]) (simp_all add: sync_next_def)
  moreover have "catching_up E1 E2 f w bc t k' (Suc left) (n\<lparr>n_sync := s'\<rparr>)"
    using assms s'(2,4,5) by (simp add: catching_up_def mirrors_same)
  moreover have "stores E2 [] n (n\<lparr>n_sync := s'\<rparr>)" by (simp add: stores_def)
  moreover obtain j where "k' = Suc j" using s'(3) by (cases k') auto
  ultimately show ?thesis by blast
next
  case (Suc j)
  with assms show ?thesis by (intro exI [of _ n] exI [of _ j]) (simp add: stores_def)
qed

lemma catching_up_block:
  assumes "catching_up E1 E2 f w bc t (Suc k) (Suc left) n" "env_ok E1" "env_ok E2" "same_lib E1 E2" "generator_ok f"
    "BlockProducer_NewBlock E1 f bc wallet tm w = (Ok (blk, ex), w1)" "length ex \<le> 11"
    "pool_callers_ok (mempool (w_mem w))" "length (pool (mempool (w_mem w))) < 2 ^ 62" "card (dom (led w1)) \<le> 2 ^ 62"
    "Executer_waitForFinality E1 ex True w1 = (Ok (), w2)" "address_ok from" "deliverable E2 from blk"
    "node_ok E1 w3" "led w3 = led w2" "db_state E1 (w_db w3) = db_state E1 (w_db w2)"
  shows "\<exists>n'. (sync_step E2 ^^ 2) n n'
     \<and> catching_up E1 E2 f w3 (Blockchain_Increment (bi_Hash (bl_Info blk)) bc) t k left n' \<and> stores E2 [blk] n n'"
proof -
  let ?c = "Blockchain_NextHeight bc" and ?bc = "Blockchain_Increment (bi_Hash (bl_Info blk)) bc"
  note cu = assms(1) [unfolded catching_up_def]
  have h: "bi_Height (bl_Info blk) = ?c" using NewBlock_Ok [OF assms(6)] by (metis BlockInfo.select_convs(1) Block.select_convs(1))
  have c: "0 < ?c" "unat ?c + Suc k < 2 ^ 64" "unat (?c + 1) = unat ?c + 1"
    using cu unat_next [of ?c] by (auto simp: word_greater_zero_iff)
  obtain m where m: "chs (n_sync n) = Some m" "map_of m ?c = Some []" using cu by (auto simp: loop_at_def)
  let ?n1 = "n\<lparr>n_sync := chan_send ?c (Ok blk) (n_sync n)\<rparr>"
  have step1: "sync_step E2 n ?n1"
    using response_delivered [OF assms(12,13) _ m(1)] h c(1) m(2)
    by (intro sync_step.inbound [of _ "response from blk"]) simp
  obtain s where s: "chan_recv ?c (chan_send ?c (Ok blk) (n_sync n)) = Some (Ok blk, s)" using send_recv [OF m] by auto
  have la: "loop_at (n_sync n) t ?c (Suc k)" using cu by blast
  from loop_at_advance [OF la c(2) s] have s2: "loop_at (sync_advance s) t (?c + 1) k" "sy_p2p (sync_advance s) = sy_p2p (n_sync n)"
    by simp_all
  let ?n2 = "?n1\<lparr>n_sync := s\<rparr>"
  have "mirrors E1 E2 f w bc ?n2" using cu by (simp add: mirrors_same)
  moreover have "block_storable blk" using assms(13) by (simp add: deliverable_def)
  ultimately obtain n' where n': "sync_block E2 (OnBlockStored E2 now) blk ?n2 = (Ok True, n')" "n_sync n' = n_sync ?n2"
      "mirrors E1 E2 f w2 ?bc n'" "synced (b58_Encode E1) (db_state E1 (w_db w2)) [] (led w2)"
      "bucket_get E2 blocksBucket (w_db (n_world n')) = with_block blk (bucket_get E2 blocksBucket (w_db (n_world ?n2)))"
    using cu by (metis follow_block [OF assms(2-5) _ _ _ assms(8,9,6,10,7,11) c(1)])
  have "sy_loop (n_sync ?n1) = Some \<lparr>sl_target = t, sl_current = ?c + of_nat (Suc k), sl_cache = ?c, sl_waiting = Suc k\<rparr>"
    using la by (simp add: loop_at_def chan_send_def)
  then have "sync_step E2 ?n1 (n'\<lparr>n_sync := sync_advance s\<rparr>)"
    by (rule sync_step.receive [where now = now]) (use s n'(1,2) in \<open>simp_all add: sync_receive_def\<close>)
  with step1 have "(sync_step E2 ^^ 2) n (n'\<lparr>n_sync := sync_advance s\<rparr>)" by (auto simp: numeral_2_eq_2)
  moreover have "catching_up E1 E2 f w3 ?bc t k left (n'\<lparr>n_sync := sync_advance s\<rparr>)"
    using cu s2 n'(3,4) c(3) assms(14-16) mirrors_same(1) [OF n'(3) assms(15,16)]
    by (simp add: catching_up_def mirrors_same(2) Increment_height)
  moreover have "stores E2 [blk] n (n'\<lparr>n_sync := sync_advance s\<rparr>)" using n'(5) by (simp add: stores_def)
  ultimately show ?thesis by blast
qed

lemma catching_up_done:
  assumes "catching_up E1 E2 f w bc t k 0 n"
  shows "\<exists>n'. (sync_step E2)\<^sup>*\<^sup>* n n' \<and> mirrors E1 E2 f w bc n' \<and> \<not> isSyncing (n_sync n') \<and> stores E2 [] n n'"
proof -
  let ?c = "Blockchain_NextHeight bc"
  have a: "sy_loop (n_sync n) = Some \<lparr>sl_target = t, sl_current = ?c, sl_cache = ?c, sl_waiting = 0\<rparr>" "unat ?c = unat t + 1"
    using assms by (auto simp: catching_up_def loop_at_def)
  have "sync_step E2 n (n\<lparr>n_sync := stopSync (n_sync n)\<rparr>)"
    by (rule sync_step.round_done [OF a(1)]) (use a(2) in \<open>simp_all add: sync_next_def word_less_nat_alt\<close>)
  moreover have "mirrors E1 E2 f w bc (n\<lparr>n_sync := stopSync (n_sync n)\<rparr>)"
    using assms by (simp add: catching_up_def mirrors_same)
  moreover have "stores E2 [] n (n\<lparr>n_sync := stopSync (n_sync n)\<rparr>)" "\<not> isSyncing (stopSync (n_sync n))" by (simp_all add: stores_def stopSync_def)
  ultimately show ?thesis using sync_steps1 by (intro exI [of _ "n\<lparr>n_sync := stopSync (n_sync n)\<rparr>"]) simp
qed

lemma catches_up:
  assumes "chain E1 f w bc bs w' bc'" "env_ok E1" "env_ok E2" "same_lib E1 E2" "generator_ok f" "address_ok from"
    "\<forall>b\<in>set bs. deliverable E2 from b" "catching_up E1 E2 f w bc t k (length bs) n"
  shows "\<exists>n'. (sync_step E2)\<^sup>*\<^sup>* n n' \<and> mirrors E1 E2 f w' bc' n' \<and> \<not> isSyncing (n_sync n') \<and> stores E2 bs n n'"
  using assms(1,7,8)
proof (induction arbitrary: n k rule: chain.induct)
  case (finished w bc)
  then show ?case using catching_up_done by fastforce
next
  case (block bc wallet tm w blk ex w1 w2 w3 blks w' bc')
  obtain n1 k1 where n1: "(sync_step E2)\<^sup>*\<^sup>* n n1" "catching_up E1 E2 f w bc t (Suc k1) (Suc (length blks)) n1" "stores E2 [] n n1"
    using catching_up_round block.prems(2) by fastforce
  have "deliverable E2 from blk" using block.prems(1) by simp
  from catching_up_block [OF n1(2) assms(2-5) block.hyps(1-6) assms(6) this block.hyps(7-9)]
  obtain n2 where n2: "(sync_step E2)\<^sup>*\<^sup>* n1 n2" "stores E2 [blk] n1 n2"
      "catching_up E1 E2 f w3 (Blockchain_Increment (bi_Hash (bl_Info blk)) bc) t k1 (length blks) n2"
    by (blast dest: relpowp_imp_rtranclp)
  obtain n' where n': "(sync_step E2)\<^sup>*\<^sup>* n2 n'" "mirrors E1 E2 f w' bc' n'" "\<not> isSyncing (n_sync n')" "stores E2 blks n2 n'"
    using block.IH [OF _ n2(3)] block.prems(1) by auto
  show ?case
    using rtranclp_trans [OF rtranclp_trans [OF n1(1) n2(1)] n'(1)] n'(2,3) stores_trans [OF stores_trans [OF n1(3) n2(2)] n'(4)] by auto
qed

text \<open>The blocks of a chain have consecutive heights.\<close>

lemma chain_heights:
  assumes "chain E f w bc bs w' bc'"
  shows "map (\<lambda>b. bi_Height (bl_Info b)) bs = heights (Blockchain_NextHeight bc) (length bs)"
  using assms
proof (induction rule: chain.induct)
  case (block bc wallet tm w blk ex w1 w2 w3 blks w' bc')
  have "bi_Height (bl_Info blk) = Blockchain_NextHeight bc"
    using NewBlock_Ok [OF block.hyps(1)] by (metis BlockInfo.select_convs(1) Block.select_convs(1))
  with block.IH show ?case by (simp add: Increment_height)
qed simp

lemma distinct_heights:
  assumes "k \<le> 2 ^ 64"
  shows "distinct (heights h k)"
proof -
  have "unat (of_nat i :: uint64) = i" if "i < k" for i using that assms by (simp add: unat_of_nat take_bit_nat_eq_self_iff)
  then have "inj_on (\<lambda>i. h + of_nat i) {0..<k}" by (intro inj_onI) (metis add_left_cancel atLeastLessThan_iff)
  then show ?thesis by (simp add: heights_def distinct_map)
qed

lemma starts_catching_up:
  assumes "mirrors E1 E2 f w bc n" "node_ok E1 w" "synced (b58_Encode E1) (db_state E1 (w_db w)) [] (led w)"
    "\<not> isSyncing (n_sync n)" "peers (sy_p2p (n_sync n)) \<noteq> []" "0 < unat (Blockchain_NextHeight bc)"
    "unat t + 1 = unat (Blockchain_NextHeight bc) + left" "unat t + 1 < 2 ^ 64" "0 < left"
  shows "\<exists>n' k. StartSync t n = (Ok (), n') \<and> catching_up E1 E2 f w bc t k left n' \<and> 0 < k \<and> stores E2 [] n n'"
proof -
  let ?c = "Blockchain_NextHeight bc" and ?s = "(n_sync n)\<lparr>isSyncing := True\<rparr>"
  have "unat ?c \<le> unat t" using assms(7,9) by simp
  with loop_at_round [of ?s ?c t] assms(5,8) obtain s' k where s': "sync_round t ?c ?s = (Ok (), s')" "loop_at s' t ?c k"
      "k \<le> unat t + 1 - unat ?c" "peers (sy_p2p s') = peers (sy_p2p (n_sync n))" "0 < k" by auto
  have "blockchain n = bc" using assms(1) by (simp add: mirrors_def)
  then have "StartSync t n = (Ok (), n\<lparr>n_sync := s'\<rparr>)" using assms(4) s'(1) by (simp add: StartSync_def)
  moreover have "catching_up E1 E2 f w bc t k left (n\<lparr>n_sync := s'\<rparr>)"
    using assms s'(2-4) by (simp add: catching_up_def mirrors_same)
  moreover have "stores E2 [] n (n\<lparr>n_sync := s'\<rparr>)" by (simp add: stores_def)
  ultimately show ?thesis using s'(5) by blast
qed

end
