(* ===== verification/ConsensusMsgs.thy ===== *)
theory ConsensusMsgs
  imports Sync
begin

text \<open>
  The messages of package \<open>consensus\<close> (\<open>src/consensus/consensus_msgs.go\<close>): their verification and
  encodings. Every signature is one over the same constant text.
\<close>

type_synonym ConsensuMsgKind = char

definition GossipMessage :: ConsensuMsgKind where "GossipMessage = CHR 0x01"
definition StartBlockProcessingMessage :: ConsensuMsgKind where "StartBlockProcessingMessage = CHR 0x02"
definition ProposeBlockMessage :: ConsensuMsgKind where "ProposeBlockMessage = CHR 0x03"
definition VoteMessage :: ConsensuMsgKind where "VoteMessage = CHR 0x04"
definition FinalizeMessage :: ConsensuMsgKind where "FinalizeMessage = CHR 0x05"

lemmas consensus_kinds = GossipMessage_def StartBlockProcessingMessage_def ProposeBlockMessage_def VoteMessage_def FinalizeMessage_def

definition ConsensusMsgSigContent :: bytes where
  "ConsensusMsgSigContent = ''ConsensusMsgSignatureVersion2''"

definition VerifyConsensusSignature :: "'z lib_scheme \<Rightarrow> slice \<Rightarrow> slice \<Rightarrow> bool go" where
  "VerifyConsensusSignature L signature pubKey = ed25519_Verify L pubKey (Some ConsensusMsgSigContent) signature"

record GossipMsg =
  gm_From :: NodeInfo
  gm_FromPublicKey :: slice
  gm_Signature :: slice
  gm_IsSyncing :: bool
  gm_IsReady :: bool
  gm_NextHeight :: uint64
  gm_NextEpoch :: uint64
  gm_NextSlot :: uint32
  gm_BadNodes :: "slice list option"

definition GossipMsg_Verify :: "'z lib_scheme \<Rightarrow> GossipMsg \<Rightarrow> bool go" where
  "GossipMsg_Verify L gm =
     (if (case gm_BadNodes gm of None \<Rightarrow> False | Some pks \<Rightarrow> list_ex (\<lambda>pk. slice_len pk \<noteq> PublicKeySize) pks) then Ok False
      else go_and (Ok (NodeInfo_Verify (gm_From gm)))
          (go_and (VerifyConsensusSignature L (gm_Signature gm) (gm_FromPublicKey gm))
            (Ok (slice_len (gm_FromPublicKey gm) = PublicKeySize \<and> gm_Signature gm \<noteq> None \<and> slice_len (gm_Signature gm) > 0))))"

text \<open>The check that the other four messages share.\<close>

definition verifySender :: "'z lib_scheme \<Rightarrow> NodeInfo \<Rightarrow> slice \<Rightarrow> slice \<Rightarrow> bool go" where
  "verifySender L from pubKey signature =
     go_and (Ok (NodeInfo_Verify from))
       (go_and (VerifyConsensusSignature L signature pubKey)
         (Ok (pubKey \<noteq> None \<and> slice_len pubKey = PublicKeySize \<and> signature \<noteq> None \<and> slice_len signature > 0)))"

record StartBlockProcessingMsg =
  sb_From :: NodeInfo
  sb_FromPublicKey :: slice
  sb_Signature :: slice
  sb_NextBlockProducer :: slice
  sb_NextAggregator :: slice

definition StartBlockProcessingMsg_Verify :: "'z lib_scheme \<Rightarrow> StartBlockProcessingMsg \<Rightarrow> bool go" where
  "StartBlockProcessingMsg_Verify L m =
     go_and (verifySender L (sb_From m) (sb_FromPublicKey m) (sb_Signature m))
       (Ok (sb_NextBlockProducer m \<noteq> None \<and> slice_len (sb_NextBlockProducer m) = PublicKeySize
          \<and> sb_NextAggregator m \<noteq> None \<and> slice_len (sb_NextAggregator m) = PublicKeySize))"

record ProposeBlockMsg =
  pb_From :: NodeInfo
  pb_FromPublicKey :: slice
  pb_Signature :: slice
  pb_Block :: Block

definition ProposeBlockMsg_Verify :: "'z lib_scheme \<Rightarrow> ProposeBlockMsg \<Rightarrow> bool go" where
  "ProposeBlockMsg_Verify L m =
     go_and (verifySender L (pb_From m) (pb_FromPublicKey m) (pb_Signature m)) (Block_Verify L (pb_Block m))"

record VoteMsg =
  vo_From :: NodeInfo
  vo_FromPublicKey :: slice
  vo_Signature :: slice
  vo_Height :: uint64
  vo_Ok :: bool

definition VoteMsg_Verify :: "'z lib_scheme \<Rightarrow> VoteMsg \<Rightarrow> bool go" where
  "VoteMsg_Verify L m = verifySender L (vo_From m) (vo_FromPublicKey m) (vo_Signature m)"

record FinalizeMsg =
  fm_From :: NodeInfo
  fm_FromPublicKey :: slice
  fm_Signature :: slice
  fm_Height :: uint64
  fm_Ok :: bool

definition FinalizeMsg_Verify :: "'z lib_scheme \<Rightarrow> FinalizeMsg \<Rightarrow> bool go" where
  "FinalizeMsg_Verify L m = verifySender L (fm_From m) (fm_FromPublicKey m) (fm_Signature m)"

subsection \<open>Encoding\<close>

definition GossipMsg_to_json :: "GossipMsg \<Rightarrow> json" where
  "GossipMsg_to_json m = JObj
     [(''From'', NodeInfo_to_json (gm_From m)), (''FromPublicKey'', enc_bytes (gm_FromPublicKey m)),
      (''Signature'', enc_bytes (gm_Signature m)), (''IsSyncing'', JBool (gm_IsSyncing m)), (''IsReady'', JBool (gm_IsReady m)),
      (''NextHeight'', enc_uint (gm_NextHeight m)), (''NextEpoch'', enc_uint (gm_NextEpoch m)),
      (''NextSlot'', enc_uint (gm_NextSlot m)), (''BadNodes'', enc_list enc_bytes (gm_BadNodes m))]"

definition GossipMsg_fields :: "GossipMsg fields" where
  "GossipMsg_fields =
     [(''From'', \<lambda>j m. map_option (\<lambda>x. m\<lparr>gm_From := x\<rparr>) (dec_struct NodeInfo_fields j (gm_From m))),
      (''FromPublicKey'', \<lambda>j m. map_option (\<lambda>x. m\<lparr>gm_FromPublicKey := x\<rparr>) (dec_bytes j (gm_FromPublicKey m))),
      (''Signature'', \<lambda>j m. map_option (\<lambda>x. m\<lparr>gm_Signature := x\<rparr>) (dec_bytes j (gm_Signature m))),
      (''IsSyncing'', \<lambda>j m. map_option (\<lambda>x. m\<lparr>gm_IsSyncing := x\<rparr>) (dec_bool j (gm_IsSyncing m))),
      (''IsReady'', \<lambda>j m. map_option (\<lambda>x. m\<lparr>gm_IsReady := x\<rparr>) (dec_bool j (gm_IsReady m))),
      (''NextHeight'', \<lambda>j m. map_option (\<lambda>x. m\<lparr>gm_NextHeight := x\<rparr>) (dec_uint j (gm_NextHeight m))),
      (''NextEpoch'', \<lambda>j m. map_option (\<lambda>x. m\<lparr>gm_NextEpoch := x\<rparr>) (dec_uint j (gm_NextEpoch m))),
      (''NextSlot'', \<lambda>j m. map_option (\<lambda>x. m\<lparr>gm_NextSlot := x\<rparr>) (dec_uint j (gm_NextSlot m))),
      (''BadNodes'', \<lambda>j m. map_option (\<lambda>x. m\<lparr>gm_BadNodes := x\<rparr>) (dec_list dec_bytes None j (gm_BadNodes m)))]"

definition zeroGossipMsg :: GossipMsg where
  "zeroGossipMsg = \<lparr>gm_From = zeroNodeInfo, gm_FromPublicKey = None, gm_Signature = None, gm_IsSyncing = False, gm_IsReady = False,
     gm_NextHeight = 0, gm_NextEpoch = 0, gm_NextSlot = 0, gm_BadNodes = None\<rparr>"

definition GossipMsg_Unmarshal :: "bytes \<Rightarrow> GossipMsg go" where
  "GossipMsg_Unmarshal raw = Unmarshal (dec_struct GossipMsg_fields) zeroGossipMsg raw"

definition StartBlockProcessingMsg_to_json :: "StartBlockProcessingMsg \<Rightarrow> json" where
  "StartBlockProcessingMsg_to_json m = JObj
     [(''From'', NodeInfo_to_json (sb_From m)), (''FromPublicKey'', enc_bytes (sb_FromPublicKey m)),
      (''Signature'', enc_bytes (sb_Signature m)), (''NextBlockProducer'', enc_bytes (sb_NextBlockProducer m)),
      (''NextAggregator'', enc_bytes (sb_NextAggregator m))]"

definition StartBlockProcessingMsg_fields :: "StartBlockProcessingMsg fields" where
  "StartBlockProcessingMsg_fields =
     [(''From'', \<lambda>j m. map_option (\<lambda>x. m\<lparr>sb_From := x\<rparr>) (dec_struct NodeInfo_fields j (sb_From m))),
      (''FromPublicKey'', \<lambda>j m. map_option (\<lambda>x. m\<lparr>sb_FromPublicKey := x\<rparr>) (dec_bytes j (sb_FromPublicKey m))),
      (''Signature'', \<lambda>j m. map_option (\<lambda>x. m\<lparr>sb_Signature := x\<rparr>) (dec_bytes j (sb_Signature m))),
      (''NextBlockProducer'', \<lambda>j m. map_option (\<lambda>x. m\<lparr>sb_NextBlockProducer := x\<rparr>) (dec_bytes j (sb_NextBlockProducer m))),
      (''NextAggregator'', \<lambda>j m. map_option (\<lambda>x. m\<lparr>sb_NextAggregator := x\<rparr>) (dec_bytes j (sb_NextAggregator m)))]"

definition zeroStartBlockProcessingMsg :: StartBlockProcessingMsg where
  "zeroStartBlockProcessingMsg = \<lparr>sb_From = zeroNodeInfo, sb_FromPublicKey = None, sb_Signature = None,
     sb_NextBlockProducer = None, sb_NextAggregator = None\<rparr>"

definition StartBlockProcessingMsg_Unmarshal :: "bytes \<Rightarrow> StartBlockProcessingMsg go" where
  "StartBlockProcessingMsg_Unmarshal raw = Unmarshal (dec_struct StartBlockProcessingMsg_fields) zeroStartBlockProcessingMsg raw"

definition ProposeBlockMsg_to_json :: "ProposeBlockMsg \<Rightarrow> json" where
  "ProposeBlockMsg_to_json m = JObj
     [(''From'', NodeInfo_to_json (pb_From m)), (''FromPublicKey'', enc_bytes (pb_FromPublicKey m)),
      (''Signature'', enc_bytes (pb_Signature m)), (''Block'', Block_to_json (pb_Block m))]"

definition ProposeBlockMsg_fields :: "ProposeBlockMsg fields" where
  "ProposeBlockMsg_fields =
     [(''From'', \<lambda>j m. map_option (\<lambda>x. m\<lparr>pb_From := x\<rparr>) (dec_struct NodeInfo_fields j (pb_From m))),
      (''FromPublicKey'', \<lambda>j m. map_option (\<lambda>x. m\<lparr>pb_FromPublicKey := x\<rparr>) (dec_bytes j (pb_FromPublicKey m))),
      (''Signature'', \<lambda>j m. map_option (\<lambda>x. m\<lparr>pb_Signature := x\<rparr>) (dec_bytes j (pb_Signature m))),
      (''Block'', \<lambda>j m. map_option (\<lambda>x. m\<lparr>pb_Block := x\<rparr>) (dec_struct Block_fields j (pb_Block m)))]"

definition zeroProposeBlockMsg :: ProposeBlockMsg where
  "zeroProposeBlockMsg = \<lparr>pb_From = zeroNodeInfo, pb_FromPublicKey = None, pb_Signature = None, pb_Block = zeroBlock\<rparr>"

definition ProposeBlockMsg_Unmarshal :: "bytes \<Rightarrow> ProposeBlockMsg go" where
  "ProposeBlockMsg_Unmarshal raw = Unmarshal (dec_struct ProposeBlockMsg_fields) zeroProposeBlockMsg raw"

definition VoteMsg_to_json :: "VoteMsg \<Rightarrow> json" where
  "VoteMsg_to_json m = JObj
     [(''From'', NodeInfo_to_json (vo_From m)), (''FromPublicKey'', enc_bytes (vo_FromPublicKey m)),
      (''Signature'', enc_bytes (vo_Signature m)), (''Height'', enc_uint (vo_Height m)), (''Ok'', JBool (vo_Ok m))]"

definition VoteMsg_fields :: "VoteMsg fields" where
  "VoteMsg_fields =
     [(''From'', \<lambda>j m. map_option (\<lambda>x. m\<lparr>vo_From := x\<rparr>) (dec_struct NodeInfo_fields j (vo_From m))),
      (''FromPublicKey'', \<lambda>j m. map_option (\<lambda>x. m\<lparr>vo_FromPublicKey := x\<rparr>) (dec_bytes j (vo_FromPublicKey m))),
      (''Signature'', \<lambda>j m. map_option (\<lambda>x. m\<lparr>vo_Signature := x\<rparr>) (dec_bytes j (vo_Signature m))),
      (''Height'', \<lambda>j m. map_option (\<lambda>x. m\<lparr>vo_Height := x\<rparr>) (dec_uint j (vo_Height m))),
      (''Ok'', \<lambda>j m. map_option (\<lambda>x. m\<lparr>vo_Ok := x\<rparr>) (dec_bool j (vo_Ok m)))]"

definition zeroVoteMsg :: VoteMsg where
  "zeroVoteMsg = \<lparr>vo_From = zeroNodeInfo, vo_FromPublicKey = None, vo_Signature = None, vo_Height = 0, vo_Ok = False\<rparr>"

definition VoteMsg_Unmarshal :: "bytes \<Rightarrow> VoteMsg go" where
  "VoteMsg_Unmarshal raw = Unmarshal (dec_struct VoteMsg_fields) zeroVoteMsg raw"

definition FinalizeMsg_to_json :: "FinalizeMsg \<Rightarrow> json" where
  "FinalizeMsg_to_json m = JObj
     [(''From'', NodeInfo_to_json (fm_From m)), (''FromPublicKey'', enc_bytes (fm_FromPublicKey m)),
      (''Signature'', enc_bytes (fm_Signature m)), (''Height'', enc_uint (fm_Height m)), (''Ok'', JBool (fm_Ok m))]"

definition FinalizeMsg_fields :: "FinalizeMsg fields" where
  "FinalizeMsg_fields =
     [(''From'', \<lambda>j m. map_option (\<lambda>x. m\<lparr>fm_From := x\<rparr>) (dec_struct NodeInfo_fields j (fm_From m))),
      (''FromPublicKey'', \<lambda>j m. map_option (\<lambda>x. m\<lparr>fm_FromPublicKey := x\<rparr>) (dec_bytes j (fm_FromPublicKey m))),
      (''Signature'', \<lambda>j m. map_option (\<lambda>x. m\<lparr>fm_Signature := x\<rparr>) (dec_bytes j (fm_Signature m))),
      (''Height'', \<lambda>j m. map_option (\<lambda>x. m\<lparr>fm_Height := x\<rparr>) (dec_uint j (fm_Height m))),
      (''Ok'', \<lambda>j m. map_option (\<lambda>x. m\<lparr>fm_Ok := x\<rparr>) (dec_bool j (fm_Ok m)))]"

definition zeroFinalizeMsg :: FinalizeMsg where
  "zeroFinalizeMsg = \<lparr>fm_From = zeroNodeInfo, fm_FromPublicKey = None, fm_Signature = None, fm_Height = 0, fm_Ok = False\<rparr>"

definition FinalizeMsg_Unmarshal :: "bytes \<Rightarrow> FinalizeMsg go" where
  "FinalizeMsg_Unmarshal raw = Unmarshal (dec_struct FinalizeMsg_fields) zeroFinalizeMsg raw"

subsection \<open>Round trips\<close>

lemma consensus_names [simp]:
  "good_str ''FromPublicKey''" "good_str ''IsSyncing''" "good_str ''IsReady''" "good_str ''NextHeight''" "good_str ''NextEpoch''"
  "good_str ''NextSlot''" "good_str ''BadNodes''" "good_str ''NextBlockProducer''" "good_str ''NextAggregator''" "good_str ''Ok''"
  by (rule good_str_plain, simp add: plain_def)+

lemma good_slices: "good_json (enc_list enc_bytes pks)"
  by (cases pks) (auto simp: enc_list_def)

lemma decode_slices: "dec_list dec_bytes None (enc_list enc_bytes pks) None = Some pks"
  by (rule dec_enc_list) simp

interpretation gossip_codec: codec GossipMsg_to_json "dec_struct GossipMsg_fields" zeroGossipMsg "\<lambda>m. good_str (Ip4 (gm_From m))"
  by unfold_locales
    (simp_all add: GossipMsg_to_json_def GossipMsg_fields_def find_field_def zeroGossipMsg_def node_codec.good node_decode_any
      good_slices decode_slices)

interpretation start_codec: codec StartBlockProcessingMsg_to_json "dec_struct StartBlockProcessingMsg_fields"
  zeroStartBlockProcessingMsg "\<lambda>m. good_str (Ip4 (sb_From m))"
  by unfold_locales
    (simp_all add: StartBlockProcessingMsg_to_json_def StartBlockProcessingMsg_fields_def find_field_def zeroStartBlockProcessingMsg_def
      node_codec.good node_decode_any)

interpretation propose_codec: codec ProposeBlockMsg_to_json "dec_struct ProposeBlockMsg_fields"
  zeroProposeBlockMsg "\<lambda>m. good_str (Ip4 (pb_From m))"
  by unfold_locales
    (simp_all add: ProposeBlockMsg_to_json_def ProposeBlockMsg_fields_def find_field_def zeroProposeBlockMsg_def
      node_codec.good node_decode_any block_codec.good block_codec.decode)

interpretation vote_codec: codec VoteMsg_to_json "dec_struct VoteMsg_fields" zeroVoteMsg "\<lambda>m. good_str (Ip4 (vo_From m))"
  by unfold_locales
    (simp_all add: VoteMsg_to_json_def VoteMsg_fields_def find_field_def zeroVoteMsg_def node_codec.good node_decode_any)

interpretation finalize_codec: codec FinalizeMsg_to_json "dec_struct FinalizeMsg_fields" zeroFinalizeMsg "\<lambda>m. good_str (Ip4 (fm_From m))"
  by unfold_locales
    (simp_all add: FinalizeMsg_to_json_def FinalizeMsg_fields_def find_field_def zeroFinalizeMsg_def node_codec.good node_decode_any)

lemma consensus_roundtrip:
  "good_str (Ip4 (gm_From g)) \<Longrightarrow> GossipMsg_Unmarshal (Marshal GossipMsg_to_json g) = Ok g"
  "good_str (Ip4 (sb_From s)) \<Longrightarrow> StartBlockProcessingMsg_Unmarshal (Marshal StartBlockProcessingMsg_to_json s) = Ok s"
  "good_str (Ip4 (pb_From p)) \<Longrightarrow> ProposeBlockMsg_Unmarshal (Marshal ProposeBlockMsg_to_json p) = Ok p"
  "good_str (Ip4 (vo_From v)) \<Longrightarrow> VoteMsg_Unmarshal (Marshal VoteMsg_to_json v) = Ok v"
  "good_str (Ip4 (fm_From f)) \<Longrightarrow> FinalizeMsg_Unmarshal (Marshal FinalizeMsg_to_json f) = Ok f"
  by (simp_all add: GossipMsg_Unmarshal_def StartBlockProcessingMsg_Unmarshal_def ProposeBlockMsg_Unmarshal_def VoteMsg_Unmarshal_def
      FinalizeMsg_Unmarshal_def gossip_codec.roundtrip start_codec.roundtrip propose_codec.roundtrip vote_codec.roundtrip finalize_codec.roundtrip)

end
