(* ===== verification/Consensus.thy ===== *)
theory Consensus
  imports Node ConsensusMsgs
begin

text \<open>
  Package \<open>consensus\<close> (\<open>src/consensus/consensus_service.go\<close>, \<open>handlers.go\<close>): gossip, the committee, proposals,
  votes and finality.

  The handlers and the ticks of the loop are steps on the state of a full node. The channels of the
  service are part of it:
  \<^item> \<open>finalizeCh\<close> names the channel the last \<open>startTimer\<close> made, and \<open>timers\<close> lists the channels whose
    goroutine \<open>timeout\<close> still waits in its \<open>select\<close>; a send on a channel nobody waits on, or on \<open>nil\<close>, is
    \<open>Blocked\<close>. A timer that was started may strike at any step or never;
  \<^item> \<open>accountCh\<close> and \<open>blockCh\<close> stand for the goroutines that wait at their other end, with the executed
    keys and the block; a send releases the goroutine, which becomes a job that may run at any later
    step.
\<close>

subsection \<open>State\<close>

record ConsensusService =
  cs_p2p :: P2pService
  nodeWallet :: Wallet
  nextValidators :: "bytes list"
  nextBlockProducer :: slice
  nextAggregator :: slice
  finalizeCh :: "nat option"
  accountCh :: "publicKeys option"
  blockCh :: "Block option"
  numVoted :: int64
  numVotedOk :: int64
  waitingFianlity :: bool
  peersStatus :: "(string \<times> bool) list"
  badPeers :: "bytes list"
  cs_tick :: "32 word"
  timers :: "nat list"
  nextTimer :: nat

datatype job = AccountJob publicKeys bool | BlockJob Block bool

record 'd fullnode =
  fn_node :: "'d node"
  fn_cons :: ConsensusService
  jobs :: "job list"

text \<open>\<open>slices.SortFunc\<close> on keys, besides the packages a node without consensus uses.\<close>

record 'd cenv = "'d senv" +
  SortKeys :: "(bytes \<Rightarrow> bytes \<Rightarrow> bool) \<Rightarrow> bytes list \<Rightarrow> bytes list"

definition NewConsensusService :: "string \<Rightarrow> Wallet \<Rightarrow> ConsensusService" where
  "NewConsensusService port wallet =
     \<lparr>cs_p2p = NewP2pService port ConsensusNode, nodeWallet = wallet, nextValidators = [], nextBlockProducer = None,
      nextAggregator = None, finalizeCh = None, accountCh = None, blockCh = None, numVoted = 0, numVotedOk = 0,
      waitingFianlity = False, peersStatus = [], badPeers = [], cs_tick = 0, timers = [], nextTimer = 0\<rparr>"

definition on_node :: "('d node, 'a) comp \<Rightarrow> ('d fullnode, 'a) comp" where
  "on_node m s = (case m (fn_node s) of (r, n) \<Rightarrow> (r, s\<lparr>fn_node := n\<rparr>))"

definition on_cons :: "(ConsensusService, 'a) comp \<Rightarrow> ('d fullnode, 'a) comp" where
  "on_cons m s = (case m (fn_cons s) of (r, cs) \<Rightarrow> (r, s\<lparr>fn_cons := cs\<rparr>))"

definition cons_p2p :: "(P2pService, 'a) comp \<Rightarrow> (ConsensusService, 'a) comp" where
  "cons_p2p m cs = (case m (cs_p2p cs) of (r, ps) \<Rightarrow> (r, cs\<lparr>cs_p2p := ps\<rparr>))"

definition ConsensusService_Run :: "(ConsensusService, unit) comp" where
  "ConsensusService_Run =
     st_bind (cons_p2p (st_upd (localDiscovery 5000 5002))) (\<lambda>_.
     st_upd (\<lambda>cs. cs\<lparr>numVoted := 0, numVotedOk := 0, waitingFianlity := False, cs_tick := 0\<rparr>))"

definition reset :: "ConsensusService \<Rightarrow> ConsensusService" where
  "reset cs = cs\<lparr>nextValidators := [], nextBlockProducer := None, nextAggregator := None, finalizeCh := None,
     accountCh := None, blockCh := None, numVoted := 0, numVotedOk := 0, waitingFianlity := False\<rparr>"

definition onPeerDisapear :: "NodeInfo \<Rightarrow> ConsensusService \<Rightarrow> ConsensusService" where
  "onPeerDisapear n cs = reset (cs\<lparr>peersStatus := AList.delete (Ip4 n) (peersStatus cs)\<rparr>)"

subsection \<open>Validators and bad peers\<close>

definition keys_add :: "slice \<Rightarrow> bytes list \<Rightarrow> bytes list" where
  "keys_add pk ks =
     (if slice_len pk \<noteq> PublicKeySize then ks
      else if \<not> list_ex (\<lambda>p. bytes_Equal pk (Some p)) ks then ks @ [bytes_of pk] else ks)"

definition keys_remove :: "slice \<Rightarrow> bytes list \<Rightarrow> bytes list" where
  "keys_remove pk ks =
     (if slice_len pk \<noteq> PublicKeySize then ks
      else (case IndexFunc (\<lambda>p. bytes_Equal pk (Some p)) ks of None \<Rightarrow> ks | Some idx \<Rightarrow> Delete ks idx))"

definition removeFromNextValidators :: "slice \<Rightarrow> ConsensusService \<Rightarrow> ConsensusService" where
  "removeFromNextValidators pk cs = cs\<lparr>nextValidators := keys_remove pk (nextValidators cs)\<rparr>"

definition addToNextValidators :: "slice \<Rightarrow> ConsensusService \<Rightarrow> ConsensusService" where
  "addToNextValidators pk cs = cs\<lparr>nextValidators := keys_add pk (nextValidators cs)\<rparr>"

definition addToBadPeer :: "slice \<Rightarrow> ConsensusService \<Rightarrow> ConsensusService" where
  "addToBadPeer pk cs = cs\<lparr>badPeers := keys_add pk (badPeers cs)\<rparr>"

definition cs_ready :: "ConsensusService \<Rightarrow> bool" where
  "cs_ready cs \<longleftrightarrow> nextBlockProducer cs \<noteq> None \<and> nextAggregator cs \<noteq> None"

definition allPeerReady :: "ConsensusService \<Rightarrow> bool" where
  "allPeerReady cs \<longleftrightarrow> list_all snd (peersStatus cs)"

subsection \<open>The committee\<close>

text \<open>Keys are ordered by their digest, read as a big-endian number.\<close>

definition lessKey :: "'z lib_scheme \<Rightarrow> bytes \<Rightarrow> bytes \<Rightarrow> bool" where
  "lessKey L a b \<longleftrightarrow> be_value (Sum256 L a) < be_value (Sum256 L b)"

definition decideCommittee :: "('d, 'z) cenv_scheme \<Rightarrow> uint64 \<Rightarrow> (ConsensusService, unit) comp" where
  "decideCommittee E height cs =
     (let vs = SortKeys E (lessKey E) (nextValidators cs);
          cs = cs\<lparr>nextValidators := vs\<rparr>;
          numValidators = word_of_nat (length vs) :: uint64
      in if numValidators = 0 then (Panic ''integer divide by zero'', cs)
         else let nextBlockProducerIdx = height mod numValidators;
                  nextAggregatorIdx = (nextBlockProducerIdx + 1) mod numValidators
              in st_bind (st_out (go_index vs (unat nextBlockProducerIdx))) (\<lambda>p.
                 st_bind (st_out (go_index vs (unat nextAggregatorIdx))) (\<lambda>a.
                 st_upd (\<lambda>cs. cs\<lparr>nextBlockProducer := Some p, nextAggregator := Some a\<rparr>))) cs)"

subsection \<open>Finality\<close>

definition startTimer :: "ConsensusService \<Rightarrow> ConsensusService" where
  "startTimer cs = cs\<lparr>finalizeCh := Some (nextTimer cs), timers := timers cs @ [nextTimer cs], nextTimer := nextTimer cs + 1\<rparr>"

definition finalize :: "bool \<Rightarrow> ('d fullnode, unit) comp" where
  "finalize ok s = (let cs = fn_cons s in
     case finalizeCh cs of
       None \<Rightarrow> (Blocked, s)
     | Some ch \<Rightarrow>
         if ch \<notin> set (timers cs) then (Blocked, s)
         else (Ok (), s\<lparr>fn_cons := reset (cs\<lparr>timers := removeAll ch (timers cs)\<rparr>),
                 jobs := jobs s @ (case accountCh cs of None \<Rightarrow> [] | Some ks \<Rightarrow> [AccountJob ks ok])
                   @ (case blockCh cs of None \<Rightarrow> [] | Some b \<Rightarrow> [BlockJob b ok])\<rparr>))"

text \<open>The timer of a round strikes: its goroutine leaves the \<open>select\<close> and rejects the block.\<close>

definition timeout_fires :: "nat \<Rightarrow> ('d fullnode, unit) comp" where
  "timeout_fires ch =
     st_bind (on_cons (st_upd (\<lambda>cs. cs\<lparr>timers := removeAll ch (timers cs)\<rparr>))) (\<lambda>_. finalize False)"

definition cons_send :: "('a \<Rightarrow> json) \<Rightarrow> ConsensuMsgKind \<Rightarrow> 'a \<Rightarrow> (ConsensusService, unit) comp" where
  "cons_send enc kind msg = cons_p2p (st_upd (Broadcast (PackPayload enc msg [ConsensusMessage, kind]) []))"

definition broadcastFinality :: "'z lib_scheme \<Rightarrow> bool \<Rightarrow> ('d fullnode, unit) comp" where
  "broadcastFinality E ok s = (let cs = fn_cons s in
     if \<not> bytes_Equal (nextAggregator cs) (Wallet_PublicKey (nodeWallet cs)) then (Ok (), s)
     else st_bind (st_out (Wallet_SignRaw E (nodeWallet cs) (Some ConsensusMsgSigContent))) (\<lambda>sig.
          st_bind (on_cons (cons_send FinalizeMsg_to_json FinalizeMessage
            \<lparr>fm_From = info (cs_p2p cs), fm_FromPublicKey = Wallet_PublicKey (nodeWallet cs), fm_Signature = Some sig,
             fm_Height = Blockchain_NextHeight (blockchain (fn_node s)), fm_Ok = ok\<rparr>)) (\<lambda>_. finalize ok)) s)"

definition aggregate :: "'z lib_scheme \<Rightarrow> bool \<Rightarrow> ('d fullnode, unit) comp" where
  "aggregate E ok s =
     (if \<not> bytes_Equal (nextAggregator (fn_cons s)) (Wallet_PublicKey (nodeWallet (fn_cons s))) then (Ok (), s)
      else let cs = fn_cons s;
               cs = cs\<lparr>numVoted := numVoted cs + 1, numVotedOk := (if ok then numVotedOk cs + 1 else numVotedOk cs)\<rparr>;
               numValidators = length (nextValidators cs);
               modTotal = (if numValidators mod 2 \<noteq> 0 then numValidators + 1 else numValidators);
               s = s\<lparr>fn_cons := cs\<rparr>
           in if sint (numVoted cs) = int numValidators - 1
              then broadcastFinality E (sint (numVotedOk cs) > int modTotal div 2 - 1) s
              else (Ok (), s))"

definition cs_vote :: "'z lib_scheme \<Rightarrow> bool \<Rightarrow> ('d fullnode, unit) comp" where
  "cs_vote E ok =
     st_bind (on_cons (st_upd startTimer)) (\<lambda>_ s. let cs = fn_cons s in
       if bytes_Equal (nextAggregator cs) (Wallet_PublicKey (nodeWallet cs)) then aggregate E ok s
       else st_bind (st_out (Wallet_SignRaw E (nodeWallet cs) (Some ConsensusMsgSigContent))) (\<lambda>sig.
            st_bind (on_cons (cons_send VoteMsg_to_json VoteMessage
              \<lparr>vo_From = info (cs_p2p cs), vo_FromPublicKey = Wallet_PublicKey (nodeWallet cs), vo_Signature = Some sig,
               vo_Height = Blockchain_NextHeight (blockchain (fn_node s)), vo_Ok = ok\<rparr>)) (\<lambda>_.
            on_cons (st_upd (\<lambda>cs. if \<not> ok then addToBadPeer (nextBlockProducer cs) cs else cs)))) s)"

subsection \<open>Proposals and gossip\<close>

definition proposeBlock :: "('d, 'z) senv_scheme \<Rightarrow> int64 \<Rightarrow> ('d fullnode, unit) comp" where
  "proposeBlock E now s = (let cs = fn_cons s; n = fn_node s in
     st_bind (on_node (on_world (BlockProducer_NewBlock E (faucet n) (blockchain n) (nodeWallet cs) now))) (\<lambda>(blk, ch).
     st_bind (st_out (Wallet_SignRaw E (nodeWallet cs) (Some ConsensusMsgSigContent))) (\<lambda>sig.
     st_bind (on_cons (cons_send ProposeBlockMsg_to_json ProposeBlockMessage
        \<lparr>pb_From = info (cs_p2p cs), pb_FromPublicKey = Wallet_PublicKey (nodeWallet cs), pb_Signature = Some sig, pb_Block = blk\<rparr>)) (\<lambda>_.
     on_cons (st_upd (\<lambda>cs. cs\<lparr>blockCh := Some blk, accountCh := Some ch\<rparr>))))) s)"

definition broadcastStartBlockProcessing :: "'z lib_scheme \<Rightarrow> (ConsensusService, unit) comp" where
  "broadcastStartBlockProcessing E cs =
     st_bind (st_out (Wallet_SignRaw E (nodeWallet cs) (Some ConsensusMsgSigContent))) (\<lambda>sig.
       cons_send StartBlockProcessingMsg_to_json StartBlockProcessingMessage
         \<lparr>sb_From = info (cs_p2p cs), sb_FromPublicKey = Wallet_PublicKey (nodeWallet cs), sb_Signature = Some sig,
          sb_NextBlockProducer = nextBlockProducer cs, sb_NextAggregator = nextAggregator cs\<rparr>) cs"

definition broadcastGossip :: "'z lib_scheme \<Rightarrow> ('d fullnode, unit) comp" where
  "broadcastGossip E s = (let cs = fn_cons s; n = fn_node s in
     on_cons (st_bind (st_out (Wallet_SignRaw E (nodeWallet cs) (Some ConsensusMsgSigContent))) (\<lambda>sig.
       cons_send GossipMsg_to_json GossipMessage
         \<lparr>gm_From = info (cs_p2p cs), gm_FromPublicKey = Wallet_PublicKey (nodeWallet cs), gm_Signature = Some sig,
          gm_IsSyncing = isSyncing (n_sync n), gm_IsReady = cs_ready cs, gm_NextHeight = Blockchain_NextHeight (blockchain n),
          gm_NextEpoch = Blockchain_NextEpoch (blockchain n), gm_NextSlot = Blockchain_NextSlot (blockchain n),
          gm_BadNodes = Some (map Some (badPeers cs))\<rparr>)) s)"

text \<open>
  One turn of the loop. \<open>continue\<close> leaves the counter of ticks as it is. When the proposal fails, the
  error goes to the error channel and the round is started all the same.
\<close>

definition next_tick :: "('d fullnode, unit) comp" where
  "next_tick = on_cons (st_upd (\<lambda>cs. cs\<lparr>cs_tick := (cs_tick cs + 1) mod 4\<rparr>))"

definition startRound :: "('d, 'z) senv_scheme \<Rightarrow> int64 \<Rightarrow> ('d fullnode, unit) comp" where
  "startRound E now s =
     (case proposeBlock E now s of (r, s) \<Rightarrow>
        let s' = s\<lparr>fn_cons := startTimer ((fn_cons s)\<lparr>waitingFianlity := True\<rparr>)\<rparr> in
        (case r of Ok u \<Rightarrow> (Ok (), s') | Err e \<Rightarrow> (Err e, s') | Panic p \<Rightarrow> (Panic p, s) | Blocked \<Rightarrow> (Blocked, s)))"

definition decide_tick :: "('d, 'z) cenv_scheme \<Rightarrow> int64 \<Rightarrow> ('d fullnode, unit) comp" where
  "decide_tick E now s =
     st_bind (on_cons (st_upd (\<lambda>cs. addToNextValidators (Wallet_PublicKey (nodeWallet cs)) cs))) (\<lambda>_.
     st_bind (on_cons (decideCommittee E (Blockchain_NextHeight (blockchain (fn_node s))))) (\<lambda>_ s.
       if cs_ready (fn_cons s) \<and> allPeerReady (fn_cons s) then
         st_bind (on_cons (broadcastStartBlockProcessing E)) (\<lambda>_ s.
           if MemoryService_LenTx (w_mem (n_world (fn_node s))) > 0
             \<and> bytes_Equal (nextBlockProducer (fn_cons s)) (Wallet_PublicKey (nodeWallet (fn_cons s)))
           then startRound E now s else (Ok (), s)) s
       else (Ok (), s))) s"

definition loop_tick :: "('d, 'z) cenv_scheme \<Rightarrow> int64 \<Rightarrow> ('d fullnode, unit) comp" where
  "loop_tick E now s = (let cs = fn_cons s in
     if LenPeers (cs_p2p cs) = 0 then (Ok (), s)
     else if waitingFianlity cs then (Ok (), s)
     else if sint (cs_tick cs) < 2 then st_bind (broadcastGossip E) (\<lambda>_. next_tick) s
     else if cs_tick cs = 2 then
       if isSyncing (n_sync (fn_node s)) then (Ok (), s)
       else if length (nextValidators cs) = 0 then (Ok (), s)
       else st_bind (decide_tick E now) (\<lambda>_. next_tick) s
     else next_tick s)"

subsection \<open>Handlers\<close>

definition handleVote :: "'z lib_scheme \<Rightarrow> bytes \<Rightarrow> ('d fullnode, unit) comp" where
  "handleVote E raw s =
     (if \<not> bytes_Equal (nextAggregator (fn_cons s)) (Wallet_PublicKey (nodeWallet (fn_cons s))) then (Ok (), s)
      else st_bind (st_out (VoteMsg_Unmarshal raw)) (\<lambda>msg.
           st_bind (st_out (VoteMsg_Verify E msg)) (\<lambda>ok s.
             if \<not> ok then (Ok (), s)
             else if \<not> list_ex (\<lambda>pk. bytes_Equal (Some pk) (vo_FromPublicKey msg)) (nextValidators (fn_cons s)) then (Ok (), s)
             else aggregate E (vo_Ok msg) s)) s)"

definition handleFinalize :: "'z lib_scheme \<Rightarrow> bytes \<Rightarrow> ('d fullnode, unit) comp" where
  "handleFinalize E raw =
     st_bind (st_out (FinalizeMsg_Unmarshal raw)) (\<lambda>msg.
     st_bind (st_out (FinalizeMsg_Verify E msg)) (\<lambda>ok s.
       if \<not> ok then (Ok (), s)
       else if \<not> bytes_Equal (fm_FromPublicKey msg) (nextAggregator (fn_cons s))
       then on_cons (st_upd (addToBadPeer (fm_FromPublicKey msg))) s
       else finalize (fm_Ok msg) s))"

definition handleProposeBlock :: "('d, 'z) senv_scheme \<Rightarrow> bytes \<Rightarrow> ('d fullnode, unit) comp" where
  "handleProposeBlock E raw =
     st_bind (st_out (ProposeBlockMsg_Unmarshal raw)) (\<lambda>msg.
     st_bind (st_out (ProposeBlockMsg_Verify E msg)) (\<lambda>ok s0.
       if \<not> ok then (Ok (), s0)
       else if \<not> bytes_Equal (pb_FromPublicKey msg) (nextBlockProducer (fn_cons s0))
       then on_cons (st_upd (addToBadPeer (pb_FromPublicKey msg))) s0
       else (let f = faucet (fn_node s0); bc = blockchain (fn_node s0); w = n_world (fn_node s0) in
         case on_node (on_world (BlockProducer_Verify E f bc (pb_Block msg))) s0 of
           (Ok (ok, ch, blk), s) \<Rightarrow>
             st_bind (on_cons (st_upd (\<lambda>cs. cs\<lparr>accountCh := ch, waitingFianlity := True\<rparr>))) (\<lambda>_.
               if \<not> ok then cs_vote E ok
               else st_bind (on_cons (st_upd (\<lambda>cs. cs\<lparr>blockCh := Some blk\<rparr>))) (\<lambda>_. cs_vote E ok)) s
         | (Err e, s) \<Rightarrow> (Err e, s\<lparr>fn_cons := (fn_cons s)\<lparr>accountCh := Verify_channel E f bc (pb_Block msg) w\<rparr>\<rparr>)
         | (Panic p, s) \<Rightarrow> (Panic p, s)
         | (Blocked, s) \<Rightarrow> (Blocked, s))))"

definition handleStartBlockProcessing :: "'z lib_scheme \<Rightarrow> bytes \<Rightarrow> (ConsensusService, unit) comp" where
  "handleStartBlockProcessing E raw =
     st_bind (st_out (StartBlockProcessingMsg_Unmarshal raw)) (\<lambda>msg.
     st_bind (st_out (StartBlockProcessingMsg_Verify E msg)) (\<lambda>ok cs.
       if \<not> ok then (Ok (), cs)
       else if \<not> bytes_Equal (sb_NextBlockProducer msg) (nextBlockProducer cs)
          \<or> \<not> bytes_Equal (sb_NextAggregator msg) (nextAggregator cs)
       then (Ok (), addToBadPeer (sb_FromPublicKey msg) cs)
       else (Ok (), cs)))"

definition handleGossip :: "'z lib_scheme \<Rightarrow> bytes \<Rightarrow> ('d fullnode, unit) comp" where
  "handleGossip E raw s =
     (if waitingFianlity (fn_cons s) then (Ok (), s)
      else if isSyncing (n_sync (fn_node s)) then (Ok (), s)
      else st_bind (st_out (GossipMsg_Unmarshal raw)) (\<lambda>msg.
           st_bind (st_out (GossipMsg_Verify E msg)) (\<lambda>ok s. let bc = blockchain (fn_node s) in
             if \<not> ok then (Ok (), s)
             else if gm_IsSyncing msg then (Ok (), s)
             else if list_ex (\<lambda>pk. bytes_Equal (gm_FromPublicKey msg) (Some pk)) (badPeers (fn_cons s)) then (Ok (), s)
             else if gm_NextHeight msg > Blockchain_NextHeight bc then on_node (StartSync (gm_NextHeight msg - 1)) s
             else if gm_NextHeight msg < Blockchain_NextHeight bc \<or> gm_NextEpoch msg \<noteq> Blockchain_NextEpoch bc
                \<or> gm_NextSlot msg \<noteq> Blockchain_NextSlot bc
             then on_cons (st_upd (removeFromNextValidators (gm_FromPublicKey msg))) s
             else on_cons (st_upd (\<lambda>cs. addToNextValidators (gm_FromPublicKey msg)
                    (cs\<lparr>peersStatus := AList.update (Ip4 (gm_From msg)) (gm_IsReady msg) (peersStatus cs)\<rparr>))) s)) s)"

definition handleConsensusMessage :: "('d, 'z) senv_scheme \<Rightarrow> bytes \<Rightarrow> ('d fullnode, unit) comp" where
  "handleConsensusMessage E raw =
     st_bind (st_out (go_index raw 0)) (\<lambda>k.
       if k \<noteq> ConsensusMessage then st_out (Ok ())
       else st_bind (st_out (go_index raw 1)) (\<lambda>kind.
         if kind = GossipMessage then handleGossip E (drop 2 raw)
         else if kind = StartBlockProcessingMessage then on_cons (handleStartBlockProcessing E (drop 2 raw))
         else if kind = ProposeBlockMessage then handleProposeBlock E (drop 2 raw)
         else if kind = VoteMessage then handleVote E (drop 2 raw)
         else if kind = FinalizeMessage then handleFinalize E (drop 2 raw)
         else st_out (Ok ())))"

abbreviation cons_inbound :: "('d, 'z) senv_scheme \<Rightarrow> bytes \<Rightarrow> ('d fullnode, unit) comp" where
  "cons_inbound E raw \<equiv> handleInbound (\<lambda>m. on_cons (cons_p2p m)) (handleConsensusMessage E) (Ok raw)"

subsection \<open>Released goroutines\<close>

definition run_job :: "('d, 'z) senv_scheme \<Rightarrow> int64 \<Rightarrow> job \<Rightarrow> ('d node, unit) comp" where
  "run_job E now j = (case j of
       AccountJob ks ok \<Rightarrow> on_world (Executer_waitForFinality E ks ok)
     | BlockJob b ok \<Rightarrow> SyncService_waitForFinality E (OnBlockStored E now) b ok)"

text \<open>
  Everything a full node does: ticks, messages, timers, lost peers, released goroutines, and the handlers
  and the loop of its synchronisation, at any reading of the clock. Whatever the outcome is, the step ends in the
  state that was reached, so that a handler that fails or blocks halfway leaves what it has done.
\<close>

inductive full_step :: "('d, 'z) cenv_scheme \<Rightarrow> 'd fullnode \<Rightarrow> 'd fullnode \<Rightarrow> bool" for E where
  loop_turn: "loop_tick E now s = (r, s') \<Longrightarrow> full_step E s s'"
| message: "cons_inbound E raw s = (r, s') \<Longrightarrow> full_step E s s'"
| strike: "ch \<in> set (timers (fn_cons s)) \<Longrightarrow> timeout_fires ch s = (r, s') \<Longrightarrow> full_step E s s'"
| lost: "onFail (\<lambda>m. on_cons (cons_p2p m)) (\<lambda>n s. s\<lparr>fn_cons := onPeerDisapear n (fn_cons s)\<rparr>) n s = (r, s') \<Longrightarrow> full_step E s s'"
| job: "jobs s = js1 @ j # js2 \<Longrightarrow> run_job E now j (fn_node s) = (r, n) \<Longrightarrow>
    full_step E s (s\<lparr>fn_node := n, jobs := js1 @ js2\<rparr>)"
| sync_message: "sync_inbound E raw (fn_node s) = (r, n) \<Longrightarrow> full_step E s (s\<lparr>fn_node := n\<rparr>)"
| sync_receives: "sy_loop (n_sync (fn_node s)) = Some l \<Longrightarrow> 0 < sl_waiting l \<Longrightarrow>
    sync_receive E (OnBlockStored E now) l (fn_node s) = (r, n) \<Longrightarrow> full_step E s (s\<lparr>fn_node := n\<rparr>)"
| sync_times_out: "sy_loop (n_sync (fn_node s)) = Some l \<Longrightarrow> 0 < sl_waiting l \<Longrightarrow>
    full_step E s (s\<lparr>fn_node := (fn_node s)\<lparr>n_sync := sync_timeout (n_sync (fn_node s))\<rparr>\<rparr>)"
| sync_goes_on: "sy_loop (n_sync (fn_node s)) = Some l \<Longrightarrow> sl_waiting l = 0 \<Longrightarrow>
    on_sync (sync_next l) (fn_node s) = (r, n) \<Longrightarrow> full_step E s (s\<lparr>fn_node := n\<rparr>)"

end
