(* ===== verification/ConsensusInv.thy ===== *)
theory ConsensusInv
  imports Consensus
begin

text \<open>
  What the consensus service keeps in every run: its lists of keys are sets of public keys, its
  counters stay in range, its timers are its own.
\<close>

subsection \<open>Sets of keys\<close>

lemma keys_remove_first: "slice_len pk = PublicKeySize \<Longrightarrow> keys_remove pk ks = delete_first (\<lambda>p. p = bytes_of pk) ks"
  by (auto simp: keys_remove_def delete_first_def bytes_Equal_def eq_commute [of "bytes_of pk"])

interpretation key_set: key_slice "\<lambda>k. k" "\<lambda>k :: bytes. length k = PublicKeySize" "\<lambda>k. keys_add (Some k)" "\<lambda>k. keys_remove (Some k)"
proof
  fix x :: bytes and xs
  show "keys_add (Some x) xs = (if length x = PublicKeySize \<and> x \<notin> (\<lambda>k. k) ` set xs then xs @ [x] else xs)"
    by (auto simp: keys_add_def bytes_Equal_def list_ex_iff)
next
  fix xs :: "bytes list" and x :: bytes
  assume d: "distinct (map (\<lambda>k. k) xs)" "\<forall>y\<in>set xs. length y = PublicKeySize"
  show "keys_remove (Some x) xs = filter (\<lambda>y. y \<noteq> x) xs"
  proof (cases "length x = PublicKeySize")
    case True
    then show ?thesis using delete_first_key [OF d(1), of x] by (simp add: keys_remove_first)
  next
    case False
    then have "filter (\<lambda>y. y \<noteq> x) xs = xs" using d(2) by (intro filter_True) auto
    then show ?thesis using False by (simp add: keys_remove_def)
  qed
qed

lemma keys_ok_add: "key_set.slice_ok ks \<Longrightarrow> key_set.slice_ok (keys_add pk ks)"
  using key_set.ok_add [of ks "bytes_of pk"] by (cases pk) (simp_all add: keys_add_def PublicKeySize_def)

lemma keys_ok_remove: "key_set.slice_ok ks \<Longrightarrow> key_set.slice_ok (keys_remove pk ks)"
  using key_set.ok_remove [of ks "bytes_of pk"] by (cases pk) (simp_all add: keys_remove_def PublicKeySize_def)

lemma lessKey_weak: "strict_weak (lessKey E)"
  by (auto simp: strict_weak_def lessKey_def)

lemma sorted_keys:
  assumes "sorts (SortKeys E)"
  shows "mset (SortKeys E (lessKey E) ks) = mset ks" "sorted_wrt (\<lambda>a b. \<not> lessKey E b a) (SortKeys E (lessKey E) ks)"
  using assms lessKey_weak [of E] unfolding sorts_def by blast+

lemma keys_ok_sort:
  assumes "sorts (SortKeys E)" "key_set.slice_ok ks"
  shows "key_set.slice_ok (SortKeys E (lessKey E) ks)"
  using assms(2) sorted_keys(1) [OF assms(1), of ks] unfolding key_set.slice_ok_def
  by (metis list.map_ident mset_eq_imp_distinct_iff set_mset_mset)

subsection \<open>The invariant\<close>

definition cons_ok :: "ConsensusService \<Rightarrow> bool" where
  "cons_ok cs \<longleftrightarrow> key_set.slice_ok (nextValidators cs) \<and> key_set.slice_ok (badPeers cs) \<and> p2p_ok (cs_p2p cs)
     \<and> cs_tick cs < 4 \<and> distinct (timers cs) \<and> (\<forall>ch\<in>set (timers cs). ch < nextTimer cs)
     \<and> (\<forall>ch. finalizeCh cs = Some ch \<longrightarrow> ch < nextTimer cs)
     \<and> slice_len (nextBlockProducer cs) \<in> {0, PublicKeySize} \<and> slice_len (nextAggregator cs) \<in> {0, PublicKeySize}
     \<and> (nextBlockProducer cs = None \<longleftrightarrow> nextAggregator cs = None) \<and> distinct (map fst (peersStatus cs))"

lemma cons_ok_New: "cons_ok (NewConsensusService port wallet)"
  by (simp add: cons_ok_def NewConsensusService_def key_set.ok_Nil p2p_ok_def NewP2pService_def)

lemma cons_ok_reset: "cons_ok cs \<Longrightarrow> cons_ok (reset cs)"
  by (simp add: cons_ok_def reset_def key_set.ok_Nil)

lemma cons_ok_upd:
  assumes "cons_ok cs"
  shows "cons_ok (addToNextValidators pk cs)" "cons_ok (addToBadPeer pk cs)" "cons_ok (removeFromNextValidators pk cs)"
    "cons_ok (startTimer cs)" "cons_ok (cs\<lparr>timers := removeAll ch (timers cs)\<rparr>)" "cons_ok (cs\<lparr>cs_tick := (cs_tick cs + 1) mod 4\<rparr>)"
proof -
  have "(cs_tick cs + 1) mod 4 < 4" by (rule word_mod_less_divisor) simp
  then show "cons_ok (cs\<lparr>cs_tick := (cs_tick cs + 1) mod 4\<rparr>)" using assms by (simp add: cons_ok_def)
qed (use assms keys_ok_add keys_ok_remove in
    \<open>auto simp: cons_ok_def addToNextValidators_def addToBadPeer_def removeFromNextValidators_def startTimer_def distinct_removeAll\<close>)

lemma cons_ok_free [simp]:
  "cons_ok (cs\<lparr>accountCh := a\<rparr>) = cons_ok cs" "cons_ok (cs\<lparr>blockCh := b\<rparr>) = cons_ok cs"
  "cons_ok (cs\<lparr>waitingFianlity := w\<rparr>) = cons_ok cs" "cons_ok (cs\<lparr>numVoted := k\<rparr>) = cons_ok cs"
  "cons_ok (cs\<lparr>numVotedOk := k\<rparr>) = cons_ok cs"
  by (simp_all add: cons_ok_def)

abbreviation full_ok :: "'d fullnode \<Rightarrow> bool" where
  "full_ok s \<equiv> cons_ok (fn_cons s)"

lemma keeps_on_cons: "keeps cons_ok m \<Longrightarrow> keeps full_ok (on_cons m)"
  by (auto simp: keeps_def on_cons_def split: prod.splits)

lemma keeps_on_node [simp]: "keeps full_ok (on_node m)"
  by (auto simp: keeps_def on_node_def split: prod.splits)

lemma keeps_cons_upd: "(\<And>cs. cons_ok cs \<Longrightarrow> cons_ok (f cs)) \<Longrightarrow> keeps full_ok (on_cons (st_upd f))"
  by (rule keeps_on_cons) (simp add: keeps_def)

lemma full_keeps: "keeps full_ok m \<Longrightarrow> full_ok s \<Longrightarrow> full_ok (snd (m s))"
  by (simp add: keeps_def)

lemma full_bind: "keeps full_ok m \<Longrightarrow> (\<And>a. keeps full_ok (f a)) \<Longrightarrow> full_ok s \<Longrightarrow> full_ok (snd (st_bind m f s))"
  by (rule full_keeps [OF keeps_bind])

lemma keeps_prod: "(\<And>a b. keeps P (f a b)) \<Longrightarrow> keeps P (case p of (a, b) \<Rightarrow> f a b)"
  by (cases p) simp

lemma cons_bind: "keeps cons_ok m \<Longrightarrow> (\<And>a. keeps cons_ok (f a)) \<Longrightarrow> cons_ok s \<Longrightarrow> cons_ok (snd (st_bind m f s))"
  using keeps_bind [of cons_ok m f] by (simp add: keeps_def)

lemma keeps_p2p:
  assumes "\<And>ps. p2p_step\<^sup>*\<^sup>* ps (snd (m ps))"
  shows "keeps cons_ok (cons_p2p m)"
proof (rule keepsI)
  fix cs
  assume cs: "cons_ok cs"
  have "p2p_ok (snd (m (cs_p2p cs)))"
    using assms [of "cs_p2p cs"] cs by (induction rule: rtranclp_induct) (auto simp: cons_ok_def dest: p2p_step_ok)
  then show "cons_ok (snd (cons_p2p m cs))" using cs by (cases "m (cs_p2p cs)") (simp add: cons_p2p_def cons_ok_def)
qed

lemma keeps_send [simp]: "keeps cons_ok (cons_send enc kind msg)"
  unfolding cons_send_def by (rule keeps_p2p) (auto intro: p2p_step.broadcast)

lemma keeps_finalize [simp]: "keeps full_ok (finalize ok)"
  by (rule keepsI) (auto simp: finalize_def Let_def cons_ok_upd(5) intro!: cons_ok_reset split: option.split)

lemma keeps_broadcastFinality [simp]: "keeps full_ok (broadcastFinality E ok)"
  by (rule keepsI) (auto simp: broadcastFinality_def Let_def intro!: full_bind keeps_bind keeps_on_cons)

lemma keeps_aggregate [simp]: "keeps full_ok (aggregate E ok)"
  by (rule keepsI) (auto simp: aggregate_def Let_def intro!: full_keeps [OF keeps_broadcastFinality])

lemma keeps_vote [simp]: "keeps full_ok (cs_vote E ok)"
  unfolding cs_vote_def
proof (rule keeps_bind, rule keeps_cons_upd, erule cons_ok_upd(4), rule keepsI)
  fix s :: "'a fullnode"
  assume "full_ok s"
  then show "full_ok (snd (let cs = fn_cons s in
       if bytes_Equal (nextAggregator cs) (Wallet_PublicKey (nodeWallet cs)) then aggregate E ok s
       else st_bind (st_out (Wallet_SignRaw E (nodeWallet cs) (Some ConsensusMsgSigContent))) (\<lambda>sig.
            st_bind (on_cons (cons_send VoteMsg_to_json VoteMessage
              \<lparr>vo_From = info (cs_p2p cs), vo_FromPublicKey = Wallet_PublicKey (nodeWallet cs), vo_Signature = Some sig,
               vo_Height = Blockchain_NextHeight (blockchain (fn_node s)), vo_Ok = ok\<rparr>)) (\<lambda>_.
            on_cons (st_upd (\<lambda>cs. if \<not> ok then addToBadPeer (nextBlockProducer cs) cs else cs)))) s))"
    by (auto simp: Let_def cons_ok_upd intro!: full_bind keeps_bind keeps_on_cons keeps_cons_upd full_keeps [OF keeps_aggregate])
qed

lemma keeps_propose [simp]: "keeps full_ok (proposeBlock E now)"
  by (rule keepsI) (auto simp: proposeBlock_def Let_def intro!: full_bind keeps_prod keeps_bind keeps_on_cons keeps_cons_upd)

lemma keeps_startRound [simp]: "keeps full_ok (startRound E now)"
proof (rule keepsI)
  fix s :: "'a fullnode"
  assume "full_ok s"
  then have "full_ok (snd (proposeBlock E now s))" by (rule full_keeps [OF keeps_propose])
  then show "full_ok (snd (startRound E now s))"
    by (cases "proposeBlock E now s") (auto simp: startRound_def Let_def cons_ok_upd split: go.split)
qed

lemma keeps_decideCommittee:
  assumes "sorts (SortKeys E)"
  shows "keeps cons_ok (decideCommittee E height)"
proof (rule keepsI)
  fix cs
  assume cs: "cons_ok cs"
  let ?vs = "SortKeys E (lessKey E) (nextValidators cs)"
  have vs: "key_set.slice_ok ?vs" using cs keys_ok_sort [OF assms] by (simp add: cons_ok_def)
  have "length (?vs ! i) = PublicKeySize" if "i < length ?vs" for i
    using vs nth_mem [OF that] by (auto simp: key_set.slice_ok_def)
  then show "cons_ok (snd (decideCommittee E height cs))"
    using cs vs by (auto simp: decideCommittee_def Let_def cons_ok_def go_index_def st_bind_def split: go.split)
qed

lemma keeps_gossip [simp]: "keeps full_ok (broadcastGossip E)"
proof (rule keepsI)
  fix s :: "'a fullnode"
  assume "full_ok s"
  then show "full_ok (snd (broadcastGossip E s))"
    unfolding broadcastGossip_def Let_def by (intro full_keeps [OF keeps_on_cons]) (auto intro!: keeps_bind)
qed

lemma keeps_start [simp]: "keeps cons_ok (broadcastStartBlockProcessing E)"
  by (rule keepsI) (auto simp: broadcastStartBlockProcessing_def intro!: cons_bind)

lemma keeps_next_tick [simp]: "keeps full_ok next_tick"
  unfolding next_tick_def by (rule keeps_cons_upd) (rule cons_ok_upd(6))

lemma keeps_round [simp]:
  "keeps full_ok (\<lambda>s. if b s then startRound E now s else (Ok (), s))"
  by (rule keepsI) (auto intro!: full_keeps [OF keeps_startRound])

lemma keeps_decide_tick:
  assumes "sorts (SortKeys E)"
  shows "keeps full_ok (decide_tick E now)"
proof (rule keepsI)
  fix s :: "'a fullnode"
  assume "full_ok s"
  moreover have "keeps full_ok (\<lambda>s. if a s then
      st_bind (on_cons (broadcastStartBlockProcessing E)) (\<lambda>_ s. if b s then startRound E now s else (Ok (), s)) s else (Ok (), s))" for a b
    by (rule keepsI) (auto intro!: full_bind keeps_on_cons)
  ultimately show "full_ok (snd (decide_tick E now s))"
    unfolding decide_tick_def using keeps_decideCommittee [OF assms]
    by (intro full_bind keeps_bind keeps_on_cons) (auto intro!: keepsI cons_ok_upd)
qed

lemma keeps_loop:
  assumes "sorts (SortKeys E)"
  shows "keeps full_ok (loop_tick E now)"
  by (rule keepsI) (auto simp: loop_tick_def Let_def intro!: full_bind keeps_decide_tick assms full_keeps [OF keeps_next_tick])

lemma keeps_handleVote [simp]: "keeps full_ok (handleVote E raw)"
proof (rule keepsI)
  fix s :: "'a fullnode"
  have "keeps full_ok (\<lambda>s. if b then (Ok (), s) else if c s then (Ok (), s) else aggregate E ok s)" for b c ok
    by (rule keepsI) (auto intro!: full_keeps [OF keeps_aggregate])
  moreover assume "full_ok s"
  ultimately show "full_ok (snd (handleVote E raw s))"
    by (auto simp: handleVote_def intro!: full_bind keeps_bind)
qed

lemma keeps_handleFinalize [simp]: "keeps full_ok (handleFinalize E raw)"
proof -
  have "keeps full_ok (\<lambda>s. if b then (Ok (), s) else if c s then on_cons (st_upd (addToBadPeer k)) s else finalize ok s)" for b c k ok
    using cons_ok_upd(2)
    by (intro keepsI) (auto intro!: full_keeps [OF keeps_finalize] full_keeps [OF keeps_cons_upd])
  then show ?thesis by (auto simp: handleFinalize_def intro!: keeps_bind)
qed

lemma keeps_start_handler [simp]: "keeps cons_ok (handleStartBlockProcessing E raw)"
proof -
  have "keeps cons_ok (\<lambda>cs. if b then (Ok (), cs) else if c cs then (Ok (), addToBadPeer k cs) else (Ok (), cs))" for b c k
    by (rule keepsI) (auto intro: cons_ok_upd)
  then show ?thesis by (auto simp: handleStartBlockProcessing_def intro!: keeps_bind)
qed

lemma keeps_verified [simp]:
  "keeps full_ok (\<lambda>s. case on_node m s of
       (Ok (ok, ch, blk), s) \<Rightarrow>
         st_bind (on_cons (st_upd (\<lambda>cs. cs\<lparr>accountCh := ch, waitingFianlity := True\<rparr>))) (\<lambda>_.
           if \<not> ok then cs_vote E ok
           else st_bind (on_cons (st_upd (\<lambda>cs. cs\<lparr>blockCh := Some blk\<rparr>))) (\<lambda>_. cs_vote E ok)) s
     | (Err e, s) \<Rightarrow> (Err e, s\<lparr>fn_cons := (fn_cons s)\<lparr>accountCh := ch0\<rparr>\<rparr>)
     | (Panic p, s) \<Rightarrow> (Panic p, s) | (Blocked, s) \<Rightarrow> (Blocked, s))"
  by (rule keepsI) (auto simp: on_node_def intro!: full_bind keeps_if keeps_bind keeps_cons_upd split: prod.split go.split)

lemma keeps_handlePropose [simp]: "keeps full_ok (handleProposeBlock E raw)"
proof -
  have k: "keeps full_ok (\<lambda>s. if b then (Ok (), s) else if c s then on_cons (st_upd (addToBadPeer k)) s else f s s)"
    if "\<And>t. keeps full_ok (f t)" for b c k and f :: "'a fullnode \<Rightarrow> ('a fullnode, unit) comp"
    using cons_ok_upd(2) by (intro keepsI) (auto intro!: full_keeps [OF keeps_cons_upd] full_keeps [OF that])
  show ?thesis unfolding handleProposeBlock_def
    unfolding Let_def by (intro keeps_bind keeps_out) (rule k, rule keeps_verified)
qed

lemma keeps_handleGossip [simp]: "keeps full_ok (handleGossip E raw)"
proof (rule keepsI)
  fix s :: "'a fullnode"
  have status: "cons_ok (cs\<lparr>peersStatus := AList.update k v (peersStatus cs)\<rparr>)" if "cons_ok cs" for cs k v
    using that by (simp add: cons_ok_def distinct_update)
  have "keeps full_ok (\<lambda>s. let bc = blockchain (fn_node s) in
     if b then (Ok (), s) else if b' then (Ok (), s) else if c s then (Ok (), s)
     else if d bc then on_node m s else if e bc then on_cons (st_upd (removeFromNextValidators pk)) s
     else on_cons (st_upd (\<lambda>cs. addToNextValidators pk (cs\<lparr>peersStatus := AList.update k v (peersStatus cs)\<rparr>))) s)"
    for b b' c d e m pk k v
    using cons_ok_upd(1,3) status
    by (intro keepsI) (auto simp: Let_def intro!: full_keeps [OF keeps_on_node] full_keeps [OF keeps_cons_upd])
  moreover assume "full_ok s"
  ultimately show "full_ok (snd (handleGossip E raw s))"
    by (auto simp: handleGossip_def intro!: full_bind keeps_bind)
qed

lemma keeps_message [simp]: "keeps full_ok (handleConsensusMessage E raw)"
  unfolding handleConsensusMessage_def by (intro keeps_bind keeps_if keeps_out keeps_on_cons) simp_all

lemma keeps_lift: "(\<And>ps. p2p_step\<^sup>*\<^sup>* ps (snd (m ps))) \<Longrightarrow> keeps full_ok (on_cons (cons_p2p m))"
  by (intro keeps_on_cons keeps_p2p)

lemma keeps_cons_inbound [simp]: "keeps full_ok (cons_inbound E raw)"
  unfolding handleInbound_def
  by (intro keeps_bind keeps_if keeps_out keeps_lift) (auto intro: p2p_step.join p2p_step.greeted)

lemma keeps_lost:
  "keeps full_ok (onFail (\<lambda>m. on_cons (cons_p2p m)) (\<lambda>n s. s\<lparr>fn_cons := onPeerDisapear n (fn_cons s)\<rparr>) n)"
  unfolding onFail_def
proof (intro keeps_bind keeps_lift keepsI)
  fix s :: "'a fullnode"
  assume "full_ok s"
  then have "cons_ok ((fn_cons s)\<lparr>peersStatus := AList.delete (Ip4 n) (peersStatus (fn_cons s))\<rparr>)"
    by (simp add: cons_ok_def distinct_delete)
  then show "full_ok (snd (st_upd (\<lambda>s. s\<lparr>fn_cons := onPeerDisapear n (fn_cons s)\<rparr>) s))"
    by (simp add: onPeerDisapear_def cons_ok_reset)
qed (auto intro: p2p_step.failed)

lemma keeps_timeout: "keeps full_ok (timeout_fires ch)"
  unfolding timeout_fires_def by (intro keeps_bind keeps_cons_upd) (simp_all add: cons_ok_upd)

subsection \<open>Runs\<close>

lemma full_step_ok:
  assumes "sorts (SortKeys E)" "full_step E s s'" "full_ok s"
  shows "full_ok s'"
  using assms(2,3)
proof cases
  case (loop_turn now r)
  then show ?thesis using full_keeps [OF keeps_loop [OF assms(1), of now] assms(3)] by simp
next
  case (message raw r)
  then show ?thesis using full_keeps [OF keeps_cons_inbound [of E raw] assms(3)] by simp
next
  case (strike ch r)
  then show ?thesis using full_keeps [OF keeps_timeout [of ch] assms(3)] by simp
next
  case (lost n r)
  then show ?thesis using full_keeps [OF keeps_lost [of n] assms(3)] by simp
qed (use assms(3) in simp_all)

lemma Run_ok: "cons_ok cs \<Longrightarrow> cons_ok (snd (ConsensusService_Run cs))"
proof -
  have "keeps cons_ok (cons_p2p (st_upd (localDiscovery 5000 5002)))" by (rule keeps_p2p) (auto intro: p2p_step.discover)
  moreover have "keeps cons_ok (st_upd (\<lambda>cs. cs\<lparr>numVoted := 0, numVotedOk := 0, waitingFianlity := False, cs_tick := 0\<rparr>))"
    by (rule keepsI) (simp add: cons_ok_def)
  ultimately show "cons_ok cs \<Longrightarrow> cons_ok (snd (ConsensusService_Run cs))"
    unfolding ConsensusService_Run_def by (intro cons_bind) simp_all
qed

end
