(* ===== verification/Committee.thy ===== *)
theory Committee
  imports ConsensusInv
begin

text \<open>
  The committee that a node decides on (\<open>decideCommittee\<close>): it depends only on the set of validators and
  the height, and the roles go round.
\<close>

lemma distinct_digests:
  assumes "hash_ok L" "inj_on (Sum256 L) K"
  shows "inj_on (\<lambda>k. be_value (Sum256 L k)) K"
  using assms be_value_inj by (fastforce simp: inj_on_def hash_ok_def)

text \<open>One node: who gets which role.\<close>

lemma decideCommittee_eval:
  assumes "sorts (SortKeys E)" "nextValidators cs \<noteq> []" "length (nextValidators cs) < 2 ^ 64"
  shows "let vs = SortKeys E (lessKey E) (nextValidators cs); n = length vs in
    decideCommittee E h cs = (Ok (), cs\<lparr>nextValidators := vs, nextBlockProducer := Some (vs ! (unat h mod n)),
      nextAggregator := Some (vs ! (Suc (unat h mod n) mod n))\<rparr>)"
proof -
  let ?vs = "SortKeys E (lessKey E) (nextValidators cs)" and ?n = "length (nextValidators cs)"
  let ?w = "word_of_nat ?n :: uint64" and ?i = "h mod word_of_nat (length (nextValidators cs))"
  have len: "length ?vs = ?n" using sorted_keys(1) [OF assms(1)] mset_eq_length by blast
  have n: "unat ?w = ?n" "0 < ?n" using assms(2,3) by (simp_all add: unat_of_nat take_bit_nat_eq_self_iff)
  have i: "unat ?i = unat h mod ?n" by (simp add: unat_mod n)
  have "unat ?i < ?n" using n(2) i by simp
  with assms(3) have "Suc (unat ?i) < 2 ^ 64" by simp
  then have "unat (?i + 1) = Suc (unat ?i)" by (simp add: unat_word_ariths(1))
  then have a: "unat ((?i + 1) mod ?w) = Suc (unat h mod ?n) mod ?n" by (simp add: unat_mod n i)
  have "?w \<noteq> 0" using n by (metis unat_0 less_numeral_extra(3))
  then show ?thesis using len n(2) i a by (simp add: decideCommittee_def Let_def go_index_def st_bind_Ok)
qed

lemma sorted_keys_unique:
  assumes "sorts (SortKeys E1)" "sorts (SortKeys E2)" "Sum256 E1 = Sum256 E2" "hash_ok E1"
    "distinct xs" "distinct ys" "set xs = set ys" "inj_on (Sum256 E1) (set xs)"
  shows "SortKeys E1 (lessKey E1) xs = SortKeys E2 (lessKey E2) ys"
proof (rule map_sorted_distinct_set_unique [where f = "\<lambda>k. be_value (Sum256 E1 k)"])
  let ?xs = "SortKeys E1 (lessKey E1) xs" and ?ys = "SortKeys E2 (lessKey E2) ys"
  have m: "mset ?xs = mset xs" "mset ?ys = mset ys" using sorted_keys(1) assms(1,2) by blast+
  then have s: "set ?xs = set xs" "set ?ys = set xs" "distinct ?xs" "distinct ?ys"
    using assms(5-7) by (metis set_mset_mset mset_eq_imp_distinct_iff)+
  note inj = distinct_digests [OF assms(4,8)]
  then show "inj_on (\<lambda>k. be_value (Sum256 E1 k)) (set ?xs \<union> set ?ys)" "set ?xs = set ?ys" using s by simp_all
  show "sorted (map (\<lambda>k. be_value (Sum256 E1 k)) ?xs)" "sorted (map (\<lambda>k. be_value (Sum256 E1 k)) ?ys)"
    using sorted_keys(2) [OF assms(1), of xs] sorted_keys(2) [OF assms(2), of ys] assms(3)
    by (simp_all add: sorted_map lessKey_def not_less)
  show "distinct (map (\<lambda>k. be_value (Sum256 E1 k)) ?xs)" "distinct (map (\<lambda>k. be_value (Sum256 E1 k)) ?ys)"
    using inj s by (simp_all add: distinct_map)
qed

text \<open>
  C7: Nodes that know the same validators, in whatever order they heard of them, and stand at the same height
  decide on the same committee, whatever sort their build uses: one block producer and one aggregator out
  of the validators, two different ones when there are two validators or more.
\<close>
theorem committee_agreed:
  assumes "sorts (SortKeys E1)" "sorts (SortKeys E2)" "Sum256 E1 = Sum256 E2" "hash_ok E1" "cons_ok cs1" "cons_ok cs2"
    "set (nextValidators cs1) = set (nextValidators cs2)" "nextValidators cs1 \<noteq> []" "length (nextValidators cs1) < 2 ^ 64"
    "inj_on (Sum256 E1) (set (nextValidators cs1))"
  shows "\<exists>p a cs1' cs2'. decideCommittee E1 h cs1 = (Ok (), cs1') \<and> decideCommittee E2 h cs2 = (Ok (), cs2')
     \<and> nextValidators cs1' = nextValidators cs2'
     \<and> nextBlockProducer cs1' = Some p \<and> nextBlockProducer cs2' = Some p \<and> nextAggregator cs1' = Some a \<and> nextAggregator cs2' = Some a
     \<and> {p, a} \<subseteq> set (nextValidators cs1) \<and> (p = a \<longleftrightarrow> length (nextValidators cs1) = 1)"
proof -
  have d: "distinct (nextValidators cs1)" "distinct (nextValidators cs2)"
    using assms(5,6) by (simp_all add: cons_ok_def key_set.slice_ok_def)
  let ?vs = "SortKeys E1 (lessKey E1) (nextValidators cs1)" and ?n = "length (nextValidators cs1)"
  have eq: "SortKeys E2 (lessKey E2) (nextValidators cs2) = ?vs"
    by (rule sorted_keys_unique [OF assms(1-4) d assms(7,10), symmetric])
  have m: "mset ?vs = mset (nextValidators cs1)" by (rule sorted_keys(1) [OF assms(1)])
  then have vs: "length ?vs = ?n" "set ?vs = set (nextValidators cs1)" "distinct ?vs"
    using d(1) by (metis mset_eq_length set_mset_mset mset_eq_imp_distinct_iff)+
  have n: "0 < ?n" "nextValidators cs2 \<noteq> []" "length (nextValidators cs2) < 2 ^ 64"
    using assms(7-9) distinct_card [OF d(1)] distinct_card [OF d(2)] by auto
  let ?i = "unat h mod ?n" and ?j = "Suc (unat h mod ?n) mod ?n"
  have ij: "?i < ?n" "?j < ?n" using n(1) by simp_all
  then have "?i = ?j \<longleftrightarrow> ?n = 1" by (cases "Suc ?i = ?n") auto
  then have "?vs ! ?i = ?vs ! ?j \<longleftrightarrow> ?n = 1" using ij vs by (simp add: nth_eq_iff_index_eq)
  moreover have "?vs ! ?i \<in> set (nextValidators cs1)" "?vs ! ?j \<in> set (nextValidators cs1)" using ij vs by (metis nth_mem)+
  ultimately show ?thesis
    using decideCommittee_eval [OF assms(1,8,9), of h] decideCommittee_eval [OF assms(2) n(2,3), of h] vs(1) by (simp add: Let_def eq)
qed

lemma residue_bij:
  fixes b n k :: nat
  assumes "k < n"
  shows "\<exists>!i. i < n \<and> (b + i) mod n = k"
proof -
  have *: "i = j" if "(b + i) mod n = (b + j) mod n" "i \<le> j" "j < n" for i j
  proof -
    have "n dvd (b + j) - (b + i)" using that(1) mod_eq_dvd_iff_nat [of "b + i" "b + j" n] that(2) by (metis nat_add_left_cancel_le)
    then show ?thesis using that(2,3) by (auto dest: dvd_imp_le)
  qed
  have inj: "inj_on (\<lambda>i. (b + i) mod n) {..<n}"
  proof (rule inj_onI)
    fix i j assume "i \<in> {..<n}" "j \<in> {..<n}" "(b + i) mod n = (b + j) mod n"
    then show "i = j" using * [of i j] * [of j i] by (cases "i \<le> j") auto
  qed
  moreover have "(\<lambda>i. (b + i) mod n) ` {..<n} \<subseteq> {..<n}" by (auto intro: mod_less_divisor)
  ultimately have "(\<lambda>i. (b + i) mod n) ` {..<n} = {..<n}" by (intro endo_inj_surj) auto
  with assms have "k \<in> (\<lambda>i. (b + i) mod n) ` {..<n}" by simp
  then obtain i where i: "i < n" "(b + i) mod n = k" by auto
  show ?thesis
  proof (rule ex1I [of _ i])
    fix j assume "j < n \<and> (b + j) mod n = k"
    then show "j = i" using inj_onD [OF inj, of j i] i by simp
  qed (use i in simp)
qed

text \<open>
  C22: The roles go round: of any \<open>n\<close> heights in a row, with the same \<open>n\<close> validators, every validator
  produces exactly one block.
\<close>
theorem roles_go_round:
  assumes "sorts (SortKeys E)" "cons_ok cs" "n = length (nextValidators cs)" "n < 2 ^ 64" "unat h + n < 2 ^ 64"
    "k \<in> set (nextValidators cs)"
  shows "\<exists>!i. i < n \<and> nextBlockProducer (snd (decideCommittee E (h + of_nat i) cs)) = Some k"
proof -
  let ?vs = "SortKeys E (lessKey E) (nextValidators cs)"
  have "distinct (nextValidators cs)" using assms(2) by (simp add: cons_ok_def key_set.slice_ok_def)
  then have vs: "length ?vs = n" "set ?vs = set (nextValidators cs)" "distinct ?vs"
    using sorted_keys(1) [OF assms(1), of "nextValidators cs"] assms(3) by (metis mset_eq_length set_mset_mset mset_eq_imp_distinct_iff)+
  then obtain q where q: "q < n" "?vs ! q = k" using assms(6) by (metis in_set_conv_nth)
  have "unat (h + of_nat i) = unat h + i" if "i < n" for i
    using that assms(4,5) by (simp add: unat_word_ariths(1) unat_of_nat take_bit_nat_eq_self_iff)
  moreover have "nextValidators cs \<noteq> []" using assms(6) by auto
  ultimately have "nextBlockProducer (snd (decideCommittee E (h + of_nat i) cs)) = Some k \<longleftrightarrow> (unat h + i) mod n = q" if "i < n" for i
    using that decideCommittee_eval [OF assms(1), of cs "h + of_nat i"] assms(3,4) vs q
    by (auto simp: Let_def nth_eq_iff_index_eq)
  with residue_bij [OF q(1), of "unat h"] show ?thesis by (metis (lifting))
qed

end
