(* ===== verification/Votes.thy ===== *)
theory Votes
  imports ConsensusInv
begin

text \<open>
  Votes and finality: how the aggregator counts, what a decision releases, and what a node does when no
  decision comes.
\<close>

subsection \<open>Messages on their way\<close>

definition consensus_data :: "('a \<Rightarrow> json) \<Rightarrow> ConsensuMsgKind \<Rightarrow> 'a \<Rightarrow> bytes" where
  "consensus_data enc kind m = PackPayload enc m [ConsensusMessage, kind]"

primrec inbound_all :: "('d, 'z) senv_scheme \<Rightarrow> bytes list \<Rightarrow> ('d fullnode, unit) comp" where
  "inbound_all E [] = st_out (Ok ())"
| "inbound_all E (raw # raws) = st_bind (cons_inbound E raw) (\<lambda>_. inbound_all E raws)"

lemma on_cons_eval [simp]: "m (fn_cons s) = (r, cs) \<Longrightarrow> on_cons m s = (r, s\<lparr>fn_cons := cs\<rparr>)"
  by (simp add: on_cons_def)

lemma on_node_eval [simp]: "m (fn_node s) = (r, n) \<Longrightarrow> on_node m s = (r, s\<lparr>fn_node := n\<rparr>)"
  by (simp add: on_node_def)

lemma cons_p2p_eval [simp]: "m (cs_p2p cs) = (r, ps) \<Longrightarrow> cons_p2p m cs = (r, cs\<lparr>cs_p2p := ps\<rparr>)"
  by (simp add: cons_p2p_def)

lemma Broadcast_all: "Broadcast d [] ps = ps\<lparr>sent := sent ps @ map (\<lambda>p. (p, d)) (peers ps)\<rparr>"
  by (simp add: Broadcast_sent copies_def concat_map_singleton)

lemma cons_send_eval [simp]:
  "cons_send enc kind m cs = (Ok (), cs\<lparr>cs_p2p := Broadcast (consensus_data enc kind m) [] (cs_p2p cs)\<rparr>)"
  by (simp add: cons_send_def consensus_data_def)

lemma consensus_delivered:
  assumes "length (consensus_data enc kind m) \<le> MaxPayloadSize"
  shows "cons_inbound E (consensus_data enc kind m) s = handleConsensusMessage E (consensus_data enc kind m) s"
  using assms by (simp add: handleInbound_def consensus_data_def PackPayload_def go_index_def message_kinds)

lemma consensus_handled:
  "handleConsensusMessage E (consensus_data enc GossipMessage m) = handleGossip E (Marshal enc m)"
  "handleConsensusMessage E (consensus_data enc StartBlockProcessingMessage m) = on_cons (handleStartBlockProcessing E (Marshal enc m))"
  "handleConsensusMessage E (consensus_data enc ProposeBlockMessage m) = handleProposeBlock E (Marshal enc m)"
  "handleConsensusMessage E (consensus_data enc VoteMessage m) = handleVote E (Marshal enc m)"
  "handleConsensusMessage E (consensus_data enc FinalizeMessage m) = handleFinalize E (Marshal enc m)"
  by (simp_all add: fun_eq_iff handleConsensusMessage_def consensus_data_def PackPayload_def go_index_def consensus_kinds)

subsection \<open>A decision\<close>

text \<open>What a decision releases, and the node afterwards.\<close>

definition released :: "bool \<Rightarrow> ConsensusService \<Rightarrow> job list" where
  "released ok cs = (case accountCh cs of None \<Rightarrow> [] | Some ks \<Rightarrow> [AccountJob ks ok])
     @ (case blockCh cs of None \<Rightarrow> [] | Some b \<Rightarrow> [BlockJob b ok])"

definition round_open :: "ConsensusService \<Rightarrow> bool" where
  "round_open cs \<longleftrightarrow> (case finalizeCh cs of None \<Rightarrow> False | Some ch \<Rightarrow> ch \<in> set (timers cs))"

definition finalized :: "bool \<Rightarrow> 'd fullnode \<Rightarrow> 'd fullnode" where
  "finalized ok s = s\<lparr>fn_cons := reset ((fn_cons s)\<lparr>timers := removeAll (the (finalizeCh (fn_cons s))) (timers (fn_cons s))\<rparr>),
     jobs := jobs s @ released ok (fn_cons s)\<rparr>"

lemma round_open_free [simp]:
  "round_open (cs\<lparr>cs_p2p := x\<rparr>) = round_open cs" "round_open (cs\<lparr>numVoted := v\<rparr>) = round_open cs"
  "round_open (cs\<lparr>numVotedOk := v\<rparr>) = round_open cs"
  by (simp_all add: round_open_def split: option.split)

lemma round_open_start [simp]: "round_open (startTimer cs)"
  by (simp add: round_open_def startTimer_def)

lemma finalize_eval: "finalize ok s = (if round_open (fn_cons s) then (Ok (), finalized ok s) else (Blocked, s))"
  by (simp add: finalize_def round_open_def finalized_def released_def Let_def split: option.split)

lemma reset_sel [simp]: "cs_p2p (reset cs) = cs_p2p cs" "waitingFianlity (reset cs) = False" "nodeWallet (reset cs) = nodeWallet cs"
  "nextValidators (reset cs) = []" "cs_tick (reset cs) = cs_tick cs" "numVoted (reset cs) = 0" "numVotedOk (reset cs) = 0"
  "nextBlockProducer (reset cs) = None" "nextAggregator (reset cs) = None" "accountCh (reset cs) = None" "blockCh (reset cs) = None"
  by (simp_all add: reset_def)

lemma finalized_sel [simp]: "jobs (finalized ok s) = jobs s @ released ok (fn_cons s)" "cs_p2p (fn_cons (finalized ok s)) = cs_p2p (fn_cons s)"
  "fn_node (finalized ok s) = fn_node s" "waitingFianlity (fn_cons (finalized ok s)) = False"
  by (simp_all add: finalized_def)

definition own_key :: "ConsensusService \<Rightarrow> slice" where
  "own_key cs = Wallet_PublicKey (nodeWallet cs)"

text \<open>A key pair signs every message of the service.\<close>

lemma signs:
  assumes "keypair_ok E (wa_keyPair w)"
  obtains sig where "Wallet_SignRaw E w (Some ConsensusMsgSigContent) = Ok sig" "length sig = 64"
    "VerifyConsensusSignature E (Some sig) (Wallet_PublicKey w) = Ok True"
  using assms by (force simp: keypair_ok_def wallet_defs ed25519_Sign_def ed25519_Verify_def VerifyConsensusSignature_def)

definition finalityMsg :: "'z lib_scheme \<Rightarrow> bool \<Rightarrow> 'd fullnode \<Rightarrow> FinalizeMsg" where
  "finalityMsg E ok s = \<lparr>fm_From = info (cs_p2p (fn_cons s)), fm_FromPublicKey = Wallet_PublicKey (nodeWallet (fn_cons s)),
     fm_Signature = Some (case Wallet_SignRaw E (nodeWallet (fn_cons s)) (Some ConsensusMsgSigContent) of Ok sig \<Rightarrow> sig | _ \<Rightarrow> []),
     fm_Height = Blockchain_NextHeight (blockchain (fn_node s)), fm_Ok = ok\<rparr>"

text \<open>The aggregator with an open round and a working key.\<close>

definition aggregating :: "'z lib_scheme \<Rightarrow> ConsensusService \<Rightarrow> bool" where
  "aggregating E cs \<longleftrightarrow> round_open cs \<and> keypair_ok E (wa_keyPair (nodeWallet cs)) \<and> nextAggregator cs = Wallet_PublicKey (nodeWallet cs)"

definition announced :: "'z lib_scheme \<Rightarrow> bool \<Rightarrow> 'd fullnode \<Rightarrow> 'd fullnode" where
  "announced E ok s = finalized ok (s\<lparr>fn_cons := (fn_cons s)\<lparr>cs_p2p :=
     Broadcast (consensus_data FinalizeMsg_to_json FinalizeMessage (finalityMsg E ok s)) [] (cs_p2p (fn_cons s))\<rparr>\<rparr>)"

lemma broadcastFinality_eval:
  assumes "aggregating E (fn_cons s)"
  shows "broadcastFinality E ok s = (Ok (), announced E ok s)"
proof -
  obtain sig where "Wallet_SignRaw E (nodeWallet (fn_cons s)) (Some ConsensusMsgSigContent) = Ok sig"
    using assms signs [of E "nodeWallet (fn_cons s)"] unfolding aggregating_def by blast
  with assms show ?thesis
    by (simp add: broadcastFinality_def aggregating_def Let_def finalize_eval announced_def finalityMsg_def bytes_Equal_def)
qed


subsection \<open>Counting\<close>

definition counted :: "bool \<Rightarrow> 'd fullnode \<Rightarrow> 'd fullnode" where
  "counted ok s = s\<lparr>fn_cons := (fn_cons s)\<lparr>numVoted := numVoted (fn_cons s) + 1,
     numVotedOk := (if ok then numVotedOk (fn_cons s) + 1 else numVotedOk (fn_cons s))\<rparr>\<rparr>"

text \<open>\<open>v\<close> votes are counted, \<open>y\<close> of them yes, and \<open>n\<close> validators take part; \<open>n - 1\<close> votes decide.\<close>

definition tally :: "ConsensusService \<Rightarrow> nat \<Rightarrow> nat \<Rightarrow> nat \<Rightarrow> bool" where
  "tally cs n v y \<longleftrightarrow> n = length (nextValidators cs) \<and> n \<le> 2 ^ 62 \<and> sint (numVoted cs) = int v \<and> sint (numVotedOk cs) = int y \<and> y \<le> v \<and> v < n - 1"

lemma sint_add_1: "sint x = int v \<Longrightarrow> v < 2 ^ 62 \<Longrightarrow> sint (x + 1) = int (Suc v)" for x :: int64
  by (simp add: sint_word_ariths signed_take_bit_int_eq_self)

lemma tally_counted: "tally (fn_cons s) n v y \<Longrightarrow> Suc v < n - 1 \<Longrightarrow> tally (fn_cons (counted ok s)) n (Suc v) (if ok then Suc y else y)"
  by (auto simp: tally_def counted_def sint_add_1)

lemma aggregating_counted [simp]: "aggregating E (fn_cons (counted ok s)) = aggregating E (fn_cons s)"
  by (simp add: aggregating_def counted_def)

lemma aggregate_eval:
  assumes "aggregating E (fn_cons s)" "tally (fn_cons s) n v y"
  shows "aggregate E ok s = (Ok (), if Suc v = n - 1 then announced E (n \<le> 2 * (if ok then Suc y else y)) (counted ok s) else counted ok s)"
proof -
  let ?s = "counted ok s"
  let ?y = "if ok then Suc y else y"
  have t: "n = length (nextValidators (fn_cons s))" "sint (numVoted (fn_cons ?s)) = int (Suc v)" "sint (numVotedOk (fn_cons ?s)) = int ?y"
    using assms(2) sint_add_1 [of "numVoted (fn_cons s)" v] sint_add_1 [of "numVotedOk (fn_cons s)" y] by (auto simp: tally_def counted_def)
  have c: "nextValidators (fn_cons ?s) = nextValidators (fn_cons s)" by (simp add: counted_def)
  have self: "bytes_Equal (nextAggregator (fn_cons s)) (Wallet_PublicKey (nodeWallet (fn_cons s)))"
    using assms(1) by (simp add: aggregating_def bytes_Equal_def)
  have maj: "int k > int (if n mod 2 \<noteq> 0 then n + 1 else n) div 2 - 1 \<longleftrightarrow> n \<le> 2 * k" for k
    by (cases "n mod 2 = 0"; simp; presburger)
  have "aggregate E ok s = (if sint (numVoted (fn_cons ?s)) = int n - 1
      then broadcastFinality E (sint (numVotedOk (fn_cons ?s)) > int (if n mod 2 \<noteq> 0 then n + 1 else n) div 2 - 1) ?s else (Ok (), ?s))"
    using self t(1) by (simp add: aggregate_def Let_def counted_def)
  also have "\<dots> = (if Suc v = n - 1 then broadcastFinality E (n \<le> 2 * ?y) ?s else (Ok (), ?s))"
    unfolding t(2,3) maj using assms(2) by (auto simp: tally_def)
  finally show ?thesis using broadcastFinality_eval [of E ?s] assms(1) by simp
qed


subsection \<open>Votes on their way\<close>

text \<open>A vote that gets through: signed, from a validator, small enough for a payload.\<close>

definition vote_data :: "VoteMsg \<Rightarrow> bytes" where
  "vote_data m = consensus_data VoteMsg_to_json VoteMessage m"

definition vote_valid :: "'z lib_scheme \<Rightarrow> ConsensusService \<Rightarrow> VoteMsg \<Rightarrow> bool" where
  "vote_valid E cs m \<longleftrightarrow> VoteMsg_Verify E m = Ok True \<and> good_str (Ip4 (vo_From m)) \<and> bytes_of (vo_FromPublicKey m) \<in> set (nextValidators cs)
     \<and> length (vote_data m) \<le> MaxPayloadSize"

lemma vote_counts:
  assumes "aggregating E (fn_cons s)" "vote_valid E (fn_cons s) m"
  shows "cons_inbound E (vote_data m) s = aggregate E (vo_Ok m) s"
proof -
  have "cons_inbound E (vote_data m) s = handleVote E (Marshal VoteMsg_to_json m) s"
    using assms(2) consensus_delivered [of VoteMsg_to_json VoteMessage m E s] by (simp add: vote_valid_def vote_data_def consensus_handled)
  moreover have "list_ex (\<lambda>pk. bytes_Equal (Some pk) (vo_FromPublicKey m)) (nextValidators (fn_cons s))"
    using assms(2) by (simp add: vote_valid_def list_ex_iff bytes_Equal_def)
  ultimately show ?thesis
    using assms by (simp add: handleVote_def vote_valid_def aggregating_def bytes_Equal_def consensus_roundtrip)
qed

lemma vote_valid_counted [simp]: "vote_valid E (fn_cons (counted ok s)) m = vote_valid E (fn_cons s) m"
  by (simp add: vote_valid_def counted_def)

text \<open>The node after the votes \<open>bs\<close>, the last of which decides.\<close>

lemma votes_counted:
  assumes "aggregating E (fn_cons s)" "tally (fn_cons s) n v y" "\<forall>m\<in>set ms. vote_valid E (fn_cons s) m" "v + length ms = n - 1" "ms \<noteq> []"
  shows "inbound_all E (map vote_data ms) s
    = (Ok (), announced E (n \<le> 2 * (y + length (filter vo_Ok ms))) (fold (\<lambda>m. counted (vo_Ok m)) ms s))"
  using assms
proof (induction ms arbitrary: s v y)
  case (Cons m ms)
  have "cons_inbound E (vote_data m) s = aggregate E (vo_Ok m) s" by (rule vote_counts) (use Cons.prems(1,3) in auto)
  then have c: "cons_inbound E (vote_data m) s
      = (Ok (), if Suc v = n - 1 then announced E (n \<le> 2 * (if vo_Ok m then Suc y else y)) (counted (vo_Ok m) s) else counted (vo_Ok m) s)"
    using aggregate_eval [OF Cons.prems(1,2)] by simp
  show ?case
  proof (cases "ms = []")
    case False
    with Cons.prems(4) have "Suc v < n - 1" by (cases ms) simp_all
    then show ?thesis
      using c False Cons.IH [OF _ tally_counted [OF Cons.prems(2), of "vo_Ok m"]] Cons.prems by (auto simp: st_bind_Ok)
  qed (use c Cons.prems(4) in auto)
qed simp

lemma counted_sel [simp]:
  "jobs (fold (\<lambda>m. counted (vo_Ok m)) ms s) = jobs s" "fn_node (fold (\<lambda>m. counted (vo_Ok m)) ms s) = fn_node s"
  "accountCh (fn_cons (fold (\<lambda>m. counted (vo_Ok m)) ms s)) = accountCh (fn_cons s)"
  "blockCh (fn_cons (fold (\<lambda>m. counted (vo_Ok m)) ms s)) = blockCh (fn_cons s)"
  "cs_p2p (fn_cons (fold (\<lambda>m. counted (vo_Ok m)) ms s)) = cs_p2p (fn_cons s)"
  "nodeWallet (fn_cons (fold (\<lambda>m. counted (vo_Ok m)) ms s)) = nodeWallet (fn_cons s)"
  "badPeers (fn_cons (fold (\<lambda>m. counted (vo_Ok m)) ms s)) = badPeers (fn_cons s)"
  "peersStatus (fn_cons (fold (\<lambda>m. counted (vo_Ok m)) ms s)) = peersStatus (fn_cons s)"
  "cs_tick (fn_cons (fold (\<lambda>m. counted (vo_Ok m)) ms s)) = cs_tick (fn_cons s)"
  by (induction ms arbitrary: s) (simp_all add: counted_def)

lemma announced_sel:
  "jobs (announced E ok s) = jobs s @ released ok (fn_cons s)" "fn_node (announced E ok s) = fn_node s"
  "waitingFianlity (fn_cons (announced E ok s)) = False"
  "sent (cs_p2p (fn_cons (announced E ok s)))
     = sent (cs_p2p (fn_cons s)) @ map (\<lambda>p. (p, consensus_data FinalizeMsg_to_json FinalizeMessage (finalityMsg E ok s))) (peers (cs_p2p (fn_cons s)))"
  by (simp_all add: announced_def Broadcast_all released_def)


text \<open>
  C9: The aggregator decides by majority. With \<open>n\<close> validators it waits for \<open>n - 1\<close> votes, its own among
  them and the producer's not; when it has counted \<open>v\<close> of them, \<open>y\<close> of them yes, and the missing ones
  arrive, then with the last one it announces to every peer, and passes to the goroutines that wait with
  the accounts and the block, that the block is final if \<open>2 * yes \<ge> n\<close> (with the producer's own yes that is
  more than half), and that it is refused otherwise; the round is over. The votes need not be different ones:
  neither the sender nor the height of a vote is recorded, so one message may be counted again and again.
\<close>
theorem votes_decide:
  assumes "aggregating E (fn_cons s)" "tally (fn_cons s) n v y" "\<forall>m\<in>set ms. vote_valid E (fn_cons s) m" "v + length ms = n - 1" "ms \<noteq> []"
  shows "let ok = (n \<le> 2 * (y + length (filter vo_Ok ms))) in
     \<exists>s'. inbound_all E (map vote_data ms) s = (Ok (), s') \<and> jobs s' = jobs s @ released ok (fn_cons s) \<and> fn_node s' = fn_node s
       \<and> \<not> waitingFianlity (fn_cons s')
       \<and> sent (cs_p2p (fn_cons s')) = sent (cs_p2p (fn_cons s))
          @ map (\<lambda>p. (p, consensus_data FinalizeMsg_to_json FinalizeMessage (finalityMsg E ok s))) (peers (cs_p2p (fn_cons s)))"
  using votes_counted [OF assms] by (simp add: announced_sel Let_def released_def finalityMsg_def)

subsection \<open>No decision\<close>

definition stuck :: "'d fullnode \<Rightarrow> bool" where
  "stuck s \<longleftrightarrow> waitingFianlity (fn_cons s) \<and> finalizeCh (fn_cons s) \<noteq> None \<and> \<not> round_open (fn_cons s)"

lemma stuck_idle:
  assumes "stuck s"
  shows "finalize ok s = (Blocked, s)" "loop_tick E now s = (Ok (), s)" "handleGossip L raw s = (Ok (), s)"
  using assms by (simp_all add: stuck_def finalize_eval loop_tick_def Let_def handleGossip_def)

lemma timed_out:
  assumes "finalizeCh (fn_cons s) = Some ch" "waitingFianlity (fn_cons s)"
  shows "\<exists>s'. timeout_fires ch s = (Blocked, s') \<and> jobs s' = jobs s \<and> fn_node s' = fn_node s \<and> stuck s'"
proof -
  let ?s = "s\<lparr>fn_cons := (fn_cons s)\<lparr>timers := removeAll ch (timers (fn_cons s))\<rparr>\<rparr>"
  have st: "stuck ?s" using assms by (simp add: stuck_def round_open_def)
  with stuck_idle(1) [OF st, of False] show ?thesis by (intro exI [of _ ?s]) (simp add: timeout_fires_def)
qed

text \<open>
  C21: A timeout does not end a round. The goroutine that rejects the block sends on the channel that
  only itself would have read, and waits for ever: nothing is released, every later decision of the
  aggregator blocks its handler in the same way, and the node stays waiting: its ticks do nothing, and it
  ignores all gossip.
\<close>
theorem timeout_never_ends_round:
  assumes "finalizeCh (fn_cons s) = Some ch" "waitingFianlity (fn_cons s)"
  shows "\<exists>s'. timeout_fires ch s = (Blocked, s') \<and> jobs s' = jobs s \<and> fn_node s' = fn_node s \<and> waitingFianlity (fn_cons s')
     \<and> (\<forall>ok. finalize ok s' = (Blocked, s')) \<and> (\<forall>E now. loop_tick E now s' = (Ok (), s')) \<and> (\<forall>E raw. handleGossip E raw s' = (Ok (), s'))"
proof -
  obtain s' where s': "timeout_fires ch s = (Blocked, s')" "jobs s' = jobs s" "fn_node s' = fn_node s" "stuck s'"
    using timed_out [OF assms] by blast
  then show ?thesis by (intro exI [of _ s']) (simp add: stuck_idle [OF s'(4)], simp add: stuck_def)
qed

text \<open>
  C24: A signature over consensus messages covers a constant text, so it can be moved from any message of
  a node to another: from one gossip message of the aggregator anybody makes a finality message that the
  node accepts, with the decision he likes.
\<close>
theorem finality_can_be_forged:
  assumes "GossipMsg_Verify E g = Ok True" "gm_FromPublicKey g = nextAggregator (fn_cons s)" "good_str (Ip4 (gm_From g))" "round_open (fn_cons s)"
  shows "handleConsensusMessage E (consensus_data FinalizeMsg_to_json FinalizeMessage
      \<lparr>fm_From = gm_From g, fm_FromPublicKey = gm_FromPublicKey g, fm_Signature = gm_Signature g, fm_Height = h, fm_Ok = ok\<rparr>) s
    = (Ok (), finalized ok s)"
proof -
  let ?m = "\<lparr>fm_From = gm_From g, fm_FromPublicKey = gm_FromPublicKey g, fm_Signature = gm_Signature g, fm_Height = h, fm_Ok = ok\<rparr>"
  have "FinalizeMsg_Verify E ?m = Ok True"
    using assms(1) by (cases "gm_FromPublicKey g")
      (auto simp: GossipMsg_Verify_def FinalizeMsg_Verify_def verifySender_def go_and_def PublicKeySize_def split: if_splits go.splits)
  then show ?thesis
    using consensus_roundtrip(5) [of ?m] assms(2-4) by (simp add: consensus_handled handleFinalize_def st_bind_Ok bytes_Equal_def finalize_eval)
qed

text \<open>
  A message whose public key is not 32 bytes long stops the node: the signature is checked, with a
  function that panics, before the length of the key. That holds for finality messages in any state.
\<close>
theorem short_key_panics:
  assumes "NodeInfo_Verify (fm_From m)" "slice_len (fm_FromPublicKey m) \<noteq> PublicKeySize" "good_str (Ip4 (fm_From m))"
    "length (consensus_data FinalizeMsg_to_json FinalizeMessage m) \<le> MaxPayloadSize"
  shows "\<exists>p. cons_inbound E (consensus_data FinalizeMsg_to_json FinalizeMessage m) s = (Panic p, s)"
  using assms consensus_roundtrip(5) [of m] consensus_delivered [OF assms(4), of E s]
  by (simp add: consensus_handled handleFinalize_def FinalizeMsg_Verify_def verifySender_def go_and_def VerifyConsensusSignature_def
      ed25519_Verify_def PublicKeySize_def st_bind_def)

end
