(* ===== verification/Sizes.thy ===== *)
theory Sizes
  imports Node
begin

text \<open>
  How long the encodings are, and what follows from the limit of 2048 bytes on a payload
  (\<open>common.MaxPayloadSize\<close>, checked in \<open>P2pService.handleInbound\<close>): which blocks can travel between nodes.
\<close>

definition bytes_size :: "nat \<Rightarrow> nat" where
  "bytes_size n = 4 * ((n + 2) div 3) + 2"

lemma length_enc_bytes: "length (print_json (enc_bytes (Some b))) = bytes_size (length b)"
  by (simp add: enc_bytes_def bytes_size_def length_b64 escape_b64)

lemma length_enc_uint: "length (print_json (enc_uint n)) \<ge> 1" "length (print_json (enc_uint n)) \<le> 20" for n :: uint64
proof -
  have "unat n < 2 ^ LENGTH(64)" by (rule unsigned_less)
  then show "length (print_json (enc_uint n)) \<le> 20"
    using length_dec_digits [of "unat n" 19] by (simp add: enc_uint_def)
  show "length (print_json (enc_uint n)) \<ge> 1"
    using dec_digits_nonempty [of "unat n"] by (simp add: enc_uint_def Suc_le_eq)
qed

lemma length_enc_int64: "length (print_json (enc_int64 n)) \<ge> 1" "length (print_json (enc_int64 n)) \<le> 21"
proof -
  have "nat (- sint n) < 10 ^ Suc 19" "nat (sint n) < 10 ^ Suc 19" using sint_range [of n] by simp_all
  then show "length (print_json (enc_int64 n)) \<le> 21"
    using length_dec_digits [of "nat (- sint n)" 19] length_dec_digits [of "nat (sint n)" 19]
    by (simp add: enc_int64_def)
  show "length (print_json (enc_int64 n)) \<ge> 1"
    using dec_digits_nonempty by (simp add: enc_int64_def Suc_le_eq)
qed

lemma size_32: "slice_len s = 32 \<Longrightarrow> length (print_json (enc_bytes s)) = 46"
  and size_64: "slice_len s = 64 \<Longrightarrow> length (print_json (enc_bytes s)) = 90"
  by (cases s; simp add: length_enc_bytes bytes_size_def del: print_json.simps)+

text \<open>A signed transaction with data \<open>d\<close>.\<close>

definition sized_tx :: "bytes \<Rightarrow> Transaction \<Rightarrow> bool" where
  "sized_tx d tx \<longleftrightarrow> slice_len (tx_Hash tx) = 32 \<and> td_Data (tx_InnerData tx) = Some d
     \<and> slice_len (td_PublicKey (tx_InnerData tx)) = 32 \<and> slice_len (td_Signature (tx_InnerData tx)) = 64"

lemma size_tx:
  assumes "sized_tx d tx"
  shows "277 + bytes_size (length d) \<le> length (print_json (Transaction_to_json tx))"
    and "length (print_json (Transaction_to_json tx)) \<le> 317 + bytes_size (length d)"
  using assms size_32 [of "tx_Hash tx"] size_32 [of "td_PublicKey (tx_InnerData tx)"] size_64 [of "td_Signature (tx_InnerData tx)"]
    length_enc_uint [of "td_Nonce (tx_InnerData tx)"] length_enc_int64 [of "td_Timestamp (tx_InnerData tx)"] length_enc_bytes [of d]
  unfolding sized_tx_def
  by (simp_all add: Transaction_to_json_def TransactionData_to_json_def plain_def)

lemma size_txs:
  assumes "\<forall>tx\<in>set txs. lo \<le> length (print_json (Transaction_to_json tx)) \<and> length (print_json (Transaction_to_json tx)) \<le> hi"
  shows "length txs * lo \<le> length (print_elems (map Transaction_to_json txs))"
    and "length (print_elems (map Transaction_to_json txs)) \<le> length txs * (hi + 1)"
  using assms
proof (induction txs)
  case (Cons tx txs)
  { case 1 then show ?case using Cons.IH(1) by (auto simp del: print_json.simps) }
  { case 2 then show ?case using Cons.IH(2) by (auto simp del: print_json.simps) }
qed simp_all

text \<open>A signed block with the transactions \<open>txs\<close>.\<close>

definition sized_block :: "Transaction list \<Rightarrow> Block \<Rightarrow> bool" where
  "sized_block txs b \<longleftrightarrow> slice_len (bi_Hash (bl_Info b)) = 32 \<and> slice_len (bi_PublicKey (bl_Info b)) = 32
     \<and> slice_len (bi_Signature (bl_Info b)) = 64 \<and> slice_len (bl_PreviousBlockHash b) = 32
     \<and> slice_len (bl_StateHash b) = 32 \<and> Transactions (bl_Bundle b) = Some txs"

lemma size_block:
  assumes "sized_block txs b"
  shows "400 + length (print_elems (map Transaction_to_json txs)) \<le> length (print_json (Block_to_json b))"
    and "length (print_json (Block_to_json b)) \<le> 450 + length (print_elems (map Transaction_to_json txs))"
  using assms size_32 [of "bi_Hash (bl_Info b)"] size_32 [of "bi_PublicKey (bl_Info b)"] size_64 [of "bi_Signature (bl_Info b)"]
    size_32 [of "bl_PreviousBlockHash b"] size_32 [of "bl_StateHash b"]
    length_enc_uint [of "bi_Height (bl_Info b)"] length_enc_int64 [of "bi_Timestamp (bl_Info b)"]
  unfolding sized_block_def
  by (simp_all add: Block_to_json_def BlockInfo_to_json_def TxBundle_to_json_def enc_list_def plain_def)

subsection \<open>Transfers\<close>

definition transfer_data :: "bytes \<Rightarrow> bool" where
  "transfer_data d \<longleftrightarrow> (\<exists>p. slice_len (tp_To p) = 32
     \<and> d = Marshal Call_to_json (NewCall Rpc_Transfer (Some (Marshal TransferParam_to_json p))))"

lemma size_transfer:
  assumes "transfer_data d"
  shows "110 \<le> length d" "length d \<le> 136"
proof -
  obtain p where p: "slice_len (tp_To p) = 32"
      "d = Marshal Call_to_json (NewCall Rpc_Transfer (Some (Marshal TransferParam_to_json p)))"
    using assms by (auto simp: transfer_data_def)
  have "64 \<le> length (Marshal TransferParam_to_json p)" "length (Marshal TransferParam_to_json p) \<le> 83"
    using size_32 [OF p(1)] length_enc_uint [of "tp_Amount p"]
    by (simp_all add: Marshal_def TransferParam_to_json_def plain_def)
  then have "90 \<le> bytes_size (length (Marshal TransferParam_to_json p))" "bytes_size (length (Marshal TransferParam_to_json p)) \<le> 114"
    using div_le_mono [of 66 "length (Marshal TransferParam_to_json p) + 2" 3] div_le_mono [of "length (Marshal TransferParam_to_json p) + 2" 85 3]
    by (simp_all add: bytes_size_def)
  moreover have "code Rpc_Transfer = 2" by (simp add: Rpc_Transfer_def)
  then have "length (dec_digits (code Rpc_Transfer)) = 1" by (simp add: dec_digits.simps)
  ultimately show "110 \<le> length d" "length d \<le> 136"
    unfolding p(2) using length_enc_bytes [of "Marshal TransferParam_to_json p"]
    by (simp_all add: Marshal_def Call_to_json_def NewCall_def enc_byte_def plain_def)
qed

lemma size_response:
  assumes "address_ok from"
  shows "length (print_json (Block_to_json b)) \<le> length (response from b)"
    "length (response from b) \<le> 70 + length (print_json (Block_to_json b))"
  using length_NodeInfo [OF assms]
  by (simp_all add: response_def PackPayload_def Marshal_def BlockResponseMsg_to_json_def plain_def)

lemma transfers_size:
  assumes "sized_block txs b" "\<forall>tx\<in>set txs. \<exists>d. sized_tx d tx \<and> transfer_data d"
  shows "400 + length txs * 427 \<le> length (print_json (Block_to_json b))" "length (print_json (Block_to_json b)) \<le> 450 + length txs * 504"
proof -
  have tx: "\<forall>tx\<in>set txs. 427 \<le> length (print_json (Transaction_to_json tx)) \<and> length (print_json (Transaction_to_json tx)) \<le> 503"
  proof
    fix tx assume "tx \<in> set txs"
    then obtain d where d: "sized_tx d tx" "transfer_data d" using assms(2) by blast
    have "112 div 3 \<le> (length d + 2) div 3" "(length d + 2) div 3 \<le> 138 div 3"
      using size_transfer [OF d(2)] by (intro div_le_mono, simp)+
    then have "150 \<le> bytes_size (length d)" "bytes_size (length d) \<le> 186" by (simp_all add: bytes_size_def)
    with size_tx [OF d(1)] show "427 \<le> length (print_json (Transaction_to_json tx)) \<and> length (print_json (Transaction_to_json tx)) \<le> 503"
      by linarith
  qed
  from size_txs [OF tx] size_block [OF assms(1)]
  show "400 + length txs * 427 \<le> length (print_json (Block_to_json b))" "length (print_json (Block_to_json b)) \<le> 450 + length txs * 504"
    by simp_all
qed

text \<open>
  Blocks with one or two transfers fit into a payload. A block with four transfers or more never
  reaches another node: the answer to a request for it is longer than \<open>MaxPayloadSize\<close>, and a node that
  receives it drops it without looking at it.
\<close>

theorem transfers_per_payload:
  assumes "sized_block txs b" "\<forall>tx\<in>set txs. \<exists>d. sized_tx d tx \<and> transfer_data d" "address_ok from"
  shows "(length txs \<le> 2 \<longrightarrow> length (response from b) \<le> MaxPayloadSize)
     \<and> (4 \<le> length txs \<longrightarrow> sync_inbound E (response from b) n = (Ok (), n))"
proof -
  note sizes = transfers_size [OF assms(1,2)] size_response [OF assms(3), of b]
  have "length (response from b) \<le> MaxPayloadSize" if "length txs \<le> 2"
    using sizes that by (simp add: MaxPayloadSize_def)
  moreover have "MaxPayloadSize < length (response from b)" if "4 \<le> length txs"
    using sizes that by (simp add: MaxPayloadSize_def)
  ultimately show ?thesis by (auto simp: handleInbound_def)
qed

end
