(* ===== verification/Rounds.thy ===== *)
theory Rounds
  imports Votes Sizes
begin

text \<open>
  A round from the proposal to the database: the jobs that a decision releases, the proposal at a
  validator, and a whole round of two validators.
\<close>

subsection \<open>Released goroutines\<close>

lemma RemoveTxs_idle:
  assumes "idle ms"
  shows "MemoryService_RemoveTxs E keys ms = (Ok (), ms\<lparr>mempool := Mempool_Remove keys (mempool ms)\<rparr>)"
  using assms by (simp add: MemoryService_RemoveTxs_def send_tx_def idle_def chanCap_def MemoryService_run_def MemoryService_handleTx_def)

text \<open>A node that has executed a block and waits for its finality.\<close>

definition executed :: "('d, 'z) senv_scheme \<Rightarrow> bytes list \<Rightarrow> Block \<Rightarrow> 'd node \<Rightarrow> bool" where
  "executed E ks blk n \<longleftrightarrow> node_ok E (n_world n) \<and> bucket_ok blocksBucket (w_db (n_world n)) \<and> block_storable blk \<and> bi_Height (bl_Info blk) \<noteq> 0
     \<and> list_all (known E (stateMem (w_mem (n_world n)))) ks \<and> length ks \<le> 11
     \<and> synced (b58_Encode E) (db_state E (w_db (n_world n))) ks (led (n_world n))"

definition accounts_written :: "('d, 'z) senv_scheme \<Rightarrow> bytes list \<Rightarrow> 'd world \<Rightarrow> 'd world \<Rightarrow> bool" where
  "accounts_written E ks w w' \<longleftrightarrow> led w' = led w
     \<and> db_state E (w_db w') = (\<lambda>k. if k \<in> set ks then Ok (the (led w (b58_Encode E k))) else db_state E (w_db w) k)"

lemma account_job:
  assumes "executed E ks blk n"
  obtains w where "run_job E now (AccountJob (map Some ks) True) n = (Ok (), n\<lparr>n_world := w\<rparr>)" "accounts_written E ks (n_world n) w"
    "node_ok E w" "\<forall>name. bucket_ok name (w_db w) = bucket_ok name (w_db (n_world n))" "mempool (w_mem w) = mempool (w_mem (n_world n))"
    "bucket_get E blocksBucket (w_db w) = bucket_get E blocksBucket (w_db (n_world n))" "synced (b58_Encode E) (db_state E (w_db w)) [] (led w)"
proof -
  have x: "node_ok E (n_world n)" "list_all (known E (stateMem (w_mem (n_world n)))) ks" "length ks \<le> 11"
    "synced (b58_Encode E) (db_state E (w_db (n_world n))) ks (led (n_world n))" using assms by (simp_all add: executed_def)
  obtain w where w: "PushAccounts E (map Some ks) (n_world n) = (Ok (), w)" "node_ok E w" "led w = led (n_world n)"
      "\<forall>k. db_state E (w_db w) k = (if k \<in> set ks then Ok (the (led (n_world n) (b58_Encode E k))) else db_state E (w_db (n_world n)) k)"
      "\<forall>name. bucket_ok name (w_db w) = bucket_ok name (w_db (n_world n))" "mempool (w_mem w) = mempool (w_mem (n_world n))"
      "bucket_get E blocksBucket (w_db w) = bucket_get E blocksBucket (w_db (n_world n))"
    using PushAccounts_node [OF x(1-3)] by blast
  moreover have "synced (b58_Encode E) (db_state E (w_db w)) [] (led w)"
    using w(1) finality_accepted [OF x] by (auto simp: Executer_waitForFinality_def)
  ultimately show thesis
    using that by (simp add: run_job_def accounts_written_def fun_eq_iff Executer_waitForFinality_def)
qed

lemma block_job:
  assumes "executed E ks blk n"
  obtains db where "run_job E now (BlockJob blk True) n = (Ok (), n\<lparr>n_world := \<lparr>w_mem = (w_mem (n_world n))\<lparr>mempool :=
       Mempool_Remove (TxBundle_ToKeys E (bl_Bundle blk)) (mempool (w_mem (n_world n)))\<rparr>, w_db = db\<rparr>,
       blockchain := Blockchain_Increment (bi_Hash (bl_Info blk)) (blockchain n)\<rparr>)"
    "db_state E db = db_state E (w_db (n_world n))" "\<forall>name. bucket_ok name db = bucket_ok name (w_db (n_world n))"
    "bucket_get E blocksBucket db = with_block blk (bucket_get E blocksBucket (w_db (n_world n)))"
proof -
  have x: "bolt_ok E" "bucket_ok blocksBucket (w_db (n_world n))" "block_storable blk" "bi_Height (bl_Info blk) \<noteq> 0" "idle (w_mem (n_world n))"
    using assms by (simp_all add: executed_def node_ok_def)
  obtain db where db: "StorageService_put E BlocksBucket (Some (BlockContent blk)) (w_db (n_world n)) = (Ok (), db)"
    "db_state E db = db_state E (w_db (n_world n))" "\<forall>name. bucket_ok name db = bucket_ok name (w_db (n_world n))"
    "bucket_get E blocksBucket db = with_block blk (bucket_get E blocksBucket (w_db (n_world n)))"
    by (rule put_block [OF x(1-3)])
  let ?w = "(n_world n)\<lparr>w_db := db\<rparr>"
  have "on_db (StorageService_Put E BlocksBucket (Some (BlockContent blk))) (n_world n) = (Ok None, ?w)"
    using db(1) by (simp add: on_db_def)
  moreover have "on_mem (MemoryService_RemoveTxs E keys) ?w
      = (Ok (), \<lparr>w_mem = (w_mem (n_world n))\<lparr>mempool := Mempool_Remove keys (mempool (w_mem (n_world n)))\<rparr>, w_db = db\<rparr>)" for keys
    by (simp add: on_mem_def RemoveTxs_idle [OF x(5)])
  ultimately show thesis
    using that db(2-4) x(4) by (simp add: run_job_def SyncService_waitForFinality_def Let_def OnBlockStored_def)
qed

text \<open>
  What a node holds after both jobs: the accounts; the block, found by its hash and its height, as the only
  change of the blocks bucket; and the next place in the chain. The transactions are gone.
\<close>

definition committed :: "('d, 'z) senv_scheme \<Rightarrow> bytes list \<Rightarrow> Block \<Rightarrow> 'd node \<Rightarrow> 'd node \<Rightarrow> bool" where
  "committed E ks blk n n' \<longleftrightarrow> node_ok E (n_world n') \<and> bucket_ok blocksBucket (w_db (n_world n')) \<and> accounts_written E ks (n_world n) (n_world n')
     \<and> synced (b58_Encode E) (db_state E (w_db (n_world n'))) [] (led (n_world n'))
     \<and> bucket_get E blocksBucket (w_db (n_world n')) = with_block blk (bucket_get E blocksBucket (w_db (n_world n))) \<and> holds_block E (w_db (n_world n')) blk
     \<and> blockchain n' = Blockchain_Increment (bi_Hash (bl_Info blk)) (blockchain n) \<and> faucet n' = faucet n \<and> n_sync n' = n_sync n
     \<and> mempool (w_mem (n_world n')) = Mempool_Remove (TxBundle_ToKeys E (bl_Bundle blk)) (mempool (w_mem (n_world n)))"

lemma committed_mirrors:
  assumes "mirrors E1 E2 (faucet p) (n_world p) (blockchain p) a" "committed E1 ks blk (p\<lparr>n_world := w1\<rparr>) np" "committed E2 ks blk (a\<lparr>n_world := w2\<rparr>) na"
    "led w2 = led w1" "w_db w1 = w_db (n_world p)" "w_db w2 = w_db (n_world a)" "b58_Encode E1 = b58_Encode E2"
  shows "mirrors E1 E2 (faucet np) (n_world np) (blockchain np) na"
proof -
  note c = assms(2,3) [unfolded committed_def accounts_written_def] and m = assms(1) [unfolded mirrors_def]
  have l: "led (n_world na) = led (n_world np)" using c assms(4) by simp
  have "db_state E1 (w_db (n_world np)) k = db_state E2 (w_db (n_world na)) k" if "length k = 32 \<or> generator (faucet p) = Some k" for k
  proof -
    have "db_state E1 (w_db (n_world p)) k = db_state E2 (w_db (n_world a)) k" using m that unfolding same_accounts_def by blast
    then show ?thesis using c assms(4-7) by simp
  qed
  moreover have "synced (b58_Encode E2) (db_state E2 (w_db (n_world na))) [] (led (n_world np))" using c(2) unfolding l [symmetric] by blast
  ultimately show ?thesis using c m l by (simp add: mirrors_def same_accounts_def)
qed

lemma account_then_block:
  assumes "executed E ks blk n"
  shows "\<exists>n1 n2. run_job E now (AccountJob (map Some ks) True) n = (Ok (), n1) \<and> run_job E now (BlockJob blk True) n1 = (Ok (), n2)
     \<and> committed E ks blk n n2"
proof -
  obtain w where w: "run_job E now (AccountJob (map Some ks) True) n = (Ok (), n\<lparr>n_world := w\<rparr>)" "accounts_written E ks (n_world n) w"
    "node_ok E w" "\<forall>name. bucket_ok name (w_db w) = bucket_ok name (w_db (n_world n))" "mempool (w_mem w) = mempool (w_mem (n_world n))"
    "bucket_get E blocksBucket (w_db w) = bucket_get E blocksBucket (w_db (n_world n))" "synced (b58_Encode E) (db_state E (w_db w)) [] (led w)"
    by (rule account_job [OF assms])
  have "executed E [] blk (n\<lparr>n_world := w\<rparr>)" using assms w by (simp add: executed_def)
  from block_job [OF this, of now] obtain db where
    "run_job E now (BlockJob blk True) (n\<lparr>n_world := w\<rparr>) = (Ok (), n\<lparr>n_world := \<lparr>w_mem = (w_mem w)\<lparr>mempool :=
       Mempool_Remove (TxBundle_ToKeys E (bl_Bundle blk)) (mempool (w_mem w))\<rparr>, w_db = db\<rparr>,
       blockchain := Blockchain_Increment (bi_Hash (bl_Info blk)) (blockchain n)\<rparr>)"
    "db_state E db = db_state E (w_db w)" "\<forall>name. bucket_ok name db = bucket_ok name (w_db w)"
    "bucket_get E blocksBucket db = with_block blk (bucket_get E blocksBucket (w_db w))" by auto
  moreover from this have "holds_block E db blk" using w(4) assms by (intro holds_new_block) (simp_all add: executed_def)
  ultimately show ?thesis using w assms by (simp add: committed_def accounts_written_def executed_def node_ok_def idle_def)
qed

lemma block_then_account:
  assumes "executed E ks blk n"
  shows "\<exists>n1 n2. run_job E now (BlockJob blk True) n = (Ok (), n1) \<and> run_job E now (AccountJob (map Some ks) True) n1 = (Ok (), n2)
     \<and> committed E ks blk n n2"
proof -
  obtain db where db: "run_job E now (BlockJob blk True) n = (Ok (), n\<lparr>n_world := \<lparr>w_mem = (w_mem (n_world n))\<lparr>mempool :=
       Mempool_Remove (TxBundle_ToKeys E (bl_Bundle blk)) (mempool (w_mem (n_world n)))\<rparr>, w_db = db\<rparr>,
       blockchain := Blockchain_Increment (bi_Hash (bl_Info blk)) (blockchain n)\<rparr>)"
    "db_state E db = db_state E (w_db (n_world n))" "\<forall>name. bucket_ok name db = bucket_ok name (w_db (n_world n))"
    "bucket_get E blocksBucket db = with_block blk (bucket_get E blocksBucket (w_db (n_world n)))"
    by (rule block_job [OF assms])
  let ?n = "n\<lparr>n_world := \<lparr>w_mem = (w_mem (n_world n))\<lparr>mempool :=
       Mempool_Remove (TxBundle_ToKeys E (bl_Bundle blk)) (mempool (w_mem (n_world n)))\<rparr>, w_db = db\<rparr>,
       blockchain := Blockchain_Increment (bi_Hash (bl_Info blk)) (blockchain n)\<rparr>"
  have "executed E ks blk ?n" using assms db by (simp add: executed_def node_ok_def idle_def)
  then obtain w where "run_job E now (AccountJob (map Some ks) True) ?n = (Ok (), ?n\<lparr>n_world := w\<rparr>)" "accounts_written E ks (n_world ?n) w"
    "node_ok E w" "\<forall>name. bucket_ok name (w_db w) = bucket_ok name (w_db (n_world ?n))" "mempool (w_mem w) = mempool (w_mem (n_world ?n))"
    "bucket_get E blocksBucket (w_db w) = bucket_get E blocksBucket (w_db (n_world ?n))" "synced (b58_Encode E) (db_state E (w_db w)) [] (led w)"
    by (rule account_job)
  moreover from this have "holds_block E (w_db w) blk" using db(3,4) assms by (intro holds_new_block) (simp_all add: executed_def)
  ultimately show ?thesis using db assms by (simp add: committed_def accounts_written_def executed_def cong: if_cong)
qed


subsection \<open>A round of two validators\<close>

definition proposalMsg :: "'z lib_scheme \<Rightarrow> Block \<Rightarrow> ConsensusService \<Rightarrow> ProposeBlockMsg" where
  "proposalMsg E blk cs = \<lparr>pb_From = info (cs_p2p cs), pb_FromPublicKey = Wallet_PublicKey (nodeWallet cs),
     pb_Signature = Some (case Wallet_SignRaw E (nodeWallet cs) (Some ConsensusMsgSigContent) of Ok sig \<Rightarrow> sig | _ \<Rightarrow> []), pb_Block = blk\<rparr>"

definition proposal :: "'z lib_scheme \<Rightarrow> Block \<Rightarrow> ConsensusService \<Rightarrow> bytes" where
  "proposal E blk cs = consensus_data ProposeBlockMsg_to_json ProposeBlockMessage (proposalMsg E blk cs)"

definition finality :: "'z lib_scheme \<Rightarrow> bool \<Rightarrow> 'd fullnode \<Rightarrow> bytes" where
  "finality E ok s = consensus_data FinalizeMsg_to_json FinalizeMessage (finalityMsg E ok s)"

text \<open>The producer after its proposal.\<close>

definition proposed :: "'z lib_scheme \<Rightarrow> Block \<Rightarrow> publicKeys \<Rightarrow> 'd world \<Rightarrow> 'd fullnode \<Rightarrow> 'd fullnode" where
  "proposed E blk ex w s = s\<lparr>fn_node := (fn_node s)\<lparr>n_world := w\<rparr>, fn_cons := startTimer ((fn_cons s)\<lparr>
     cs_p2p := Broadcast (proposal E blk (fn_cons s)) [] (cs_p2p (fn_cons s)),
     blockCh := Some blk, accountCh := Some ex, waitingFianlity := True\<rparr>)\<rparr>"

lemma startRound_eval:
  assumes "BlockProducer_NewBlock E (faucet (fn_node s)) (blockchain (fn_node s)) (nodeWallet (fn_cons s)) now (n_world (fn_node s)) = (Ok (blk, ex), w)"
    "keypair_ok E (wa_keyPair (nodeWallet (fn_cons s)))"
  shows "startRound E now s = (Ok (), proposed E blk ex w s)"
proof -
  obtain sig where "Wallet_SignRaw E (nodeWallet (fn_cons s)) (Some ConsensusMsgSigContent) = Ok sig" using signs [OF assms(2)] by blast
  then show ?thesis
    using assms(1) by (simp add: startRound_def proposeBlock_def Let_def proposed_def proposal_def proposalMsg_def)
qed

lemma sender_verified:
  assumes "address_ok from" "keypair_ok E (wa_keyPair w)" "ed_Verify E = ed_Verify E'"
  shows "verifySender E' from (Wallet_PublicKey w) (Some (case Wallet_SignRaw E w (Some ConsensusMsgSigContent) of Ok sig \<Rightarrow> sig | _ \<Rightarrow> [])) = Ok True"
proof -
  obtain sig where s: "Wallet_SignRaw E w (Some ConsensusMsgSigContent) = Ok sig" "length sig = 64"
      "VerifyConsensusSignature E (Some sig) (Wallet_PublicKey w) = Ok True"
    by (rule signs [OF assms(2)])
  have "VerifyConsensusSignature E' (Some sig) (Wallet_PublicKey w) = Ok True"
    using s(3) assms(3) by (simp add: VerifyConsensusSignature_def ed25519_Verify_def split: if_splits)
  moreover have "slice_len (Wallet_PublicKey w) = 32" using assms(2) by (simp add: keypair_ok_def Wallet_PublicKey_def)
  ultimately show ?thesis
    using s(1,2) address_verify [OF assms(1)] by (cases "Wallet_PublicKey w") (auto simp: verifySender_def go_and_def PublicKeySize_def)
qed


text \<open>A validator that receives the proposal of the producer it expects, verifies it and finds it right.\<close>

definition convinced :: "Block \<Rightarrow> publicKeys \<Rightarrow> 'd world \<Rightarrow> 'd fullnode \<Rightarrow> 'd fullnode" where
  "convinced blk ex w s = s\<lparr>fn_node := (fn_node s)\<lparr>n_world := w\<rparr>,
     fn_cons := (fn_cons s)\<lparr>accountCh := Some ex, waitingFianlity := True, blockCh := Some blk\<rparr>\<rparr>"

lemma proposal_convinces:
  assumes "address_ok (info (cs_p2p cp))" "keypair_ok E (wa_keyPair (nodeWallet cp))" "ed_Verify E = ed_Verify E'"
    "Block_Verify E' blk = Ok True" "length (proposal E blk cp) \<le> MaxPayloadSize"
    "nextBlockProducer (fn_cons s) = Wallet_PublicKey (nodeWallet cp)"
    "BlockProducer_Verify E' (faucet (fn_node s)) (blockchain (fn_node s)) blk (n_world (fn_node s)) = (Ok (True, Some ex, blk), w)"
  shows "cons_inbound E' (proposal E blk cp) s = cs_vote E' True (convinced blk ex w s)"
proof -
  let ?m = "proposalMsg E blk cp"
  have m: "ProposeBlockMsg_Unmarshal (Marshal ProposeBlockMsg_to_json ?m) = Ok ?m"
    using address_good [OF assms(1)] by (intro consensus_roundtrip(3)) (simp add: proposalMsg_def)
  have v: "ProposeBlockMsg_Verify E' ?m = Ok True"
    using sender_verified [OF assms(1-3)] assms(4) by (simp add: ProposeBlockMsg_Verify_def proposalMsg_def go_and_def)
  have "cons_inbound E' (proposal E blk cp) s = handleProposeBlock E' (Marshal ProposeBlockMsg_to_json ?m) s"
    using assms(5) by (simp add: proposal_def consensus_delivered consensus_handled)
  also have "\<dots> = cs_vote E' True (convinced blk ex w s)"
    using m v assms(6,7) by (simp add: handleProposeBlock_def st_bind_Ok proposalMsg_def bytes_Equal_def convinced_def)
  finally show ?thesis .
qed

text \<open>A validator that does not aggregate sends a yes; the aggregator of two validators decides at once.\<close>

definition voteMsg :: "'z lib_scheme \<Rightarrow> bool \<Rightarrow> 'd fullnode \<Rightarrow> VoteMsg" where
  "voteMsg E ok s = \<lparr>vo_From = info (cs_p2p (fn_cons s)), vo_FromPublicKey = Wallet_PublicKey (nodeWallet (fn_cons s)),
     vo_Signature = Some (case Wallet_SignRaw E (nodeWallet (fn_cons s)) (Some ConsensusMsgSigContent) of Ok sig \<Rightarrow> sig | _ \<Rightarrow> []),
     vo_Height = Blockchain_NextHeight (blockchain (fn_node s)), vo_Ok = ok\<rparr>"

lemma vote_sent:
  assumes "keypair_ok E (wa_keyPair (nodeWallet (fn_cons s)))" "bytes_of (nextAggregator (fn_cons s)) \<noteq> bytes_of (Wallet_PublicKey (nodeWallet (fn_cons s)))"
  shows "cs_vote E True s = (Ok (), s\<lparr>fn_cons := (startTimer (fn_cons s))\<lparr>cs_p2p := Broadcast (vote_data (voteMsg E True s)) [] (cs_p2p (fn_cons s))\<rparr>\<rparr>)"
proof -
  obtain sig where "Wallet_SignRaw E (nodeWallet (fn_cons s)) (Some ConsensusMsgSigContent) = Ok sig" using signs [OF assms(1)] by blast
  then show ?thesis
    using assms(2) by (simp add: cs_vote_def st_bind_Ok Let_def startTimer_def bytes_Equal_def voteMsg_def vote_data_def)
qed

lemma counted_one [simp]:
  "jobs (counted ok s) = jobs s" "fn_node (counted ok s) = fn_node s" "accountCh (fn_cons (counted ok s)) = accountCh (fn_cons s)"
  "blockCh (fn_cons (counted ok s)) = blockCh (fn_cons s)" "cs_p2p (fn_cons (counted ok s)) = cs_p2p (fn_cons s)"
  "nodeWallet (fn_cons (counted ok s)) = nodeWallet (fn_cons s)" "nextValidators (fn_cons (counted ok s)) = nextValidators (fn_cons s)"
  by (simp_all add: counted_def)

lemma startTimer_sel [simp]:
  "accountCh (startTimer cs) = accountCh cs" "blockCh (startTimer cs) = blockCh cs" "cs_p2p (startTimer cs) = cs_p2p cs"
  "nodeWallet (startTimer cs) = nodeWallet cs" "nextAggregator (startTimer cs) = nextAggregator cs" "nextValidators (startTimer cs) = nextValidators cs"
  "numVoted (startTimer cs) = numVoted cs" "numVotedOk (startTimer cs) = numVotedOk cs" "nextBlockProducer (startTimer cs) = nextBlockProducer cs"
  "waitingFianlity (startTimer cs) = waitingFianlity cs"
  by (simp_all add: startTimer_def)

text \<open>What a round leaves alone.\<close>

definition kept :: "ConsensusService \<Rightarrow> ConsensusService \<Rightarrow> bool" where
  "kept cs cs' \<longleftrightarrow> cs_p2p cs' = cs_p2p cs \<and> nodeWallet cs' = nodeWallet cs \<and> badPeers cs' = badPeers cs
     \<and> peersStatus cs' = peersStatus cs \<and> cs_tick cs' = cs_tick cs"

lemma aggregator_decides:
  assumes "keypair_ok E (wa_keyPair (nodeWallet (fn_cons s)))" "nextAggregator (fn_cons s) = Wallet_PublicKey (nodeWallet (fn_cons s))"
    "n = length (nextValidators (fn_cons s))" "2 \<le> n" "n \<le> 2 ^ 62" "numVoted (fn_cons s) = 0" "numVotedOk (fn_cons s) = 0"
    "Suc (Suc (length ms)) = n" "\<forall>m\<in>set ms. vote_valid E (fn_cons s) m \<and> vo_Ok m"
  shows "\<exists>s'. st_bind (cs_vote E True) (\<lambda>_. inbound_all E (map vote_data ms)) s = (Ok (), announced E True s')
     \<and> jobs s' = jobs s \<and> fn_node s' = fn_node s \<and> released True (fn_cons s') = released True (fn_cons s)
     \<and> finality E True s' = finality E True s \<and> kept (fn_cons s) (fn_cons s')"
proof -
  let ?t = "s\<lparr>fn_cons := startTimer (fn_cons s)\<rparr>"
  let ?s = "fold (\<lambda>m. counted (vo_Ok m)) ms (counted True ?t)"
  have ag: "aggregating E (fn_cons ?t)" using assms(1,2) by (simp add: aggregating_def)
  have ta: "tally (fn_cons ?t) n 0 0" using assms(3-7) by (simp add: tally_def)
  have "cs_vote E True s = aggregate E True ?t"
    using assms(2) by (simp add: cs_vote_def st_bind_Ok Let_def bytes_Equal_def)
  then have c: "cs_vote E True s = (Ok (), if 1 = n - 1 then announced E (n \<le> 2) (counted True ?t) else counted True ?t)"
    using aggregate_eval [OF ag ta] by simp
  have "st_bind (cs_vote E True) (\<lambda>_. inbound_all E (map vote_data ms)) s = (Ok (), announced E True ?s)"
  proof (cases "ms = []")
    case True
    then show ?thesis using c assms(8) by (auto simp: st_bind_Ok)
  next
    case False
    then have n: "Suc 0 < n - 1" using assms(8) by (cases ms) simp_all
    have "\<forall>m\<in>set ms. vote_valid E (fn_cons (counted True ?t)) m" using assms(9) by (simp add: vote_valid_def)
    moreover have "filter vo_Ok ms = ms" using assms(9) by simp
    ultimately have "inbound_all E (map vote_data ms) (counted True ?t) = (Ok (), announced E True ?s)"
      using votes_counted [of E "counted True ?t" n 1 1 ms] ag tally_counted [OF ta n, of True] assms(4,8) False by simp
    then show ?thesis using c n by (simp add: st_bind_Ok)
  qed
  then show ?thesis by (intro exI [of _ ?s]) (simp add: released_def finality_def finalityMsg_def kept_def counted_def startTimer_def)
qed

lemma finality_ends_round:
  assumes "address_ok (info (cs_p2p (fn_cons a)))" "keypair_ok E (wa_keyPair (nodeWallet (fn_cons a)))" "ed_Verify E = ed_Verify E'"
    "length (finality E ok a) \<le> MaxPayloadSize" "nextAggregator (fn_cons s) = Wallet_PublicKey (nodeWallet (fn_cons a))" "round_open (fn_cons s)"
  shows "cons_inbound E' (finality E ok a) s = (Ok (), finalized ok s)"
proof -
  let ?m = "finalityMsg E ok a"
  have m: "FinalizeMsg_Unmarshal (Marshal FinalizeMsg_to_json ?m) = Ok ?m"
    using address_good [OF assms(1)] by (intro consensus_roundtrip(5)) (simp add: finalityMsg_def)
  have v: "FinalizeMsg_Verify E' ?m = Ok True"
    using sender_verified [OF assms(1-3)] by (simp add: FinalizeMsg_Verify_def finalityMsg_def)
  have "cons_inbound E' (finality E ok a) s = handleFinalize E' (Marshal FinalizeMsg_to_json ?m) s"
    using assms(4) by (simp add: finality_def consensus_delivered consensus_handled)
  then show ?thesis
    using m v assms(5,6) by (simp add: handleFinalize_def st_bind_Ok finalityMsg_def bytes_Equal_def finalize_eval)
qed


text \<open>
  A producer that keeps its accounts in step with its database and makes a block of transactions with
  callers, small enough to be pushed and stored.
\<close>

definition honest_proposal ::
  "('d, 'z) senv_scheme \<Rightarrow> 'd fullnode \<Rightarrow> int64 \<Rightarrow> Block \<Rightarrow> publicKeys \<Rightarrow> 'd world \<Rightarrow> bool" where
  "honest_proposal E p t blk ex w1 \<longleftrightarrow> (let n = fn_node p; w = n_world n; cs = fn_cons p in
     env_ok E \<and> generator_ok (faucet n) \<and> node_ok E w \<and> bucket_ok blocksBucket (w_db w)
     \<and> synced (b58_Encode E) (db_state E (w_db w)) [] (led w)
     \<and> pool_callers_ok (mempool (w_mem w)) \<and> length (pool (mempool (w_mem w))) < 2 ^ 62
     \<and> BlockProducer_NewBlock E (faucet n) (blockchain n) (nodeWallet cs) t w = (Ok (blk, ex), w1)
     \<and> card (dom (led w1)) \<le> 2 ^ 62 \<and> length ex \<le> 11 \<and> block_storable blk \<and> 0 < Blockchain_NextHeight (blockchain n)
     \<and> keypair_ok E (wa_keyPair (nodeWallet cs)) \<and> address_ok (info (cs_p2p cs)))"

text \<open>A node in the same round, with the same accounts and place in the chain, that the proposal reaches.\<close>

definition in_round ::
  "('d, 'z) senv_scheme \<Rightarrow> ('e, 'y) senv_scheme \<Rightarrow> 'd fullnode \<Rightarrow> Block \<Rightarrow> 'e fullnode \<Rightarrow> bool" where
  "in_round E1 E2 p blk v \<longleftrightarrow> env_ok E2 \<and> same_lib E1 E2 \<and> ed_Verify E1 = ed_Verify E2
     \<and> mirrors E1 E2 (faucet (fn_node p)) (n_world (fn_node p)) (blockchain (fn_node p)) (fn_node v)
     \<and> Block_Verify E2 blk = Ok True \<and> length (proposal E1 blk (fn_cons p)) \<le> MaxPayloadSize
     \<and> nextBlockProducer (fn_cons v) = Wallet_PublicKey (nodeWallet (fn_cons p))
     \<and> keypair_ok E2 (wa_keyPair (nodeWallet (fn_cons v))) \<and> address_ok (info (cs_p2p (fn_cons v)))"

lemma proposal_executed:
  assumes "honest_proposal E1 p t blk ex w1" "in_round E1 E2 p blk v"
  obtains ks w2 where "ex = map Some ks" "executed E1 ks blk ((fn_node p)\<lparr>n_world := w1\<rparr>)" "w_db w1 = w_db (n_world (fn_node p))"
    "cons_inbound E2 (proposal E1 blk (fn_cons p)) v = cs_vote E2 True (convinced blk ex w2 v)"
    "executed E2 ks blk ((fn_node v)\<lparr>n_world := w2\<rparr>)" "led w2 = led w1" "w_db w2 = w_db (n_world (fn_node v))"
proof -
  let ?n = "fn_node p" and ?w = "n_world (fn_node p)"
  have p: "env_ok E1" "generator_ok (faucet ?n)" "node_ok E1 ?w" "bucket_ok blocksBucket (w_db ?w)"
      "synced (b58_Encode E1) (db_state E1 (w_db ?w)) [] (led ?w)" "pool_callers_ok (mempool (w_mem ?w))" "length (pool (mempool (w_mem ?w))) < 2 ^ 62"
      "BlockProducer_NewBlock E1 (faucet ?n) (blockchain ?n) (nodeWallet (fn_cons p)) t ?w = (Ok (blk, ex), w1)"
      "card (dom (led w1)) \<le> 2 ^ 62" "length ex \<le> 11" "block_storable blk" "0 < Blockchain_NextHeight (blockchain ?n)"
      "keypair_ok E1 (wa_keyPair (nodeWallet (fn_cons p)))" "address_ok (info (cs_p2p (fn_cons p)))"
    using assms(1) unfolding honest_proposal_def Let_def by blast+
  have v: "env_ok E2" "same_lib E1 E2" "ed_Verify E1 = ed_Verify E2" "mirrors E1 E2 (faucet ?n) ?w (blockchain ?n) (fn_node v)"
      "Block_Verify E2 blk = Ok True" "length (proposal E1 blk (fn_cons p)) \<le> MaxPayloadSize"
      "nextBlockProducer (fn_cons v) = Wallet_PublicKey (nodeWallet (fn_cons p))"
    using assms(2) unfolding in_round_def by blast+
  note m = v(4) [unfolded mirrors_def]
  have b58: "b58_ok E1" "b58_Encode E1 = b58_Encode E2" using p(1) v(2) unfolding env_ok_def same_lib_def by blast+
  obtain txs ts state txHash sig where b: "MemoryService_GetTxsForBlock E1 (w_mem ?w) = Ok txs"
      "ExecuteNow E1 (faucet ?n) (list_of txs) ?w = (Ok (ex, ts), w1)" "bi_Height (bl_Info blk) = Blockchain_NextHeight (blockchain ?n)"
    by (rule NewBlock_Ok [OF p(8)]) auto
  have "callers_ok (list_of txs)" using block_callers [OF p(1,7,6)] b(1) by (simp add: MemoryService_GetTxsForBlock_def)
  then obtain ks where ks: "ex = map Some ks" "node_ok E1 w1" "w_db w1 = w_db ?w"
      "synced (b58_Encode E1) (db_state E1 (w_db ?w)) ks (led w1)" "list_all (known E1 (stateMem (w_mem w1))) ks"
    by (rule ExecuteNow_synced [OF p(3) b58(1) _ p(2,5) b(2)])
  obtain w2 where w2: "BlockProducer_Verify E2 (faucet ?n) (blockchain ?n) blk (n_world (fn_node v)) = (Ok (True, Some ex, blk), w2)" "node_ok E2 w2"
      "led w2 = led w1" "w_db w2 = w_db (n_world (fn_node v))"
      "synced (b58_Encode E2) (db_state E2 (w_db (n_world (fn_node v)))) (map the ex) (led w2)"
    using NewBlock_accepted [OF p(1) v(1,2) p(3) _ _ _ p(6,7,8,9), of "n_world (fn_node v)"] m by auto
  have "map the ex = ks" by (simp add: ks(1) map_idI)
  have h: "bi_Height (bl_Info blk) \<noteq> 0" "length ks \<le> 11" using b(3) p(10,12) ks(1) by auto
  have "executed E1 ks blk (?n\<lparr>n_world := w1\<rparr>)" using ks p(4,11) h by (simp add: executed_def)
  moreover have "executed E2 ks blk ((fn_node v)\<lparr>n_world := w2\<rparr>)"
    using ks(5) w2 m p(11) h b58(2) \<open>map the ex = ks\<close> by (simp add: executed_def list_all_iff known_led)
  moreover have "cons_inbound E2 (proposal E1 blk (fn_cons p)) v = cs_vote E2 True (convinced blk ex w2 v)"
    using m w2(1) by (intro proposal_convinces [OF p(14,13) v(3,5,6,7)]) simp
  ultimately show thesis using that ks(1,3) w2(3,4) by blast
qed


text \<open>
  An honest proposal gets a yes. A validator that has the producer's accounts and place in the chain and
  expects this producer executes the proposed block, arrives at the producer's accounts, sends a yes to
  every peer, and waits, its goroutines holding the accounts and the block, until the round is decided.
\<close>
theorem honest_proposal_gets_yes:
  assumes "honest_proposal E1 p t blk ex w1" "in_round E1 E2 p blk v"
    "bytes_of (nextAggregator (fn_cons v)) \<noteq> bytes_of (Wallet_PublicKey (nodeWallet (fn_cons v)))"
  shows "\<exists>v1. cons_inbound E2 (proposal E1 blk (fn_cons p)) v = (Ok (), v1)
     \<and> sent (cs_p2p (fn_cons v1)) = sent (cs_p2p (fn_cons v)) @ map (\<lambda>q. (q, vote_data (voteMsg E2 True v))) (peers (cs_p2p (fn_cons v)))
     \<and> led (n_world (fn_node v1)) = led w1 \<and> waitingFianlity (fn_cons v1) \<and> round_open (fn_cons v1)
     \<and> accountCh (fn_cons v1) = Some ex \<and> blockCh (fn_cons v1) = Some blk"
proof -
  obtain ks w2 where w2: "cons_inbound E2 (proposal E1 blk (fn_cons p)) v = cs_vote E2 True (convinced blk ex w2 v)" "led w2 = led w1"
    by (rule proposal_executed [OF assms(1,2)])
  have "keypair_ok E2 (wa_keyPair (nodeWallet (fn_cons v)))" using assms(2) by (simp add: in_round_def)
  then show ?thesis
    using w2 assms(3) vote_sent [of E2 "convinced blk ex w2 v"] by (simp add: Broadcast_all convinced_def voteMsg_def)
qed

text \<open>
  C12: When a block is final, its two goroutines, one with the accounts and one with the block, may run in
  either order: both return, and the node ends with the executed accounts in the accounts bucket and with the
  block in the blocks bucket, where it is found by its hash and by its height and is the only change; with memory and
  database in step, at the next place of the chain, and without the transactions in the mempool. The node has
  executed the block, which is not the first one, fits into the database and touched at most eleven accounts.
\<close>
theorem final_block_commits:
  assumes "executed E ks blk n" "(j1, j2) \<in> {(AccountJob (map Some ks) True, BlockJob blk True), (BlockJob blk True, AccountJob (map Some ks) True)}"
  shows "\<exists>n1 n2. run_job E now j1 n = (Ok (), n1) \<and> run_job E now j2 n1 = (Ok (), n2) \<and> committed E ks blk n n2"
  using assms(2) account_then_block [OF assms(1), of now] block_then_account [OF assms(1), of now] by auto

text \<open>The two jobs of a decision, and what they lead to.\<close>

definition block_jobs :: "publicKeys \<Rightarrow> Block \<Rightarrow> job list" where
  "block_jobs ex blk = [AccountJob ex True, BlockJob blk True]"

primrec run_jobs :: "('d, 'z) senv_scheme \<Rightarrow> int64 \<Rightarrow> job list \<Rightarrow> ('d node, unit) comp" where
  "run_jobs E now [] = st_out (Ok ())"
| "run_jobs E now (j # js) = st_bind (run_job E now j) (\<lambda>_. run_jobs E now js)"

lemma run_block_jobs:
  assumes "executed E ks blk n"
  shows "\<exists>n'. run_jobs E now (block_jobs (map Some ks) blk) n = (Ok (), n') \<and> committed E ks blk n n'"
  using account_then_block [OF assms, of now] by (auto simp: block_jobs_def st_bind_Ok)

text \<open>
  C3: An honest round ends in the database. The producer proposes a block; the aggregator finds it right,
  the other validators' votes come in, all yes, and with the last one it announces the finality; the
  producer receives that. On both nodes the goroutines then return and leave the same accounts in memory
  and database, the producer's next ledger, and the block in the database, at the next height of the chain.
\<close>
theorem honest_round_commits:
  assumes "honest_proposal E1 p t blk ex w1" "in_round E1 E2 p blk a" "jobs p = []" "jobs a = []"
    "nextAggregator (fn_cons a) = Wallet_PublicKey (nodeWallet (fn_cons a))" "nextAggregator (fn_cons p) = Wallet_PublicKey (nodeWallet (fn_cons a))"
    "n = length (nextValidators (fn_cons a))" "2 \<le> n" "n \<le> 2 ^ 62" "numVoted (fn_cons a) = 0" "numVotedOk (fn_cons a) = 0"
    "Suc (Suc (length ms)) = n" "\<forall>m\<in>set ms. vote_valid E2 (fn_cons a) m \<and> vo_Ok m" "length (finality E2 True a) \<le> MaxPayloadSize"
  shows "\<exists>p1 p2 a1 np na. startRound E1 t p = (Ok (), p1) \<and> (\<forall>q\<in>set (peers (cs_p2p (fn_cons p))). (q, proposal E1 blk (fn_cons p)) \<in> set (sent (cs_p2p (fn_cons p1))))
     \<and> inbound_all E2 (proposal E1 blk (fn_cons p) # map vote_data ms) a = (Ok (), a1)
     \<and> (\<forall>q\<in>set (peers (cs_p2p (fn_cons a))). (q, finality E2 True a) \<in> set (sent (cs_p2p (fn_cons a1))))
     \<and> cons_inbound E1 (finality E2 True a) p1 = (Ok (), p2) \<and> \<not> waitingFianlity (fn_cons p2) \<and> \<not> waitingFianlity (fn_cons a1)
     \<and> run_jobs E1 now (jobs p2) (fn_node p2) = (Ok (), np) \<and> run_jobs E2 now (jobs a1) (fn_node a1) = (Ok (), na)
     \<and> led (n_world np) = led w1 \<and> synced (b58_Encode E1) (db_state E1 (w_db (n_world np))) [] (led (n_world np))
     \<and> blockchain np = Blockchain_Increment (bi_Hash (bl_Info blk)) (blockchain (fn_node p))
     \<and> mirrors E1 E2 (faucet np) (n_world np) (blockchain np) na
     \<and> holds_block E1 (w_db (n_world np)) blk \<and> holds_block E2 (w_db (n_world na)) blk
     \<and> (db_state E2 (w_db (n_world (fn_node a))) = db_state E1 (w_db (n_world (fn_node p))) \<longrightarrow> db_state E2 (w_db (n_world na)) = db_state E1 (w_db (n_world np)))"
proof -
  obtain ks w2 where x: "ex = map Some ks" "executed E1 ks blk ((fn_node p)\<lparr>n_world := w1\<rparr>)" "w_db w1 = w_db (n_world (fn_node p))"
    "cons_inbound E2 (proposal E1 blk (fn_cons p)) a = cs_vote E2 True (convinced blk ex w2 a)"
    "executed E2 ks blk ((fn_node a)\<lparr>n_world := w2\<rparr>)" "led w2 = led w1" "w_db w2 = w_db (n_world (fn_node a))"
    by (rule proposal_executed [OF assms(1,2)])
  have keys: "keypair_ok E1 (wa_keyPair (nodeWallet (fn_cons p)))" "keypair_ok E2 (wa_keyPair (nodeWallet (fn_cons a)))" "address_ok (info (cs_p2p (fn_cons a)))"
      "ed_Verify E1 = ed_Verify E2" "b58_Encode E1 = b58_Encode E2"
    using assms(1,2) by (simp_all add: honest_proposal_def in_round_def same_lib_def Let_def)
  note m = assms(2) [unfolded in_round_def mirrors_def]
  let ?p1 = "proposed E1 blk ex w1 p" and ?c = "convinced blk ex w2 a"
  have p1: "startRound E1 t p = (Ok (), ?p1)"
    using assms(1) by (intro startRound_eval) (simp_all add: honest_proposal_def Let_def)
  have valid: "\<forall>m\<in>set ms. vote_valid E2 (fn_cons ?c) m \<and> vo_Ok m" using assms(13) by (simp add: vote_valid_def convinced_def)
  obtain s' where s': "st_bind (cs_vote E2 True) (\<lambda>_. inbound_all E2 (map vote_data ms)) ?c = (Ok (), announced E2 True s')" "jobs s' = jobs a"
      "fn_node s' = (fn_node a)\<lparr>n_world := w2\<rparr>" "released True (fn_cons s') = block_jobs ex blk" "finality E2 True s' = finality E2 True a"
      "cs_p2p (fn_cons s') = cs_p2p (fn_cons a)"
    using aggregator_decides [OF _ _ _ assms(8,9) _ _ assms(12) valid] assms(5,7,10,11) keys(2)
    by (auto simp: convinced_def released_def block_jobs_def finality_def finalityMsg_def kept_def)
  have a1: "inbound_all E2 (proposal E1 blk (fn_cons p) # map vote_data ms) a = (Ok (), announced E2 True s')"
    using s'(1) x(4) by (simp add: st_bind_def)
  have p2: "cons_inbound E1 (finality E2 True a) ?p1 = (Ok (), finalized True ?p1)"
    using assms(6,14) keys by (intro finality_ends_round) (simp_all add: proposed_def)
  obtain np where np: "run_jobs E1 now (block_jobs ex blk) ((fn_node p)\<lparr>n_world := w1\<rparr>) = (Ok (), np)" "committed E1 ks blk ((fn_node p)\<lparr>n_world := w1\<rparr>) np"
    using run_block_jobs [OF x(2)] x(1) by auto
  obtain na where na: "run_jobs E2 now (block_jobs ex blk) ((fn_node a)\<lparr>n_world := w2\<rparr>) = (Ok (), na)" "committed E2 ks blk ((fn_node a)\<lparr>n_world := w2\<rparr>) na"
    using run_block_jobs [OF x(5)] x(1) by auto
  have mi: "mirrors E1 E2 (faucet np) (n_world np) (blockchain np) na"
    using assms(2) x(3,6,7) keys(5) by (intro committed_mirrors [OF _ np(2) na(2)]) (simp_all add: in_round_def)
  have dbs: "db_state E2 (w_db (n_world na)) = db_state E1 (w_db (n_world np))" if "db_state E2 (w_db (n_world (fn_node a))) = db_state E1 (w_db (n_world (fn_node p)))"
    using that np(2) na(2) x(3,6,7) keys(5) by (simp add: committed_def accounts_written_def cong: if_cong)
  have jp: "jobs (finalized True ?p1) = block_jobs ex blk" "fn_node (finalized True ?p1) = (fn_node p)\<lparr>n_world := w1\<rparr>"
    using assms(3) by (simp_all add: proposed_def released_def block_jobs_def)
  have ja: "jobs (announced E2 True s') = block_jobs ex blk" "fn_node (announced E2 True s') = (fn_node a)\<lparr>n_world := w2\<rparr>"
    using assms(4) s'(2,3,4) by (simp_all add: announced_sel)
  have "\<forall>q\<in>set (peers (cs_p2p (fn_cons p))). (q, proposal E1 blk (fn_cons p)) \<in> set (sent (cs_p2p (fn_cons ?p1)))"
    by (simp add: proposed_def Broadcast_all)
  moreover have "\<forall>q\<in>set (peers (cs_p2p (fn_cons a))). (q, finality E2 True a) \<in> set (sent (cs_p2p (fn_cons (announced E2 True s'))))"
    using s'(5,6) by (simp add: announced_sel finality_def)
  ultimately show ?thesis
    using p1 a1 p2 np na mi dbs jp ja by (auto simp: announced_sel committed_def accounts_written_def)
qed


subsection \<open>A proposal that reaches nobody\<close>

lemma size_proposal:
  assumes "address_ok (info (cs_p2p cs))" "keypair_ok E (wa_keyPair (nodeWallet cs))"
  shows "length (print_json (Block_to_json blk)) \<le> length (proposal E blk cs)"
    "length (proposal E blk cs) \<le> 250 + length (print_json (Block_to_json blk))"
proof -
  obtain sig where sig: "Wallet_SignRaw E (nodeWallet cs) (Some ConsensusMsgSigContent) = Ok sig" "length sig = 64"
    using signs [OF assms(2)] by blast
  have "slice_len (Wallet_PublicKey (nodeWallet cs)) = 32" using assms(2) by (simp add: keypair_ok_def Wallet_PublicKey_def)
  then show "length (print_json (Block_to_json blk)) \<le> length (proposal E blk cs)"
    "length (proposal E blk cs) \<le> 250 + length (print_json (Block_to_json blk))"
    using sig size_64 [of "Some sig"] size_32 [of "Wallet_PublicKey (nodeWallet cs)"] length_NodeInfo [OF assms(1)]
    by (simp_all add: proposal_def consensus_data_def PackPayload_def Marshal_def ProposeBlockMsg_to_json_def proposalMsg_def plain_def)
qed

lemma size_finality:
  assumes "address_ok (info (cs_p2p (fn_cons s)))" "keypair_ok E (wa_keyPair (nodeWallet (fn_cons s)))"
  shows "length (finality E ok s) \<le> MaxPayloadSize"
proof -
  obtain sig where sig: "Wallet_SignRaw E (nodeWallet (fn_cons s)) (Some ConsensusMsgSigContent) = Ok sig" "length sig = 64"
    using signs [OF assms(2)] by blast
  have "slice_len (Wallet_PublicKey (nodeWallet (fn_cons s))) = 32" using assms(2) by (simp add: keypair_ok_def Wallet_PublicKey_def)
  then show ?thesis
    using sig size_64 [of "Some sig"] size_32 [of "Wallet_PublicKey (nodeWallet (fn_cons s))"] length_NodeInfo [OF assms(1)]
      length_enc_uint [of "Blockchain_NextHeight (blockchain (fn_node s))"]
    by (simp add: finality_def consensus_data_def PackPayload_def Marshal_def FinalizeMsg_to_json_def finalityMsg_def plain_def MaxPayloadSize_def)
qed

text \<open>
  C20: Four transfers halt the chain. A block of four transfers or more is proposed, but the proposal is
  longer than a payload may be, so every node drops it unread; nobody votes, and when the timer of the
  producer strikes it does not end the round: the producer stays waiting and all its ticks do nothing.
\<close>
theorem four_transfers_halt_round:
  assumes "BlockProducer_NewBlock E (faucet (fn_node p)) (blockchain (fn_node p)) (nodeWallet (fn_cons p)) t (n_world (fn_node p)) = (Ok (blk, ex), w)"
    "keypair_ok E (wa_keyPair (nodeWallet (fn_cons p)))" "address_ok (info (cs_p2p (fn_cons p)))"
    "sized_block txs blk" "\<forall>tx\<in>set txs. \<exists>d. sized_tx d tx \<and> transfer_data d" "4 \<le> length txs"
  shows "\<exists>p1 ch p2. startRound E t p = (Ok (), p1) \<and> (\<forall>v. cons_inbound E' (proposal E blk (fn_cons p)) v = (Ok (), v))
     \<and> ch \<in> set (timers (fn_cons p1)) \<and> timeout_fires ch p1 = (Blocked, p2) \<and> (\<forall>now. loop_tick E'' now p2 = (Ok (), p2))"
proof -
  have "MaxPayloadSize < length (proposal E blk (fn_cons p))"
    using transfers_size(1) [OF assms(4,5)] size_proposal(1) [OF assms(3,2), of blk] assms(6) by (simp add: MaxPayloadSize_def)
  then have drop: "cons_inbound E' (proposal E blk (fn_cons p)) v = (Ok (), v)" for v by (simp add: handleInbound_def)
  let ?p = "proposed E blk ex w p" and ?ch = "nextTimer (fn_cons p)"
  have ch: "finalizeCh (fn_cons ?p) = Some ?ch" "?ch \<in> set (timers (fn_cons ?p))" "waitingFianlity (fn_cons ?p)"
    by (simp_all add: proposed_def startTimer_def)
  from timed_out [OF ch(1,3)] obtain p2 where "timeout_fires ?ch ?p = (Blocked, p2)" "stuck p2" by blast
  moreover from this(2) have "\<forall>now. loop_tick E'' now p2 = (Ok (), p2)" by (simp add: stuck_idle)
  ultimately obtain p2 where "timeout_fires ?ch ?p = (Blocked, p2)" "\<forall>now. loop_tick E'' now p2 = (Ok (), p2)" by blast
  with drop ch startRound_eval [OF assms(1,2)] show ?thesis by blast
qed

end
