(* ===== verification/FullNode.thy ===== *)
theory FullNode
  imports Committee Rounds
begin

text \<open>
  Package \<open>fullnode\<close> (\<open>src/fullnode/full_node.go\<close>): a node with its memory, its key file and the
  consensus service. \<open>catch\<close> and \<open>E\<close> only hand the first error on; in the model it is the result of \<open>Run\<close>.
\<close>

text \<open>The result, and the key file afterwards (as \<open>NewWallet\<close> leaves it).\<close>

definition NewFullNode ::
  "('d, 'z) senv_scheme \<Rightarrow> string option \<Rightarrow> 'd StorageDb option \<Rightarrow> (bytes \<times> bytes) go \<Rightarrow> string option \<Rightarrow> bytes option
     \<Rightarrow> string \<Rightarrow> string \<Rightarrow> 'd fullnode go \<times> bytes option" where
  "NewFullNode E openErr file gen writeErr keyFile syncPort consensusPort =
     (case NewNode E openErr file syncPort NewMemoryService of
        Ok n \<Rightarrow> (case NewWallet gen writeErr keyFile of (w, kf) \<Rightarrow>
           (go_bind w (\<lambda>w. Ok \<lparr>fn_node = n, fn_cons = NewConsensusService consensusPort w, jobs = []\<rparr>), kf))
      | Err e \<Rightarrow> (Err e, keyFile) | Panic p \<Rightarrow> (Panic p, keyFile) | Blocked \<Rightarrow> (Blocked, keyFile))"

text \<open>
  How long \<open>syncTime\<close> waits, in microseconds, at \<open>now\<close> nanoseconds of Unix time: \<open>Unix\<close> and \<open>UnixMicro\<close>
  round down, the arithmetic is that of \<open>int64\<close>.
\<close>

definition syncTime :: "int \<Rightarrow> int64" where
  "syncTime now =
     (let nowSec = word_of_int (now div 1000000000);
          nowMic = word_of_int (now div 1000);
          t = (nowSec + 1) * 1000000
      in t - nowMic)"

definition FullNode_Run :: "('d, 'z) senv_scheme \<Rightarrow> int64 \<Rightarrow> ('d fullnode, unit) comp" where
  "FullNode_Run E now = st_bind (on_cons ConsensusService_Run) (\<lambda>_. on_node (Node_Run E now))"

text \<open>
  Whatever the time, also where the product overflows, \<open>syncTime\<close> waits for at least one microsecond
  and at most a second, exactly until the next full second, so that the ticks of all nodes fall together.
\<close>
theorem start_waits_for_second:
  "0 < sint (syncTime now) \<and> sint (syncTime now) \<le> 1000000 \<and> (now div 1000 + sint (syncTime now)) mod 1000000 = 0"
proof -
  have "now div 1000000000 = now div 1000 div 1000000" by (simp add: zdiv_zmult2_eq)
  then have eq: "(now div 1000000000 + 1) * 1000000 - now div 1000 = 1000000 - now div 1000 mod 1000000"
    by (simp add: algebra_simps minus_div_mult_eq_mod [symmetric])
  have "syncTime now = word_of_int ((now div 1000000000 + 1) * 1000000 - now div 1000)"
    by (simp add: syncTime_def Let_def)
  then have w: "syncTime now = word_of_int (1000000 - now div 1000 mod 1000000)" by (simp only: eq)
  have b: "0 < 1000000 - now div 1000 mod 1000000" "1000000 - now div 1000 mod 1000000 \<le> 1000000"
    using pos_mod_bound [of 1000000 "now div 1000"] pos_mod_sign [of 1000000 "now div 1000"] by simp_all
  have "sint (word_of_int k :: int64) = k" if "0 < k" "k \<le> 1000000" for k
    using that by (simp add: sint_sbintrunc' signed_take_bit_int_eq_self)
  from this [OF b] have s: "sint (syncTime now) = 1000000 - now div 1000 mod 1000000" by (simp only: w)
  have "x + (1000000 - x mod 1000000) = (x div 1000000 + 1) * 1000000" for x :: int
    using div_mult_mod_eq [of x 1000000] by (simp add: algebra_simps)
  then have "(now div 1000 + (1000000 - now div 1000 mod 1000000)) mod 1000000 = 0" by (metis mod_mult_self2_is_0)
  with b s show ?thesis by simp
qed

lemma NewFullNode_cons:
  "NewFullNode E openErr file gen writeErr keyFile syncPort consensusPort = (Ok s, kf) \<Longrightarrow>
     jobs s = [] \<and> (\<exists>w. fn_cons s = NewConsensusService consensusPort w)"
  by (auto simp: NewFullNode_def split: go.splits prod.splits)

lemma FullNode_Run_cons:
  assumes "FullNode_Run E now s = (r, s')"
  shows "fn_cons s' = snd (ConsensusService_Run (fn_cons s))"
proof -
  obtain cs where "ConsensusService_Run (fn_cons s) = (Ok (), cs)" by (simp add: ConsensusService_Run_def)
  then show ?thesis using assms by (auto simp: FullNode_Run_def st_bind_Ok on_node_def split: prod.splits)
qed

text \<open>
  C10: The state of the consensus service is well formed in every run of a full node: from \<open>Run\<close> on, through
  ticks, messages of any content, timers, lost peers, released goroutines and the synchronisation, with any
  outcome of each and at any reading of the clock, the
  validators and the bad peers are lists of distinct 32-byte keys, the roles are both set, to such keys, or
  both empty, the peers are distinct addresses without the own one, the tick is below 4, the peer states are
  a map and every channel is one the service made.
\<close>
theorem consensus_state_typed:
  assumes "sorts (SortKeys E)" "NewFullNode E openErr file gen writeErr keyFile syncPort consensusPort = (Ok s0, kf)"
    "FullNode_Run E now0 s0 = (r, s)" "(full_step E)\<^sup>*\<^sup>* s s'"
  shows "cons_ok (fn_cons s')"
  using assms(4)
proof (induction rule: rtranclp_induct)
  case base
  obtain w where "fn_cons s0 = NewConsensusService consensusPort w" using NewFullNode_cons [OF assms(2)] by blast
  then show ?case using Run_ok [OF cons_ok_New] FullNode_Run_cons [OF assms(3)] by simp
qed (use full_step_ok [OF assms(1)] in blast)

end
