(* ===== verification/RpcServer.thy ===== *)
theory RpcServer
  imports Sizes
begin

text \<open>
  Package \<open>nodes/rpc\<close> (\<open>src/nodes/rpc/rpc_server.go\<close>) and package \<open>clients\<close> (\<open>src/clients/client.go\<close>): requests
  of clients over a connection, and what a client does with the answers.

  A connection is the data that arrives, in the pieces in which the network delivers it, how the
  stream ends, and the data written to it. \<open>conn.Read\<close> returns what one piece has, at most the size of
  the buffer; the rest of the buffer stays zero.
\<close>

subsection \<open>Connections\<close>

record Conn =
  co_in :: "bytes list"
  co_end :: "string option"
  co_out :: bytes
  co_writeErr :: "string option"

definition conn_Read :: "nat \<Rightarrow> (Conn, bytes) comp" where
  "conn_Read n c =
     (if n = 0 then (Ok [], c)
      else (case dropWhile (\<lambda>s. s = []) (co_in c) of
          [] \<Rightarrow> (Err (case co_end c of None \<Rightarrow> ''EOF'' | Some e \<Rightarrow> e), c\<lparr>co_in := []\<rparr>)
        | s # rest \<Rightarrow> (Ok (take n s @ replicate (n - length s) (CHR 0x00)), c\<lparr>co_in := drop n s # rest\<rparr>)))"

definition conn_Write :: "bytes \<Rightarrow> (Conn, unit) comp" where
  "conn_Write b c = (case co_writeErr c of Some e \<Rightarrow> (Err e, c) | None \<Rightarrow> (Ok (), c\<lparr>co_out := co_out c @ b\<rparr>))"

definition conn_ReadAll :: "(Conn, bytes) comp" where
  "conn_ReadAll c = (case co_end c of None \<Rightarrow> (Ok (concat (co_in c)), c\<lparr>co_in := []\<rparr>)
     | Some e \<Rightarrow> (Err e, c\<lparr>co_in := []\<rparr>))"

definition on_snd :: "(Conn, 'a) comp \<Rightarrow> ('s \<times> Conn, 'a) comp" where
  "on_snd m = (\<lambda>(s, c). case m c of (r, c') \<Rightarrow> (r, (s, c')))"

definition on_fst :: "('s, 'a) comp \<Rightarrow> ('s \<times> 'c, 'a) comp" where
  "on_fst m = (\<lambda>(s, c). case m s of (r, s') \<Rightarrow> (r, (s', c)))"

subsection \<open>The server\<close>

record RpcServer = rs_server :: NodeInfo

definition NewRpcServer :: "string \<Rightarrow> RpcServer" where
  "NewRpcServer port = \<lparr>rs_server = NewNodeInfo port (CHR 0x00)\<rparr>"

text \<open>\<open>None\<close> is the answer \<open>nil\<close>; an error of the database is logged and not returned.\<close>

definition handleCall :: "('d, 'z) senv_scheme \<Rightarrow> bytes \<Rightarrow> ('d node, slice) comp" where
  "handleCall E raw n = (case Call_Unmarshal raw of
       Ok call \<Rightarrow>
         if VerifyGetAccountStateCall call then
           (case on_world (on_db (StorageService_Get E AccountsBucket RefKey (ca_Params call))) n of
              (Ok None, n') \<Rightarrow> (Ok (Some (Marshal AccountState_to_json \<lparr>as_Nonce = 0, as_Balance = 0\<rparr>)), n')
            | (Ok (Some v), n') \<Rightarrow> (Ok (Some v), n')
            | (Err e, n') \<Rightarrow> (Ok None, n')
            | (Panic p, n') \<Rightarrow> (Panic p, n')
            | (Blocked, n') \<Rightarrow> (Blocked, n'))
         else (Ok None, n)
     | _ \<Rightarrow> (Ok None, n))"

definition handleTransaction :: "'z lib_scheme \<Rightarrow> bytes \<Rightarrow> ('d node, slice) comp" where
  "handleTransaction E raw n = (case Transaction_Unmarshal raw of
       Ok tx \<Rightarrow>
         st_bind (st_out (Transaction_Verify E tx)) (\<lambda>ok.
           if \<not> ok then st_out (Ok None)
           else (case Call_Unmarshal (bytes_of (td_Data (tx_InnerData tx))) of
               Ok call \<Rightarrow>
                 if \<not> Call_Verify call then st_out (Ok None)
                 else if MemoryService_ContainsTx E (tx_Hash tx) (w_mem (n_world n)) then st_out (Ok None)
                 else st_bind (on_world (on_mem (MemoryService_AppendTx E tx))) (\<lambda>_.
                      st_bind (on_sync (sync_p2p (BroadcastTx tx []))) (\<lambda>_. st_out (Ok (Some ''ok''))))
             | _ \<Rightarrow> st_out (Ok None))) n
     | _ \<Rightarrow> (Ok None, n))"

text \<open>The switch on the first byte, and the whole request.\<close>

definition handleRequest :: "('d, 'z) senv_scheme \<Rightarrow> bytes \<Rightarrow> ('d node, slice) comp" where
  "handleRequest E buff =
     st_bind (st_out (go_index buff 0)) (\<lambda>kind.
       if kind = SifnedRpc then handleTransaction E (drop 1 buff)
       else if kind = UnsignedRpc then handleCall E (drop 1 buff)
       else st_out (Ok None))"

definition handleRpc :: "('d, 'z) senv_scheme \<Rightarrow> ('d node \<times> Conn, unit) comp" where
  "handleRpc E =
     st_bind (on_snd (conn_Read 4)) (\<lambda>buff.
     st_bind (st_out (FromHex buff)) (\<lambda>reqLen :: 32 word.
       if sint reqLen > int MaxPayloadSize \<or> sint reqLen < 1 then st_out (Ok ())
       else st_bind (on_snd (conn_Read (nat (sint reqLen)))) (\<lambda>buff.
         st_bind (on_fst (handleRequest E buff)) (\<lambda>res.
           case res of None \<Rightarrow> st_out (Ok ())
           | Some res \<Rightarrow>
               st_bind (on_snd (conn_Write (ToHex (word_of_nat (length res) :: 32 word) @ res))) (\<lambda>_.
               st_bind (on_snd conn_ReadAll) (\<lambda>_. st_out (Ok ())))))))"

subsection \<open>The client\<close>

text \<open>
  The other end of a connection, as a client sees it: whether it can be dialled and written to, and
  what comes back for the bytes that were written, in which pieces and with which end. Its state \<open>'s\<close>
  is the node that answers.
\<close>

record 's remote =
  re_Dial :: "string \<Rightarrow> string option"
  re_Write :: "string option"
  re_Answer :: "string \<Rightarrow> bytes \<Rightarrow> 's \<Rightarrow> (bytes list \<times> string option) \<times> 's"

record Client =
  cl_name :: string
  cl_wallet :: Wallet

definition NewClient :: "string \<Rightarrow> Wallet go \<Rightarrow> Client go" where
  "NewClient name wallet = go_bind wallet (\<lambda>w. Ok \<lparr>cl_name = name, cl_wallet = w\<rparr>)"

text \<open>The answer is read as it was written: its length, then as many bytes; \<open>make\<close> panics on a negative length.\<close>

definition readAnswer :: "(Conn, bytes) comp" where
  "readAnswer =
     st_bind (conn_Read 4) (\<lambda>buff.
     st_bind (st_out (FromHex buff)) (\<lambda>resLen :: 32 word.
       if sint resLen < 0 then st_out (Panic ''makeslice: len out of range'')
       else conn_Read (nat (sint resLen))))"

definition Client_send :: "'s remote \<Rightarrow> string \<Rightarrow> bytes \<Rightarrow> ('s, bytes) comp" where
  "Client_send R port data s =
     (let ip4 = ''localhost:'' @ port in
      case re_Dial R ip4 of Some e \<Rightarrow> (Err e, s)
      | None \<Rightarrow>
          let prefixedData = ToHex (word_of_nat (length data) :: 32 word) @ data in
          (case re_Write R of Some e \<Rightarrow> (Err e, s)
           | None \<Rightarrow> (case re_Answer R ip4 prefixedData s of ((pieces, ending), s') \<Rightarrow>
               (fst (readAnswer \<lparr>co_in = pieces, co_end = ending, co_out = [], co_writeErr = None\<rparr>), s'))))"

definition sendCall :: "'s remote \<Rightarrow> string \<Rightarrow> Call \<Rightarrow> ('s, bytes) comp" where
  "sendCall R port call = Client_send R port (UnsignedRpc # Marshal Call_to_json call)"

definition sendTransaction :: "'s remote \<Rightarrow> string \<Rightarrow> Transaction \<Rightarrow> ('s, bytes) comp" where
  "sendTransaction R port tx = Client_send R port (SifnedRpc # Marshal Transaction_to_json tx)"

definition GetAccountInfo :: "'s remote \<Rightarrow> string \<Rightarrow> ('s \<times> Client, AccountState) comp" where
  "GetAccountInfo R port = (\<lambda>(s, c).
     st_bind (on_fst (sendCall R port (NewCall Rpc_GetAccountState (Wallet_PublicKey (cl_wallet c))))) (\<lambda>res.
       st_out (AccountState_Unmarshal res)) (s, c))"

text \<open>
  The common part of \<open>Airdrop\<close> and \<open>Transfer\<close>, from the wallet on. An error of the last call is not
  returned: the result is the empty string.
\<close>

definition submit ::
  "'z lib_scheme \<Rightarrow> 's remote \<Rightarrow> int64 \<Rightarrow> RpcKind \<Rightarrow> bytes \<Rightarrow> string \<Rightarrow> ('s \<times> Client, string) comp" where
  "submit E R now kind encPara port =
     st_bind (GetAccountInfo R port) (\<lambda>info.
     st_bind (st_upd (\<lambda>(s, c). (s, c\<lparr>cl_wallet := Wallet_Init (as_Nonce info) (as_Balance info) (cl_wallet c)\<rparr>))) (\<lambda>_ (s, c).
       let call = NewCall kind (Some encPara); encCall = Marshal Call_to_json call; tx = NewTransaction (Some encCall) now in
       st_bind (st_out (Wallet_Sign E (cl_wallet c) tx)) (\<lambda>tx (s, c).
         (case sendTransaction R port tx s of
            (Ok res, s') \<Rightarrow> (Ok res, (s', c))
          | (Err e, s') \<Rightarrow> (Ok '''', (s', c))
          | (Panic p, s') \<Rightarrow> (Panic p, (s', c))
          | (Blocked, s') \<Rightarrow> (Blocked, (s', c)))) (s, c)))"

definition Client_Airdrop ::
  "'z lib_scheme \<Rightarrow> 's remote \<Rightarrow> int64 \<Rightarrow> uint64 \<Rightarrow> string \<Rightarrow> ('s \<times> Client, string) comp" where
  "Client_Airdrop E R now amount port =
     submit E R now Rpc_Airdrop (Marshal AirdropParam_to_json (NewAirdropParam amount)) port"

definition Client_Transfer ::
  "'z lib_scheme \<Rightarrow> 's remote \<Rightarrow> int64 \<Rightarrow> uint64 \<Rightarrow> string \<Rightarrow> string \<Rightarrow> ('s \<times> Client, string) comp" where
  "Client_Transfer E R now amount to port =
     submit E R now Rpc_Transfer (Marshal TransferParam_to_json (NewTransferParam amount (Some (b58_Decode E to)))) port"

end
