(* ===== verification/Sample.thy ===== *)
theory Sample
  imports Producer
begin

text \<open>
  A concrete environment and a concrete node, on which the theorems about every environment are
  applied: a digest that takes the last bytes, keys that are their own names, insertion sort, maps in the order of
  their entries, and buckets that are association lists. It shows that the hypotheses \<open>env_ok\<close>,
  \<open>bolt_ok\<close>, \<open>keypair_ok\<close> and \<open>node_ok\<close> can hold together.
\<close>

definition sample_hash :: "bytes \<Rightarrow> bytes" where
  "sample_hash x = take 32 (rev x @ replicate 32 (CHR 0x00))"

fun insert_by :: "('a \<Rightarrow> 'a \<Rightarrow> bool) \<Rightarrow> 'a \<Rightarrow> 'a list \<Rightarrow> 'a list" where
  "insert_by lt x [] = [x]"
| "insert_by lt x (y # ys) = (if lt y x then y # insert_by lt x ys else x # y # ys)"

definition sort_by :: "('a \<Rightarrow> 'a \<Rightarrow> bool) \<Rightarrow> 'a list \<Rightarrow> 'a list" where
  "sort_by lt xs = foldr (insert_by lt) xs []"

definition alist_put :: "(bytes \<times> bytes) list \<Rightarrow> bytes \<Rightarrow> bytes \<Rightarrow> (bytes \<times> bytes) list go" where
  "alist_put d k v =
     (if k = [] then Err ''key required''
      else if length k > 32768 then Err ''key too large''
      else if length v > 2147483646 then Err ''value too large''
      else Ok (AList.update k v d))"

text \<open>The packages, with room for the further ones that a full node uses.\<close>

definition sampleX :: "'z \<Rightarrow> ((bytes \<times> bytes) list, 'z) senv_scheme" where
  "sampleX z = \<lparr>Sum256 = sample_hash, ed_Sign = \<lambda>_ _. replicate 64 (CHR ''s''), ed_Verify = \<lambda>_ _ _. True,
     b58_Encode = \<lambda>b. b, b58_Decode = \<lambda>s. s, SortNodes = sort_by, SortTxs = sort_by,
     rangeDb = \<lambda>m. m, rangePool = \<lambda>m. m, bk_empty = [], bk_Get = \<lambda>d k. if k = [] then None else map_of d k,
     bk_Put = alist_put, bk_pairs = \<lambda>d. AList.clearjunk (filter (\<lambda>p. fst p \<noteq> []) d), tx_Commit = \<lambda>_. None, \<dots> = z\<rparr>"

abbreviation sample :: "(bytes \<times> bytes) list senv" where
  "sample \<equiv> sampleX ()"

definition keyA :: bytes where "keyA = replicate 32 (CHR ''a'')"
definition keyB :: bytes where "keyB = replicate 32 (CHR ''b'')"
definition stateA :: AccountState where "stateA = \<lparr>as_Nonce = 0, as_Balance = 100\<rparr>"
definition stateB :: AccountState where "stateB = \<lparr>as_Nonce = 3, as_Balance = 7\<rparr>"

definition sampleDb :: MemoryDb where
  "sampleDb = \<lparr>dbMap = [(keyA, 0), (keyB, 1)], heap = [stateA, stateB]\<rparr>"

definition samplePair :: KeyPair where
  "samplePair = \<lparr>kp_PrivateKey = Some (replicate 64 (CHR ''k'')), kp_PublicKey = Some keyA\<rparr>"

definition sampleCall :: "uint64 \<Rightarrow> bytes \<Rightarrow> Call" where
  "sampleCall amount to = NewCall Rpc_Transfer (Some (Marshal TransferParam_to_json (NewTransferParam amount (Some to))))"

definition sampleData :: "uint64 \<Rightarrow> uint64 \<Rightarrow> bytes \<Rightarrow> TransactionData" where
  "sampleData nonce amount to = \<lparr>td_Data = Some (Marshal Call_to_json (sampleCall amount to)), td_PublicKey = Some keyA,
     td_Nonce = nonce, td_Signature = Some (replicate 64 (CHR ''s'')), td_Timestamp = 1\<rparr>"

definition transferTx :: "uint64 \<Rightarrow> uint64 \<Rightarrow> bytes \<Rightarrow> Transaction" where
  "transferTx nonce amount to = \<lparr>tx_Hash = Some (sample_hash (Marshal TransactionData_to_json (sampleData nonce amount to))),
     tx_InnerData = sampleData nonce amount to, tx_Status = False\<rparr>"

definition sampleTx :: Transaction where
  "sampleTx = transferTx 0 5 keyB"

definition sampleMem :: MemoryService where
  "sampleMem = NewMemoryService\<lparr>stateMem := sampleDb, mempool := \<lparr>pool = [(''tx'', sampleTx)]\<rparr>\<rparr>"

definition sampleStorage :: "(bytes \<times> bytes) list StorageDb" where
  "sampleStorage = \<lparr>innerDb = [(blocksBucket, []),
     (accountsBucket, [(keyA, AccountState_ToBytes stateA), (keyB, AccountState_ToBytes stateB)])]\<rparr>"

definition sampleWorld :: "(bytes \<times> bytes) list world" where
  "sampleWorld = \<lparr>w_mem = sampleMem, w_db = sampleStorage\<rparr>"

subsection \<open>Facts\<close>

lemma sample_sel [simp]:
  "Sum256 (sampleX z) = sample_hash" "b58_Encode (sampleX z) = (\<lambda>b. b)" "b58_Decode (sampleX z) = (\<lambda>b. b)"
  "rangeDb (sampleX z) = (\<lambda>m. m)" "rangePool (sampleX z) = (\<lambda>m. m)" "SortNodes (sampleX z) = sort_by" "SortTxs (sampleX z) = sort_by"
  "tx_Commit (sampleX z) d = None" "bk_Get (sampleX z) d k = (if k = [] then None else map_of d k)"
  "bk_Put (sampleX z) = alist_put" "bk_empty (sampleX z) = []"
  "bk_pairs (sampleX z) d = AList.clearjunk (filter (\<lambda>p. fst p \<noteq> []) d)"
  "ed_Sign (sampleX z) = (\<lambda>_ _. replicate 64 (CHR ''s''))" "ed_Verify (sampleX z) = (\<lambda>_ _ _. True)"
  by (simp_all add: sampleX_def)

lemma mset_insert_by: "mset (insert_by lt x ys) = add_mset x (mset ys)"
  by (induction ys) auto

lemma sorted_insert_by:
  assumes "strict_weak lt" "sorted_wrt (\<lambda>a b. \<not> lt b a) ys"
  shows "sorted_wrt (\<lambda>a b. \<not> lt b a) (insert_by lt x ys)"
  using assms(2)
proof (induction ys)
  case (Cons y ys)
  have irr: "\<And>a. \<not> lt a a" "\<And>a b c. lt a b \<Longrightarrow> lt b c \<Longrightarrow> lt a c"
      "\<And>a b c. \<not> lt a b \<Longrightarrow> \<not> lt b c \<Longrightarrow> \<not> lt a c"
    using assms(1) unfolding strict_weak_def by blast+
  have set_eq: "set (insert_by lt x ys) = insert x (set ys)"
    using mset_insert_by [of lt x ys] by (metis set_mset_add_mset_insert set_mset_mset)
  show ?case
  proof (cases "lt y x")
    case True
    then have "\<not> lt x y" using irr(1) [of y] irr(2) [of y x y] by blast
    with True Cons show ?thesis by (simp add: set_eq)
  next
    case False
    then have "\<forall>z\<in>set ys. \<not> lt z x" using irr(3) [of _ y x] Cons.prems by auto
    with False Cons.prems show ?thesis by simp
  qed
qed simp

lemma sorts_sort_by: "sorts sort_by"
  unfolding sorts_def
proof (intro allI impI)
  fix lt :: "'a \<Rightarrow> 'a \<Rightarrow> bool" and xs
  assume "strict_weak lt"
  then show "mset (sort_by lt xs) = mset xs \<and> sorted_wrt (\<lambda>a b. \<not> lt b a) (sort_by lt xs)"
    by (induction xs) (auto simp: sort_by_def mset_insert_by intro: sorted_insert_by)
qed

lemma env_ok_sample [simp]: "env_ok (sampleX z)"
  by (auto simp: env_ok_def hash_ok_def b58_ok_def sample_hash_def sorts_sort_by)

lemma bolt_ok_sample [simp]: "bolt_ok (sampleX z)"
proof -
  have "map_of (filter (\<lambda>p. fst p \<noteq> []) d) = (\<lambda>k. if k = [] then None else map_of d k)" for d :: "(bytes \<times> bytes) list"
    by (induction d) (auto simp: fun_eq_iff)
  then show ?thesis
    by (auto simp: bolt_ok_def alist_put_def fun_eq_iff distinct_clearjunk map_of_clearjunk update_conv')
qed

lemma bolt_refuses_sample [simp]: "bolt_refuses (sampleX z)"
  by (simp add: bolt_refuses_def alist_put_def)

lemma keypair_ok_sample [simp]: "keypair_ok (sampleX z) samplePair"
  by (simp add: keypair_ok_def samplePair_def keyA_def)

lemma sample_keys [simp]: "keyA \<noteq> keyB" "keyB \<noteq> keyA" "length keyA = 32" "length keyB = 32"
  "keyA \<noteq> []" "keyB \<noteq> []"
  by (simp_all add: keyA_def keyB_def)

lemma mem_wf_sample [simp]: "mem_wf sampleDb"
  by (auto simp: mem_wf_def sampleDb_def)

lemma mem_state_sample: "mem_state sampleDb = [keyA \<mapsto> stateA, keyB \<mapsto> stateB]"
  by (auto simp: mem_state_def sampleDb_def fun_eq_iff)

lemma sampleMem_sel [simp]: "stateMem sampleMem = sampleDb" "idle sampleMem" "pool (mempool sampleMem) = [(''tx'', sampleTx)]"
  by (simp_all add: sampleMem_def NewMemoryService_def idle_def)

lemma sampleWorld_sel [simp]: "w_mem sampleWorld = sampleMem" "w_db sampleWorld = sampleStorage"
  by (simp_all add: sampleWorld_def)

lemma bucket_get_sample:
  "bucket_get (sampleX z) accountsBucket sampleStorage = [keyA \<mapsto> AccountState_ToBytes stateA, keyB \<mapsto> AccountState_ToBytes stateB]"
  by (auto simp: bucket_get_def sampleStorage_def fun_eq_iff accountsBucket_def blocksBucket_def)

lemma db_state_sample:
  "db_state (sampleX z) sampleStorage k = (if k = keyA then Ok stateA else if k = keyB then Ok stateB else Ok zeroState)"
  by (simp add: db_state_def bucket_get_sample)

lemma node_ok_sample [simp]: "node_ok (sampleX z) sampleWorld"
  by (simp add: node_ok_def bucket_ok_def sampleStorage_def accountsBucket_def blocksBucket_def)

lemma action_of_transferTx:
  assumes "0 < amount" "amount < GeneratorBalance" "length to = 32"
  shows "action_of f (transferTx nonce amount to) = Transfer keyA nonce to amount"
proof -
  have "Call_Verify (sampleCall amount to)"
    using assms unfolding sampleCall_def Call_Verify_transfer by (simp add: NewTransferParam_def PublicKeySize_def)
  then show ?thesis
    by (simp add: action_of_def transferTx_def sampleData_def sampleCall_def NewCall_def
        Let_def rpc_kinds NewTransferParam_def)
qed

lemma action_of_sample: "action_of f sampleTx = Transfer keyA 0 keyB 5"
  unfolding sampleTx_def by (rule action_of_transferTx) (simp_all add: GeneratorBalance_def)

lemma caller_transferTx [simp]: "td_PublicKey (tx_InnerData (transferTx nonce amount to)) = Some keyA"
  by (simp add: transferTx_def sampleData_def)

lemma callers_ok_sample: "callers_ok [sampleTx]" "callers_ok [transferTx n x t, transferTx n' x' t']"
  by (simp_all add: callers_ok_def sampleTx_def)

lemma synced_sample: "synced (b58_Encode (sampleX z)) (db_state (sampleX z) sampleStorage) [] (mem_state sampleDb)"
  by (auto simp: synced_def db_state_sample mem_state_sample)

lemma db_decodes_sample: "db_decodes (sampleX z) sampleStorage"
  by (simp add: db_decodes_def db_state_sample is_Ok_def)

lemma ledger_ok_sample: "ledger_ok (mem_state sampleDb)"
proof -
  have "dom (mem_state sampleDb) = {keyA, keyB}" by (auto simp: mem_state_sample split: if_splits)
  then have "finite (dom (mem_state sampleDb))" "total_supply (mem_state sampleDb) = 107"
    by (simp_all add: total_supply_def balance_of_def mem_state_sample stateA_def stateB_def)
  then show ?thesis by (simp add: ledger_ok_def unat_GeneratorBalance)
qed

text \<open>A memory whose second account cannot be credited any more.\<close>

definition richDb :: MemoryDb where
  "richDb = \<lparr>dbMap = [(keyA, 0), (keyB, 1)], heap = [stateA, stateB\<lparr>as_Balance := GeneratorBalance\<rparr>]\<rparr>"

definition richMem :: MemoryService where
  "richMem = NewMemoryService\<lparr>stateMem := richDb\<rparr>"

lemma mem_state_rich: "mem_state richDb = [keyA \<mapsto> stateA, keyB \<mapsto> stateB\<lparr>as_Balance := GeneratorBalance\<rparr>]"
  by (auto simp: mem_state_def richDb_def fun_eq_iff)

lemma richMem_sel [simp]: "stateMem richMem = richDb" "idle richMem" "mem_wf richDb"
  by (auto simp: richMem_def richDb_def NewMemoryService_def idle_def mem_wf_def)

lemma balances_ok_rich: "balances_ok (mem_state richDb)"
  by (auto simp: balances_ok_def mem_state_rich state_ok_def stateA_def unat_GeneratorBalance ran_def)

lemma rich_transfer: "\<exists>ms'. transferImpl (sampleX z) (Some keyA) 0 (Some keyB) 5 richMem = (Err ''overflow'', ms')"
proof -
  have r: "nonce_ready (b58_Encode (sampleX z) keyA) 0 (mem_state richDb)" by (simp add: nonce_ready_def mem_state_rich stateA_def)
  have "ledger_transfer keyA 0 keyB 5 (mem_state richDb)
      = (Err ''overflow'', (mem_state richDb)(keyA \<mapsto> stateA\<lparr>as_Nonce := 0 + 1, as_Balance := as_Balance stateA - 5\<rparr>))"
    using ledger_transfer_covered [of "mem_state richDb" keyA stateA 0 5 keyB] by (simp add: mem_state_rich stateA_def state_ok_def unat_GeneratorBalance)
  with transferImpl_ready [OF richMem_sel(3) r, of richMem keyB 5 "nextCh richMem"] svc_idle [OF richMem_sel(2)]
  show ?thesis by (auto simp: lands_def)
qed

text \<open>The block with the one transaction of the sample mempool.\<close>

definition ledgerAfter :: ledger where
  "ledgerAfter = [keyA \<mapsto> \<lparr>as_Nonce = 1, as_Balance = 95\<rparr>, keyB \<mapsto> \<lparr>as_Nonce = 3, as_Balance = 12\<rparr>]"

lemma ledger_block_sample:
  "ledger_block (b58_Encode (sampleX z)) (db_state (sampleX z) sampleStorage) f [sampleTx] [] (mem_state sampleDb)
     = Some ([keyA, keyB], [sampleTx\<lparr>tx_Status := True\<rparr>], ledgerAfter)"
proof -
  have "ledger_transfer keyA 0 keyB 5 (mem_state sampleDb) = (Ok (), ledgerAfter)"
    using ledger_transfer_effect [OF ledger_ok_sample, of keyA keyB stateA stateB 0 5]
    by (simp add: mem_state_sample stateA_def stateB_def ledgerAfter_def fun_upd_twist)
  then show ?thesis
    by (simp add: ledger_tx_def Let_def action_of_sample nonce_ready_def mem_state_sample stateA_def
        add_keys_def add_key_def)
qed

lemma card_ledgerAfter: "card (dom ledgerAfter) = 2"
  by (simp add: ledgerAfter_def card_insert_if)

lemma GetTxsForBlock_sample: "MemoryService_GetTxsForBlock (sampleX z) sampleMem = Ok (Some [sampleTx])"
  by (simp add: MemoryService_GetTxsForBlock_def Mempool_GetTxsForBlock_def Mempool_get_def)


definition sampleChain :: Blockchain where
  "sampleChain = Blockchain_Init 7 (Some keyB) NewBlockchain"

definition sampleWallet :: Wallet where
  "sampleWallet = \<lparr>wa_keyPair = samplePair, wa_nonce = 0, wa_balance = 0\<rparr>"

lemma sample_lib: "hash_ok (sampleX z)" "b58_ok (sampleX z)"
  using env_ok_sample [of z] unfolding env_ok_def by blast+

lemma sampleWallet_ok: "keypair_ok (sampleX z) (wa_keyPair sampleWallet)" "Wallet_PublicKey sampleWallet = Some keyA"
proof -
  show "keypair_ok (sampleX z) (wa_keyPair sampleWallet)" by (simp add: sampleWallet_def)
qed (simp add: sampleWallet_def Wallet_PublicKey_def samplePair_def)

lemma transferTx_Verify: "Transaction_Verify (sampleX z) (transferTx n 5 keyB) = Ok True"
proof -
  have "length (Marshal TransferParam_to_json (NewTransferParam 5 (Some keyB))) \<le> 124"
    using length_TransferParam [of "NewTransferParam 5 (Some keyB)"] by (simp add: NewTransferParam_def)
  then have "length (Marshal Call_to_json (sampleCall 5 keyB)) \<le> 2048"
    using length_Call [of "sampleCall 5 keyB"] by (simp add: sampleCall_def NewCall_def)
  moreover have "Marshal Call_to_json c \<noteq> []" for c by (simp add: Marshal_def Call_to_json_def)
  moreover have "length (sample_hash x) = 32" for x using env_ok_sample by (metis env_okD(1) hash_okD sample_sel(1))
  ultimately show ?thesis
    by (simp add: Transaction_Verify_def CheckContents_def transferTx_def sampleData_def
        PublicKeySize_def HashSize_def MaxPayloadSize_def ed25519_Verify_def Let_def)
qed

lemma sampleTx_Verify: "Transaction_Verify (sampleX z) sampleTx = Ok True"
  unfolding sampleTx_def by (rule transferTx_Verify)

lemma sampleChain_prev: "slice_len (Blockchain_PreviousBlockHash sampleChain) = 32"
  by (simp add: sampleChain_def Blockchain_Init_def Blockchain_PreviousBlockHash_def)

lemma pool_callers_sample: "pool_callers_ok (mempool sampleMem)"
  using callers_ok_sample(1) by (simp add: pool_callers_ok_def)

lemma NewBlock_sample:
  "\<exists>blk w'. BlockProducer_NewBlock (sampleX z) f sampleChain sampleWallet 1 sampleWorld = (Ok (blk, map Some [keyA, keyB]), w')
     \<and> led w' = ledgerAfter \<and> txs_of (bl_Bundle blk) = [sampleTx\<lparr>tx_Status := True\<rparr>] \<and> Block_Verify (sampleX z) blk = Ok True"
  by (rule NewBlock_valid [where txs = "[sampleTx]" and L = ledgerAfter])
    (use ledger_block_sample [where z = z and f = f] in \<open>simp_all add: sampleTx_Verify GetTxsForBlock_sample card_ledgerAfter
      sampleChain_prev sampleWallet_def del: ledger_block.simps\<close>)


lemma ExecuteNow_sample:
  "\<exists>w1. ExecuteNow (sampleX z) f [sampleTx] sampleWorld = (Ok (map Some [keyA, keyB], [sampleTx\<lparr>tx_Status := True\<rparr>]), w1)
     \<and> led w1 = ledgerAfter \<and> node_ok (sampleX z) w1"
  using ExecuteNow_loop_block [OF node_ok_sample callers_not_nil [OF callers_ok_sample(1)], of z f "[]"]
    ledger_block_sample [where z = z and f = f] by (auto simp: ExecuteNow_def simp del: ledger_block.simps)

end
