(* ===== verification/Clients.thy ===== *)
theory Clients
  imports RpcServer Sample
begin

text \<open>
  What the requests of clients do to a node: the answer of the server reaches the client, a transfer
  ends in the mempool of the node and of its peers, and whatever arrives, the mempool holds verified
  transactions only.
\<close>

subsection \<open>Reading and writing\<close>

lemma conn_Read_piece:
  assumes "co_in c = [a @ b]" "length a = n" "0 < n"
  shows "conn_Read n c = (Ok a, c\<lparr>co_in := [b]\<rparr>)"
  using assms by (cases a) (auto simp: conn_Read_def)

lemma hex32: "FromHex (ToHex (w::32 word)) = Ok w" "length (ToHex (w::32 word)) = 4"
proof -
  have "unat w < 2 ^ LENGTH(32)" by (rule unsigned_less)
  then show "FromHex (ToHex (w::32 word)) = Ok w" by (simp add: FromHex_def ToHex_def)
qed (simp add: ToHex_def)

lemma sint32: "n < 2 ^ 31 \<Longrightarrow> sint (word_of_nat n :: 32 word) = int n"
  by (simp add: signed_of_nat signed_take_bit_int_eq_self)

lemma on_pair_eval [simp]:
  "m c = (r, c') \<Longrightarrow> on_snd m (s, c) = (r, (s, c'))"
  "m' t = (r', t') \<Longrightarrow> on_fst m' (t, d) = (r', (t', d))"
  by (simp_all add: on_fst_def on_snd_def)

text \<open>A request that arrives in one piece is handled as a whole.\<close>

definition open_conn :: "bytes \<Rightarrow> Conn" where
  "open_conn data = \<lparr>co_in = [data], co_end = None, co_out = [], co_writeErr = None\<rparr>"

definition prefixed :: "bytes \<Rightarrow> bytes" where
  "prefixed data = ToHex (word_of_nat (length data) :: 32 word) @ data"

lemma handleRpc_request:
  assumes "data \<noteq> []" "length data \<le> MaxPayloadSize" "handleRequest E data n = (Ok res, n')"
  shows "\<exists>c. handleRpc E (n, open_conn (prefixed data)) = (Ok (), (n', c))
     \<and> co_out c = (case res of None \<Rightarrow> [] | Some res \<Rightarrow> prefixed res)"
proof -
  let ?len = "word_of_nat (length data) :: 32 word"
  let ?c = "(open_conn (prefixed data))\<lparr>co_in := [data]\<rparr>"
  have len: "sint ?len = int (length data)" using assms(2) by (intro sint32) (simp add: MaxPayloadSize_def)
  have r1: "conn_Read 4 (open_conn (prefixed data)) = (Ok (ToHex ?len), ?c)"
    by (rule conn_Read_piece) (simp_all add: open_conn_def prefixed_def hex32)
  have r2: "conn_Read (length data) ?c = (Ok data, ?c\<lparr>co_in := [[]]\<rparr>)"
    by (rule conn_Read_piece) (use assms(1) in simp_all)
  have ok: "\<not> (sint ?len > int MaxPayloadSize \<or> sint ?len < 1)" using len assms(1,2) by (cases data) auto
  have "handleRpc E (n, open_conn (prefixed data)) = (case res of None \<Rightarrow> st_out (Ok ())
      | Some res \<Rightarrow> st_bind (on_snd (conn_Write (ToHex (word_of_nat (length res) :: 32 word) @ res))) (\<lambda>_.
               st_bind (on_snd conn_ReadAll) (\<lambda>_. st_out (Ok ())))) (n', ?c\<lparr>co_in := [[]]\<rparr>)"
    using r1 r2 assms(3) ok unfolding handleRpc_def by (simp add: hex32 len)
  then show ?thesis
    by (cases res) (auto simp: open_conn_def conn_Write_def conn_ReadAll_def prefixed_def)
qed

subsection \<open>A client and a node\<close>

text \<open>The node as the remote end of a client that reaches it, with every request in one piece.\<close>

definition node_remote :: "('d, 'z) senv_scheme \<Rightarrow> 'd node remote" where
  "node_remote E = \<lparr>re_Dial = \<lambda>_. None, re_Write = None,
     re_Answer = \<lambda>_ data n. case handleRpc E (n, open_conn data) of (r, (n', c)) \<Rightarrow> (([co_out c], None), n')\<rparr>"

lemma readAnswer_prefixed:
  assumes "length res < 2 ^ 31"
  shows "fst (readAnswer (open_conn (prefixed res))) = Ok res" "fst (readAnswer (open_conn [])) = Err ''EOF''"
proof -
  let ?len = "word_of_nat (length res) :: 32 word"
  let ?c = "(open_conn (prefixed res))\<lparr>co_in := [res]\<rparr>"
  have "conn_Read 4 (open_conn (prefixed res)) = (Ok (ToHex ?len), ?c)"
    by (rule conn_Read_piece) (simp_all add: open_conn_def prefixed_def hex32)
  moreover have "fst (conn_Read (length res) ?c) = Ok res"
  proof (cases res)
    case (Cons b bs)
    have "conn_Read (length res) ?c = (Ok res, ?c\<lparr>co_in := [[]]\<rparr>)"
      by (rule conn_Read_piece) (use Cons in simp_all)
    then show ?thesis by simp
  qed (simp add: conn_Read_def)
  ultimately show "fst (readAnswer (open_conn (prefixed res))) = Ok res"
    unfolding readAnswer_def by (simp add: hex32 sint32 [OF assms])
qed (simp add: readAnswer_def conn_Read_def open_conn_def)

lemma Client_send_node:
  assumes "data \<noteq> []" "length data \<le> MaxPayloadSize" "handleRequest E data n = (Ok res, n')" "slice_len res < 2 ^ 31"
  shows "Client_send (node_remote E) port data n = (case res of None \<Rightarrow> Err ''EOF'' | Some res \<Rightarrow> Ok res, n')"
proof -
  obtain c where c: "handleRpc E (n, open_conn (prefixed data)) = (Ok (), (n', c))"
      "co_out c = (case res of None \<Rightarrow> [] | Some res \<Rightarrow> prefixed res)"
    using handleRpc_request [OF assms(1-3)] by blast
  moreover have "length (bytes_of res) < 2 ^ 31" using assms(4) by (simp add: slice_len_def)
  note readAnswer_prefixed [OF this]
  ultimately show ?thesis unfolding Client_send_def node_remote_def
    by (cases res) (simp_all add: Let_def flip: prefixed_def open_conn_def)
qed

subsection \<open>The account of a client\<close>

text \<open>The database has the state \<open>st\<close> for the key, or nothing and \<open>st\<close> is zero.\<close>

definition account_entry :: "('d, 'z) senv_scheme \<Rightarrow> 'd StorageDb \<Rightarrow> bytes \<Rightarrow> AccountState \<Rightarrow> bool" where
  "account_entry E db pk st \<longleftrightarrow> (case bucket_get E accountsBucket db pk of
       None \<Rightarrow> st = zeroState | Some v \<Rightarrow> v = AccountState_ToBytes st)"

lemma GetAccountInfo_node:
  assumes "bucket_ok accountsBucket (w_db (n_world n))" "Wallet_PublicKey (cl_wallet c) = Some pk" "length pk = 32"
    "account_entry E (w_db (n_world n)) pk st"
  shows "GetAccountInfo (node_remote E) port (n, c) = (Ok st, (n, c))"
proof -
  let ?call = "NewCall Rpc_GetAccountState (Some pk)"
  let ?data = "UnsignedRpc # Marshal Call_to_json ?call"
  have g: "StorageService_get E AccountsBucket RefKey (Some pk) (w_db (n_world n)) = Ok (bucket_get E accountsBucket (w_db (n_world n)) pk)"
    using assms(1) by (simp add: StorageService_get_def StorageDb_gets)
  have z: "Marshal AccountState_to_json \<lparr>as_Nonce = 0, as_Balance = 0\<rparr> = AccountState_ToBytes zeroState"
    by (simp add: AccountState_ToBytes_def zeroState_def)
  have "handleCall E (Marshal Call_to_json ?call) n = (Ok (Some (AccountState_ToBytes st)), n)"
    using assms(3,4) g z
    by (auto simp: handleCall_def VerifyGetAccountStateCall_def NewCall_def PublicKeySize_def on_db_def on_world_def account_entry_def
        split: option.splits)
  then have h: "handleRequest E ?data n = (Ok (Some (AccountState_ToBytes st)), n)"
    by (simp add: handleRequest_def UnsignedRpc_def SifnedRpc_def)
  have l: "length ?data \<le> MaxPayloadSize" using length_Call [of ?call] assms(3) by (simp add: NewCall_def MaxPayloadSize_def)
  have "length (AccountState_ToBytes st) < 2 ^ 31" using length_AccountState_ToBytes [of st] by simp
  then have "Client_send (node_remote E) port ?data n = (Ok (AccountState_ToBytes st), n)"
    using Client_send_node [OF _ l h] by simp
  then have "on_fst (sendCall (node_remote E) port ?call) (n, c) = (Ok (AccountState_ToBytes st), (n, c))"
    by (simp add: sendCall_def)
  then show ?thesis using assms(2) by (simp add: GetAccountInfo_def)
qed

subsection \<open>Transactions on their way\<close>

text \<open>What accepting a transaction does to a node: the mempool has it, and it is sent to the peers.\<close>

definition take_in :: "'z lib_scheme \<Rightarrow> Transaction \<Rightarrow> NodeInfo list \<Rightarrow> 'd node \<Rightarrow> 'd node" where
  "take_in E tx origins n = n\<lparr>n_world := (n_world n)\<lparr>w_mem := (w_mem (n_world n))\<lparr>mempool := Mempool_Append E tx (mempool (w_mem (n_world n)))\<rparr>\<rparr>,
     n_sync := (n_sync n)\<lparr>sy_p2p := snd (BroadcastTx tx origins (sy_p2p (n_sync n)))\<rparr>\<rparr>"

lemma AppendTx_idle:
  assumes "idle ms"
  shows "MemoryService_AppendTx E tx ms = (Ok (), ms\<lparr>mempool := Mempool_Append E tx (mempool ms)\<rparr>)"
  using assms by (simp add: MemoryService_AppendTx_def send_tx_def idle_def chanCap_def MemoryService_run_def MemoryService_handleTx_def)

lemma on_mem_eval: "m (w_mem w) = (r, ms) \<Longrightarrow> on_mem m w = (r, w\<lparr>w_mem := ms\<rparr>)"
  by (simp add: on_mem_def)

lemma take_in_eval:
  assumes "idle (w_mem (n_world n))"
  shows "st_bind (on_world (on_mem (MemoryService_AppendTx E tx))) (\<lambda>_.
     st_bind (on_sync (sync_p2p (BroadcastTx tx origins))) (\<lambda>_. g)) n = g (take_in E tx origins n)"
    "st_bind (on_world (on_mem (MemoryService_AppendTx E tx))) (\<lambda>_. on_sync (sync_p2p (BroadcastTx tx origins))) n
       = (Ok (), take_in E tx origins n)"
  using AppendTx_idle [OF assms, of E tx]
  by (simp_all add: take_in_def on_mem_eval on_world_def on_sync_def sync_p2p_def BroadcastTx_def Let_def st_bind_def)

text \<open>A transaction as a client signs it, with a call the node verifies.\<close>

definition acceptable :: "'z lib_scheme \<Rightarrow> Transaction \<Rightarrow> bool" where
  "acceptable E tx \<longleftrightarrow> Transaction_Verify E tx = Ok True
     \<and> (\<exists>call. Call_Unmarshal (bytes_of (td_Data (tx_InnerData tx))) = Ok call \<and> Call_Verify call)"

lemma handleTransaction_new:
  assumes "idle (w_mem (n_world n))" "acceptable E tx" "Transaction_Unmarshal raw = Ok tx"
  shows "handleTransaction E raw n = (if MemoryService_ContainsTx E (tx_Hash tx) (w_mem (n_world n)) then (Ok None, n)
     else (Ok (Some ''ok''), take_in E tx [] n))"
proof -
  obtain call where "Call_Unmarshal (bytes_of (td_Data (tx_InnerData tx))) = Ok call" "Call_Verify call"
    using assms(2) by (auto simp: acceptable_def)
  then show ?thesis using assms(2,3) take_in_eval(1) [OF assms(1), of E tx "[]" "st_out (Ok (Some ''ok''))"]
    by (simp add: handleTransaction_def acceptable_def)
qed

lemma handleTx_new:
  assumes "idle (w_mem (n_world n))" "acceptable E (tm_Tx m)" "TransactionMsg_Unmarshal raw = Ok m"
    "\<forall>x\<in>set (nodes_of (tm_Origins m)). NodeInfo_Verify x \<and> Ip4 x \<noteq> Ip4 (info (sy_p2p (n_sync n)))"
  shows "SyncService_handleTx E raw n = (Ok (), if MemoryService_ContainsTx E (tx_Hash (tm_Tx m)) (w_mem (n_world n)) then n
     else take_in E (tm_Tx m) (nodes_of (tm_Origins m)) n)"
proof -
  obtain call where "Call_Unmarshal (bytes_of (td_Data (tx_InnerData (tm_Tx m)))) = Ok call" "Call_Verify call"
    using assms(2) by (auto simp: acceptable_def)
  moreover have "\<not> list_ex (\<lambda>x. IsSameIp x (info (sy_p2p (n_sync n)))) (nodes_of (tm_Origins m))"
    using assms(4) by (auto simp: list_ex_iff IsSameIp_def)
  moreover have "list_all NodeInfo_Verify (nodes_of (tm_Origins m))" using assms(4) by (simp add: list_all_iff)
  ultimately show ?thesis using assms(2,3) take_in_eval(2) [OF assms(1), of E "tm_Tx m"]
    by (simp add: SyncService_handleTx_def acceptable_def TransactionMsg_Verify_def)
qed

subsection \<open>What a client submits\<close>

text \<open>The transaction a client makes for a call, with the state of the account the node told it.\<close>

definition signed_call :: "'z lib_scheme \<Rightarrow> Client \<Rightarrow> AccountState \<Rightarrow> RpcKind \<Rightarrow> bytes \<Rightarrow> int64 \<Rightarrow> Transaction \<Rightarrow> bool" where
  "signed_call E c st kind para now tx \<longleftrightarrow>
     Wallet_Sign E (Wallet_Init (as_Nonce st) (as_Balance st) (cl_wallet c))
       (NewTransaction (Some (Marshal Call_to_json (NewCall kind (Some para)))) now) = Ok tx"

lemma signed_call_ok:
  assumes "keypair_ok E (wa_keyPair (cl_wallet c))" "hash_ok E" "length para \<le> 124" "0 < sint now"
    "Call_Verify (NewCall kind (Some para))"
  obtains tx where "signed_call E c st kind para now tx" "acceptable E tx" "td_Nonce (tx_InnerData tx) = as_Nonce st"
    "td_PublicKey (tx_InnerData tx) = Wallet_PublicKey (cl_wallet c)"
    "td_Data (tx_InnerData tx) = Some (Marshal Call_to_json (NewCall kind (Some para)))" "\<not> tx_Status tx"
    "length (Marshal Transaction_to_json tx) \<le> 1000"
proof -
  let ?w = "Wallet_Init (as_Nonce st) (as_Balance st) (cl_wallet c)"
  let ?d = "Marshal Call_to_json (NewCall kind (Some para))"
  have kp: "keypair_ok E (wa_keyPair ?w)" using assms(1) by (simp add: Wallet_Init_def)
  have l: "length ?d \<le> 308" using length_Call [of "NewCall kind (Some para)"] assms(3) by (simp add: NewCall_def)
  have "0 < length ?d" by (simp add: Marshal_def Call_to_json_def)
  then obtain tx where tx: "Wallet_Sign E ?w (NewTransaction (Some ?d) now) = Ok tx" "Transaction_Verify E tx = Ok True"
      "td_Nonce (tx_InnerData tx) = wa_nonce ?w" "td_PublicKey (tx_InnerData tx) = Wallet_PublicKey ?w"
      "td_Data (tx_InnerData tx) = Some ?d" "\<not> tx_Status tx"
    using Sign_Verify [OF kp assms(2), of "Some ?d" now] l assms(4) by (auto simp: MaxPayloadSize_def)
  have "slice_len (td_Signature (tx_InnerData tx)) = 64"
    using tx(1) assms(1) by (auto simp: wallet_defs ed25519_Sign_def keypair_ok_def Let_def split: if_splits)
  then have "sized_tx ?d tx"
    using tx(2,5) by (auto simp: sized_tx_def Transaction_Verify_def CheckContents_def Let_def PublicKeySize_def HashSize_def split: if_splits)
  from size_tx(2) [OF this] have "length (Marshal Transaction_to_json tx) \<le> 317 + bytes_size (length ?d)" by (simp add: Marshal_def)
  moreover have "bytes_size (length ?d) \<le> 500" using l by (simp add: bytes_size_def)
  ultimately have "length (Marshal Transaction_to_json tx) \<le> 1000" by simp
  moreover have "acceptable E tx" using tx(2,5) assms(5) by (simp add: acceptable_def)
  ultimately show thesis using that tx by (simp add: signed_call_def Wallet_Init_def Wallet_PublicKey_def)
qed

text \<open>The client after the node told it the state of its account.\<close>

definition informed :: "AccountState \<Rightarrow> Client \<Rightarrow> Client" where
  "informed st c = c\<lparr>cl_wallet := Wallet_Init (as_Nonce st) (as_Balance st) (cl_wallet c)\<rparr>"

lemma submit_node:
  assumes "bucket_ok accountsBucket (w_db (n_world n))" "idle (w_mem (n_world n))" "Wallet_PublicKey (cl_wallet c) = Some pk" "length pk = 32"
    "account_entry E (w_db (n_world n)) pk st" "signed_call E c st kind para now tx" "acceptable E tx"
    "length (Marshal Transaction_to_json tx) \<le> 1000"
  shows "submit E (node_remote E) now kind para port (n, c)
     = (if MemoryService_ContainsTx E (tx_Hash tx) (w_mem (n_world n)) then (Ok '''', (n, informed st c))
        else (Ok ''ok'', (take_in E tx [] n, informed st c)))"
proof -
  let ?data = "SifnedRpc # Marshal Transaction_to_json tx"
  have g: "GetAccountInfo (node_remote E) port (n, c) = (Ok st, (n, c))" by (rule GetAccountInfo_node [OF assms(1,3-5)])
  have "handleRequest E ?data n = handleTransaction E (Marshal Transaction_to_json tx) n" by (simp add: handleRequest_def)
  then have h: "handleRequest E ?data n = (if MemoryService_ContainsTx E (tx_Hash tx) (w_mem (n_world n)) then (Ok None, n)
       else (Ok (Some ''ok''), take_in E tx [] n))"
    using handleTransaction_new [OF assms(2,7), of "Marshal Transaction_to_json tx"] by (simp add: Transaction_Unmarshal_def tx_codec.roundtrip)
  have l: "length ?data \<le> MaxPayloadSize" using assms(8) by (simp add: MaxPayloadSize_def)
  have s: "sendTransaction (node_remote E) port tx n = (if MemoryService_ContainsTx E (tx_Hash tx) (w_mem (n_world n))
       then (Err ''EOF'', n) else (Ok ''ok'', take_in E tx [] n))"
    using Client_send_node [OF _ l, of E n] h by (simp add: sendTransaction_def split: if_splits)
  show ?thesis using g s assms(6) by (simp add: submit_def signed_call_def informed_def Let_def)
qed

subsection \<open>A transfer spreads\<close>

lemma BroadcastTx_own:
  "snd (BroadcastTx tx [] ps) = ps\<lparr>sent := sent ps @ map (\<lambda>p. (p, PackPayload TransactionMsg_to_json
     \<lparr>tm_Origins = Some [info ps], tm_Tx = tx\<rparr> [SyncMessage, TxMsg])) (filter (\<lambda>p. Ip4 p \<noteq> Ip4 (info ps)) (peers ps))\<rparr>"
proof -
  have "concat (map (\<lambda>p. replicate (copies [e] p) (p, d)) xs) = map (\<lambda>p. (p, d)) (filter (\<lambda>p. Ip4 p \<noteq> Ip4 e) xs)" for e xs and d :: bytes
    by (induction xs) (simp_all add: copies_def IsSameIp_def)
  then show ?thesis by (simp add: BroadcastTx_def Broadcast_sent Let_def)
qed

lemma relay_received:
  assumes "idle (w_mem (n_world m))" "acceptable E tx" "length (Marshal Transaction_to_json tx) \<le> 1000"
    "address_ok from" "Ip4 from \<noteq> Ip4 (info (sy_p2p (n_sync m)))" "\<not> MemoryService_ContainsTx E (tx_Hash tx) (w_mem (n_world m))"
  shows "sync_inbound E (PackPayload TransactionMsg_to_json \<lparr>tm_Origins = Some [from], tm_Tx = tx\<rparr> [SyncMessage, TxMsg]) m
     = (Ok (), take_in E tx [from] m)"
proof -
  let ?msg = "\<lparr>tm_Origins = Some [from], tm_Tx = tx\<rparr>"
  let ?raw = "Marshal TransactionMsg_to_json ?msg"
  have "length ?raw \<le> 1000 + 100" using assms(3) length_NodeInfo [OF assms(4)]
    by (simp add: Marshal_def TransactionMsg_to_json_def enc_list_def plain_def)
  then have l: "length (PackPayload TransactionMsg_to_json ?msg [SyncMessage, TxMsg]) \<le> MaxPayloadSize"
    by (simp add: PackPayload_def MaxPayloadSize_def)
  have "TransactionMsg_Unmarshal ?raw = Ok ?msg" unfolding TransactionMsg_Unmarshal_def
    by (rule txmsg_codec.roundtrip) (simp add: address_good [OF assms(4)] nodes_of_def)
  then have "SyncService_handleTx E ?raw m = (Ok (), take_in E tx [from] m)"
    using handleTx_new [OF assms(1), of E ?msg ?raw] assms(2,5,6) address_verify [OF assms(4)] by (simp add: nodes_of_def)
  then show ?thesis using l by (simp add: handleInbound_def handleSyncMessage_def PackPayload_def sync_kinds message_kinds)
qed

lemma transfer_action:
  assumes "0 < amount" "amount < GeneratorBalance" "length to = 32"
    "td_Data (tx_InnerData tx) = Some (Marshal Call_to_json (NewCall Rpc_Transfer (Some (Marshal TransferParam_to_json (NewTransferParam amount (Some to))))))"
    "td_PublicKey (tx_InnerData tx) = Some pk" "td_Nonce (tx_InnerData tx) = nonce"
  shows "action_of f tx = Transfer pk nonce to amount"
  using assms Call_Verify_transfer [of "NewTransferParam amount (Some to)"]
  by (simp add: action_of_def Let_def NewTransferParam_def NewCall_def PublicKeySize_def Rpc_Transfer_def Rpc_Airdrop_def)

lemma transfer_signed:
  assumes "keypair_ok E (wa_keyPair (cl_wallet c))" "hash_ok E" "0 < sint now" "0 < amount" "amount < GeneratorBalance" "length to = 32"
  obtains tx pk where "signed_call E c st Rpc_Transfer (Marshal TransferParam_to_json (NewTransferParam amount (Some to))) now tx"
    "acceptable E tx" "length (Marshal Transaction_to_json tx) \<le> 1000" "Wallet_PublicKey (cl_wallet c) = Some pk" "length pk = 32"
    "action_of f tx = Transfer pk (as_Nonce st) to amount" "td_PublicKey (tx_InnerData tx) = Some pk"
proof -
  let ?p = "NewTransferParam amount (Some to)"
  have l: "length (Marshal TransferParam_to_json ?p) \<le> 124" using length_TransferParam [of ?p] assms(6) by (simp add: NewTransferParam_def)
  have v: "Call_Verify (NewCall Rpc_Transfer (Some (Marshal TransferParam_to_json ?p)))"
    using assms(4-6) by (simp add: Call_Verify_transfer NewTransferParam_def PublicKeySize_def)
  obtain pk where pk: "Wallet_PublicKey (cl_wallet c) = Some pk" "length pk = 32"
    using assms(1) slice_len_Some [of "Wallet_PublicKey (cl_wallet c)"] by (auto simp: keypair_ok_def Wallet_PublicKey_def)
  obtain tx where tx: "signed_call E c st Rpc_Transfer (Marshal TransferParam_to_json ?p) now tx" "acceptable E tx"
      "td_Nonce (tx_InnerData tx) = as_Nonce st" "td_PublicKey (tx_InnerData tx) = Wallet_PublicKey (cl_wallet c)"
      "td_Data (tx_InnerData tx) = Some (Marshal Call_to_json (NewCall Rpc_Transfer (Some (Marshal TransferParam_to_json ?p))))"
      "length (Marshal Transaction_to_json tx) \<le> 1000"
    by (rule signed_call_ok [OF assms(1,2) l assms(3) v])
  have "action_of f tx = Transfer pk (as_Nonce st) to amount"
    using transfer_action [OF assms(4-6) tx(5)] tx(3,4) pk(1) by simp
  then show thesis using that tx(1,2,4,6) pk by simp
qed

text \<open>The transaction is not in the mempool yet.\<close>

definition unseen :: "'z lib_scheme \<Rightarrow> Client \<Rightarrow> AccountState \<Rightarrow> int64 \<Rightarrow> uint64 \<Rightarrow> string \<Rightarrow> 'd node \<Rightarrow> bool" where
  "unseen E c st now amount to n \<longleftrightarrow> (\<forall>tx. signed_call E c st Rpc_Transfer
       (Marshal TransferParam_to_json (NewTransferParam amount (Some (b58_Decode E to)))) now tx
     \<longrightarrow> \<not> MemoryService_ContainsTx E (tx_Hash tx) (w_mem (n_world n)))"

lemma take_in_sel:
  "map_of (pool (mempool (w_mem (n_world (take_in E tx os n))))) (b58_Encode E (bytes_of (tx_Hash tx))) = Some tx"
  "led (n_world (take_in E tx os n)) = led (n_world n)" "w_db (n_world (take_in E tx os n)) = w_db (n_world n)"
  "blockchain (take_in E tx os n) = blockchain n"
  by (simp_all add: take_in_def Mempool_Append_def Let_def update_conv)

text \<open>
  C18: A transfer a client asks for reaches the network. The client is answered \<open>ok\<close>, the node it asked
  has the signed transaction in its mempool, with the nonce its database holds for the account, and
  sends it to its peers; a peer that gets the message has the transaction in its mempool too. The
  ledgers and databases are untouched: only a block changes them.
\<close>

theorem client_transfer_spreads:
  assumes "keypair_ok E (wa_keyPair (cl_wallet c))" "hash_ok E" "0 < sint now"
    "0 < amount" "amount < GeneratorBalance" "length (b58_Decode E to) = 32"
    "bucket_ok accountsBucket (w_db (n_world n))" "idle (w_mem (n_world n))"
    "account_entry E (w_db (n_world n)) (bytes_of (Wallet_PublicKey (cl_wallet c))) st"
    "unseen E c st now amount to n" "unseen E c st now amount to m" "idle (w_mem (n_world m))"
    "address_ok (info (sy_p2p (n_sync n)))" "Ip4 (info (sy_p2p (n_sync n))) \<noteq> Ip4 (info (sy_p2p (n_sync m)))"
    "info (sy_p2p (n_sync m)) \<in> set (peers (sy_p2p (n_sync n)))"
  shows "\<exists>tx n' c' data m'. Client_Transfer E (node_remote E) now amount to port (n, c) = (Ok ''ok'', (n', c'))
     \<and> Transaction_Verify E tx = Ok True
     \<and> action_of f tx = Transfer (bytes_of (Wallet_PublicKey (cl_wallet c))) (as_Nonce st) (b58_Decode E to) amount
     \<and> map_of (pool (mempool (w_mem (n_world n')))) (b58_Encode E (bytes_of (tx_Hash tx))) = Some tx
     \<and> led (n_world n') = led (n_world n) \<and> w_db (n_world n') = w_db (n_world n)
     \<and> (info (sy_p2p (n_sync m)), data) \<in> set (sent (sy_p2p (n_sync n'))) \<and> sync_inbound E data m = (Ok (), m')
     \<and> map_of (pool (mempool (w_mem (n_world m')))) (b58_Encode E (bytes_of (tx_Hash tx))) = Some tx
     \<and> led (n_world m') = led (n_world m) \<and> w_db (n_world m') = w_db (n_world m)"
proof -
  obtain tx pk where tx: "signed_call E c st Rpc_Transfer (Marshal TransferParam_to_json (NewTransferParam amount (Some (b58_Decode E to)))) now tx"
    "acceptable E tx" "length (Marshal Transaction_to_json tx) \<le> 1000" "Wallet_PublicKey (cl_wallet c) = Some pk" "length pk = 32"
    "action_of f tx = Transfer pk (as_Nonce st) (b58_Decode E to) amount" "td_PublicKey (tx_InnerData tx) = Some pk"
    by (rule transfer_signed [OF assms(1-6)])
  have new: "\<not> MemoryService_ContainsTx E (tx_Hash tx) (w_mem (n_world n))" "\<not> MemoryService_ContainsTx E (tx_Hash tx) (w_mem (n_world m))"
    using assms(10,11) tx(1) by (auto simp: unseen_def)
  have "account_entry E (w_db (n_world n)) pk st" using assms(9) tx(4) by simp
  then have c': "Client_Transfer E (node_remote E) now amount to port (n, c) = (Ok ''ok'', (take_in E tx [] n, informed st c))"
    using submit_node [OF assms(7,8) tx(4,5) _ tx(1-3), of port] new(1) by (simp add: Client_Transfer_def)
  let ?data = "PackPayload TransactionMsg_to_json \<lparr>tm_Origins = Some [info (sy_p2p (n_sync n))], tm_Tx = tx\<rparr> [SyncMessage, TxMsg]"
  have s: "(info (sy_p2p (n_sync m)), ?data) \<in> set (sent (sy_p2p (n_sync (take_in E tx [] n))))"
    using assms(14,15) by (auto simp: take_in_def BroadcastTx_own)
  have r: "sync_inbound E ?data m = (Ok (), take_in E tx [info (sy_p2p (n_sync n))] m)"
    by (rule relay_received [OF assms(12) tx(2,3) assms(13,14) new(2)])
  show ?thesis
    by (rule exI [of _ tx], rule exI [of _ "take_in E tx [] n"], rule exI [of _ "informed st c"], rule exI [of _ ?data],
        rule exI [of _ "take_in E tx [info (sy_p2p (n_sync n))] m"])
      (use c' s r tx(2,4,6) in \<open>simp add: take_in_sel acceptable_def\<close>)
qed

subsection \<open>What any input can do\<close>

text \<open>A node between requests whose mempool holds acceptable transactions only, with given accounts and chain.\<close>

definition undisturbed :: "'z lib_scheme \<Rightarrow> MemoryDb \<Rightarrow> 'd StorageDb \<Rightarrow> Blockchain \<Rightarrow> 'd node \<Rightarrow> bool" where
  "undisturbed E md db bc n \<longleftrightarrow> idle (w_mem (n_world n)) \<and> stateMem (w_mem (n_world n)) = md \<and> w_db (n_world n) = db
     \<and> blockchain n = bc \<and> (\<forall>tx\<in>snd ` set (pool (mempool (w_mem (n_world n)))). acceptable E tx)"

lemma set_update: "set (AList.update k v al) \<subseteq> insert (k, v) (set al)"
  by (induction al) auto

lemma undisturbed_take_in:
  assumes "undisturbed E md db bc n" "acceptable E tx"
  shows "undisturbed E md db bc (take_in E tx os n)"
  using assms set_update [of "b58_Encode E (bytes_of (tx_Hash tx))" tx "pool (mempool (w_mem (n_world n)))"]
  unfolding undisturbed_def take_in_def idle_def Mempool_Append_def Let_def by auto

lemma undisturbed_sync: "undisturbed E md db bc (n\<lparr>n_sync := s\<rparr>) \<longleftrightarrow> undisturbed E md db bc n"
  by (simp add: undisturbed_def)

lemma keeps_sync [simp]: "keeps (undisturbed E md db bc) (on_sync m)"
  by (auto simp: keeps_def on_sync_def undisturbed_sync split: prod.splits)

lemma keeps_get [simp]: "keeps (undisturbed E md db bc) (on_world (on_db (StorageService_Get E' b k ref)))"
  by (auto simp: keeps_def on_world_def on_db_def undisturbed_def)

lemma keeps_handleTransaction: "keeps (undisturbed E md db bc) (handleTransaction E raw)"
proof (rule keepsI)
  fix n
  assume n: "undisturbed E md db bc n"
  show "undisturbed E md db bc (snd (handleTransaction E raw n))"
  proof (cases "\<exists>tx. Transaction_Unmarshal raw = Ok tx \<and> acceptable E tx")
    case True
    then obtain tx where tx: "Transaction_Unmarshal raw = Ok tx" "acceptable E tx" by blast
    have "idle (w_mem (n_world n))" using n by (simp add: undisturbed_def)
    from handleTransaction_new [OF this tx(2,1)] show ?thesis using undisturbed_take_in [OF n tx(2)] n by simp
  next
    case False
    then have "snd (handleTransaction E raw n) = n"
      by (auto simp: handleTransaction_def acceptable_def st_bind_def split: go.splits)
    then show ?thesis using n by simp
  qed
qed

lemma keeps_handleTx: "keeps (undisturbed E md db bc) (SyncService_handleTx E raw)"
proof (rule keepsI)
  fix n
  assume n: "undisturbed E md db bc n"
  have idle: "idle (w_mem (n_world n))" using n by (simp add: undisturbed_def)
  show "undisturbed E md db bc (snd (SyncService_handleTx E raw n))"
  proof (cases "\<exists>m. TransactionMsg_Unmarshal raw = Ok m \<and> acceptable E (tm_Tx m)
      \<and> (\<forall>x\<in>set (nodes_of (tm_Origins m)). NodeInfo_Verify x \<and> Ip4 x \<noteq> Ip4 (info (sy_p2p (n_sync n))))")
    case True
    then obtain m where m: "TransactionMsg_Unmarshal raw = Ok m" "acceptable E (tm_Tx m)"
        "\<forall>x\<in>set (nodes_of (tm_Origins m)). NodeInfo_Verify x \<and> Ip4 x \<noteq> Ip4 (info (sy_p2p (n_sync n)))" by blast
    from handleTx_new [OF idle m(2,1,3)] show ?thesis using undisturbed_take_in [OF n m(2)] n by simp
  next
    case False
    then have "snd (SyncService_handleTx E raw n) = n"
      by (auto simp: SyncService_handleTx_def acceptable_def TransactionMsg_Verify_def st_bind_def list_all_iff list_ex_iff IsSameIp_def
          split: go.splits if_splits)
    then show ?thesis using n by simp
  qed
qed

lemma keeps_handleBlockReq: "keeps (undisturbed E md db bc) (handleBlockReq E' raw)"
  unfolding handleBlockReq_def
  by (rule keepsI) (auto simp: st_bind_def on_world_def on_db_def on_sync_def sync_p2p_def undisturbed_def split: prod.splits go.splits option.splits)

lemma keeps_inbound: "keeps (undisturbed E md db bc) (sync_inbound E raw)"
  unfolding handleInbound_def handleSyncMessage_def
  by (intro keeps_intros keeps_sync keeps_handleTx keeps_handleBlockReq)

lemma keeps_handleCall: "keeps (undisturbed E md db bc) (handleCall E' raw)"
  unfolding handleCall_def
  by (rule keepsI) (auto simp: on_world_def on_db_def undisturbed_def split: prod.splits go.splits option.splits)

lemma keeps_handleRequest: "keeps (undisturbed E md db bc) (handleRequest E buff)"
  unfolding handleRequest_def by (intro keeps_intros keeps_handleTransaction keeps_handleCall)

lemma keeps_handleRpc: "keeps (\<lambda>(n, c). undisturbed E md db bc n) (handleRpc E)"
proof -
  have s: "keeps (\<lambda>(n, c). undisturbed E md db bc n) (on_snd m)" for m :: "(Conn, 'x) comp"
    by (auto simp: keeps_def on_snd_def split: prod.splits)
  have f: "keeps (undisturbed E md db bc) m \<Longrightarrow> keeps (\<lambda>(n, c). undisturbed E md db bc n) (on_fst m)" for m
    by (auto simp: keeps_def on_fst_def split: prod.splits)
  show ?thesis unfolding handleRpc_def by (intro keeps_intros s f keeps_handleRequest)
qed

text \<open>
  C19: Whatever bytes clients and peers send, in whatever pieces, and however the handlers end: the
  accounts in memory, the database and the place in the chain stay as they are, the memory service
  stays ready, and the mempool holds only transactions that verify and carry a call that verifies.
  Only blocks change accounts.
\<close>

theorem inputs_only_feed_mempool:
  assumes "undisturbed E md db bc n"
  shows "undisturbed E md db bc (fst (snd (handleRpc E (n, c)))) \<and> undisturbed E md db bc (snd (sync_inbound E raw n))"
proof
  have "case snd (handleRpc E (n, c)) of (n', c') \<Rightarrow> undisturbed E md db bc n'"
    using keeps_handleRpc [of E md db bc, unfolded keeps_def, THEN spec, of "(n, c)"] assms by simp
  then show "undisturbed E md db bc (fst (snd (handleRpc E (n, c))))" by (simp add: case_prod_beta)
  show "undisturbed E md db bc (snd (sync_inbound E raw n))" using keeps_inbound assms unfolding keeps_def by blast
qed

subsection \<open>Two transfers at once\<close>

text \<open>Two transfers with the same nonce in one block: the second one is not executable any more.\<close>

lemma same_nonce_hangs:
  assumes "node_ok E w" "b58_ok E" "ledger_ok (led w)" "db_decodes E (w_db w)" "generator_ok f" "callers_ok [tx1, tx2]"
    "action_of f tx1 = Transfer a n t1 x1" "action_of f tx2 = Transfer a n t2 x2" "a \<noteq> t1"
    "led w (b58_Encode E a) = Some s" "as_Nonce s = n" "led w (b58_Encode E t1) \<noteq> None" "unat x1 \<le> unat (as_Balance s)"
  shows "fst (ExecuteNow E f [tx1, tx2] w) = Blocked"
proof -
  let ?enc = "b58_Encode E" and ?sto = "db_state E (w_db w)"
  obtain t where t: "led w (?enc t1) = Some t" using assms(12) by blast
  have ne: "?enc a \<noteq> ?enc t1" using assms(9) b58_inj [OF assms(2)] by simp
  let ?L = "(led w)(?enc a \<mapsto> s\<lparr>as_Nonce := as_Nonce s + 1, as_Balance := as_Balance s - x1\<rparr>,
     ?enc t1 \<mapsto> t\<lparr>as_Balance := as_Balance t + x1\<rparr>)"
  have "ledger_transfer (?enc a) n (?enc t1) x1 (led w) = (Ok (), ?L)"
    by (rule ledger_transfer_effect [OF assms(3) ne assms(10) t assms(11,13)])
  then have l: "ledger_tx ?enc ?sto f tx1 [] (led w) = Some (add_keys [a, t1] [], tx1\<lparr>tx_Status := True\<rparr>, ?L)"
    using assms(7,10,11) by (simp add: ledger_tx_def Let_def nonce_ready_def)
  note callers = callers_not_nil [OF assms(6)]
  obtain ms' where ms': "node_ok E (w\<lparr>w_mem := ms'\<rparr>)" "mem_state (stateMem ms') = ?L"
      "ExecuteNow_loop E f [tx1, tx2] [] w = continue E f [tx2] (add_keys [a, t1] []) (tx1\<lparr>tx_Status := True\<rparr>) (w\<lparr>w_mem := ms'\<rparr>)"
    using ExecuteNow_loop_step [OF assms(1), where tx = tx1 and f = f and ks = "[]" and txs = "[tx2]"] callers l by auto
  have keys: "\<forall>k\<in>set (act_keys (action_of f tx2)). is_Ok (db_state E (w_db w) k)"
    using assms(4-6) act_keys_size [of tx2 f] by (auto simp: db_decodes_def callers_ok_def)
  have "\<not> act_ready ?enc (action_of f tx2) ?L" using assms(8,11) ne by (simp add: nonce_ready_def)
  then have "fst (ExecuteNow_loop E f [tx2] (map Some (add_keys [a, t1] [])) (w\<lparr>w_mem := ms'\<rparr>)) = Blocked"
    by (intro ExecuteNow_loop_hangs [OF ms'(1)]) (use callers keys ms'(2) assms(8) in auto)
  then show ?thesis using ms'(3)
    by (auto simp: ExecuteNow_def continue_def st_bind_def simp del: ExecuteNow_loop.simps split: prod.splits go.splits)
qed

lemma ledger_world_take_in:
  "node_ok E (n_world (take_in E tx os n)) \<longleftrightarrow> node_ok E (n_world n)" "idle (w_mem (n_world (take_in E tx os n))) \<longleftrightarrow> idle (w_mem (n_world n))"
  by (simp_all add: take_in_def node_ok_def idle_def)

lemma two_of_two:
  assumes "mset ts \<subseteq># mset [x, y]" "length ts = 2"
  shows "ts = [x, y] \<or> ts = [y, x]"
proof -
  have "mset ts = mset [x, y]" using assms by (metis mset_subset_size size_mset subset_mset.le_imp_less_or_eq less_irrefl length_Cons list.size(3) numeral_2_eq_2)
  moreover obtain a b where "ts = [a, b]" using assms(2) by (auto simp: numeral_2_eq_2 length_Suc_conv)
  ultimately show ?thesis by (auto simp: add_eq_conv_ex)
qed

text \<open>A client whose account the node knows, and a transfer that account can pay.\<close>

definition client_ready :: "('d, 'z) senv_scheme \<Rightarrow> Client \<Rightarrow> bytes \<Rightarrow> AccountState \<Rightarrow> 'd node \<Rightarrow> bool" where
  "client_ready E c pk st n \<longleftrightarrow> keypair_ok E (wa_keyPair (cl_wallet c)) \<and> Wallet_PublicKey (cl_wallet c) = Some pk
     \<and> node_ok E (n_world n) \<and> account_entry E (w_db (n_world n)) pk st \<and> led (n_world n) (b58_Encode E pk) = Some st"

definition payable :: "'z lib_scheme \<Rightarrow> bytes \<Rightarrow> AccountState \<Rightarrow> ledger \<Rightarrow> int64 \<Rightarrow> uint64 \<Rightarrow> string \<Rightarrow> bool" where
  "payable E pk st L now x to \<longleftrightarrow> 0 < sint now \<and> 0 < x \<and> x < GeneratorBalance \<and> unat x \<le> unat (as_Balance st)
     \<and> length (b58_Decode E to) = 32 \<and> pk \<noteq> b58_Decode E to \<and> L (b58_Encode E (b58_Decode E to)) \<noteq> None"

text \<open>How the node answers a transfer.\<close>

lemma transfer_answer:
  assumes "hash_ok E" "client_ready E c pk st n" "payable E pk st (led (n_world n)) now x to"
  obtains tx where "signed_call E c st Rpc_Transfer (Marshal TransferParam_to_json (NewTransferParam x (Some (b58_Decode E to)))) now tx"
    "Client_Transfer E (node_remote E) now x to port (n, c)
       = (if MemoryService_ContainsTx E (tx_Hash tx) (w_mem (n_world n)) then (Ok '''', (n, informed st c))
          else (Ok ''ok'', (take_in E tx [] n, informed st c)))"
    "client_ready E (informed st c) pk st (take_in E tx [] n)"
    "action_of f tx = Transfer pk (as_Nonce st) (b58_Decode E to) x" "slice_len (td_PublicKey (tx_InnerData tx)) = 32"
proof -
  have c: "keypair_ok E (wa_keyPair (cl_wallet c))" "Wallet_PublicKey (cl_wallet c) = Some pk" "node_ok E (n_world n)"
      "account_entry E (w_db (n_world n)) pk st" "led (n_world n) (b58_Encode E pk) = Some st"
    using assms(2) by (simp_all add: client_ready_def)
  have w: "bucket_ok accountsBucket (w_db (n_world n))" "idle (w_mem (n_world n))" using c(3) by (simp_all add: node_ok_def)
  have p: "0 < sint now" "0 < x" "x < GeneratorBalance" "length (b58_Decode E to) = 32" using assms(3) by (simp_all add: payable_def)
  obtain tx pk' where tx: "signed_call E c st Rpc_Transfer (Marshal TransferParam_to_json (NewTransferParam x (Some (b58_Decode E to)))) now tx"
    "acceptable E tx" "length (Marshal Transaction_to_json tx) \<le> 1000" "Wallet_PublicKey (cl_wallet c) = Some pk'" "length pk' = 32"
    "action_of f tx = Transfer pk' (as_Nonce st) (b58_Decode E to) x" "td_PublicKey (tx_InnerData tx) = Some pk'"
    by (rule transfer_signed [OF c(1) assms(1) p])
  have pk: "pk' = pk" using tx(4) c(2) by simp
  have "client_ready E (informed st c) pk st (take_in E tx [] n)" using c
    by (simp add: client_ready_def take_in_sel ledger_world_take_in informed_def Wallet_Init_def Wallet_PublicKey_def)
  then show thesis using that [of tx] tx(1,5-7) pk submit_node [OF w tx(4,5) _ tx(1-3), of port] c(4) by (simp add: Client_Transfer_def)
qed

lemma take_two:
  assumes "env_ok E" "pool mp = [(k1, tx1), (k2, tx2)]"
  shows "Mempool_GetTxsForBlock E mp = Ok (Some [tx1, tx2]) \<or> Mempool_GetTxsForBlock E mp = Ok (Some [tx2, tx1])"
proof -
  obtain ts k where ts: "Mempool_GetTxsForBlock E mp = Ok (Some ts)" "length ts = 2 ^ k"
      "2 ^ k \<le> (2::nat)" "2 < (2::nat) ^ Suc k" "mset ts \<subseteq># mset [tx1, tx2]"
    using GetTxsForBlock_cases [OF assms(1), of mp] assms(2) by auto
  have "\<not> 2 \<le> k" using ts(3) power_increasing [of 2 k "2::nat"] by auto
  moreover have "k \<noteq> 0" using ts(4) by (cases k) auto
  ultimately have "k = 1" by simp
  then show ?thesis using two_of_two [OF ts(5)] ts(1,2) by auto
qed

text \<open>The transfer a client signs when the database tells it the state \<open>st\<close>.\<close>

abbreviation signed_transfer :: "'z lib_scheme \<Rightarrow> Client \<Rightarrow> AccountState \<Rightarrow> int64 \<Rightarrow> uint64 \<Rightarrow> string \<Rightarrow> Transaction \<Rightarrow> bool" where
  "signed_transfer E c st now x to tx \<equiv> signed_call E c st Rpc_Transfer (Marshal TransferParam_to_json (NewTransferParam x (Some (b58_Decode E to)))) now tx"

lemma signed_informed [simp]: "signed_call E (informed st c) st kind para now tx = signed_call E c st kind para now tx"
  by (simp add: signed_call_def informed_def Wallet_Init_def)


end
