(* ===== verification/SyncSafe.thy ===== *)
theory SyncSafe
  imports Node
begin

text \<open>
  What a node can rely on while it synchronises with peers it does not trust: whatever messages
  arrive and in whatever order the loop, the timer and the handlers run, the chain and the database grow only by
  verified blocks that are linked to the chain.
\<close>

subsection \<open>Frames\<close>

lemma on_world_frame: "on_world m n = (r, n') \<Longrightarrow> \<exists>w. n' = n\<lparr>n_world := w\<rparr>"
  by (auto simp: on_world_def split: prod.splits)

lemma on_sync_frame: "on_sync m n = (r, n') \<Longrightarrow> \<exists>s. m (n_sync n) = (r, s) \<and> n' = n\<lparr>n_sync := s\<rparr>"
  by (auto simp: on_sync_def split: prod.splits)

lemma st_bind_Ok_frame:
  assumes "st_bind m f s = (Ok b, s2)"
  obtains a s1 where "m s = (Ok a, s1)" "f a s1 = (Ok b, s2)"
  using assms by (auto simp: st_bind_Ok)

subsection \<open>One block\<close>

text \<open>
  What is checked of a block before it is stored: its own verification, with the signatures of the
  producer and of the senders, and its link to the chain, which is the height, the previous hash, and the
  hash over its content.
\<close>

definition link_ok :: "'z lib_scheme \<Rightarrow> Blockchain \<Rightarrow> Block \<Rightarrow> bool" where
  "link_ok E bc b \<longleftrightarrow> Block_Verify E b = Ok True \<and> CheckBlockInfo bc b \<and> CheckBlockHash E bc b (bytes_of (bl_StateHash b)) = Ok True"

text \<open>Execution writes statuses only, which the verification does not look at, and no database.\<close>

lemma on_mem_frame: "on_mem m w = (r, w') \<Longrightarrow> w_db w' = w_db w"
  by (auto simp: on_mem_def split: prod.splits)

lemma on_db_frame: "on_db m w = (r, w') \<Longrightarrow> \<exists>db. m (w_db w) = (r, db) \<and> w' = w\<lparr>w_db := db\<rparr>"
  by (auto simp: on_db_def split: prod.splits)

lemma db_Update_same: "db_Update E name Ok db = (r, db') \<Longrightarrow> db' = db"
  by (auto simp: db_Update_def db_View_def AList_update_same split: option.splits)

lemma db_Update_other: "db_Update E name f db = (r, db') \<Longrightarrow> other \<noteq> name \<Longrightarrow> bucket_get E other db' = bucket_get E other db"
  by (auto simp: db_Update_def bucket_update split: option.splits go.splits)

lemma FetchAccounts_db:
  assumes "FetchAccounts E ks w = (Ok u, w')"
  shows "w_db w' = w_db w"
proof -
  obtain b chs w1 v w2 where r: "on_mem (fetch_loop E b ks) w = (Ok chs, w1)" "on_db (db_Update E accountsBucket Ok) w1 = (Ok v, w2)"
      "on_mem (recv_all E chs) w2 = (Ok u, w')"
    using assms unfolding FetchAccounts_def by (auto simp: st_bind_Ok)
  have "w_db w2 = w_db w1" using on_db_frame [OF r(2)] by (auto dest: db_Update_same)
  with on_mem_frame [OF r(1)] on_mem_frame [OF r(3)] show ?thesis by simp
qed

lemma ExecuteNow_loop_same:
  "ExecuteNow_loop E f txs ex w = (Ok (ex', ts), w') \<Longrightarrow> w_db w' = w_db w
     \<and> list_all2 (\<lambda>t u. tx_InnerData u = tx_InnerData t \<and> tx_Hash u = tx_Hash t) txs ts"
proof (induction txs arbitrary: ex ts w)
  case (Cons tx txs)
  obtain res ms where x: "executeTx E f tx ex (w_mem w) = (res, ms)" by fastforce
  have more: "\<exists>v u ts'. ExecuteNow_loop E f txs ex1 v = (Ok (ex', ts'), w') \<and> w_db v = w_db w \<and> ts = u # ts'
      \<and> tx_InnerData u = tx_InnerData tx \<and> tx_Hash u = tx_Hash tx \<Longrightarrow> ?case" for ex1
    using Cons.IH by fastforce
  show ?case
  proof (cases res)
    case None
    with Cons.prems x show ?thesis by (intro more [of ex] exI [of _ "w\<lparr>w_mem := ms\<rparr>"]) (auto simp: st_bind_Ok)
  next
    case (Some a)
    obtain r ex1 dirty where a: "a = (r, ex1, dirty)" by (cases a)
    show ?thesis
    proof (cases r)
      case (Err e)
      with Cons.prems x Some a show ?thesis
        by (intro more [of ex1]) (fastforce simp: st_bind_Ok Executer_revert_def dest: FetchAccounts_db split: prod.splits go.splits)
    qed (use Cons.prems x Some a in \<open>(intro more [of ex1])?; fastforce simp: st_bind_Ok\<close>)+
  qed
qed simp

lemma verifyAll_same:
  "list_all2 (\<lambda>t u. tx_InnerData u = tx_InnerData t \<and> tx_Hash u = tx_Hash t) txs ts \<Longrightarrow> verifyAll E ts = verifyAll E txs"
proof (induction rule: list_all2_induct)
  case (Cons t txs u ts)
  then have "Transaction_Verify E u = Transaction_Verify E t" by (intro Transaction_Verify_cong) simp_all
  with Cons show ?case by (simp split: go.split)
qed simp

lemma Block_Verify_statuses:
  assumes "list_all2 (\<lambda>t u. tx_InnerData u = tx_InnerData t \<and> tx_Hash u = tx_Hash t) (txs_of (bl_Bundle b)) ts"
  shows "Block_Verify E (b\<lparr>bl_Bundle := \<lparr>Transactions = map_option (\<lambda>_. ts) (Transactions (bl_Bundle b))\<rparr>\<rparr>) = Block_Verify E b"
proof (cases "Transactions (bl_Bundle b)")
  case (Some txs)
  then have "txs = [] \<longleftrightarrow> ts = []" "verifyAll E ts = verifyAll E txs" using assms verifyAll_same by (auto simp: txs_of_def)
  with Some show ?thesis by (simp add: Block_Verify_def TxBundle_Verify_def)
qed (simp add: Block_Verify_def TxBundle_Verify_def)

lemma PushAccounts_blocks:
  assumes "PushAccounts E ks w = (Ok (), w')"
  shows "bucket_get E blocksBucket (w_db w') = bucket_get E blocksBucket (w_db w)"
proof -
  have ne: "blocksBucket \<noteq> accountsBucket" by (simp add: accountsBucket_def blocksBucket_def)
  obtain chs w1 b where w1: "on_mem (push_requests E ks) w = (Ok chs, w1)" "map_of (innerDb (w_db w1)) accountsBucket = Some b"
    using assms unfolding PushAccounts_def st_bind_Ok by (auto split: option.splits)
  obtain r ms b' where p: "push_loop E (zip ks chs) (w_mem w1, b) = (r, ms, b')" by (cases "push_loop E (zip ks chs) (w_mem w1, b)") auto
  then have r: "on_mem (push_requests E ks) w = (Ok chs, w1)" "on_db (db_Update E accountsBucket (\<lambda>_. Ok b')) (w1\<lparr>w_mem := ms\<rparr>) = (Ok (), w')"
    using assms w1 unfolding PushAccounts_def st_bind_Ok by (cases r; auto)+
  from on_db_frame [OF r(2)] db_Update_other [OF _ ne] on_mem_frame [OF r(1)] show ?thesis by auto
qed

lemma sync_execute_cases:
  assumes "sync_execute E blk n = (Ok r, n')"
    and "Block_Verify E blk = Ok True"
  shows "blockchain n' = blockchain n \<and> stores E [] n n' \<and> (case r of None \<Rightarrow> n_sync n' = stopSync (n_sync n)
    | Some b \<Rightarrow> link_ok E (blockchain n) b \<and> n_sync n' = n_sync n)"
proof (cases "CheckBlockInfo (blockchain n) blk")
  case True
  then obtain ex ts n1 where e: "on_world (ExecuteNow E (faucet n) (txs_of (bl_Bundle blk))) n = (Ok (ex, ts), n1)"
    and rest: "(let blk = blk\<lparr>bl_Bundle := \<lparr>Transactions = map_option (\<lambda>_. ts) (Transactions (bl_Bundle blk))\<rparr>\<rparr> in
        st_bind (st_out (CheckStateHash E blk (w_mem (n_world n1)))) (\<lambda>(ok, state).
          if \<not> ok then st_bind giveUp (\<lambda>_. st_out (Ok None))
          else st_bind (st_out (CheckBlockHash E (blockchain n1) blk state)) (\<lambda>ok.
            if \<not> ok then st_bind giveUp (\<lambda>_. st_out (Ok None))
            else st_bind (on_world (PushAccounts E ex)) (\<lambda>_. st_out (Ok (Some blk))))) n1) = (Ok r, n')"
    using assms(1) by (auto simp: sync_execute_def st_bind_Ok)
  define b where "b = blk\<lparr>bl_Bundle := \<lparr>Transactions = map_option (\<lambda>_. ts) (Transactions (bl_Bundle blk))\<rparr>\<rparr>"
  have info: "CheckBlockInfo (blockchain n) b" using True by (simp add: b_def CheckBlockInfo_def split: if_splits)
  obtain w where w: "ExecuteNow E (faucet n) (txs_of (bl_Bundle blk)) (n_world n) = (Ok (ex, ts), w)" and n1: "n1 = n\<lparr>n_world := w\<rparr>"
    using e by (auto simp: on_world_def split: prod.splits)
  have db: "w_db w = w_db (n_world n)" and ver: "Block_Verify E b = Ok True"
    using ExecuteNow_loop_same [OF w [unfolded ExecuteNow_def]] Block_Verify_statuses [of blk ts E] assms(2) by (simp_all add: b_def)
  obtain ok state where st: "CheckStateHash E b (w_mem (n_world n1)) = Ok (ok, state)"
      "(if \<not> ok then st_bind giveUp (\<lambda>_. st_out (Ok None))
        else st_bind (st_out (CheckBlockHash E (blockchain n1) b state)) (\<lambda>ok.
          if \<not> ok then st_bind giveUp (\<lambda>_. st_out (Ok None))
          else st_bind (on_world (PushAccounts E ex)) (\<lambda>_. st_out (Ok (Some b))))) n1 = (Ok r, n')"
    using rest unfolding Let_def b_def [symmetric] by (auto simp: st_bind_Ok)
  have state: "ok \<Longrightarrow> state = bytes_of (bl_StateHash b)"
    using st(1) by (auto simp: CheckStateHash_def bytes_Equal_def)
  show ?thesis
  proof (cases ok)
    case False
    with st(2) n1 db show ?thesis by (auto simp: st_bind_Ok stores_def)
  next
    case okT: True
    then obtain ok2 where ok2: "CheckBlockHash E (blockchain n) b state = Ok ok2"
        "(if \<not> ok2 then st_bind giveUp (\<lambda>_. st_out (Ok None))
          else st_bind (on_world (PushAccounts E ex)) (\<lambda>_. st_out (Ok (Some b)))) n1 = (Ok r, n')"
      using st(2) n1 by (auto simp: st_bind_Ok)
    show ?thesis
    proof (cases ok2)
      case True
      then obtain n2 where "on_world (PushAccounts E ex) n1 = (Ok (), n2)" "n' = n2" "r = Some b"
        using ok2(2) by (auto simp: st_bind_Ok)
      moreover from this(1) obtain w2 where "PushAccounts E ex w = (Ok (), w2)" "n2 = n1\<lparr>n_world := w2\<rparr>"
        using n1 by (auto simp: on_world_def split: prod.splits)
      ultimately show ?thesis using n1 ok2(1) True info state [OF okT] ver db PushAccounts_blocks [of E ex w] by (auto simp: link_ok_def stores_def)
    next
      case False
      with ok2(2) n1 db show ?thesis by (auto simp: st_bind_Ok stores_def)
    qed
  qed
next
  case False
  with assms(1) show ?thesis by (auto simp: sync_execute_def st_bind_Ok stores_def)
qed

lemma OnBlockStored_frame:
  assumes "OnBlockStored E now b n = (Ok (), n')" "bi_Height (bl_Info b) \<noteq> 0"
  shows "blockchain n' = Blockchain_Increment (bi_Hash (bl_Info b)) (blockchain n) \<and> n_sync n' = n_sync n \<and> n_world n' = n_world n"
  using assms by (auto simp: OnBlockStored_def st_bind_Ok)

lemma sync_block_cases:
  assumes "sync_block E (OnBlockStored E now) blk n = (Ok ok, n')" "0 < bi_Height (bl_Info blk)"
    "Block_Verify E blk = Ok True" "bolt_ok E" "bolt_refuses E"
  shows "if ok then (\<exists>b. link_ok E (blockchain n) b \<and> n_sync n' = n_sync n \<and> stores E [b] n n'
           \<and> blockchain n' = Blockchain_Increment (bi_Hash (bl_Info b)) (blockchain n))
     else blockchain n' = blockchain n \<and> n_sync n' = stopSync (n_sync n) \<and> stores E [] n n'"
proof -
  obtain r n1 where x: "sync_execute E blk n = (Ok r, n1)"
    and rest: "(case r of None \<Rightarrow> st_out (Ok False)
       | Some blk \<Rightarrow>
           st_bind (on_world (on_db (StorageService_Put E BlocksBucket (Some (BlockContent blk))))) (\<lambda>_.
           st_bind (OnBlockStored E now blk) (\<lambda>_. st_out (Ok True)))) n1 = (Ok ok, n')"
    using assms(1,2) by (auto simp: sync_block_def st_bind_Ok)
  note sx = sync_execute_cases [OF x assms(3)]
  show ?thesis
  proof (cases r)
    case None
    with sx rest show ?thesis by simp
  next
    case (Some b)
    then have b: "link_ok E (blockchain n) b" "blockchain n1 = blockchain n" "n_sync n1 = n_sync n" "stores E [] n n1"
      using sx by simp_all
    from rest Some obtain v n2 where p: "on_world (on_db (StorageService_Put E BlocksBucket (Some (BlockContent b)))) n1 = (Ok v, n2)"
        "OnBlockStored E now b n2 = (Ok (), n')" ok
      by (auto simp: st_bind_Ok)
    then obtain db where db: "StorageService_put E BlocksBucket (Some (BlockContent b)) (w_db (n_world n1)) = (Ok (), db)"
        "n2 = n1\<lparr>n_world := (n_world n1)\<lparr>w_db := db\<rparr>\<rparr>"
      by (auto simp: on_world_def on_db_def StorageService_Put_def StorageService_run_def st_bind_Ok split: prod.splits)
    have "slice_len (bi_Hash (bl_Info b)) = 32"
      using b(1) by (auto simp: link_ok_def Block_Verify_def BlockInfo_Verify_def go_and_def HashSize_def split: if_splits)
    from put_block_Ok(2) [OF assms(4,5) this db(1)] have st: "stores E [b] n n2" using b(4) db(2) by (simp add: stores_def)
    have "bi_Height (bl_Info b) \<noteq> 0"
    proof -
      have "\<exists>bl. b = blk\<lparr>bl_Bundle := bl\<rparr>"
        using x Some by (auto simp: sync_execute_def st_bind_Ok Let_def split: if_splits)
      then show ?thesis using assms(2) by auto
    qed
    from OnBlockStored_frame [OF p(2) this] db(2) b p(3) st show ?thesis by (auto simp: stores_def)
  qed
qed

subsection \<open>Rounds, whatever the target is\<close>

lemma heights_Suc: "heights c (Suc k) = heights c k @ [c + of_nat k]"
  by (simp add: heights_def)

lemma requests_any:
  assumes "chs s = Some (map (\<lambda>h. (h, [])) (heights c j))" "j + length is \<le> 2 ^ 64" "\<forall>i\<in>set is. i < LenPeers (sy_p2p s)"
  shows "\<exists>k ps. requests t is (c + of_nat j) s
       = (Ok (c + of_nat (j + k)), s\<lparr>sy_p2p := ps, chs := Some (map (\<lambda>h. (h, [])) (heights c (j + k)))\<rparr>)
     \<and> peers ps = peers (sy_p2p s) \<and> info ps = info (sy_p2p s)"
  using assms
proof (induction "is" arbitrary: j s)
  case Nil
  then show ?case by (auto intro!: exI [of _ 0] exI [of _ "sy_p2p s"])
next
  case (Cons i "is")
  define c1 where "c1 = c + of_nat j"
  let ?s = "s\<lparr>chs := Some (map (\<lambda>h. (h, [])) (heights c (Suc j)))\<rparr>"
  let ?ps = "P2pService_Send (peers (sy_p2p s) ! i)
     (PackPayload BlockRequestMsg_to_json \<lparr>bq_From = info (sy_p2p s), bq_Height = c1\<rparr> [SyncMessage, BlockRequestMessage]) (sy_p2p s)"
  have "c1 \<notin> set (heights c j)" using distinct_heights [of "Suc j" c] Cons.prems(2) by (simp add: heights_Suc c1_def del: heights_simps(2))
  then have upd: "AList.update c1 ([] :: Block go list) (map (\<lambda>h. (h, [])) (heights c j)) = map (\<lambda>h. (h, [])) (heights c (Suc j))"
    by (simp add: update_new image_image heights_Suc c1_def del: heights_simps(2))
  have req: "blockRequest c1 i ?s = (Ok (), ?s\<lparr>sy_p2p := ?ps\<rparr>)"
    using blockRequest_eval [of i ?s c1] Cons.prems(3) by simp
  have nxt: "c1 + 1 = c + of_nat (Suc j)" by (simp add: c1_def add.assoc add.commute)
  have step: "requests t (i # is) c1 s = (if c1 + 1 > t then (Ok (c1 + 1), ?s\<lparr>sy_p2p := ?ps\<rparr>)
      else requests t is (c1 + 1) (?s\<lparr>sy_p2p := ?ps\<rparr>))"
    using req upd Cons.prems(1) by (simp del: heights_simps(2))
  show ?case
  proof (cases "c1 + 1 > t")
    case True
    with step nxt show ?thesis unfolding c1_def [symmetric]
      by (intro exI [of _ 1] exI [of _ ?ps]) (simp del: heights_simps(2) of_nat_Suc requests.simps)
  next
    case False
    obtain k ps where "requests t is (c + of_nat (Suc j)) (?s\<lparr>sy_p2p := ?ps\<rparr>)
       = (Ok (c + of_nat (Suc j + k)), ?s\<lparr>sy_p2p := ps, chs := Some (map (\<lambda>h. (h, [])) (heights c (Suc j + k)))\<rparr>)"
       "peers ps = peers (sy_p2p s)" "info ps = info (sy_p2p s)"
      using Cons.IH [of "?s\<lparr>sy_p2p := ?ps\<rparr>" "Suc j"] Cons.prems by (auto simp: LenPeers_def simp del: heights_simps(2) of_nat_Suc)
    with False step nxt show ?thesis unfolding c1_def [symmetric]
      by (intro exI [of _ "Suc k"] exI [of _ ps]) (simp del: heights_simps(2) of_nat_Suc requests.simps)
  qed
qed

subsection \<open>Messages\<close>

text \<open>
  A message changes the peers as the service does, or leaves a block on the channel of its height. The
  block is verified, unless it claims to be the first one.
\<close>

definition verified :: "'z lib_scheme \<Rightarrow> Block \<Rightarrow> bool" where
  "verified E b \<longleftrightarrow> bi_Height (bl_Info b) = 0 \<or> Block_Verify E b = Ok True"

definition sync_same :: "'z lib_scheme \<Rightarrow> SyncService \<Rightarrow> SyncService \<Rightarrow> bool" where
  "sync_same E s s' \<longleftrightarrow> (\<exists>ps. p2p_step\<^sup>*\<^sup>* (sy_p2p s) ps \<and> s' = s\<lparr>sy_p2p := ps\<rparr>)
     \<or> (\<exists>b. verified E b \<and> s' = chan_send (bi_Height (bl_Info b)) (Ok b) s)"

lemma sync_same_refl: "sync_same E s s"
  unfolding sync_same_def by (rule disjI1) (auto intro!: exI [of _ "sy_p2p s"])

lemma sync_same_step: "p2p_step (sy_p2p s) ps \<Longrightarrow> sync_same E s (s\<lparr>sy_p2p := ps\<rparr>)"
  unfolding sync_same_def by blast

lemma sync_same_send: "bi_Height (bl_Info b) = h \<Longrightarrow> verified E b \<Longrightarrow> sync_same E s (chan_send h (Ok b) s)"
  unfolding sync_same_def by blast

lemma handleTx_frame:
  assumes "SyncService_handleTx E raw n = (Ok (), n')"
  shows "blockchain n' = blockchain n \<and> sync_same E (n_sync n) (n_sync n') \<and> w_db (n_world n') = w_db (n_world n)"
  using assms
  by (auto simp: SyncService_handleTx_def st_bind_Ok BroadcastTx_def Let_def on_sync_def sync_p2p_def on_world_def on_mem_def
      sync_same_refl intro!: sync_same_step p2p_step.broadcast split: if_splits go.splits prod.splits)

lemma handleBlockReq_frame:
  assumes "handleBlockReq E raw n = (Ok (), n')"
  shows "blockchain n' = blockchain n \<and> sync_same E (n_sync n) (n_sync n') \<and> w_db (n_world n') = w_db (n_world n)"
  using assms
  by (auto simp: handleBlockReq_def st_bind_Ok on_sync_def sync_p2p_def on_world_def on_db_def StorageService_Get_def StorageService_run_def
      sync_same_refl intro!: sync_same_step p2p_step.send split: if_splits option.splits prod.splits)

lemma handleBlockRes_frame:
  assumes "handleBlockRes E raw s = (Ok (), s')"
  shows "sync_same E s s'"
  using assms
  by (auto simp: handleBlockRes_def st_bind_Ok Let_def sync_same_refl verified_def BlockResponseMsg_Verify_def go_and_def
      intro!: sync_same_send split: if_splits option.splits)

lemma p2p_handler_frame:
  fixes E :: "'z lib_scheme"
  assumes "on_sync (sync_p2p m) n = (r, n')" "\<And>ps. p2p_step ps (snd (m ps))"
  shows "blockchain n' = blockchain n \<and> sync_same E (n_sync n) (n_sync n') \<and> w_db (n_world n') = w_db (n_world n)"
  using assms(1) sync_same_step [OF assms(2), of E "n_sync n"] by (auto simp: on_sync_def sync_p2p_def split: prod.splits)

lemma handleSyncMessage_cases:
  assumes "handleSyncMessage E raw n = (Ok (), n')"
  shows "n' = n \<or> SyncService_handleTx E (drop 2 raw) n = (Ok (), n') \<or> handleBlockReq E (drop 2 raw) n = (Ok (), n')
    \<or> on_sync (handleBlockRes E (drop 2 raw)) n = (Ok (), n')"
proof -
  from assms obtain k where "go_index raw 0 = Ok k"
    "(if k \<noteq> SyncMessage then st_out (Ok ())
       else st_bind (st_out (go_index raw 1)) (\<lambda>kind.
         if kind = TxMsg then SyncService_handleTx E (drop 2 raw)
         else if kind = BlockRequestMessage then handleBlockReq E (drop 2 raw)
         else if kind = BlockResponseMessage then on_sync (handleBlockRes E (drop 2 raw))
         else st_out (Ok ()))) n = (Ok (), n')"
    unfolding handleSyncMessage_def by (auto simp: st_bind_Ok)
  then show ?thesis
    by (cases "k = SyncMessage"; auto simp: st_bind_Ok split: if_splits)
qed

lemma handleInbound_cases:
  assumes "handleInbound lift h (Ok raw) n = (Ok (), n')"
  shows "n' = n \<or> lift (handleJoin (drop 1 raw)) n = (Ok (), n') \<or> lift (handleWelcome (drop 1 raw)) n = (Ok (), n')
    \<or> h raw n = (Ok (), n')"
proof (cases "length raw > MaxPayloadSize")
  case False
  then obtain k where "(if k = HelloMessage then lift (handleJoin (drop 1 raw))
         else if k = WelcomeMessage then lift (handleWelcome (drop 1 raw))
         else h raw) n = (Ok (), n')"
    using assms by (auto simp: handleInbound_def st_bind_Ok)
  then show ?thesis by (cases "k = HelloMessage"; cases "k = WelcomeMessage") simp_all
qed (use assms in \<open>simp add: handleInbound_def\<close>)

lemma inbound_frame:
  assumes "sync_inbound E raw n = (Ok (), n')"
  shows "blockchain n' = blockchain n \<and> sync_same E (n_sync n) (n_sync n') \<and> w_db (n_world n') = w_db (n_world n)"
proof -
  have "n' = n \<or> on_sync (sync_p2p (handleJoin (drop 1 raw))) n = (Ok (), n')
    \<or> on_sync (sync_p2p (handleWelcome (drop 1 raw))) n = (Ok (), n')
    \<or> SyncService_handleTx E (drop 2 raw) n = (Ok (), n') \<or> handleBlockReq E (drop 2 raw) n = (Ok (), n')
    \<or> on_sync (handleBlockRes E (drop 2 raw)) n = (Ok (), n')"
    using handleInbound_cases [OF assms] handleSyncMessage_cases [of E raw n n'] by blast
  then show ?thesis
  proof (elim disjE)
    assume "n' = n" then show ?thesis by (simp add: sync_same_refl)
  next
    assume "on_sync (sync_p2p (handleJoin (drop 1 raw))) n = (Ok (), n')"
    then show ?thesis by (rule p2p_handler_frame) (rule p2p_step.join)
  next
    assume "on_sync (sync_p2p (handleWelcome (drop 1 raw))) n = (Ok (), n')"
    then show ?thesis by (rule p2p_handler_frame) (rule p2p_step.greeted)
  next
    assume "on_sync (handleBlockRes E (drop 2 raw)) n = (Ok (), n')"
    then show ?thesis using handleBlockRes_frame by (auto dest!: on_sync_frame)
  qed (rule handleTx_frame handleBlockReq_frame; assumption)+
qed

subsection \<open>The invariant of the loop\<close>

text \<open>
  A channel carries verified blocks of its own height only; the loop waits for the next height of the chain,
  and for consecutive heights after it.
\<close>

definition sync_inv :: "'z lib_scheme \<Rightarrow> Blockchain \<Rightarrow> SyncService \<Rightarrow> bool" where
  "sync_inv E bc s \<longleftrightarrow> p2p_ok (sy_p2p s) \<and> (isSyncing s \<longleftrightarrow> sy_loop s \<noteq> None)
     \<and> (\<forall>m h q b. chs s = Some m \<and> (h, q) \<in> set m \<and> Ok b \<in> set q \<longrightarrow> bi_Height (bl_Info b) = h \<and> verified E b)
     \<and> (\<forall>l. sy_loop s = Some l \<longrightarrow> sl_cache l = Blockchain_NextHeight bc \<and> sl_current l = sl_cache l + of_nat (sl_waiting l))"

lemma sync_invD:
  "sync_inv E bc s \<Longrightarrow> chs s = Some m \<Longrightarrow> (h, q) \<in> set m \<Longrightarrow> Ok b \<in> set q \<Longrightarrow> bi_Height (bl_Info b) = h \<and> verified E b"
  "sync_inv E bc s \<Longrightarrow> sy_loop s = Some l \<Longrightarrow> sl_cache l = Blockchain_NextHeight bc"
  "sync_inv E bc s \<Longrightarrow> sy_loop s = Some l \<Longrightarrow> sl_current l = sl_cache l + of_nat (sl_waiting l)"
  "sync_inv E bc s \<Longrightarrow> p2p_ok (sy_p2p s)" "sync_inv E bc s \<Longrightarrow> isSyncing s \<longleftrightarrow> sy_loop s \<noteq> None"
  unfolding sync_inv_def by blast+

lemma sync_inv_stop: "sync_inv E bc s \<Longrightarrow> sync_inv E bc' (stopSync s)"
  by (simp add: sync_inv_def stopSync_def)

lemma sync_inv_same: "sync_same E s s' \<Longrightarrow> sync_inv E bc s \<Longrightarrow> sync_inv E bc s'"
proof -
  assume a: "sync_same E s s'" "sync_inv E bc s"
  from a(1) consider ps where "p2p_step\<^sup>*\<^sup>* (sy_p2p s) ps" "s' = s\<lparr>sy_p2p := ps\<rparr>"
    | b where "s' = chan_send (bi_Height (bl_Info b)) (Ok b) s" "verified E b" unfolding sync_same_def by blast
  then show ?thesis
  proof cases
    case 1
    have "p2p_ok ps" using 1(1) a(2)
      by (induction) (use p2p_step_ok in \<open>auto simp: sync_inv_def\<close>)
    with 1(2) a(2) show ?thesis by (auto simp: sync_inv_def)
  next
    case 2
    from a(2) have i: "p2p_ok (sy_p2p s)" "isSyncing s \<longleftrightarrow> sy_loop s \<noteq> None"
        "\<forall>l. sy_loop s = Some l \<longrightarrow> sl_cache l = Blockchain_NextHeight bc \<and> sl_current l = sl_cache l + of_nat (sl_waiting l)"
      unfolding sync_inv_def by blast+
    have q: "bi_Height (bl_Info b') = h \<and> verified E b'" if "map_option (map (\<lambda>(k, q). if k = bi_Height (bl_Info b) then (k, q @ [Ok b]) else (k, q))) (chs s) = Some m"
      "(h, q) \<in> set m" "Ok b' \<in> set q" for m h q b'
      using that a(2) 2(2) by (force simp: sync_inv_def split: if_splits)
    have chs': "chs s' = map_option (map (\<lambda>(k, q). if k = bi_Height (bl_Info b) then (k, q @ [Ok b]) else (k, q))) (chs s)"
      by (simp add: 2 chan_send_def)
    have "\<forall>m h q b'. chs s' = Some m \<and> (h, q) \<in> set m \<and> Ok b' \<in> set q \<longrightarrow> bi_Height (bl_Info b') = h \<and> verified E b'"
    proof (intro allI impI, elim conjE)
      fix m h r b' assume "chs s' = Some m" and r: "(h, r) \<in> set m" "Ok b' \<in> set r"
      then have "map_option (map (\<lambda>(k, q). if k = bi_Height (bl_Info b) then (k, q @ [Ok b]) else (k, q))) (chs s) = Some m"
        by (simp only: chs')
      from q [OF this r] show "bi_Height (bl_Info b') = h \<and> verified E b'" .
    qed
    moreover have "sy_p2p s' = sy_p2p s" "isSyncing s' = isSyncing s" "sy_loop s' = sy_loop s"
      by (simp_all add: 2 chan_send_def)
    ultimately show ?thesis unfolding sync_inv_def using i by simp
  qed
qed

text \<open>The accepted addresses have four free characters, so there are at most \<open>2^32\<close> peers.\<close>

lemma few_peers: "p2p_ok ps \<Longrightarrow> LenPeers ps \<le> 2 ^ 32"
proof -
  assume ok: "p2p_ok ps"
  let ?A = "(\<lambda>port. ''localhost:'' @ port) ` {port :: string. length port = 4}"
  have "Ip4 ` set (peers ps) \<subseteq> ?A"
  proof
    fix a assume "a \<in> Ip4 ` set (peers ps)"
    then have "length a = 14" "take 10 a = ''localhost:''" using ok by (auto simp: p2p_ok_def NodeInfo_Verify_def)
    then have "a = ''localhost:'' @ drop 10 a" "length (drop 10 a) = 4" by (metis append_take_drop_id, simp)
    then show "a \<in> ?A" by blast
  qed
  moreover have fin: "finite {port :: string. length port = 4}" "card {port :: string. length port = 4} = 2 ^ 32"
    using finite_lists_length_eq [of "UNIV :: char set" 4] card_lists_length_eq [of "UNIV :: char set" 4]
    by (simp_all add: card_UNIV_char)
  ultimately have "card (Ip4 ` set (peers ps)) \<le> card ?A" by (intro card_mono finite_imageI)
  also have "card ?A \<le> 2 ^ 32" using card_image_le [OF fin(1), of "\<lambda>port. ''localhost:'' @ port"] fin(2) by (simp only:)
  finally have "card (Ip4 ` set (peers ps)) \<le> 2 ^ 32" .
  moreover have "card (Ip4 ` set (peers ps)) = length (peers ps)"
    using ok distinct_card [of "map Ip4 (peers ps)"] by (simp add: p2p_ok_def)
  ultimately show ?thesis by (simp add: LenPeers_def)
qed

lemma sync_round_inv:
  assumes "sync_round t (Blockchain_NextHeight bc) s = (Ok (), s')" "p2p_ok (sy_p2p s)" "isSyncing s"
  shows "sync_inv E bc s'"
proof -
  let ?c = "Blockchain_NextHeight bc" and ?s = "s\<lparr>chs := Some []\<rparr>"
  have "LenPeers (sy_p2p s) \<le> 2 ^ 64" using few_peers [OF assms(2)] by simp
  with requests_any [of ?s ?c 0 "[0..<LenPeers (sy_p2p s)]" t]
  obtain k ps where k: "requests t [0..<LenPeers (sy_p2p s)] ?c ?s
       = (Ok (?c + of_nat k), ?s\<lparr>sy_p2p := ps, chs := Some (map (\<lambda>h. (h, [])) (heights ?c k))\<rparr>)"
     "peers ps = peers (sy_p2p s)" "info ps = info (sy_p2p s)" by auto
  have "s' = s\<lparr>sy_p2p := ps, chs := Some (map (\<lambda>h. (h, [])) (heights ?c k)),
      sy_loop := Some \<lparr>sl_target = t, sl_current = ?c + of_nat k, sl_cache = ?c, sl_waiting = k\<rparr>\<rparr>"
    using assms(1) k(1) by (simp add: sync_round_def)
  with assms(2,3) k(2,3) show ?thesis by (auto simp: sync_inv_def p2p_ok_def)
qed

subsection \<open>Runs\<close>

text \<open>The chain that grows from \<open>bc\<close> by linked blocks.\<close>

inductive grows :: "'z lib_scheme \<Rightarrow> Blockchain \<Rightarrow> Block list \<Rightarrow> Blockchain \<Rightarrow> bool" for E where
  none: "grows E bc [] bc"
| more: "grows E bc bs bc1 \<Longrightarrow> link_ok E bc1 b \<Longrightarrow> grows E bc (bs @ [b]) (Blockchain_Increment (bi_Hash (bl_Info b)) bc1)"

lemma sync_receive_cases:
  assumes "sync_receive E (OnBlockStored E now) l n = (Ok (), n')" "sy_loop (n_sync n) = Some l" "0 < sl_waiting l"
    "sync_inv E (blockchain n) (n_sync n)" "Blockchain_NextHeight (blockchain n) \<noteq> 0" "bolt_ok E" "bolt_refuses E"
  shows "sync_inv E (blockchain n') (n_sync n') \<and> (blockchain n' = blockchain n \<and> stores E [] n n'
    \<or> (\<exists>b. link_ok E (blockchain n) b \<and> stores E [b] n n' \<and> blockchain n' = Blockchain_Increment (bi_Hash (bl_Info b)) (blockchain n)))"
proof -
  let ?bc = "blockchain n" and ?s = "n_sync n"
  obtain b s n1 ok where r: "chan_recv (sl_cache l) ?s = Some (Ok b, s)"
      "sync_block E (OnBlockStored E now) b (n\<lparr>n_sync := s\<rparr>) = (Ok ok, n1)"
      "(if ok then on_sync (st_upd sync_advance) else st_out (Ok ())) n1 = (Ok (), n')"
    using assms(1) by (auto simp: sync_receive_def st_bind_Ok split: option.splits prod.splits)
  obtain m q where m: "chs ?s = Some m" "map_of m (sl_cache l) = Some (Ok b # q)" "s = ?s\<lparr>chs := Some (AList.update (sl_cache l) q m)\<rparr>"
    using r(1) by (auto simp: chan_recv_def split: option.splits list.splits)
  have h: "bi_Height (bl_Info b) = sl_cache l" "sl_cache l = Blockchain_NextHeight ?bc" "verified E b"
    using sync_invD(1) [OF assms(4) m(1) map_of_SomeD [OF m(2)], of b] sync_invD(2) [OF assms(4,2)] by simp_all
  then have pos: "0 < bi_Height (bl_Info b)" using assms(5) by (simp add: word_neq_0_conv)
  have inv: "sync_inv E ?bc s"
  proof -
    have "(h', q') \<in> set (AList.update (sl_cache l) q m) \<Longrightarrow> (h', q') \<in> set m \<or> (h' = sl_cache l \<and> q' = q)" for h' q'
      by (induction m) (auto split: if_splits)
    then show ?thesis using assms(4) m map_of_SomeD [OF m(2)] unfolding sync_inv_def by (auto; fastforce)
  qed
  have "Block_Verify E b = Ok True" using h(3) pos by (auto simp: verified_def)
  note cases = sync_block_cases [OF r(2) pos this assms(6,7)]
  show ?thesis
  proof (cases ok)
    case True
    then obtain b' where b': "link_ok E ?bc b'" "n_sync n1 = s" "blockchain n1 = Blockchain_Increment (bi_Hash (bl_Info b')) ?bc"
        "stores E [b'] n n1"
      using cases by (auto simp: stores_def)
    have n': "blockchain n' = blockchain n1" "n_sync n' = sync_advance s" "n_world n' = n_world n1" using r(3) True b'(2) by auto
    have l: "sy_loop s = Some l" using assms(2) m(3) by simp
    have "sync_inv E (blockchain n1) (sync_advance s)"
      using inv l assms(3) unfolding sync_inv_def b'(3)
      by (auto simp: sync_advance_def Increment_height add.assoc of_nat_diff)
    with n' b' show ?thesis by (auto simp: stores_def)
  next
    case False
    then show ?thesis using cases r(3) sync_inv_stop [OF inv] by (auto simp: stores_def)
  qed
qed

lemma sync_step_safe:
  assumes "sync_step E n n'" "sync_inv E (blockchain n) (n_sync n)" "Blockchain_NextHeight (blockchain n) \<noteq> 0" "bolt_ok E" "bolt_refuses E"
  shows "sync_inv E (blockchain n') (n_sync n') \<and> (blockchain n' = blockchain n \<and> stores E [] n n'
    \<or> (\<exists>b. link_ok E (blockchain n) b \<and> stores E [b] n n' \<and> blockchain n' = Blockchain_Increment (bi_Hash (bl_Info b)) (blockchain n)))"
  using assms
proof cases
  case (inbound raw)
  then show ?thesis using inbound_frame [OF inbound(1)] sync_inv_same assms(2) by (metis stores_def fold_simps(1))
next
  case (start t)
  show ?thesis
  proof (cases "isSyncing (n_sync n)")
    case False
    then obtain s where s: "sync_round t (Blockchain_NextHeight (blockchain n)) ((n_sync n)\<lparr>isSyncing := True\<rparr>) = (Ok (), s)"
        "n' = n\<lparr>n_sync := s\<rparr>"
      using start by (auto simp: StartSync_def st_bind_Ok dest!: on_sync_frame)
    with sync_round_inv [OF s(1)] sync_invD(4) [OF assms(2)] show ?thesis by (simp add: stores_def)
  qed (use start assms(2) in \<open>simp add: StartSync_def stores_def\<close>)
next
  case (receive l)
  then show ?thesis using sync_receive_cases assms(2-5) by blast
next
  case (timeout l)
  then show ?thesis using sync_inv_stop [OF assms(2)] by (simp add: sync_timeout_def stores_def)
next
  case (round_done l)
  have l: "isSyncing (n_sync n)" "sl_current l = Blockchain_NextHeight (blockchain n)"
    using sync_invD(2,3,5) [OF assms(2)] round_done(1,2) by auto
  obtain s where s: "sync_next l (n_sync n) = (Ok (), s)" "n' = n\<lparr>n_sync := s\<rparr>"
    using round_done(3) by (auto dest!: on_sync_frame)
  show ?thesis
  proof (cases "sl_current l > sl_target l")
    case True
    with s sync_inv_stop [OF assms(2)] show ?thesis by (simp add: sync_next_def stores_def)
  next
    case False
    then have "sync_round (sl_target l) (Blockchain_NextHeight (blockchain n)) (n_sync n) = (Ok (), s)"
      using s(1) l(2) by (simp add: sync_next_def)
    from sync_round_inv [OF this sync_invD(4) [OF assms(2)] l(1)] s(2) show ?thesis by (simp add: stores_def)
  qed
qed

lemma grows_height:
  "grows E bc bs bc' \<Longrightarrow> unat (Blockchain_NextHeight bc) + length bs < 2 ^ 64 \<Longrightarrow>
     unat (Blockchain_NextHeight bc') = unat (Blockchain_NextHeight bc) + length bs"
proof (induction rule: grows.induct)
  case (more bc bs bc1 b)
  then show ?case by (simp add: Increment_height unat_next)
qed simp

lemma sync_run_grows:
  assumes "(sync_step E ^^ k) n n'" "sync_inv E (blockchain n) (n_sync n)" "0 < unat (Blockchain_NextHeight (blockchain n))"
    "unat (Blockchain_NextHeight (blockchain n)) + k < 2 ^ 64" "bolt_ok E" "bolt_refuses E"
  shows "sync_inv E (blockchain n') (n_sync n') \<and> (\<exists>bs. grows E (blockchain n) bs (blockchain n') \<and> length bs \<le> k \<and> stores E bs n n')"
  using assms(1,4)
proof (induction k arbitrary: n')
  case 0
  then show ?case using assms(2) grows.none by (fastforce simp: stores_def)
next
  case (Suc k)
  then obtain n1 where n1: "(sync_step E ^^ k) n n1" "sync_step E n1 n'" by auto
  with Suc obtain bs where bs: "sync_inv E (blockchain n1) (n_sync n1)" "grows E (blockchain n) bs (blockchain n1)" "length bs \<le> k"
      "stores E bs n n1"
    by fastforce
  have "unat (Blockchain_NextHeight (blockchain n1)) = unat (Blockchain_NextHeight (blockchain n)) + length bs"
    using grows_height [OF bs(2)] bs(3) Suc.prems(2) by simp
  then have "Blockchain_NextHeight (blockchain n1) \<noteq> 0" using assms(3) by auto
  from sync_step_safe [OF n1(2) bs(1) this assms(5,6)] show ?case
  proof (elim conjE disjE exE)
    assume "sync_inv E (blockchain n') (n_sync n')" "blockchain n' = blockchain n1" "stores E [] n1 n'"
    with bs stores_trans [OF bs(4), of "[]" n'] show ?thesis by fastforce
  next
    fix b assume "sync_inv E (blockchain n') (n_sync n')" "link_ok E (blockchain n1) b" "stores E [b] n1 n'"
      "blockchain n' = Blockchain_Increment (bi_Hash (bl_Info b)) (blockchain n1)"
    with bs stores_trans [OF bs(4), of "[b]" n'] grows.more [OF bs(2)] show ?thesis by (intro conjI exI [of _ "bs @ [b]"]) simp_all
  qed
qed

end
