(* ===== verification/SampleNode.thy ===== *)
theory SampleNode
  imports Sample Sizes SyncSafe
begin

text \<open>
  The sample node of \<open>Sample\<close> with its place in the chain and a synchronisation service that knows one
  peer, and the block its producer makes, with the size of its encoding.
\<close>

definition samplePeer :: NodeInfo where "samplePeer = NewNodeInfo ''3001'' SyncNode"

definition sampleSync :: SyncService where
  "sampleSync = (NewSyncService ''3000'')\<lparr>sy_p2p := (NewP2pService ''3000'' SyncNode)\<lparr>peers := [samplePeer]\<rparr>\<rparr>"

definition sampleNode :: "(bytes \<times> bytes) list node" where
  "sampleNode = \<lparr>n_world = sampleWorld, blockchain = sampleChain, faucet = NewFaucet, n_sync = sampleSync\<rparr>"

lemma sampleNode_sel [simp]:
  "n_world sampleNode = sampleWorld" "blockchain sampleNode = sampleChain" "faucet sampleNode = NewFaucet"
  "n_sync sampleNode = sampleSync" "isSyncing sampleSync = False" "peers (sy_p2p sampleSync) = [samplePeer]"
  by (simp_all add: sampleNode_def sampleSync_def NewSyncService_def)

lemma address_samplePeer [simp]: "address_ok samplePeer"
  by (simp add: samplePeer_def NewNodeInfo_def address_ok_def plain_def)

lemma generator_ok_New [simp]: "generator_ok NewFaucet"
  by (simp add: generator_ok_def NewFaucet_def)

lemma mirrors_sample: "mirrors (sampleX z) (sampleX z) NewFaucet sampleWorld sampleChain sampleNode"
  using synced_sample [of z] by (simp add: mirrors_def bucket_ok_def sampleStorage_def same_accounts_def)

lemma transfer_data_sample:
  "length to = 32 \<Longrightarrow> transfer_data (Marshal Call_to_json (sampleCall amount to))"
  unfolding transfer_data_def sampleCall_def
  by (intro exI [of _ "NewTransferParam amount (Some to)"]) (simp add: NewTransferParam_def)

lemma length_sample_hash [simp]: "length (sample_hash x) = 32"
  by (simp add: sample_hash_def)

lemma sized_transferTx:
  "sized_tx (Marshal Call_to_json (sampleCall amount to)) ((transferTx nonce amount to)\<lparr>tx_Status := st\<rparr>)"
  by (simp add: sized_tx_def transferTx_def sampleData_def)

text \<open>The block the sample producer makes, how it gets final, and that it can travel.\<close>

lemma sample_block_travels:
  "\<exists>blk w1 w2. BlockProducer_NewBlock (sampleX z) NewFaucet sampleChain sampleWallet 1 sampleWorld = (Ok (blk, map Some [keyA, keyB]), w1)
     \<and> led w1 = ledgerAfter \<and> Executer_waitForFinality (sampleX z) (map Some [keyA, keyB]) True w1 = (Ok (), w2) \<and> node_ok (sampleX z) w2
     \<and> led w2 = ledgerAfter \<and> bi_Height (bl_Info blk) = 7 \<and> deliverable (sampleX z) samplePeer blk
     \<and> sized_block [sampleTx\<lparr>tx_Status := True\<rparr>] blk"
proof -
  obtain blk w1 where b: "BlockProducer_NewBlock (sampleX z) NewFaucet sampleChain sampleWallet 1 sampleWorld = (Ok (blk, map Some [keyA, keyB]), w1)"
      "led w1 = ledgerAfter" "txs_of (bl_Bundle blk) = [sampleTx\<lparr>tx_Status := True\<rparr>]" "Block_Verify (sampleX z) blk = Ok True"
    using NewBlock_sample [of z NewFaucet] by blast
  obtain txs ts state txHash sig where n: "ExecuteNow (sampleX z) NewFaucet (list_of txs) sampleWorld = (Ok (map Some [keyA, keyB], ts), w1)"
      "MemoryService_GetTxsForBlock (sampleX z) (w_mem sampleWorld) = Ok txs"
    "blk = \<lparr>bl_Info = \<lparr>bi_Height = Blockchain_NextHeight sampleChain,
       bi_Hash = Some (Sum256 (sampleX z) (txHash @ bytes_of (Blockchain_PreviousBlockHash sampleChain) @ state)),
       bi_Signature = Some sig, bi_PublicKey = Wallet_PublicKey sampleWallet, bi_Timestamp = 1\<rparr>,
      bl_Bundle = \<lparr>Transactions = map_option (\<lambda>_. ts) txs\<rparr>,
      bl_PreviousBlockHash = Blockchain_PreviousBlockHash sampleChain, bl_StateHash = Some state\<rparr>"
    "Wallet_SignRaw (sampleX z) sampleWallet (bi_Hash (bl_Info blk)) = Ok sig"
    by (rule NewBlock_Ok [OF b(1)])
  have txs: "txs = Some [sampleTx]" using n(2) by (simp add: GetTxsForBlock_sample)
  have ts: "Transactions (bl_Bundle blk) = Some [sampleTx\<lparr>tx_Status := True\<rparr>]" using b(3) n(3) txs by (simp add: txs_of_def)
  have sized: "sized_block [sampleTx\<lparr>tx_Status := True\<rparr>] blk"
    using b(4) ts n(3,4) sampleChain_prev
    by (auto simp: sized_block_def Block_Verify_def BlockInfo_Verify_def Wallet_SignRaw_def KeyPair_SignRaw_def ed25519_Sign_def
        HashSize_def sampleWallet_def samplePair_def Wallet_PublicKey_def)
  have tx: "sized_tx (Marshal Call_to_json (sampleCall 5 keyB)) (sampleTx\<lparr>tx_Status := True\<rparr>)"
    unfolding sampleTx_def by (rule sized_transferTx)
  have len: "length (response samplePeer blk) \<le> MaxPayloadSize"
  proof -
    have d: "transfer_data (Marshal Call_to_json (sampleCall 5 keyB))" by (simp add: transfer_data_sample)
    have "(length (Marshal Call_to_json (sampleCall 5 keyB)) + 2) div 3 \<le> 138 div 3"
      using size_transfer(2) [OF d] by (intro div_le_mono) simp
    then show ?thesis using size_tx(2) [OF tx] size_block(2) [OF sized] size_response(2) [OF address_samplePeer, of blk]
      by (simp add: bytes_size_def MaxPayloadSize_def)
  qed
  then have "length (Block_ToBytes blk) \<le> 2048"
    using size_response(1) [OF address_samplePeer, of blk] by (simp add: Block_ToBytes_def Marshal_def MaxPayloadSize_def)
  then have "deliverable (sampleX z) samplePeer blk"
    using b(4) len sized by (simp add: deliverable_def block_storable_def sized_block_def)
  moreover obtain w2 where "Executer_waitForFinality (sampleX z) (map Some [keyA, keyB]) True w1 = (Ok (), w2)" "node_ok (sampleX z) w2" "led w2 = led w1"
  proof -
    have "b58_ok (sampleX z)" by (simp add: b58_ok_def)
    have sy: "synced (b58_Encode (sampleX z)) (db_state (sampleX z) (w_db sampleWorld)) [] (led sampleWorld)" using synced_sample [of z] by simp
    obtain ks where ks: "map Some [keyA, keyB] = map Some ks" "node_ok (sampleX z) w1" "w_db w1 = w_db sampleWorld"
      "synced (b58_Encode (sampleX z)) (db_state (sampleX z) (w_db sampleWorld)) ks (led w1)" "list_all (known (sampleX z) (stateMem (w_mem w1))) ks"
      by (rule ExecuteNow_synced [OF node_ok_sample \<open>b58_ok (sampleX z)\<close> callers_ok_sample(1) generator_ok_New sy
        n(1) [unfolded txs list_of_def option.case]])
    from ks(1) have "ks = [keyA, keyB]" by (auto simp: Cons_eq_map_conv)
    with finality_accepted [OF ks(2,5)] ks(3,4) that show thesis by auto
  qed
  ultimately show ?thesis using b n(3) sized
    by (auto simp: sampleChain_def Blockchain_Init_def Blockchain_NextHeight_def)
qed

text \<open>The sample node starts to synchronise, gets the block and stores it.\<close>

lemma sampleChain_height: "Blockchain_NextHeight sampleChain = 7"
  by (simp add: sampleChain_def Blockchain_Init_def Blockchain_NextHeight_def)

lemma sample_sync_run: "\<exists>n'. (sync_step (sampleX z) ^^ 3) sampleNode n' \<and> Blockchain_NextHeight (blockchain n') = 8"
proof -
  let ?E = "sampleX z"
  obtain blk w1 w2 where b: "BlockProducer_NewBlock ?E NewFaucet sampleChain sampleWallet 1 sampleWorld = (Ok (blk, map Some [keyA, keyB]), w1)"
      "led w1 = ledgerAfter" "Executer_waitForFinality ?E (map Some [keyA, keyB]) True w1 = (Ok (), w2)" "node_ok ?E w2"
      "deliverable ?E samplePeer blk"
    using sample_block_travels [of z] by blast
  have sy: "synced (b58_Encode ?E) (db_state ?E (w_db sampleWorld)) [] (led sampleWorld)" using synced_sample [of z] by simp
  obtain n1 k where n1: "StartSync 7 sampleNode = (Ok (), n1)" "catching_up ?E ?E NewFaucet sampleWorld sampleChain 7 (Suc k) (Suc 0) n1"
    using starts_catching_up [OF mirrors_sample [of z] node_ok_sample [of z] sy, of 7 "Suc 0"] sampleChain_height gr0_conv_Suc by auto
  have lib: "same_lib ?E ?E" by (simp add: same_lib_def)
  obtain n' where n': "(sync_step ?E ^^ 2) n1 n'"
      "catching_up ?E ?E NewFaucet w2 (Blockchain_Increment (bi_Hash (bl_Info blk)) sampleChain) 7 k 0 n'"
    using catching_up_block [OF n1(2) env_ok_sample [of z] env_ok_sample [of z] lib generator_ok_New b(1) _ _ _ _ b(3) address_samplePeer b(5,4) refl refl]
      b(2) pool_callers_sample card_ledgerAfter by auto
  have "sync_step ?E sampleNode n1" by (rule sync_step.start [OF n1(1)])
  then have "(sync_step ?E ^^ Suc 2) sampleNode n'" using n'(1) by (rule relpowp_Suc_I2)
  moreover have "Blockchain_NextHeight (blockchain n') = 8"
    using n'(2) sampleChain_height by (simp add: catching_up_def mirrors_def Increment_height)
  ultimately show ?thesis by (auto simp: eval_nat_numeral)
qed

end
