(* ===== verification/SampleClient.thy ===== *)
theory SampleClient
  imports Clients SampleNode
begin

text \<open>
  The sample node with an empty mempool, a second node that is its peer, and a client with an account:
  the theorems about clients applied to them.
\<close>

definition sampleClient :: Client where
  "sampleClient = \<lparr>cl_name = ''a'', cl_wallet = sampleWallet\<rparr>"

definition quietNode :: "string \<Rightarrow> (bytes \<times> bytes) list node" where
  "quietNode port = \<lparr>n_world = \<lparr>w_mem = sampleMem\<lparr>mempool := NewMempool\<rparr>, w_db = sampleStorage\<rparr>, blockchain = sampleChain,
     faucet = NewFaucet, n_sync = (NewSyncService port)\<lparr>sy_p2p := (NewP2pService port SyncNode)\<lparr>peers := [samplePeer]\<rparr>\<rparr>\<rparr>"

lemma quietNode_sel [simp]:
  "w_db (n_world (quietNode port)) = sampleStorage" "led (n_world (quietNode port)) = mem_state sampleDb"
  "pool (mempool (w_mem (n_world (quietNode port)))) = []" "idle (w_mem (n_world (quietNode port)))"
  "node_ok sample (n_world (quietNode port))" "info (sy_p2p (n_sync (quietNode port))) = NewNodeInfo port SyncNode"
  "peers (sy_p2p (n_sync (quietNode port))) = [samplePeer]"
proof -
  show "idle (w_mem (n_world (quietNode port)))" by (simp add: quietNode_def sampleMem_def NewMemoryService_def idle_def)
  show "node_ok sample (n_world (quietNode port))"
    using node_ok_sample by (simp add: quietNode_def node_ok_def sampleMem_def NewMemoryService_def idle_def)
qed (simp_all add: quietNode_def NewMempool_def NewP2pService_def)

lemma sample_entry: "account_entry sample sampleStorage keyA stateA"
  by (simp add: account_entry_def bucket_get_sample)

lemma sample_ready: "client_ready sample sampleClient keyA stateA (quietNode port)"
  using sampleWallet_ok(1) [of "()"] sampleWallet_ok(2) by (simp add: client_ready_def sampleClient_def sample_entry mem_state_sample)

lemma sample_payable:
  assumes "0 < x" "x \<le> 100" "0 < sint now"
  shows "payable sample keyA stateA (mem_state sampleDb) now x keyB"
proof -
  have "unat x \<le> 100" using assms(2) by (simp add: word_le_nat_alt)
  then have "x < GeneratorBalance" by (simp add: word_less_nat_alt unat_GeneratorBalance)
  with \<open>unat x \<le> 100\<close> assms show ?thesis by (simp add: payable_def mem_state_sample stateA_def)
qed

theorem inputs_only_feed_mempool_witness:
  "undisturbed sample sampleDb sampleStorage sampleChain (snd (sync_inbound sample [SyncMessage, TxMsg] (quietNode ''3000'')))
   \<and> undisturbed sample sampleDb sampleStorage sampleChain (fst (snd (handleRpc sample (quietNode ''3000'', open_conn []))))"
proof -
  have "undisturbed sample sampleDb sampleStorage sampleChain (quietNode ''3000'')"
    by (simp add: undisturbed_def) (simp add: quietNode_def)
  from inputs_only_feed_mempool [OF this] show ?thesis by blast
qed

theorem client_transfer_spreads_witness:
  "\<exists>tx n' c' data m'. Client_Transfer sample (node_remote sample) 1 5 keyB ''8000'' (quietNode ''3000'', sampleClient) = (Ok ''ok'', (n', c'))
     \<and> action_of NewFaucet tx = Transfer keyA 0 keyB 5 \<and> map_of (pool (mempool (w_mem (n_world n')))) (bytes_of (tx_Hash tx)) = Some tx
     \<and> sync_inbound sample data (quietNode ''3001'') = (Ok (), m') \<and> map_of (pool (mempool (w_mem (n_world m')))) (bytes_of (tx_Hash tx)) = Some tx"
proof -
  have c: "keypair_ok sample (wa_keyPair (cl_wallet sampleClient))" "bytes_of (Wallet_PublicKey (cl_wallet sampleClient)) = keyA"
    using sampleWallet_ok(1) [of "()"] sampleWallet_ok(2) by (simp_all add: sampleClient_def)
  have e: "account_entry sample (w_db (n_world (quietNode ''3000''))) (bytes_of (Wallet_PublicKey (cl_wallet sampleClient))) stateA"
    using c(2) sample_entry by simp
  have u: "unseen sample sampleClient stateA 1 5 keyB (quietNode port)" for port
    by (simp add: unseen_def MemoryService_ContainsTx_def Mempool_Contains_def)
  have b: "bucket_ok accountsBucket (w_db (n_world (quietNode ''3000'')))"
    using node_ok_sample by (simp add: node_ok_def)
  have a: "address_ok (info (sy_p2p (n_sync (quietNode ''3000''))))"
    by (simp add: address_ok_def NewNodeInfo_def plain_def)
  show ?thesis
    using client_transfer_spreads [OF c(1) sample_lib(1) _ _ _ _ b _ e u u _ a, where port = "''8000''" and f = NewFaucet] c(2)
    by (fastforce simp: stateA_def NewNodeInfo_def samplePeer_def GeneratorBalance_def)
qed

lemma hash_digit:
  assumes "signed_call sample c st kind para now tx" "0 \<le> sint now" "sint now < 10"
  shows "\<exists>h. tx_Hash tx = Some h \<and> h ! 1 = char_of (48 + nat (sint now))"
proof -
  obtain d where d: "tx_Hash tx = Some (sample_hash (Marshal TransactionData_to_json d))" "td_Timestamp d = now"
    using assms(1) by (auto simp: signed_call_def wallet_defs ed25519_Sign_def NewTransaction_def Let_def split: if_splits)
  have "\<exists>x. rev (Marshal TransactionData_to_json d) = CHR ''}'' # char_of (48 + nat (sint now)) # x"
    using d(2) assms(2,3) by (simp add: Marshal_def TransactionData_to_json_def enc_int64_def dec_digits.simps)
  then show ?thesis using d(1) by (auto simp: sample_hash_def)
qed


end
