(* ===== verification/SampleFull.thy ===== *)
theory SampleFull
  imports FullNode SampleClient
begin

text \<open>
  Sample full nodes: the sample node with a consensus service whose producer has the key \<open>keyA\<close> and
  whose aggregator the key \<open>keyB\<close>; the theorems about consensus applied to them.
\<close>

abbreviation sampleC :: "(bytes \<times> bytes) list cenv" where
  "sampleC \<equiv> sampleX \<lparr>SortKeys = sort_by\<rparr>"

definition keyC :: bytes where "keyC = replicate 32 (CHR ''c'')"

definition walletB :: Wallet where
  "walletB = \<lparr>wa_keyPair = \<lparr>kp_PrivateKey = Some (replicate 64 (CHR ''b'')), kp_PublicKey = Some keyB\<rparr>, wa_nonce = 0, wa_balance = 0\<rparr>"

definition sampleCons :: "string \<Rightarrow> Wallet \<Rightarrow> bytes list \<Rightarrow> ConsensusService" where
  "sampleCons port w vs = (NewConsensusService port w)\<lparr>nextValidators := vs, nextBlockProducer := Some keyA, nextAggregator := Some keyB\<rparr>"

definition sampleFull :: "string \<Rightarrow> Wallet \<Rightarrow> bytes list \<Rightarrow> (bytes \<times> bytes) list fullnode" where
  "sampleFull port w vs = \<lparr>fn_node = sampleNode, fn_cons = sampleCons port w vs, jobs = []\<rparr>"

text \<open>The same while a round is decided: a timer runs, and the own vote is counted.\<close>

definition sampleVoting :: "bytes list \<Rightarrow> (bytes \<times> bytes) list fullnode" where
  "sampleVoting vs = counted True (sampleFull ''5001'' walletB vs\<lparr>fn_cons := startTimer ((sampleCons ''5001'' walletB vs)\<lparr>
     accountCh := Some [Some keyA], waitingFianlity := True\<rparr>)\<rparr>)"

lemma sampleC_sel [simp]: "sorts (SortKeys sampleC)" "hash_ok (sampleX z)"
  by (simp_all add: sampleX_def sorts_sort_by hash_ok_def)

lemma walletB_ok [simp]: "keypair_ok (sampleX z) (wa_keyPair walletB)" "Wallet_PublicKey walletB = Some keyB"
  by (simp_all add: walletB_def keypair_ok_def Wallet_PublicKey_def)

lemma sampleFull_sel [simp]: "fn_node (sampleFull port w vs) = sampleNode" "fn_cons (sampleFull port w vs) = sampleCons port w vs"
  "jobs (sampleFull port w vs) = []" "info (cs_p2p (sampleCons port w vs)) = NewNodeInfo port ConsensusNode" "nodeWallet (sampleCons port w vs) = w"
  "nextValidators (sampleCons port w vs) = vs" "nextBlockProducer (sampleCons port w vs) = Some keyA" "nextAggregator (sampleCons port w vs) = Some keyB"
  "numVoted (sampleCons port w vs) = 0" "numVotedOk (sampleCons port w vs) = 0"
  by (simp_all add: sampleFull_def sampleCons_def NewConsensusService_def NewP2pService_def)

lemma keyC_sel [simp]: "length keyC = 32" "keyC \<noteq> keyA" "keyC \<noteq> keyB" "keyA \<noteq> keyC" "keyB \<noteq> keyC"
  by (simp_all add: keyA_def keyB_def keyC_def)

lemma sample_cons_ok: "set vs \<subseteq> {keyA, keyB, keyC} \<Longrightarrow> distinct vs \<Longrightarrow> cons_ok (sampleCons port w vs)"
proof -
  have k: "length keyA = PublicKeySize" "length keyB = PublicKeySize" "length keyC = PublicKeySize" by (simp_all add: PublicKeySize_def)
  assume "set vs \<subseteq> {keyA, keyB, keyC}" "distinct vs"
  then have "key_set.slice_ok vs" using k by (auto simp: key_set.slice_ok_def)
  then show ?thesis using cons_ok_New [of port w] k by (simp add: cons_ok_def sampleCons_def)
qed

lemma sample_hash_inj: "inj_on sample_hash {keyA, keyB}"
  by (simp add: sample_hash_def keyA_def keyB_def)

theorem committee_agreed_witness:
  "\<exists>p a cs1 cs2. decideCommittee sampleC 7 (sampleCons ''5000'' sampleWallet [keyA, keyB]) = (Ok (), cs1)
     \<and> decideCommittee sampleC 7 (sampleCons ''5001'' walletB [keyB, keyA]) = (Ok (), cs2) \<and> nextValidators cs1 = nextValidators cs2
     \<and> nextBlockProducer cs1 = Some p \<and> nextBlockProducer cs2 = Some p \<and> nextAggregator cs1 = Some a \<and> nextAggregator cs2 = Some a \<and> p \<noteq> a"
  using committee_agreed [of sampleC sampleC "sampleCons ''5000'' sampleWallet [keyA, keyB]" "sampleCons ''5001'' walletB [keyB, keyA]" 7]
    sample_cons_ok sample_hash_inj by (fastforce simp: insert_commute)

theorem roles_go_round_witness:
  "\<exists>!i. i < 2 \<and> nextBlockProducer (snd (decideCommittee sampleC (7 + of_nat i) (sampleCons ''5000'' sampleWallet [keyA, keyB]))) = Some keyB"
  using roles_go_round [of sampleC "sampleCons ''5000'' sampleWallet [keyA, keyB]" 2 7 keyB] sample_cons_ok [of "[keyA, keyB]" "''5000''" sampleWallet] by simp


subsection \<open>Votes\<close>

definition voteC :: VoteMsg where
  "voteC = \<lparr>vo_From = NewNodeInfo ''5002'' ConsensusNode, vo_FromPublicKey = Some keyC, vo_Signature = Some (replicate 64 (CHR ''s'')),
     vo_Height = 7, vo_Ok = True\<rparr>"

lemma sample_address [simp]: "address_ok (NewNodeInfo ''5000'' kind)" "address_ok (NewNodeInfo ''5001'' kind)" "address_ok (NewNodeInfo ''5002'' kind)"
  by (simp_all add: address_ok_def NewNodeInfo_def plain_def)

lemma voteC_valid: "keyC \<in> set (nextValidators cs) \<Longrightarrow> vote_valid sample cs voteC"
proof -
  have "address_ok (vo_From voteC)" by (simp add: voteC_def)
  note a = address_verify [OF this] address_good [OF this] length_NodeInfo [OF this]
  have "length (vote_data voteC) \<le> MaxPayloadSize"
    using a(3) size_64 [of "vo_Signature voteC"] size_32 [of "vo_FromPublicKey voteC"] length_enc_uint [of "vo_Height voteC"]
    by (simp add: vote_data_def consensus_data_def PackPayload_def Marshal_def VoteMsg_to_json_def MaxPayloadSize_def plain_def) (simp add: voteC_def)
  moreover have "VoteMsg_Verify sample voteC = Ok True"
    using a(1) by (simp add: voteC_def VoteMsg_Verify_def verifySender_def go_and_def VerifyConsensusSignature_def ed25519_Verify_def PublicKeySize_def)
  moreover assume "keyC \<in> set (nextValidators cs)"
  ultimately show ?thesis using a(2) by (simp add: vote_valid_def) (simp add: voteC_def)
qed

lemma sample_voting:
  assumes "length vs \<le> 9" "3 \<le> length vs"
  shows "aggregating sample (fn_cons (sampleVoting vs))" "tally (fn_cons (sampleVoting vs)) (length vs) 1 1"
    "nextValidators (fn_cons (sampleVoting vs)) = vs" "jobs (sampleVoting vs) = []" "released ok (fn_cons (sampleVoting vs)) = [AccountJob [Some keyA] ok]"
  using assms by (simp_all add: sampleVoting_def aggregating_def) (simp_all add: sampleCons_def NewConsensusService_def tally_def counted_def released_def)

theorem votes_decide_witness:
  "\<exists>s'. inbound_all sample [vote_data voteC] (sampleVoting [keyA, keyB, keyC]) = (Ok (), s') \<and> jobs s' = [AccountJob [Some keyA] True]"
  using votes_decide [OF sample_voting(1,2), of "[keyA, keyB, keyC]" "[voteC]"] voteC_valid sample_voting(3-5) [of "[keyA, keyB, keyC]"]
  by (auto simp: Let_def voteC_def)

theorem timeout_never_ends_round_witness:
  "\<exists>s'. timeout_fires 0 (sampleVoting [keyA, keyB, keyC]) = (Blocked, s') \<and> jobs s' = [] \<and> (\<forall>ok. finalize ok s' = (Blocked, s'))
     \<and> loop_tick sampleC 1 s' = (Ok (), s')"
proof -
  let ?s = "sampleVoting [keyA, keyB, keyC]"
  have "finalizeCh (fn_cons ?s) = Some 0" "waitingFianlity (fn_cons ?s)" "jobs ?s = []"
    by (simp_all add: sampleVoting_def counted_def startTimer_def sampleCons_def NewConsensusService_def)
  from timeout_never_ends_round [OF this(1,2)] this(3) show ?thesis by metis
qed

theorem finality_can_be_forged_witness:
  "\<exists>raw s'. handleConsensusMessage sample raw (sampleFull ''5000'' sampleWallet [keyA, keyB]\<lparr>fn_cons := startTimer (sampleCons ''5000'' sampleWallet [keyA, keyB])\<rparr>) = (Ok (), s')
     \<and> s' = finalized False (sampleFull ''5000'' sampleWallet [keyA, keyB]\<lparr>fn_cons := startTimer (sampleCons ''5000'' sampleWallet [keyA, keyB])\<rparr>)"
proof -
  let ?s = "sampleFull ''5000'' sampleWallet [keyA, keyB]\<lparr>fn_cons := startTimer (sampleCons ''5000'' sampleWallet [keyA, keyB])\<rparr>"
  let ?g = "zeroGossipMsg\<lparr>gm_From := NewNodeInfo ''5001'' ConsensusNode, gm_FromPublicKey := Some keyB, gm_Signature := Some (replicate 64 (CHR ''s''))\<rparr>"
  have a: "address_ok (NewNodeInfo ''5001'' ConsensusNode)" by simp
  have g: "GossipMsg_Verify sample ?g = Ok True" "gm_FromPublicKey ?g = nextAggregator (fn_cons ?s)" "good_str (Ip4 (gm_From ?g))" "round_open (fn_cons ?s)"
    using address_verify [OF a] address_good [OF a]
    by (simp_all add: GossipMsg_Verify_def zeroGossipMsg_def go_and_def VerifyConsensusSignature_def ed25519_Verify_def PublicKeySize_def)
  from finality_can_be_forged [OF g] show ?thesis by blast
qed

theorem short_key_panics_witness:
  "\<exists>raw p. cons_inbound sample raw (sampleFull ''5000'' sampleWallet [keyA, keyB]) = (Panic p, sampleFull ''5000'' sampleWallet [keyA, keyB])"
proof -
  let ?m = "zeroFinalizeMsg\<lparr>fm_From := NewNodeInfo ''5001'' ConsensusNode\<rparr>"
  have a: "address_ok (fm_From ?m)" by simp
  have l: "length (consensus_data FinalizeMsg_to_json FinalizeMessage ?m) \<le> MaxPayloadSize"
    using length_NodeInfo [OF a] length_enc_uint [of "fm_Height ?m"]
    by (simp add: consensus_data_def PackPayload_def Marshal_def FinalizeMsg_to_json_def MaxPayloadSize_def plain_def zeroFinalizeMsg_def enc_bytes_def)
  have "slice_len (fm_FromPublicKey ?m) \<noteq> PublicKeySize" by (simp add: zeroFinalizeMsg_def PublicKeySize_def)
  from short_key_panics [OF address_verify [OF a] this address_good [OF a] l] show ?thesis by blast
qed


subsection \<open>Rounds\<close>

text \<open>The sample node with the key \<open>keyA\<close> and any consensus service proposes a block that fits into a payload.\<close>

lemma sample_proposal:
  assumes "fn_node s = sampleNode" "nodeWallet (fn_cons s) = sampleWallet" "address_ok (info (cs_p2p (fn_cons s)))"
  obtains blk w1 where "honest_proposal (sampleX z) s 1 blk (map Some [keyA, keyB]) w1" "length (proposal (sampleX z) blk (fn_cons s)) \<le> MaxPayloadSize"
    "Block_Verify (sampleX z) blk = Ok True" "led w1 = ledgerAfter"
proof -
  obtain blk w1 where b: "BlockProducer_NewBlock (sampleX z) NewFaucet sampleChain sampleWallet 1 sampleWorld = (Ok (blk, map Some [keyA, keyB]), w1)"
      "led w1 = ledgerAfter" "deliverable (sampleX z) samplePeer blk" "sized_block [sampleTx\<lparr>tx_Status := True\<rparr>] blk"
    using sample_block_travels [of z] by blast
  have "sized_tx (Marshal Call_to_json (sampleCall 5 keyB)) (sampleTx\<lparr>tx_Status := True\<rparr>)"
    unfolding sampleTx_def by (rule sized_transferTx)
  then have d: "\<forall>tx\<in>set [sampleTx\<lparr>tx_Status := True\<rparr>]. \<exists>d. sized_tx d tx \<and> transfer_data d" using transfer_data_sample [of keyB 5] by auto
  have k: "keypair_ok (sampleX z) (wa_keyPair (nodeWallet (fn_cons s)))" using sampleWallet_ok(1) [of z] assms(2) by simp
  have p: "length (proposal (sampleX z) blk (fn_cons s)) \<le> MaxPayloadSize"
    using transfers_size(2) [OF b(4) d] size_proposal(2) [OF assms(3) k, of blk] by (simp add: MaxPayloadSize_def)
  have "bucket_ok blocksBucket sampleStorage" using mirrors_sample [of z] by (simp add: mirrors_def)
  moreover have "Blockchain_NextHeight sampleChain = 7" by (simp add: sampleChain_def Blockchain_Init_def Blockchain_NextHeight_def)
  ultimately have "honest_proposal (sampleX z) s 1 blk (map Some [keyA, keyB]) w1"
    using assms b k synced_sample [of z] pool_callers_sample card_ledgerAfter by (simp add: honest_proposal_def deliverable_def)
  then show thesis using that p b(2,3) by (simp add: deliverable_def)
qed

lemma sample_round:
  assumes "address_ok (NewNodeInfo port ConsensusNode)" "keypair_ok sample (wa_keyPair wallet)"
  obtains blk w1 where "honest_proposal sample (sampleFull ''5000'' sampleWallet [keyA, keyB]) 1 blk (map Some [keyA, keyB]) w1"
    "in_round sample sample (sampleFull ''5000'' sampleWallet [keyA, keyB]) blk (sampleFull port wallet vs)" "led w1 = ledgerAfter"
proof -
  let ?s = "sampleFull ''5000'' sampleWallet [keyA, keyB]"
  obtain blk w1 where b: "honest_proposal sample ?s 1 blk (map Some [keyA, keyB]) w1" "length (proposal sample blk (fn_cons ?s)) \<le> MaxPayloadSize"
    "Block_Verify sample blk = Ok True" "led w1 = ledgerAfter" by (rule sample_proposal [of ?s "()"]) simp_all
  have "in_round sample sample ?s blk (sampleFull port wallet vs)"
    using assms b(2,3) sampleWallet_ok(1) [of "()"] sampleWallet_ok(2) mirrors_sample [of "()"] by (simp add: in_round_def same_lib_def)
  then show thesis using that b(1,4) by blast
qed

definition walletC :: Wallet where
  "walletC = \<lparr>wa_keyPair = \<lparr>kp_PrivateKey = Some (replicate 64 (CHR ''c'')), kp_PublicKey = Some keyC\<rparr>, wa_nonce = 0, wa_balance = 0\<rparr>"

lemma walletC_ok [simp]: "keypair_ok (sampleX z) (wa_keyPair walletC)" "Wallet_PublicKey walletC = Some keyC"
  by (simp_all add: walletC_def keypair_ok_def Wallet_PublicKey_def)

theorem honest_proposal_gets_yes_witness:
  "\<exists>raw v1 ex blk. cons_inbound sample raw (sampleFull ''5002'' walletC [keyA, keyB, keyC]) = (Ok (), v1) \<and> led (n_world (fn_node v1)) = ledgerAfter
     \<and> accountCh (fn_cons v1) = Some ex \<and> blockCh (fn_cons v1) = Some blk"
proof -
  obtain blk w1 where r: "honest_proposal sample (sampleFull ''5000'' sampleWallet [keyA, keyB]) 1 blk (map Some [keyA, keyB]) w1"
    "in_round sample sample (sampleFull ''5000'' sampleWallet [keyA, keyB]) blk (sampleFull ''5002'' walletC [keyA, keyB, keyC])" "led w1 = ledgerAfter"
    by (rule sample_round [of "''5002''" walletC "[keyA, keyB, keyC]"]) simp_all
  from honest_proposal_gets_yes [OF r(1,2)] r(3) show ?thesis by fastforce
qed

theorem honest_round_commits_witness:
  "\<exists>prop fin p1 p2 a1 np na. startRound sample 1 (sampleFull ''5000'' sampleWallet [keyA, keyB]) = (Ok (), p1)
     \<and> inbound_all sample [prop] (sampleFull ''5001'' walletB [keyA, keyB]) = (Ok (), a1) \<and> cons_inbound sample fin p1 = (Ok (), p2)
     \<and> run_jobs sample 2 (jobs p2) (fn_node p2) = (Ok (), np) \<and> run_jobs sample 2 (jobs a1) (fn_node a1) = (Ok (), na)
     \<and> led (n_world np) = ledgerAfter \<and> led (n_world na) = ledgerAfter \<and> blockchain na = blockchain np"
proof -
  let ?p = "sampleFull ''5000'' sampleWallet [keyA, keyB]" and ?a = "sampleFull ''5001'' walletB [keyA, keyB]"
  obtain blk w1 where r: "honest_proposal sample ?p 1 blk (map Some [keyA, keyB]) w1" "in_round sample sample ?p blk ?a" "led w1 = ledgerAfter"
    by (rule sample_round [of "''5001''" walletB "[keyA, keyB]"]) simp_all
  have f: "length (finality sample True ?a) \<le> MaxPayloadSize" by (rule size_finality) simp_all
  obtain p1 p2 a1 np na where x: "startRound sample 1 ?p = (Ok (), p1)" "inbound_all sample (proposal sample blk (fn_cons ?p) # map vote_data []) ?a = (Ok (), a1)"
    "cons_inbound sample (finality sample True ?a) p1 = (Ok (), p2)"
    "run_jobs sample 2 (jobs p2) (fn_node p2) = (Ok (), np)" "run_jobs sample 2 (jobs a1) (fn_node a1) = (Ok (), na)"
    "led (n_world np) = led w1" "mirrors sample sample (faucet np) (n_world np) (blockchain np) na"
    using honest_round_commits [OF r(1,2), where n = 2 and ms = "[]" and now = 2] f by auto
  note x(2) [unfolded list.map(1)]
  moreover have "led (n_world np) = ledgerAfter" "led (n_world na) = ledgerAfter" "blockchain na = blockchain np"
    using x(6,7) r(3) by (simp_all add: mirrors_def)
  ultimately show ?thesis using x(1,3-5) by blast
qed

theorem final_block_commits_witness:
  "\<exists>blk n n1 n2. run_job sample 2 (BlockJob blk True) n = (Ok (), n1) \<and> run_job sample 2 (AccountJob (map Some [keyA, keyB]) True) n1 = (Ok (), n2)
     \<and> led (n_world n2) = ledgerAfter \<and> holds_block sample (w_db (n_world n2)) blk"
proof -
  let ?p = "sampleFull ''5000'' sampleWallet [keyA, keyB]" and ?a = "sampleFull ''5001'' walletB [keyA, keyB]"
  obtain blk w1 where r: "honest_proposal sample ?p 1 blk (map Some [keyA, keyB]) w1" "in_round sample sample ?p blk ?a" "led w1 = ledgerAfter"
    by (rule sample_round [of "''5001''" walletB "[keyA, keyB]"]) simp_all
  obtain ks where ks: "map Some [keyA, keyB] = map Some ks" "executed sample ks blk ((fn_node ?p)\<lparr>n_world := w1\<rparr>)"
    by (rule proposal_executed [OF r(1,2)])
  from final_block_commits [OF ks(2), where ?j1.0 = "BlockJob blk True" and ?j2.0 = "AccountJob (map Some ks) True" and now = 2] ks(1) r(3)
  show ?thesis by (fastforce simp: committed_def accounts_written_def)
qed

text \<open>A new node, one turn of its loop, and a message that ends it.\<close>

theorem consensus_state_typed_witness:
  "\<exists>s0 kf s r. NewFullNode sampleC None None (Ok (keyA, replicate 64 (CHR ''k''))) None None ''3000'' ''5000'' = (Ok s0, kf)
     \<and> FullNode_Run sampleC 1 s0 = (r, s)
     \<and> cons_ok (fn_cons (snd (cons_inbound sampleC [ConsensusMessage, GossipMessage] (snd (loop_tick sampleC 2 s)))))"
proof -
  obtain s0 kf where s0: "NewFullNode sampleC None None (Ok (keyA, replicate 64 (CHR ''k''))) None None ''3000'' ''5000'' = (Ok s0, kf)"
    by (simp add: NewFullNode_def NewNode_def NewStorageService_def NewStorageDb_def NewWallet_def GenerateKey_def)
  obtain r s where s: "FullNode_Run sampleC 1 s0 = (r, s)" by fastforce
  let ?s1 = "snd (loop_tick sampleC 2 s)"
  have "full_step sampleC s ?s1" by (rule full_step.loop_turn [OF prod.collapse [symmetric]])
  moreover have "full_step sampleC ?s1 (snd (cons_inbound sampleC [ConsensusMessage, GossipMessage] ?s1))"
    by (rule full_step.message [OF prod.collapse [symmetric]])
  ultimately have "(full_step sampleC)\<^sup>*\<^sup>* s (snd (cons_inbound sampleC [ConsensusMessage, GossipMessage] ?s1))"
    by (rule converse_rtranclp_into_rtranclp [OF _ r_into_rtranclp])
  from consensus_state_typed [OF sampleC_sel(1) s0 s this] s0 s show ?thesis by blast
qed


subsection \<open>Four transfers\<close>

definition fourTxs :: "Transaction list" where
  "fourTxs = [transferTx 0 5 keyB, transferTx 1 5 keyB, transferTx 2 5 keyB, transferTx 3 5 keyB]"

definition fourWorld :: "(bytes \<times> bytes) list world" where
  "fourWorld = sampleWorld\<lparr>w_mem := sampleMem\<lparr>mempool := \<lparr>pool = zip [''0'', ''1'', ''2'', ''3''] fourTxs\<rparr>\<rparr>\<rparr>"

definition fourFull :: "(bytes \<times> bytes) list fullnode" where
  "fourFull = sampleFull ''5000'' sampleWallet [keyA, keyB]\<lparr>fn_node := sampleNode\<lparr>n_world := fourWorld\<rparr>\<rparr>"

definition paid :: "uint64 \<Rightarrow> uint64 \<Rightarrow> uint64 \<Rightarrow> ledger" where
  "paid n a b = [keyA \<mapsto> \<lparr>as_Nonce = n, as_Balance = a\<rparr>, keyB \<mapsto> \<lparr>as_Nonce = 3, as_Balance = b\<rparr>]"

lemma paid_start: "mem_state sampleDb = paid 0 100 7"
  by (simp add: mem_state_sample paid_def stateA_def stateB_def)

lemma paid_step:
  assumes "5 \<le> unat a" "unat a + unat b \<le> 107"
  shows "ledger_transfer keyA n keyB 5 (paid n a b) = (Ok (), paid (n + 1) (a - 5) (b + 5))"
proof -
  have "dom (paid n a b) = {keyA, keyB}" by (auto simp: paid_def split: if_splits)
  then have "ledger_ok (paid n a b)"
    using assms(2) by (simp add: ledger_ok_def total_supply_def balance_of_def unat_GeneratorBalance) (simp add: paid_def)
  from ledger_transfer_effect [OF this, of keyA keyB] assms(1) show ?thesis by (simp add: paid_def fun_upd_twist)
qed

lemma paid_tx:
  assumes "5 \<le> unat a" "unat a + unat b \<le> 107"
  shows "ledger_tx (\<lambda>b. b) sto f (transferTx n 5 keyB) ks (paid n a b)
     = Some (add_keys [keyA, keyB] ks, (transferTx n 5 keyB)\<lparr>tx_Status := True\<rparr>, paid (n + 1) (a - 5) (b + 5))"
proof -
  have "action_of f (transferTx n 5 keyB) = Transfer keyA n keyB 5"
    by (rule action_of_transferTx) (simp_all add: GeneratorBalance_def)
  then show ?thesis using paid_step [OF assms, of n] by (simp add: ledger_tx_def Let_def nonce_ready_def paid_def)
qed

lemma four_block:
  "ledger_block (b58_Encode sample) (db_state sample sampleStorage) f fourTxs [] (mem_state sampleDb)
     = Some ([keyA, keyB], map (\<lambda>tx. tx\<lparr>tx_Status := True\<rparr>) fourTxs, paid 4 80 27)"
  by (simp add: fourTxs_def paid_start paid_tx add_keys_def add_key_def)

lemma four_txs: "MemoryService_GetTxsForBlock sample (w_mem fourWorld) = Ok (Some fourTxs)"
proof -
  have "LastPowerOf2 4 = Some 4" by code_simp
  then show ?thesis
    by (simp add: fourWorld_def fourTxs_def MemoryService_GetTxsForBlock_def Mempool_GetTxsForBlock_def Mempool_get_def Let_def
        sort_by_def lessNonce_def transferTx_def sampleData_def)
qed


lemma four_proposal:
  obtains blk w where "BlockProducer_NewBlock sample NewFaucet sampleChain sampleWallet 1 fourWorld = (Ok (blk, map Some [keyA, keyB]), w)"
    "sized_block (map (\<lambda>tx. tx\<lparr>tx_Status := True\<rparr>) fourTxs) blk"
proof -
  have w: "node_ok sample fourWorld" "led fourWorld = mem_state sampleDb" "w_db fourWorld = sampleStorage" "length (pool (mempool (w_mem fourWorld))) < 2 ^ 62"
    using node_ok_sample by (simp_all add: fourWorld_def node_ok_def idle_def fourTxs_def)
  have v: "\<forall>tx\<in>snd ` set (pool (mempool (w_mem fourWorld))). Transaction_Verify sample tx = Ok True"
    by (simp add: fourWorld_def fourTxs_def transferTx_Verify)
  have c: "card (dom (paid 4 80 27)) \<le> 2 ^ 62" by (simp add: paid_def card_insert_if)
  have lb: "ledger_block (b58_Encode sample) (db_state sample (w_db fourWorld)) NewFaucet fourTxs [] (led fourWorld)
      = Some ([keyA, keyB], map (\<lambda>tx. tx\<lparr>tx_Status := True\<rparr>) fourTxs, paid 4 80 27)" unfolding w(2,3) by (rule four_block)
  obtain blk w1 where b: "BlockProducer_NewBlock sample NewFaucet sampleChain sampleWallet 1 fourWorld = (Ok (blk, map Some [keyA, keyB]), w1)"
      "txs_of (bl_Bundle blk) = map (\<lambda>tx. tx\<lparr>tx_Status := True\<rparr>) fourTxs" "Block_Verify sample blk = Ok True"
    using NewBlock_valid [OF env_ok_sample w(1,4) v four_txs lb c sampleWallet_ok(1) sampleChain_prev, of 1] by auto
  have t: "Transactions (bl_Bundle blk) = Some (txs_of (bl_Bundle blk))"
    using b(2) by (cases "Transactions (bl_Bundle blk)") (simp_all add: txs_of_def fourTxs_def)
  obtain txs ts state txHash sig where n: "MemoryService_GetTxsForBlock sample (w_mem fourWorld) = Ok txs"
    "blk = \<lparr>bl_Info = \<lparr>bi_Height = Blockchain_NextHeight sampleChain,
       bi_Hash = Some (Sum256 sample (txHash @ bytes_of (Blockchain_PreviousBlockHash sampleChain) @ state)),
       bi_Signature = Some sig, bi_PublicKey = Wallet_PublicKey sampleWallet, bi_Timestamp = 1\<rparr>,
      bl_Bundle = \<lparr>Transactions = map_option (\<lambda>_. ts) txs\<rparr>,
      bl_PreviousBlockHash = Blockchain_PreviousBlockHash sampleChain, bl_StateHash = Some state\<rparr>"
    "Wallet_SignRaw sample sampleWallet (bi_Hash (bl_Info blk)) = Ok sig"
    by (rule NewBlock_Ok [OF b(1)])
  have "sized_block (map (\<lambda>tx. tx\<lparr>tx_Status := True\<rparr>) fourTxs) blk"
    using b(2,3) t n(2,3) sampleChain_prev
    by (auto simp: sized_block_def Block_Verify_def BlockInfo_Verify_def Wallet_SignRaw_def KeyPair_SignRaw_def ed25519_Sign_def
        HashSize_def sampleWallet_def samplePair_def Wallet_PublicKey_def)
  with that b(1) show thesis .
qed

theorem four_transfers_halt_round_witness:
  "\<exists>blk p1 ch p2. startRound sample 1 fourFull = (Ok (), p1)
     \<and> cons_inbound sample (proposal sample blk (fn_cons fourFull)) (sampleFull ''5001'' walletB [keyA, keyB]) = (Ok (), sampleFull ''5001'' walletB [keyA, keyB])
     \<and> ch \<in> set (timers (fn_cons p1)) \<and> timeout_fires ch p1 = (Blocked, p2) \<and> loop_tick sampleC 2 p2 = (Ok (), p2)"
proof -
  obtain blk w where b: "BlockProducer_NewBlock sample NewFaucet sampleChain sampleWallet 1 fourWorld = (Ok (blk, map Some [keyA, keyB]), w)"
    "sized_block (map (\<lambda>tx. tx\<lparr>tx_Status := True\<rparr>) fourTxs) blk" by (rule four_proposal)
  have f: "fn_cons fourFull = sampleCons ''5000'' sampleWallet [keyA, keyB]" "fn_node fourFull = sampleNode\<lparr>n_world := fourWorld\<rparr>"
    by (simp_all add: fourFull_def)
  have d: "\<forall>tx\<in>set (map (\<lambda>tx. tx\<lparr>tx_Status := True\<rparr>) fourTxs). \<exists>d. sized_tx d tx \<and> transfer_data d"
    using sized_transferTx transfer_data_sample [of keyB 5] by (fastforce simp: fourTxs_def)
  have nb: "BlockProducer_NewBlock sample (faucet (fn_node fourFull)) (blockchain (fn_node fourFull)) (nodeWallet (fn_cons fourFull)) 1 (n_world (fn_node fourFull))
      = (Ok (blk, map Some [keyA, keyB]), w)" using b(1) by (simp add: f)
  have k: "keypair_ok sample (wa_keyPair (nodeWallet (fn_cons fourFull)))" "address_ok (info (cs_p2p (fn_cons fourFull)))" "4 \<le> length (map (\<lambda>tx. tx\<lparr>tx_Status := True\<rparr>) fourTxs)"
    using sampleWallet_ok(1) [of "()"] sampleWallet_ok(2) by (simp_all add: f fourTxs_def)
  from four_transfers_halt_round [OF nb k(1,2) b(2) d k(3), of sample sampleC] show ?thesis by blast
qed

end
