(* ===== verification/Startup.thy ===== *)
theory Startup
  imports Sizes Sample
begin

text \<open>
  Starting a node: the accounts of the database are fetched into the empty memory, and the place in
  the chain is taken from the latest block. And the first block of a chain (\<open>src/genesis/genesis.go\<close>):
  how it is made, and what a node does with it.
\<close>

subsection \<open>Genesis\<close>

text \<open>The random bytes \<open>prev\<close> and \<open>state\<close> are outcomes of \<open>rand.Read\<close>, the clock is \<open>now\<close>.\<close>

definition Generate ::
  "('d, 'z) senv_scheme \<Rightarrow> Wallet \<Rightarrow> bytes go \<Rightarrow> bytes go \<Rightarrow> int64 \<Rightarrow> ('d StorageDb, unit) comp" where
  "Generate E wallet randPrev randState now =
     st_bind (st_out randPrev) (\<lambda>prev.
     st_bind (st_out randState) (\<lambda>state.
       let b = \<lparr>bl_Info = \<lparr>bi_Height = 0, bi_Hash = None, bi_Signature = None,
                 bi_PublicKey = Wallet_PublicKey wallet, bi_Timestamp = now\<rparr>,
               bl_Bundle = \<lparr>Transactions = None\<rparr>, bl_PreviousBlockHash = Some prev, bl_StateHash = Some state\<rparr>;
           hash = Sum256 E (prev @ state)
       in st_bind (st_out (Wallet_SignRaw E wallet (Some hash))) (\<lambda>sig.
          let b = b\<lparr>bl_Info := (bl_Info b)\<lparr>bi_Hash := Some hash, bi_Signature := Some sig\<rparr>\<rparr> in
          st_bind (StorageService_Put E BlocksBucket (Some (BlockContent b))) (\<lambda>_. st_out (Ok ())))))"

text \<open>
  \<open>NewGenerator\<close> refuses an existing database file; the wallet comes from \<open>NewWallet\<close>, whose outcome
  is the argument.
\<close>

definition NewGenerator ::
  "('d, 'z) senv_scheme \<Rightarrow> bool \<Rightarrow> string option \<Rightarrow> 'd StorageDb option \<Rightarrow> Wallet go \<Rightarrow> ('d StorageDb \<times> Wallet) go" where
  "NewGenerator E exists openErr file wallet =
     (if exists then Err ''file already exist''
      else go_bind (NewStorageService E openErr file) (\<lambda>s. go_bind wallet (\<lambda>w. Ok (s, w))))"

subsection \<open>Fetching all accounts\<close>

definition account_keys :: "('d, 'z) senv_scheme \<Rightarrow> 'd StorageDb \<Rightarrow> bytes list" where
  "account_keys E db = (case map_of (innerDb db) accountsBucket of
     None \<Rightarrow> [] | Some b \<Rightarrow> map fst (filter (\<lambda>(k, v). length k = 32) (bk_pairs E b)))"

lemma fetchAll_fetch:
  assumes "\<forall>(k, v)\<in>set kvs. bk_Get E b k = Some v"
  shows "fetchAll_loop E kvs = fetch_loop E b (map Some (map fst (filter (\<lambda>(k, v). length k = 32) kvs)))"
  using assms
proof (induction kvs)
  case (Cons kv kvs)
  obtain k v where kv: "kv = (k, v)" by force
  have "stored_state E b (Some k) = AccountState_Unmarshal v" using Cons.prems kv by (simp add: stored_state_def)
  with Cons kv show ?case by (simp add: PublicKeySize_def)
qed simp

lemma pairs_get:
  assumes "bolt_ok E" shows "\<forall>(k, v)\<in>set (bk_pairs E b). bk_Get E b k = Some v" "distinct (map fst (bk_pairs E b))"
  using assms by (auto simp: bolt_ok_def) (metis map_of_is_SomeI)

lemma account_keys_get:
  assumes "bolt_ok E" "bucket_ok accountsBucket db"
  shows "k \<in> set (account_keys E db) \<longleftrightarrow> length k = 32 \<and> bucket_get E accountsBucket db k \<noteq> None" "distinct (account_keys E db)"
proof -
  obtain b where b: "map_of (innerDb db) accountsBucket = Some b" using assms(2) by (auto simp: bucket_ok_def)
  have m: "map_of (bk_pairs E b) = bk_Get E b" "distinct (map fst (bk_pairs E b))" using assms(1) by (auto simp: bolt_ok_def)
  have "bk_Get E b k \<noteq> None \<longleftrightarrow> k \<in> fst ` set (bk_pairs E b)" using m(1) map_of_eq_None_iff [of "bk_pairs E b" k] by auto
  then show "k \<in> set (account_keys E db) \<longleftrightarrow> length k = 32 \<and> bucket_get E accountsBucket db k \<noteq> None"
    using b by (force simp: account_keys_def bucket_get_def image_iff)
  show "distinct (account_keys E db)" using b m(2) by (simp add: account_keys_def distinct_map_filter)
qed

lemma decodesD: "db_decodes E db \<Longrightarrow> length k = 32 \<Longrightarrow> db_state E db k = Ok (state_or_zero (db_state E db k))"
  by (auto simp: db_decodes_def is_Ok_def state_or_zero_def split: go.splits)

lemma FetchAll_ok:
  assumes "node_ok E w" "b58_ok E" "db_decodes E (w_db w)" "length (account_keys E (w_db w)) \<le> 11" "led w = Map.empty"
  shows "\<exists>ms. FetchAllAccounts E w = (Ok (), w\<lparr>w_mem := ms\<rparr>) \<and> node_ok E (w\<lparr>w_mem := ms\<rparr>)
     \<and> (\<forall>k. mem_state (stateMem ms) (b58_Encode E k)
          = (if k \<in> set (account_keys E (w_db w)) then Some (state_or_zero (db_state E (w_db w) k)) else None))"
proof -
  let ?ms = "w_mem w" let ?ks = "account_keys E (w_db w)"
  have node: "bolt_ok E" "bucket_ok accountsBucket (w_db w)" "idle ?ms" "mem_wf (stateMem ?ms)"
    using assms(1) by (simp_all add: node_ok_def)
  obtain b where b: "map_of (innerDb (w_db w)) accountsBucket = Some b" using node(2) by (auto simp: bucket_ok_def)
  let ?ss = "map (\<lambda>k. state_or_zero (db_state E (w_db w) k)) ?ks"
  have "db_state E (w_db w) k = Ok (state_or_zero (db_state E (w_db w) k))" if "k \<in> set ?ks" for k
    using decodesD [OF assms(3)] account_keys_get(1) [OF node(1,2)] that by blast
  then have st: "list_all2 (\<lambda>pk s. stored_state E b (Some pk) = Ok s) ?ks ?ss"
    by (simp add: list_all2_map2 list_all2_same stored_state_db [OF b])
  have ks: "?ks = map fst (filter (\<lambda>(k, v). length k = 32) (bk_pairs E b))" using b by (simp add: account_keys_def)
  obtain md where md: "st_bind (fetch_loop E b (map Some ?ks)) (recv_all E) (svc ?ms (stateMem ?ms) None (nextCh ?ms))
        = (Ok (), svc ?ms md None (nextCh ?ms + length ?ks))"
      "mem_wf md" "mem_state md = fetched E (zip ?ks ?ss) (led w)"
    by (rule fetch_from_idle [OF st assms(4) node(4)])
  have "FetchAllAccounts E w = (Ok (), w\<lparr>w_mem := svc ?ms md None (nextCh ?ms + length ?ks)\<rparr>)"
    using md(1) svc_idle [OF node(3)] unfolding fetchAll_fetch [OF pairs_get(1) [OF node(1), of b], folded ks, symmetric]
    by (auto simp: FetchAllAccounts_def db_View_def b st_bind_def on_mem_def split: prod.splits go.splits)
  moreover have "mem_state md (b58_Encode E k) = (if k \<in> set ?ks then Some (state_or_zero (db_state E (w_db w) k)) else None)" for k
  proof -
    have "fold (\<lambda>(pk, s) L. L(b58_Encode E pk \<mapsto> s)) (zip ks (map g ks)) L (b58_Encode E k)
        = (if k \<in> set ks then Some (g k) else L (b58_Encode E k))" for ks g and L :: ledger
      using b58_inj [OF assms(2)] by (induction ks arbitrary: L) auto
    then show ?thesis using md(3) assms(5) by (simp add: fetched_def)
  qed
  ultimately show ?thesis using node md(2) by (auto simp: node_ok_def)
qed

lemma FetchAll_blocked:
  assumes "bolt_ok E" "bucket_ok accountsBucket (w_db w)" "idle (w_mem w)" "db_decodes E (w_db w)"
    "11 < length (account_keys E (w_db w))"
  shows "\<exists>w'. FetchAllAccounts E w = (Blocked, w')"
proof -
  let ?ks = "account_keys E (w_db w)"
  obtain b where b: "map_of (innerDb (w_db w)) accountsBucket = Some b" using assms(2) by (auto simp: bucket_ok_def)
  have ks: "?ks = map fst (filter (\<lambda>(k, v). length k = 32) (bk_pairs E b))" using b by (simp add: account_keys_def)
  have "db_state E (w_db w) k = Ok (state_or_zero (db_state E (w_db w) k))" if "k \<in> set ?ks" for k
    using decodesD [OF assms(4)] account_keys_get(1) [OF assms(1,2)] that by blast
  then have st: "list_all2 (\<lambda>pk s. db_state E (w_db w) pk = Ok s) ?ks (map (\<lambda>k. state_or_zero (db_state E (w_db w) k)) ?ks)"
    by (simp add: list_all2_map2 list_all2_same)
  have "\<exists>ms. fetch_loop E b (map Some ?ks) (w_mem w) = (Blocked, ms)"
    by (rule fetch_loop_blocked [OF assms(3,5)]) (use st in \<open>simp add: stored_state_db [OF b]\<close>)
  then show ?thesis unfolding fetchAll_fetch [OF pairs_get(1) [OF assms(1), of b], folded ks, symmetric]
    by (auto simp: FetchAllAccounts_def db_View_def b on_mem_def)
qed

subsection \<open>Starting a node\<close>

text \<open>A database as a node that ran before left it: a first block whose generator has an account, and a latest block.\<close>

definition restartable :: "('d, 'z) senv_scheme \<Rightarrow> 'd StorageDb \<Rightarrow> Block \<Rightarrow> Block \<Rightarrow> bool" where
  "restartable E db g b \<longleftrightarrow> bolt_ok E \<and> bucket_ok blocksBucket db \<and> bucket_ok accountsBucket db
     \<and> StorageService_get E BlocksBucket RefIndex (Some (replicate 8 (CHR 0x00))) db = Ok (Some (Block_ToBytes g))
     \<and> bi_PublicKey (bl_Info g) \<noteq> None \<and> bucket_get E accountsBucket db (bytes_of (bi_PublicKey (bl_Info g))) \<noteq> None
     \<and> StorageService_get E BlocksBucket RefLatest None db = Ok (Some (Block_ToBytes b))
     \<and> db_decodes E db"

lemma get_account:
  assumes "bucket_ok accountsBucket db" "pk \<noteq> None"
  shows "StorageService_get E AccountsBucket RefKey pk db = Ok (bucket_get E accountsBucket db (bytes_of pk))"
proof -
  obtain b where "map_of (innerDb db) accountsBucket = Some b" using assms(1) by (auto simp: bucket_ok_def)
  then show ?thesis using assms(2) by (auto simp: StorageService_get_def StorageDb_GetByKey_def db_View_def bucket_get_def)
qed

lemma Faucet_Init_known:
  assumes "restartable E (w_db w) g b"
  shows "Faucet_Init E now f w = (Ok (f\<lparr>generator := bi_PublicKey (bl_Info g)\<rparr>), w)"
  using assms get_account [of "w_db w" "bi_PublicKey (bl_Info g)" E]
  by (auto simp: restartable_def Faucet_Init_def)

lemma mem_state_New: "mem_state (stateMem NewMemoryService) = Map.empty" "idle NewMemoryService" "mem_wf (stateMem NewMemoryService)"
  by (simp_all add: NewMemoryService_def NewMemoryDb_def mem_state_def idle_def mem_wf_def fun_eq_iff)

lemma Node_Run_start:
  assumes "NewNode E None (Some db) port NewMemoryService = Ok n" "restartable E db' g b"
    "Faucet_Init E now (faucet n) \<lparr>w_mem = NewMemoryService, w_db = db\<rparr>
       = (Ok ((faucet n)\<lparr>generator := bi_PublicKey (bl_Info g)\<rparr>), \<lparr>w_mem = NewMemoryService, w_db = db'\<rparr>)"
  obtains n1 where "Node_Run E now n = on_world (FetchAllAccounts E) n1" "n_world n1 = \<lparr>w_mem = NewMemoryService, w_db = db'\<rparr>"
    "generator (faucet n1) = bi_PublicKey (bl_Info g)"
    "blockchain n1 = Blockchain_Init (bi_Height (bl_Info b) + 1) (bi_Hash (bl_Info b)) NewBlockchain"
proof -
  have n: "n_world n = \<lparr>w_mem = NewMemoryService, w_db = db\<rparr>" "blockchain n = NewBlockchain"
    using assms(1) by (auto simp: NewNode_def NewStorageService_def NewStorageDb_def)
  let ?s = "(n_sync n)\<lparr>isSyncing := False, sy_p2p := localDiscovery 3000 3002 (sy_p2p (n_sync n))\<rparr>"
  have r: "on_sync SyncService_Run n = (Ok (), n\<lparr>n_sync := ?s\<rparr>)" by (simp add: SyncService_Run_def)
  have l: "StorageService_get E BlocksBucket RefLatest None db' = Ok (Some (Block_ToBytes b))" using assms(2) by (simp add: restartable_def)
  show thesis
    by (rule that [of "n\<lparr>n_sync := ?s, faucet := (faucet n)\<lparr>generator := bi_PublicKey (bl_Info g)\<rparr>,
        n_world := \<lparr>w_mem = NewMemoryService, w_db = db'\<rparr>,
        blockchain := Blockchain_Init (bi_Height (bl_Info b) + 1) (bi_Hash (bl_Info b)) NewBlockchain\<rparr>"])
      (use r assms(3) l n in \<open>simp_all add: Node_Run_def Executer_Init_def on_db_def\<close>)
qed

text \<open>What the node has when \<open>Run\<close> is through, whatever \<open>Init\<close> had to write.\<close>

definition comes_up :: "('d, 'z) senv_scheme \<Rightarrow> 'd StorageDb \<Rightarrow> Block \<Rightarrow> Block \<Rightarrow> 'd node \<Rightarrow> bool" where
  "comes_up E db g b n \<longleftrightarrow> w_db (n_world n) = db
     \<and> (\<forall>k. led (n_world n) (b58_Encode E k) = (if length k = 32 \<and> bucket_get E accountsBucket db k \<noteq> None
          then Some (state_or_zero (db_state E db k)) else None))
     \<and> generator (faucet n) = bi_PublicKey (bl_Info g)
     \<and> Blockchain_NextHeight (blockchain n) = bi_Height (bl_Info b) + 1
     \<and> Blockchain_PreviousBlockHash (blockchain n) = bi_Hash (bl_Info b)"

lemma Node_Run_comes_up:
  assumes "NewNode E None (Some db) port NewMemoryService = Ok n" "restartable E db' g b" "b58_ok E"
    "Faucet_Init E now (faucet n) \<lparr>w_mem = NewMemoryService, w_db = db\<rparr>
       = (Ok ((faucet n)\<lparr>generator := bi_PublicKey (bl_Info g)\<rparr>), \<lparr>w_mem = NewMemoryService, w_db = db'\<rparr>)"
  shows "if length (account_keys E db') \<le> 11 then \<exists>n'. Node_Run E now n = (Ok (), n') \<and> comes_up E db' g b n'
     else \<exists>n'. Node_Run E now n = (Blocked, n')"
proof -
  have r: "bolt_ok E" "bucket_ok accountsBucket db'" "db_decodes E db'" using assms(2) by (simp_all add: restartable_def)
  obtain n1 where n1: "Node_Run E now n = on_world (FetchAllAccounts E) n1" "n_world n1 = \<lparr>w_mem = NewMemoryService, w_db = db'\<rparr>"
    "generator (faucet n1) = bi_PublicKey (bl_Info g)"
    "blockchain n1 = Blockchain_Init (bi_Height (bl_Info b) + 1) (bi_Hash (bl_Info b)) NewBlockchain"
    by (rule Node_Run_start [OF assms(1,2,4)])
  have node: "node_ok E (n_world n1)" using r n1(2) by (simp add: node_ok_def mem_state_New)
  show ?thesis
  proof (cases "length (account_keys E db') \<le> 11")
    case True
    then obtain ms where ms: "FetchAllAccounts E (n_world n1) = (Ok (), (n_world n1)\<lparr>w_mem := ms\<rparr>)"
        "\<forall>k. mem_state (stateMem ms) (b58_Encode E k) = (if k \<in> set (account_keys E db') then Some (state_or_zero (db_state E db' k)) else None)"
      using FetchAll_ok [OF node assms(3)] r(3) n1(2) by (auto simp: mem_state_New)
    then have "comes_up E db' g b (n1\<lparr>n_world := (n_world n1)\<lparr>w_mem := ms\<rparr>\<rparr>)"
      using n1(2-4) by (simp add: comes_up_def account_keys_get(1) [OF r(1,2)]
        Blockchain_Init_def Blockchain_NextHeight_def Blockchain_PreviousBlockHash_def)
    then show ?thesis using True n1(1) ms(1) by auto
  next
    case False
    then obtain w' where "FetchAllAccounts E (n_world n1) = (Blocked, w')"
      using FetchAll_blocked [OF r(1), of "n_world n1"] r(2,3) n1(2) by (auto simp: mem_state_New)
    then show ?thesis using False n1(1) by simp
  qed
qed

text \<open>
  C30: A node that starts again has what it had: the accounts of the database in memory and no others, the
  generator of the first block, and the place in the chain after the latest block. But a node with
  twelve accounts or more in its database does not come up: fetching them never returns.
\<close>

theorem restart_restores:
  assumes "restartable E db g b" "b58_ok E" "NewNode E None (Some db) port NewMemoryService = Ok n"
  shows "if length (account_keys E db) \<le> 11
     then \<exists>n'. Node_Run E now n = (Ok (), n') \<and> comes_up E db g b n' \<and> synced (b58_Encode E) (db_state E db) [] (led (n_world n'))
     else \<exists>n'. Node_Run E now n = (Blocked, n')"
proof -
  have "db_decodes E db" using assms(1) by (simp add: restartable_def)
  then have "synced (b58_Encode E) (db_state E db) [] (led (n_world n'))" if "comes_up E db g b n'" for n'
    using that decodesD by (auto simp: synced_def comes_up_def)
  moreover have f: "Faucet_Init E now (faucet n) \<lparr>w_mem = NewMemoryService, w_db = db\<rparr>
      = (Ok ((faucet n)\<lparr>generator := bi_PublicKey (bl_Info g)\<rparr>), \<lparr>w_mem = NewMemoryService, w_db = db\<rparr>)"
    by (rule Faucet_Init_known) (use assms(1) in simp)
  ultimately show ?thesis using Node_Run_comes_up [OF assms(3,1,2) f] by (auto split: if_splits)
qed

subsection \<open>The first block\<close>

definition genesisBlock :: "'z lib_scheme \<Rightarrow> Wallet \<Rightarrow> bytes \<Rightarrow> bytes \<Rightarrow> int64 \<Rightarrow> bytes \<Rightarrow> Block" where
  "genesisBlock E wallet prev state now sig =
     \<lparr>bl_Info = \<lparr>bi_Height = 0, bi_Hash = Some (Sum256 E (prev @ state)), bi_Signature = Some sig,
        bi_PublicKey = Wallet_PublicKey wallet, bi_Timestamp = now\<rparr>,
      bl_Bundle = \<lparr>Transactions = None\<rparr>, bl_PreviousBlockHash = Some prev, bl_StateHash = Some state\<rparr>"

lemma ToHex_0: "ToHex (0::uint64) = replicate 8 (CHR 0x00)"
  by code_simp

lemma genesis_storable:
  assumes "hash_ok E" "length prev = 32" "length state = 32" "keypair_ok E (wa_keyPair wallet)" "length sig = 64"
  shows "block_storable (genesisBlock E wallet prev state now sig)"
proof -
  let ?g = "genesisBlock E wallet prev state now sig"
  have "slice_len (Wallet_PublicKey wallet) = 32" using assms(4) by (simp add: keypair_ok_def Wallet_PublicKey_def)
  then have "length (Block_ToBytes ?g) \<le> 2048"
    using assms(1-3,5) size_32 [of "Wallet_PublicKey wallet"] size_32 [of "Some prev"] size_32 [of "Some state"]
      size_32 [of "Some (Sum256 E (prev @ state))"] size_64 [of "Some sig"] length_enc_int64 [of now] length_enc_uint(2) [of 0]
    by (simp add: genesisBlock_def Block_ToBytes_def Marshal_def Block_to_json_def BlockInfo_to_json_def
        TxBundle_to_json_def enc_list_def plain_def)
  then show ?thesis using assms(1) by (simp add: block_storable_def genesisBlock_def)
qed

text \<open>A database that holds the first block and nothing else.\<close>

definition first_db :: "('d, 'z) senv_scheme \<Rightarrow> Block \<Rightarrow> 'd StorageDb \<Rightarrow> bool" where
  "first_db E g db \<longleftrightarrow> bolt_ok E \<and> bucket_ok blocksBucket db \<and> bucket_ok accountsBucket db
     \<and> StorageService_get E BlocksBucket RefIndex (Some (replicate 8 (CHR 0x00))) db = Ok (Some (Block_ToBytes g))
     \<and> StorageService_get E BlocksBucket RefLatest None db = Ok (Some (Block_ToBytes g))
     \<and> bucket_get E accountsBucket db = Map.empty"

lemma put_first:
  assumes "bolt_ok E" "bucket_ok blocksBucket db" "bucket_ok accountsBucket db" "bucket_get E accountsBucket db = Map.empty"
    "block_storable g" "bi_Height (bl_Info g) = 0"
  shows "\<exists>db'. StorageService_put E BlocksBucket (Some (BlockContent g)) db = (Ok (), db') \<and> first_db E g db'"
proof -
  obtain db' where db': "StorageDb_Put E blocksBucket (BlockContent g) db = (Ok (), db')"
      "\<And>n. n \<noteq> blocksBucket \<Longrightarrow> bucket_get E n db' = bucket_get E n db" "\<And>n. bucket_ok n db' \<longleftrightarrow> bucket_ok n db"
    using block_db.put [OF assms(1,2,5)] by metis
  have i: "DbContent_GetIndex (BlockContent g) = replicate 8 (CHR 0x00)" using assms(6) by (simp add: Block_GetIndex_def ToHex_0)
  have "StorageDb_GetByIndex E blocksBucket (Some (replicate 8 (CHR 0x00))) db' = Ok (Some (Block_ToBytes g))"
      "StorageDb_GetLatest E blocksBucket db' = Ok (Some (Block_ToBytes g))"
    using block_db.put_lookups [OF assms(1,2,5)] unfolding db'(1) i by auto
  then have "first_db E g db'"
    using db'(2) [of accountsBucket] db'(3) assms(1-4)
    by (simp add: first_db_def StorageService_get_def accountsBucket_def blocksBucket_def)
  then show ?thesis using db'(1) by (simp add: StorageService_put_def)
qed

lemma Generate_first:
  assumes "hash_ok E" "bolt_ok E" "NewStorageService E None None = Ok db" "keypair_ok E (wa_keyPair wallet)"
    "length prev = 32" "length state = 32"
  shows "\<exists>sig db'. length sig = 64 \<and> Generate E wallet (Ok prev) (Ok state) now db = (Ok (), db')
     \<and> first_db E (genesisBlock E wallet prev state now sig) db'"
proof -
  obtain sig where sig: "Wallet_SignRaw E wallet (Some (Sum256 E (prev @ state))) = Ok sig" "length sig = 64"
    using SignRaw_ok [OF assms(4)] by blast
  let ?g = "genesisBlock E wallet prev state now sig"
  note b = NewStorageService_buckets [OF assms(2,3)]
  have "bucket_get E accountsBucket db = Map.empty" using b(4) by (simp add: fun_eq_iff)
  from put_first [OF assms(2) b(1,2) this genesis_storable [OF assms(1,5,6,4) sig(2)]]
  obtain db' where "StorageService_put E BlocksBucket (Some (BlockContent ?g)) db = (Ok (), db')" "first_db E ?g db'"
    by (auto simp: genesisBlock_def)
  then show ?thesis using sig by (intro exI [of _ sig] exI [of _ db']) (simp add: Generate_def Let_def genesisBlock_def)
qed


text \<open>The generator gets its account when \<open>Init\<close> first sees the block.\<close>

lemma Faucet_Init_first:
  assumes "first_db E g (w_db w)" "bi_PublicKey (bl_Info g) = Some pk" "length pk = 32"
  obtains db' where "Faucet_Init E now f w = (Ok (f\<lparr>generator := Some pk\<rparr>), w\<lparr>w_db := db'\<rparr>)" "restartable E db' g g"
    "\<And>k. length k = 32 \<Longrightarrow> bucket_get E accountsBucket db' k \<noteq> None \<longleftrightarrow> k = pk"
    "db_state E db' pk = Ok \<lparr>as_Nonce = 0, as_Balance = GeneratorBalance\<rparr>"
proof -
  let ?a = "\<lparr>ac_PublicKey = Some pk, ac_State = \<lparr>as_Nonce = 0, as_Balance = GeneratorBalance\<rparr>, ac_Timestamp = now\<rparr>"
  let ?db = "w_db w"
  have f: "bolt_ok E" "bucket_ok blocksBucket ?db" "bucket_ok accountsBucket ?db" "bucket_get E accountsBucket ?db = Map.empty"
      "StorageService_get E BlocksBucket RefIndex (Some (replicate 8 (CHR 0x00))) ?db = Ok (Some (Block_ToBytes g))"
      "StorageService_get E BlocksBucket RefLatest None ?db = Ok (Some (Block_ToBytes g))"
    using assms(1) by (simp_all add: first_db_def)
  have st: "account_storable ?a" using assms(3) by (simp add: account_storable_def)
  obtain db' where db': "StorageDb_Put E accountsBucket (AccountContent ?a) ?db = (Ok (), db')"
      "bucket_get E accountsBucket db' = Map.empty(pk := Some (Account_ToBytes ?a),
         Account_GetIndex ?a := Some pk, latestKey := Some pk, latestIndex := Some (Account_GetIndex ?a))"
      "\<And>n. bucket_ok n db' \<longleftrightarrow> bucket_ok n ?db" "\<And>n. n \<noteq> accountsBucket \<Longrightarrow> bucket_get E n db' = bucket_get E n ?db"
    using account_db.put [OF f(1,3) st] f(4) by (auto simp: Account_GetKey_def)
  have l: "length (Account_GetIndex ?a) = 8" "length latestKey = 6" "length latestIndex = 9"
    using account_db.index_size [of ?a] by (simp_all add: latestKey_def latestIndex_def)
  have g: "bucket_get E accountsBucket db' k = (if k = pk then Some (Account_ToBytes ?a) else None)" if "length k = 32" for k
    using that l unfolding db'(2) by (auto simp: fun_upd_apply)
  have s: "db_state E db' pk = Ok (ac_State ?a)" using g [OF assms(3)] account_db.decode [OF st] by (simp add: db_state_def)
  have b: "StorageService_get E BlocksBucket r i db' = StorageService_get E BlocksBucket r i ?db" for r i
    using db'(3,4) [of blocksBucket] f(2)
    by (cases r) (simp_all add: StorageService_get_def StorageDb_gets accountsBucket_def blocksBucket_def)
  have "Faucet_Init E now f w = (Ok (f\<lparr>generator := Some pk\<rparr>), w\<lparr>w_db := db'\<rparr>)"
    using f(3-5) assms(2) db'(1) get_account [of ?db "Some pk" E] by (simp add: Faucet_Init_def on_db_def StorageService_put_def)
  moreover have "restartable E db' g g"
    using f b db'(3) g assms(2,3) s by (auto simp: restartable_def db_decodes_def db_state_def is_Ok_def)
  moreover have "bucket_get E accountsBucket db' k \<noteq> None \<longleftrightarrow> k = pk" if "length k = 32" for k using g [OF that] by simp
  ultimately show thesis using that s by simp
qed

subsection \<open>A chain begins\<close>

text \<open>The state of a node that knows the first block and nothing more.\<close>

definition begins :: "('d, 'z) senv_scheme \<Rightarrow> Block \<Rightarrow> 'd node \<Rightarrow> bool" where
  "begins E g n \<longleftrightarrow> (\<forall>k. led (n_world n) (b58_Encode E k) = (if Some k = bi_PublicKey (bl_Info g)
        then Some \<lparr>as_Nonce = 0, as_Balance = GeneratorBalance\<rparr> else None))
     \<and> generator (faucet n) = bi_PublicKey (bl_Info g)
     \<and> Blockchain_NextHeight (blockchain n) = 1 \<and> Blockchain_PreviousBlockHash (blockchain n) = bi_Hash (bl_Info g)"

lemma one_account:
  assumes "restartable E db g b" "\<And>k. length k = 32 \<Longrightarrow> bucket_get E accountsBucket db k \<noteq> None \<longleftrightarrow> k = pk"
  shows "length (account_keys E db) \<le> 1"
proof -
  have r: "bolt_ok E" "bucket_ok accountsBucket db" using assms(1) by (simp_all add: restartable_def)
  have "set (account_keys E db) \<subseteq> {pk}" using account_keys_get(1) [OF r] assms(2) by auto
  then have "card (set (account_keys E db)) \<le> 1" using card_mono [of "{pk}"] by simp
  then show ?thesis using distinct_card [OF account_keys_get(2) [OF r]] by simp
qed

lemma first_node_begins:
  assumes "first_db E g db" "bi_PublicKey (bl_Info g) = Some pk" "length pk = 32" "bi_Height (bl_Info g) = 0" "b58_ok E"
    "NewNode E None (Some db) port NewMemoryService = Ok n"
  shows "\<exists>n'. Node_Run E now n = (Ok (), n') \<and> begins E g n'"
proof -
  obtain db' where db': "Faucet_Init E now (faucet n) \<lparr>w_mem = NewMemoryService, w_db = db\<rparr>
        = (Ok ((faucet n)\<lparr>generator := Some pk\<rparr>), \<lparr>w_mem = NewMemoryService, w_db = db'\<rparr>)" "restartable E db' g g"
      "\<And>k. length k = 32 \<Longrightarrow> bucket_get E accountsBucket db' k \<noteq> None \<longleftrightarrow> k = pk"
      "db_state E db' pk = Ok \<lparr>as_Nonce = 0, as_Balance = GeneratorBalance\<rparr>"
    using Faucet_Init_first [of E g "\<lparr>w_mem = NewMemoryService, w_db = db\<rparr>" pk now "faucet n"] assms(1-3) by auto
  have "length (account_keys E db') \<le> 1" by (rule one_account [OF db'(2,3)])
  then obtain n' where n': "Node_Run E now n = (Ok (), n')" "comes_up E db' g g n'"
    using Node_Run_comes_up [OF assms(6) db'(2) assms(5), of now] db'(1) assms(2) by auto
  moreover have "begins E g n'" using n'(2) db'(3,4) assms(2-4) by (auto simp: comes_up_def begins_def state_or_zero_def)
  ultimately show ?thesis by blast
qed

lemma fresh_node:
  assumes "bolt_ok E" "b58_ok E" "NewNode E None None port NewMemoryService = Ok n"
  shows "\<exists>n'. Node_Run E now n = (Ok (), n') \<and> node_ok E (n_world n') \<and> bucket_ok blocksBucket (w_db (n_world n'))
     \<and> bucket_get E accountsBucket (w_db (n_world n')) = Map.empty
     \<and> (\<forall>k. led (n_world n') (b58_Encode E k) = None) \<and> blockchain n' = NewBlockchain"
proof -
  obtain db where db: "NewStorageService E None None = Ok db" "n_world n = \<lparr>w_mem = NewMemoryService, w_db = db\<rparr>"
      "blockchain n = NewBlockchain" using assms(3) by (auto simp: NewNode_def split: go.splits)
  note b = NewStorageService_buckets [OF assms(1) db(1)]
  have node: "node_ok E (n_world n)" using assms(1) b db(2) by (simp add: node_ok_def mem_state_New)
  have e: "account_keys E db = []" using account_keys_get(1) [OF assms(1) b(2)] b(4) by (metis all_not_in_conv set_empty)
  then have d: "db_decodes E db" using b(4) by (simp add: db_decodes_def db_state_def is_Ok_def)
  obtain ms where ms: "FetchAllAccounts E (n_world n) = (Ok (), (n_world n)\<lparr>w_mem := ms\<rparr>)" "node_ok E ((n_world n)\<lparr>w_mem := ms\<rparr>)"
      "\<forall>k. mem_state (stateMem ms) (b58_Encode E k) = None"
    using FetchAll_ok [OF node assms(2)] d e db(2) by (auto simp: mem_state_New)
  have g: "StorageService_get E BlocksBucket r i db = Ok None" for r i
    using b(1,3) by (cases r) (simp_all add: StorageService_get_def StorageDb_gets)
  let ?s = "(n_sync n)\<lparr>isSyncing := False, sy_p2p := localDiscovery 3000 3002 (sy_p2p (n_sync n))\<rparr>"
  have "Node_Run E now n = (Ok (), n\<lparr>n_sync := ?s, n_world := (n_world n)\<lparr>w_mem := ms\<rparr>\<rparr>)"
    using ms(1) db g by (simp add: Node_Run_def Executer_Init_def SyncService_Run_def Faucet_Init_def on_db_def)
  then show ?thesis using ms db b by (auto simp: fun_eq_iff)
qed

lemma synced_node_begins:
  assumes "node_ok E (n_world n)" "bucket_ok blocksBucket (w_db (n_world n))" "bucket_get E accountsBucket (w_db (n_world n)) = Map.empty"
    "\<forall>k. led (n_world n) (b58_Encode E k) = None" "blockchain n = NewBlockchain" "b58_ok E"
    "block_storable g" "bi_PublicKey (bl_Info g) = Some pk" "length pk = 32" "bi_Height (bl_Info g) = 0"
  shows "\<exists>n'. sync_block E (OnBlockStored E now) g n = (Ok True, n') \<and> begins E g n'"
proof -
  let ?w = "n_world n"
  have node: "bolt_ok E" "bucket_ok accountsBucket (w_db ?w)" using assms(1) by (simp_all add: node_ok_def)
  obtain db1 where db1: "StorageService_put E BlocksBucket (Some (BlockContent g)) (w_db ?w) = (Ok (), db1)" "first_db E g db1"
    using put_first [OF node(1) assms(2) node(2) assms(3,7,10)] by blast
  obtain db2 where db2: "Faucet_Init E now (faucet n) (?w\<lparr>w_db := db1\<rparr>)
        = (Ok ((faucet n)\<lparr>generator := Some pk\<rparr>), ?w\<lparr>w_db := db2\<rparr>)" "restartable E db2 g g"
      "db_state E db2 pk = Ok \<lparr>as_Nonce = 0, as_Balance = GeneratorBalance\<rparr>"
    using Faucet_Init_first [of E g "?w\<lparr>w_db := db1\<rparr>" pk now "faucet n"] db1(2) assms(8,9) by auto
  have ok: "node_ok E (?w\<lparr>w_db := db2\<rparr>)" using assms(1) db2(2) by (simp add: node_ok_def restartable_def)
  obtain ms where ms: "FetchAccounts E [Some pk] (?w\<lparr>w_db := db2\<rparr>) = (Ok (), ?w\<lparr>w_db := db2, w_mem := ms\<rparr>)"
      "mem_state (stateMem ms) = (led ?w)(b58_Encode E pk \<mapsto> \<lparr>as_Nonce = 0, as_Balance = GeneratorBalance\<rparr>)"
    using Fetch_reverted [OF ok, of "[pk]"] db2(3) by (auto simp: reverted_def is_Ok_def state_or_zero_def)
  let ?n = "n\<lparr>faucet := (faucet n)\<lparr>generator := Some pk\<rparr>, n_world := ?w\<lparr>w_db := db2, w_mem := ms\<rparr>,
    blockchain := Blockchain_Increment (bi_Hash (bl_Info g)) NewBlockchain\<rparr>"
  have "sync_block E (OnBlockStored E now) g n = (Ok True, ?n)"
    using db1(1) db2(1) ms(1) assms(5,8,10) by (simp add: sync_block_def OnBlockStored_def Executer_Init_def on_db_def)
  moreover have "begins E g ?n" using ms(2) assms(4,8) b58_inj [OF assms(6)]
    by (auto simp: begins_def NewBlockchain_def blockchain_defs)
  ultimately show ?thesis by blast
qed

text \<open>
  C28: How a chain begins. \<open>Generate\<close> in a new database writes one block; the node that runs on that
  database and a node with an empty database that synchronises the block end in the same state: the
  generator has the whole supply, no other account exists, and the next height is one.
\<close>

theorem genesis_bootstrap:
  assumes "hash_ok E" "b58_ok E" "bolt_ok E" "NewStorageService E None None = Ok db0" "keypair_ok E (wa_keyPair wallet)"
    "length prev = 32" "length state = 32" "Generate E wallet (Ok prev) (Ok state) now db0 = (r, db)"
    "NewNode E None (Some db) port NewMemoryService = Ok n" "NewNode E None None port' NewMemoryService = Ok m"
  shows "r = Ok () \<and> (\<exists>g n' m1 m2. StorageService_get E BlocksBucket RefLatest None db = Ok (Some (Block_ToBytes g))
     \<and> bi_PublicKey (bl_Info g) = Wallet_PublicKey wallet \<and> Node_Run E now1 n = (Ok (), n') \<and> begins E g n'
     \<and> Node_Run E now2 m = (Ok (), m1) \<and> sync_block E (OnBlockStored E now3) g m1 = (Ok True, m2) \<and> begins E g m2)"
proof -
  obtain pk where pk: "Wallet_PublicKey wallet = Some pk" "length pk = 32"
    using assms(5) slice_len_Some [of "Wallet_PublicKey wallet"] by (auto simp: keypair_ok_def Wallet_PublicKey_def)
  obtain sig where sig: "length sig = 64" "r = Ok ()" "first_db E (genesisBlock E wallet prev state now sig) db"
    using Generate_first [OF assms(1,3-7), of now] assms(8) by auto
  define g where "g = genesisBlock E wallet prev state now sig"
  have g: "bi_PublicKey (bl_Info g) = Some pk" "bi_Height (bl_Info g) = 0" "block_storable g" "first_db E g db"
    using pk(1) sig(3) genesis_storable [OF assms(1,6,7,5) sig(1)] by (simp_all add: g_def genesisBlock_def)
  obtain n' where n': "Node_Run E now1 n = (Ok (), n')" "begins E g n'"
    using first_node_begins [OF g(4,1) pk(2) g(2) assms(2,9)] by blast
  obtain m1 where m1: "Node_Run E now2 m = (Ok (), m1)" "node_ok E (n_world m1)" "bucket_ok blocksBucket (w_db (n_world m1))"
      "bucket_get E accountsBucket (w_db (n_world m1)) = Map.empty"
      "\<forall>k. led (n_world m1) (b58_Encode E k) = None" "blockchain m1 = NewBlockchain"
    using fresh_node [OF assms(3,2,10)] by blast
  obtain m2 where m2: "sync_block E (OnBlockStored E now3) g m1 = (Ok True, m2)" "begins E g m2"
    using synced_node_begins [OF m1(2-6) assms(2) g(3,1) pk(2) g(2)] by blast
  have "StorageService_get E BlocksBucket RefLatest None db = Ok (Some (Block_ToBytes g))" using g(4) by (simp add: first_db_def)
  then show ?thesis using sig(2) n' m1(1) m2 g(1) pk(1) by metis
qed

theorem genesis_bootstrap_witness:
  "\<exists>g db0 db n n' m m1 m2. NewStorageService sample None None = Ok db0
     \<and> Generate sample sampleWallet (Ok (replicate 32 (CHR ''p''))) (Ok (replicate 32 (CHR ''s''))) 1 db0 = (Ok (), db)
     \<and> NewNode sample None (Some db) ''3000'' NewMemoryService = Ok n \<and> Node_Run sample 2 n = (Ok (), n')
     \<and> NewNode sample None None ''3001'' NewMemoryService = Ok m \<and> Node_Run sample 3 m = (Ok (), m1)
     \<and> sync_block sample (OnBlockStored sample 4) g m1 = (Ok True, m2)
     \<and> led (n_world n') keyA = Some \<lparr>as_Nonce = 0, as_Balance = GeneratorBalance\<rparr> \<and> led (n_world m2) keyA = led (n_world n') keyA"
proof -
  obtain db0 where db0: "NewStorageService sample None None = Ok db0" by (simp add: NewStorageService_def NewStorageDb_def)
  obtain r db where db: "Generate sample sampleWallet (Ok (replicate 32 (CHR ''p''))) (Ok (replicate 32 (CHR ''s''))) 1 db0 = (r, db)"
    by (rule prod.exhaust)
  obtain n where n: "NewNode sample None (Some db) ''3000'' NewMemoryService = Ok n"
    by (simp add: NewNode_def NewStorageService_def NewStorageDb_def)
  obtain m where m: "NewNode sample None None ''3001'' NewMemoryService = Ok m" using db0 by (simp add: NewNode_def)
  note e = sample_lib [of "()"] and kp = sampleWallet_ok(1) [of "()"] sampleWallet_ok(2)
  from genesis_bootstrap [OF e bolt_ok_sample db0 kp(1) length_replicate length_replicate db n m, of 2 3 4]
  obtain g n' m1 m2 where r: "r = Ok ()" "bi_PublicKey (bl_Info g) = Some keyA" "Node_Run sample 2 n = (Ok (), n')" "begins sample g n'"
      "Node_Run sample 3 m = (Ok (), m1)" "sync_block sample (OnBlockStored sample 4) g m1 = (Ok True, m2)" "begins sample g m2"
    unfolding kp(2) by blast
  have "led (n_world n') keyA = Some \<lparr>as_Nonce = 0, as_Balance = GeneratorBalance\<rparr>"
      "led (n_world m2) keyA = Some \<lparr>as_Nonce = 0, as_Balance = GeneratorBalance\<rparr>"
    using r(2,4,7) by (simp_all add: begins_def)
  then show ?thesis using db0 db n m r by metis
qed

theorem restart_restores_witness:
  "\<exists>db g n n'. restartable sample db g g \<and> NewNode sample None (Some db) ''3000'' NewMemoryService = Ok n
     \<and> Node_Run sample 3 n = (Ok (), n') \<and> comes_up sample db g g n' \<and> Blockchain_NextHeight (blockchain n') = 1"
proof -
  obtain db0 where db0: "NewStorageService sample None None = Ok db0" by (simp add: NewStorageService_def NewStorageDb_def)
  note e = sample_lib [of "()"] and kp = sampleWallet_ok(1) [of "()"] sampleWallet_ok(2)
  obtain sig db where db: "first_db sample (genesisBlock sample sampleWallet (replicate 32 (CHR ''p'')) (replicate 32 (CHR ''s'')) 1 sig) db"
    using Generate_first [OF e(1) bolt_ok_sample db0 kp(1), of "replicate 32 (CHR ''p'')" "replicate 32 (CHR ''s'')" 1] unfolding length_replicate by blast
  define g where "g = genesisBlock sample sampleWallet (replicate 32 (CHR ''p'')) (replicate 32 (CHR ''s'')) 1 sig"
  have g: "bi_PublicKey (bl_Info g) = Some keyA" "bi_Height (bl_Info g) = 0" using kp(2) by (simp_all add: g_def genesisBlock_def)
  obtain db' where db': "restartable sample db' g g" "\<And>k. length k = 32 \<Longrightarrow> bucket_get sample accountsBucket db' k \<noteq> None \<longleftrightarrow> k = keyA"
    by (rule Faucet_Init_first [of sample g "\<lparr>w_mem = NewMemoryService, w_db = db\<rparr>" keyA 2 NewFaucet])
      (use db g(1) in \<open>auto simp: g_def\<close>)
  have "length (account_keys sample db') \<le> 1" by (rule one_account [OF db'])
  moreover obtain n where n: "NewNode sample None (Some db') ''3000'' NewMemoryService = Ok n"
    by (simp add: NewNode_def NewStorageService_def NewStorageDb_def)
  ultimately obtain n' where "Node_Run sample 3 n = (Ok (), n')" "comes_up sample db' g g n'"
    using restart_restores [OF db'(1) e(2) n, of 3] by auto
  then show ?thesis using db'(1) n g(2) by (intro exI [of _ db'] exI [of _ g] exI [of _ n] exI [of _ n']) (simp add: comes_up_def)
qed

end
