(* ===== verification/Cli.thy ===== *)
theory Cli
  imports FullNode Startup Clients
begin

text \<open>
  The command line (\<open>src/cli/cli.go\<close>, \<open>src/main.go\<close>): the flags of each command as package \<open>flag\<close> reads
  them, and what each command does with the files of the machine and with the node at the other end of a
  connection.
\<close>

subsection \<open>Numbers on the command line\<close>

text \<open>\<open>strconv.ParseUint(s, 0, 64)\<close>: a prefix chooses the base, single underscores may separate digits.\<close>

definition lower :: "char \<Rightarrow> char" where
  "lower c = (if 65 \<le> code c \<and> code c \<le> 90 then char_of (code c + 32) else c)"

definition digit_value :: "char \<Rightarrow> nat option" where
  "digit_value c =
     (if is_digit c then Some (code c - 48)
      else if 97 \<le> code (lower c) \<and> code (lower c) \<le> 122 then Some (code (lower c) - 87)
      else None)"

fun uint_digits :: "nat \<Rightarrow> string \<Rightarrow> nat \<Rightarrow> nat option" where
  "uint_digits base [] n = Some n"
| "uint_digits base (c # cs) n =
     (if c = CHR ''_'' then uint_digits base cs n
      else (case digit_value c of None \<Rightarrow> None
        | Some d \<Rightarrow> if base \<le> d \<or> 2 ^ 64 \<le> n * base + d then None else uint_digits base cs (n * base + d)))"

datatype saw = SawStart | SawDigit | SawUnderscore | SawOther

fun underscores :: "bool \<Rightarrow> string \<Rightarrow> saw \<Rightarrow> bool" where
  "underscores hex [] w = (w \<noteq> SawUnderscore)"
| "underscores hex (c # cs) w =
     (if is_digit c \<or> hex \<and> 97 \<le> code (lower c) \<and> code (lower c) \<le> 102 then underscores hex cs SawDigit
      else if c = CHR ''_'' then w = SawDigit \<and> underscores hex cs SawUnderscore
      else w \<noteq> SawUnderscore \<and> underscores hex cs SawOther)"

definition uint_base :: "string \<Rightarrow> nat \<times> string" where
  "uint_base s = (case s of
       c # d # e # r \<Rightarrow>
         if c \<noteq> CHR ''0'' then (10, s)
         else if lower d = CHR ''b'' then (2, e # r) else if lower d = CHR ''o'' then (8, e # r)
         else if lower d = CHR ''x'' then (16, e # r) else (8, d # e # r)
     | c # r \<Rightarrow> if c = CHR ''0'' then (8, r) else (10, s)
     | [] \<Rightarrow> (10, []))"

definition underscoreOK :: "string \<Rightarrow> bool" where
  "underscoreOK s = (case s of
       c # d # r \<Rightarrow> if c = CHR ''0'' \<and> lower d \<in> {CHR ''b'', CHR ''o'', CHR ''x''} then underscores (lower d = CHR ''x'') r SawDigit
                    else underscores False s SawStart
     | _ \<Rightarrow> underscores False s SawStart)"

definition ParseUint0 :: "string \<Rightarrow> uint64 option" where
  "ParseUint0 s =
     (if s = [] then None
      else (case uint_base s of (base, ds) \<Rightarrow>
        (case uint_digits base ds 0 of None \<Rightarrow> None
         | Some n \<Rightarrow> if CHR ''_'' \<in> set ds \<and> \<not> underscoreOK s then None else Some (of_nat n))))"

subsection \<open>Flags\<close>

text \<open>
  A flag set with its values, and \<open>Parse\<close> with \<open>ExitOnError\<close>: an error ends the process with code 2, a
  request for help with 0. Arguments after the flags are left alone.
\<close>

datatype flag_value = StringFlag string | Uint64Flag uint64

type_synonym FlagSet = "(string \<times> flag_value) list"

datatype 'a parsed = Parsed 'a | ExitWith nat

definition setFlag :: "string \<Rightarrow> string \<Rightarrow> FlagSet \<Rightarrow> FlagSet option" where
  "setFlag name v fs = (case map_of fs name of
       None \<Rightarrow> None
     | Some (StringFlag _) \<Rightarrow> Some (AList.update name (StringFlag v) fs)
     | Some (Uint64Flag _) \<Rightarrow> map_option (\<lambda>n. AList.update name (Uint64Flag n) fs) (ParseUint0 v))"

definition flagName :: "string \<Rightarrow> string" where
  "flagName s = (if take 2 s = ''--'' then drop 2 s else drop 1 s)"

fun FlagSet_Parse :: "FlagSet \<Rightarrow> string list \<Rightarrow> FlagSet parsed" where
  "FlagSet_Parse fs [] = Parsed fs"
| "FlagSet_Parse fs (s # args) =
     (if length s < 2 \<or> hd s \<noteq> CHR ''-'' then Parsed fs
      else if s = ''--'' then Parsed fs
      else let nm = flagName s in
        if nm = [] \<or> hd nm = CHR ''-'' \<or> hd nm = CHR ''='' then ExitWith 2
        else let name = takeWhile (\<lambda>c. c \<noteq> CHR ''='') nm; hasValue = CHR ''='' \<in> set nm in
          if map_of fs name = None then ExitWith (if name = ''help'' \<or> name = ''h'' then 0 else 2)
          else if hasValue then
            (case setFlag name (drop (length name + 1) nm) fs of None \<Rightarrow> ExitWith 2 | Some fs' \<Rightarrow> FlagSet_Parse fs' args)
          else (case args of [] \<Rightarrow> ExitWith 2
            | v # rest \<Rightarrow> (case setFlag name v fs of None \<Rightarrow> ExitWith 2 | Some fs' \<Rightarrow> FlagSet_Parse fs' rest)))"

definition flagString :: "string \<Rightarrow> FlagSet \<Rightarrow> string" where
  "flagString name fs = (case map_of fs name of Some (StringFlag v) \<Rightarrow> v | _ \<Rightarrow> [])"

definition flagUint64 :: "string \<Rightarrow> FlagSet \<Rightarrow> uint64" where
  "flagUint64 name fs = (case map_of fs name of Some (Uint64Flag v) \<Rightarrow> v | _ \<Rightarrow> 0)"

definition nodeCmd :: FlagSet where
  "nodeCmd = [(''n'', StringFlag ''mynode''), (''s'', StringFlag ''3000''), (''c'', StringFlag ''5000''), (''r'', StringFlag ''8000'')]"

definition genesisCmd :: FlagSet where
  "genesisCmd = [(''n'', StringFlag ''mynode'')]"

definition clientNewCmd :: FlagSet where
  "clientNewCmd = [(''n'', StringFlag ''default'')]"

definition addressCmd :: FlagSet where
  "addressCmd = [(''n'', StringFlag ''default'')]"

definition balanceCmd :: FlagSet where
  "balanceCmd = [(''n'', StringFlag ''default''), (''p'', StringFlag ''8000'')]"

definition airdropCmd :: FlagSet where
  "airdropCmd = [(''n'', StringFlag ''default''), (''a'', Uint64Flag 1), (''p'', StringFlag ''8000'')]"

definition transferCmd :: FlagSet where
  "transferCmd = [(''n'', StringFlag ''default''), (''a'', Uint64Flag 1), (''t'', StringFlag ''default''), (''p'', StringFlag ''8000'')]"


subsection \<open>The machine\<close>

text \<open>
  The key file and the database of each name, the nodes at the other end of connections, and what was
  printed; what the operating system and the clock answer is \<open>os\<close>.
\<close>

record ('d, 's) machine =
  keyFiles :: "string \<Rightarrow> bytes option"
  databases :: "string \<Rightarrow> 'd StorageDb option"
  network :: 's
  stdout :: string

record 's os =
  os_GenerateKey :: "(bytes \<times> bytes) go"
  os_writeErr :: "string option"
  os_openErr :: "string option"
  os_rand1 :: "bytes go"
  os_rand2 :: "bytes go"
  os_now :: int64
  os_remote :: "'s remote"

text \<open>The process ends with a code, \<open>Run\<close> returns, or a full node was started, with the outcome of its start.\<close>

datatype 'd outcome = Exited nat | Returned "unit go" | Started "unit go" "'d fullnode"

definition newline :: string where "newline = [CHR 0x0A]"

definition println :: "string \<Rightarrow> ('d, 's) machine \<Rightarrow> ('d, 's) machine" where
  "println s m = m\<lparr>stdout := stdout m @ s @ newline\<rparr>"

definition printUsage :: "('d, 's) machine \<Rightarrow> ('d, 's) machine" where
  "printUsage = fold println
     [[], ''usage:'', '' node -n name -s SyncPort -c ConsensusPort -r RpcPort'', ''  genesis -n name'', '' client'', ''  new -n Name'',
      ''  address -n Name'', ''  balance -n Name -p Port'', ''  airdrop -n Name -a Amount -p Port'', ''  transfer -n Name -a Amount -t To -p Port'']"

definition cli_exit :: "('d, 's) machine \<Rightarrow> 'd outcome \<times> ('d, 's) machine" where
  "cli_exit m = (Exited 0, printUsage m)"

definition validateArgs :: "string list \<Rightarrow> bool" where
  "validateArgs args \<longleftrightarrow> \<not> length args < 2"

text \<open>\<open>Parse\<close> ends the process itself, so the code that follows an error of \<open>Parse\<close> never runs.\<close>

definition withFlags :: "FlagSet \<Rightarrow> string list \<Rightarrow> (FlagSet \<Rightarrow> ('d, 's) machine \<Rightarrow> 'd outcome \<times> ('d, 's) machine)
     \<Rightarrow> ('d, 's) machine \<Rightarrow> 'd outcome \<times> ('d, 's) machine" where
  "withFlags fs args f m = (case FlagSet_Parse fs args of ExitWith n \<Rightarrow> (Exited n, m) | Parsed fs \<Rightarrow> f fs m)"

definition openWallet :: "'s os \<Rightarrow> string \<Rightarrow> (('d, 's) machine, Wallet) comp" where
  "openWallet S name m = (case NewWallet (os_GenerateKey S) (os_writeErr S) (keyFiles m name) of
     (w, kf) \<Rightarrow> (w, m\<lparr>keyFiles := (keyFiles m)(name := kf)\<rparr>))"

definition returning :: "(('d, 's) machine, unit) comp \<Rightarrow> ('d, 's) machine \<Rightarrow> 'd outcome \<times> ('d, 's) machine" where
  "returning c m = (case c m of (r, m') \<Rightarrow> (Returned r, m'))"

text \<open>
  \<open>NewGenerator\<close> opens the database before the wallet, so the files change only as far as it got.
\<close>

definition cli_genesis :: "('d, 'z) senv_scheme \<Rightarrow> 's os \<Rightarrow> FlagSet \<Rightarrow> ('d, 's) machine \<Rightarrow> 'd outcome \<times> ('d, 's) machine" where
  "cli_genesis E S fs m = (let name = flagString ''n'' fs; exists = ExistFile (databases m name) in
     (case openWallet S name m of (wallet, m1) \<Rightarrow>
       let m = (case NewStorageService E (os_openErr S) (databases m name) of
             Ok db \<Rightarrow> if exists then m else m1\<lparr>databases := (databases m1)(name \<mapsto> db)\<rparr> | _ \<Rightarrow> m) in
       (case NewGenerator E exists (os_openErr S) (databases m1 name) wallet of
          Ok (db, w) \<Rightarrow> (case Generate E w (os_rand1 S) (os_rand2 S) (os_now S) db of (r, db') \<Rightarrow>
            (case r of Ok _ \<Rightarrow> Exited 0 | _ \<Rightarrow> Returned r, m\<lparr>databases := (databases m)(name \<mapsto> db')\<rparr>))
        | Err e \<Rightarrow> (Returned (Err e), m) | Panic p \<Rightarrow> (Returned (Panic p), m) | Blocked \<Rightarrow> (Returned Blocked, m))))"

text \<open>Opening the database of a name creates it, also when the start fails later.\<close>

definition cli_node :: "('d, 'z) senv_scheme \<Rightarrow> 's os \<Rightarrow> FlagSet \<Rightarrow> ('d, 's) machine \<Rightarrow> 'd outcome \<times> ('d, 's) machine" where
  "cli_node E S fs m = (let name = flagString ''n'' fs;
       opened = (case NewStorageService E (os_openErr S) (databases m name) of Ok db \<Rightarrow> Some db | _ \<Rightarrow> databases m name) in
     (case NewFullNode E (os_openErr S) (databases m name) (os_GenerateKey S) (os_writeErr S) (keyFiles m name) (flagString ''s'' fs) (flagString ''c'' fs) of
        (r, kf) \<Rightarrow> let m = m\<lparr>keyFiles := (keyFiles m)(name := kf), databases := (databases m)(name := opened)\<rparr> in
          (case r of
             Ok s \<Rightarrow> (case FullNode_Run E (os_now S) s of (r, s') \<Rightarrow>
               (Started r s', m\<lparr>databases := (databases m)(name \<mapsto> w_db (n_world (fn_node s')))\<rparr>))
           | Err e \<Rightarrow> (Returned (Err e), m) | Panic p \<Rightarrow> (Returned (Panic p), m) | Blocked \<Rightarrow> (Returned Blocked, m))))"

text \<open>
  A call of the client with the network of the machine; its result is printed. \<open>airdrop\<close> and \<open>transfer\<close>
  print before they look at the error: \<open>onErr\<close> is what they print then.
\<close>

definition withClient ::
  "'s os \<Rightarrow> string \<Rightarrow> ('s \<times> Client, 'a) comp \<Rightarrow> ('a \<Rightarrow> string) \<Rightarrow> string option \<Rightarrow> (('d, 's) machine, unit) comp" where
  "withClient S name call show onErr =
     st_bind (openWallet S name) (\<lambda>w.
     st_bind (st_out (NewClient name (Ok w))) (\<lambda>c m.
       (case call (network m, c) of (r, (net, c)) \<Rightarrow>
          let m = m\<lparr>network := net\<rparr> in
          (case r of Ok a \<Rightarrow> (Ok (), println (show a) m)
           | Err e \<Rightarrow> (Err e, case onErr of None \<Rightarrow> m | Some t \<Rightarrow> println t m)
           | Panic p \<Rightarrow> (Panic p, m) | Blocked \<Rightarrow> (Blocked, m)))))"

definition cli_client :: "('d, 'z) senv_scheme \<Rightarrow> 's os \<Rightarrow> string \<Rightarrow> string list \<Rightarrow> ('d, 's) machine \<Rightarrow> 'd outcome \<times> ('d, 's) machine" where
  "cli_client E S cmd args =
     (if cmd = ''new'' then withFlags clientNewCmd args (\<lambda>fs.
        returning (st_bind (openWallet S (flagString ''n'' fs)) (\<lambda>_. st_out (Ok ()))))
      else if cmd = ''address'' then withFlags addressCmd args (\<lambda>fs.
        returning (st_bind (openWallet S (flagString ''n'' fs)) (\<lambda>w. st_upd (println (b58_Encode E (bytes_of (Wallet_PublicKey w)))))))
      else if cmd = ''balance'' then withFlags balanceCmd args (\<lambda>fs.
        returning (withClient S (flagString ''n'' fs) (GetAccountInfo (os_remote S) (flagString ''p'' fs)) (\<lambda>st. dec_digits (unat (as_Balance st))) None))
      else if cmd = ''airdrop'' then withFlags airdropCmd args (\<lambda>fs.
        returning (withClient S (flagString ''n'' fs) (Client_Airdrop E (os_remote S) (os_now S) (flagUint64 ''a'' fs) (flagString ''p'' fs)) (\<lambda>s. s) (Some [])))
      else if cmd = ''transfer'' then withFlags transferCmd args (\<lambda>fs.
        returning (withClient S (flagString ''n'' fs)
          (Client_Transfer E (os_remote S) (os_now S) (flagUint64 ''a'' fs) (flagString ''t'' fs) (flagString ''p'' fs)) (\<lambda>s. s) (Some [])))
      else (\<lambda>m. (Returned (Ok ()), m)))"

text \<open>\<open>args\<close> is \<open>os.Args\<close>, with the name of the program first.\<close>

definition cli_Run :: "('d, 'z) senv_scheme \<Rightarrow> 's os \<Rightarrow> string list \<Rightarrow> ('d, 's) machine \<Rightarrow> 'd outcome \<times> ('d, 's) machine" where
  "cli_Run E S args m =
     (if \<not> validateArgs args then cli_exit m
      else let m = println [] m; a = args ! 1 in
        if a = ''node'' then
          (case go_index args 2 of
             Ok cmd \<Rightarrow> if cmd = ''genesis'' then withFlags genesisCmd (drop 3 args) (cli_genesis E S) m
                      else withFlags nodeCmd (drop 2 args) (cli_node E S) m
           | r \<Rightarrow> (Returned (Panic ''index out of range''), m))
        else if a = ''client'' then
          (case go_index args 2 of
             Ok cmd \<Rightarrow> cli_client E S cmd (drop 3 args) m
           | r \<Rightarrow> (Returned (Panic ''index out of range''), m))
        else (Returned (Ok ()), m))"

text \<open>\<open>main\<close> panics with the error.\<close>

definition cli_main :: "('d, 'z) senv_scheme \<Rightarrow> 's os \<Rightarrow> string list \<Rightarrow> ('d, 's) machine \<Rightarrow> 'd outcome \<times> ('d, 's) machine" where
  "cli_main E S args m = (case cli_Run E S args m of
       (Returned (Err e), m) \<Rightarrow> (Returned (Panic e), m)
     | (Started (Err e) s, m) \<Rightarrow> (Started (Panic e) s, m)
     | r \<Rightarrow> r)"


subsection \<open>Numbers are read back\<close>

lemma uint_digits_append:
  "uint_digits base (xs @ ys) n = (case uint_digits base xs n of None \<Rightarrow> None | Some k \<Rightarrow> uint_digits base ys k)"
  by (induction xs arbitrary: n) (auto split: option.split)

lemma uint_digits_dec: "k < 2 ^ 64 \<Longrightarrow> uint_digits 10 (dec_digits k) 0 = Some k"
proof (induction k rule: dec_digits.induct)
  case (1 k)
  have d: "digit_value (char_of (48 + j)) = Some j" "char_of (48 + j) \<noteq> CHR ''_''" if "j < 10" for j :: nat
    using that by (auto simp: digit_value_def is_digit_def char_of_eq_iff take_bit_nat_eq_self)
  show ?case
  proof (cases "k < 10")
    case True
    then show ?thesis using d [OF True] "1.prems" by (subst dec_digits.simps) simp
  next
    case False
    have "k div 10 < 2 ^ 64" using "1.prems" by simp
    then have "uint_digits 10 (dec_digits (k div 10)) 0 = Some (k div 10)" using "1.IH" False by blast
    moreover have "k mod 10 < 10" "k div 10 * 10 + k mod 10 = k" by simp_all
    ultimately show ?thesis
      using d [of "k mod 10"] "1.prems" False by (subst dec_digits.simps) (simp add: uint_digits_append)
  qed
qed

lemma uint_base_dec: "uint_base (dec_digits k) = (if k = 0 then (8, []) else (10, dec_digits k))"
proof (cases "k = 0")
  case True
  moreover have "char_of (48::nat) = CHR ''0''" by code_simp
  ultimately show ?thesis by (subst dec_digits.simps) (simp add: uint_base_def)
next
  case False
  obtain c r where c: "dec_digits k = c # r" by (cases "dec_digits k") auto
  have "c \<noteq> CHR ''0''"
  proof
    assume "c = CHR ''0''"
    then have "dec_digits k = [CHR ''0'']" using dec_digits_lead c by blast
    then have "dec_value (dec_digits k) = 0" by (simp add: dec_value_def)
    with False show False by simp
  qed
  then show ?thesis using False c by (auto simp: uint_base_def split: list.split)
qed

lemma ParseUint0_dec: "ParseUint0 (dec_digits (unat n)) = Some n" for n :: uint64
proof -
  have "CHR ''_'' \<notin> set (dec_digits (unat n))" using dec_digits_digits [of "unat n"] by (auto simp: list_all_iff is_digit_def)
  moreover have "unat n < 2 ^ LENGTH(64)" by (rule unsigned_less)
  ultimately show ?thesis by (cases "unat n = 0") (auto simp: ParseUint0_def uint_base_dec uint_digits_dec unat_eq_zero)
qed


subsection \<open>Commands\<close>

lemma flag_arg:
  assumes "map_of fs [c] \<noteq> None" "c \<notin> {CHR ''-'', CHR ''=''}"
  shows "FlagSet_Parse fs ([CHR ''-'', c] # v # args)
    = (case setFlag [c] v fs of None \<Rightarrow> ExitWith 2 | Some fs' \<Rightarrow> FlagSet_Parse fs' args)"
  using assms by (auto simp: flagName_def Let_def)

text \<open>The command line of a transfer does the transfer it names.\<close>

lemma cli_transfer:
  "cli_Run E S [prog, ''client'', ''transfer'', ''-n'', name, ''-a'', dec_digits (unat amount), ''-t'', to, ''-p'', port] m
     = returning (withClient S name (Client_Transfer E (os_remote S) (os_now S) amount to port) (\<lambda>s. s) (Some [])) (println [] m)"
proof -
  have "FlagSet_Parse transferCmd [''-n'', name, ''-a'', dec_digits (unat amount), ''-t'', to, ''-p'', port]
      = Parsed [(''n'', StringFlag name), (''a'', Uint64Flag amount), (''t'', StringFlag to), (''p'', StringFlag port)]"
    by (simp add: transferCmd_def flag_arg setFlag_def ParseUint0_dec del: FlagSet_Parse.simps(2))
  then show ?thesis
    by (simp add: cli_Run_def validateArgs_def Let_def go_index_def cli_client_def withFlags_def flagString_def flagUint64_def del: FlagSet_Parse.simps)
qed


text \<open>
  A machine without files for a name, whose system generates a key pair that works and random bytes.
\<close>

definition fresh_machine :: "'z lib_scheme \<Rightarrow> 's os \<Rightarrow> string \<Rightarrow> bytes \<Rightarrow> ('d, 's) machine \<Rightarrow> bool" where
  "fresh_machine E S name pub m \<longleftrightarrow> databases m name = None \<and> keyFiles m name = None \<and> os_openErr S = None \<and> os_writeErr S = None
     \<and> (\<exists>pri. os_GenerateKey S = Ok (pub, pri) \<and> keypair_ok E \<lparr>kp_PrivateKey = Some pri, kp_PublicKey = Some pub\<rparr>)
     \<and> (\<exists>prev state. os_rand1 S = Ok prev \<and> length prev = 32 \<and> os_rand2 S = Ok state \<and> length state = 32)"

lemma cli_genesis_fresh:
  assumes "hash_ok E" "bolt_ok E" "fresh_machine E S name pub m" "flagString ''n'' fs = name"
  obtains m1 g db pri where "cli_genesis E S fs m = (Exited 0, m1)" "databases m1 name = Some db" "first_db E g db"
    "bi_PublicKey (bl_Info g) = Some pub" "bi_Height (bl_Info g) = 0"
    "keyFiles m1 name = Some (Marshal KeyPair_to_json \<lparr>kp_PrivateKey = Some pri, kp_PublicKey = Some pub\<rparr>)"
proof -
  obtain pri prev state where S: "os_GenerateKey S = Ok (pub, pri)" "keypair_ok E \<lparr>kp_PrivateKey = Some pri, kp_PublicKey = Some pub\<rparr>"
      "os_rand1 S = Ok prev" "length prev = 32" "os_rand2 S = Ok state" "length state = 32" "os_openErr S = None" "os_writeErr S = None"
      "databases m name = None" "keyFiles m name = None"
    using assms(3) by (auto simp: fresh_machine_def)
  let ?kp = "\<lparr>kp_PrivateKey = Some pri, kp_PublicKey = Some pub\<rparr>"
  let ?m = "m\<lparr>keyFiles := (keyFiles m)(name \<mapsto> Marshal KeyPair_to_json ?kp)\<rparr>"
  have w: "openWallet S name m = (Ok (fromKeyPair ?kp), ?m)"
    using S by (simp add: openWallet_def NewWallet_def GenerateKey_def)
  obtain db where db: "NewStorageService E None None = Ok db" by (simp add: NewStorageService_def NewStorageDb_def)
  have kp: "keypair_ok E (wa_keyPair (fromKeyPair ?kp))" using S(2) by (simp add: fromKeyPair_def)
  obtain sig db' where g: "length sig = 64" "Generate E (fromKeyPair ?kp) (Ok prev) (Ok state) (os_now S) db = (Ok (), db')"
      "first_db E (genesisBlock E (fromKeyPair ?kp) prev state (os_now S) sig) db'"
    using Generate_first [OF assms(1,2) db kp S(4,6), of "os_now S"] by blast
  have "cli_genesis E S fs m = (Exited 0, ?m\<lparr>databases := (databases m)(name \<mapsto> db')\<rparr>)"
    using w db S g(2) assms(4) by (simp add: cli_genesis_def Let_def NewGenerator_def)
  from that [OF this _ g(3)] show thesis by (simp add: genesisBlock_def Wallet_PublicKey_def fromKeyPair_def)
qed

text \<open>
  C29: How a network is brought up. On a machine without files \<open>node genesis\<close> makes a key file and a database with
  the first block and ends with code 0; \<open>node\<close> with the same name then starts a full node whose key, read
  back from the file, is the generator, which holds the whole supply, with the next height one; and a second
  \<open>node genesis\<close> is refused and leaves every file as it is.
\<close>
theorem genesis_then_node:
  assumes "hash_ok E" "b58_ok E" "bolt_ok E" "fresh_machine E S name pub m" "length pub = 32" "os_openErr S' = None"
  shows "\<exists>m1 g s m2. cli_Run E S [prog, ''node'', ''genesis'', ''-n'', name] m = (Exited 0, m1)
     \<and> cli_Run E S' [prog, ''node'', ''-n'', name, ''-s'', sp, ''-c'', cp] m1 = (Started (Ok ()) s, m2)
     \<and> begins E g (fn_node s) \<and> bi_PublicKey (bl_Info g) = Some pub \<and> Wallet_PublicKey (nodeWallet (fn_cons s)) = Some pub
     \<and> cli_Run E S' [prog, ''node'', ''genesis'', ''-n'', name] m1 = (Returned (Err ''file already exist''), println [] m1)"
proof -
  have p: "FlagSet_Parse genesisCmd [''-n'', name] = Parsed [(''n'', StringFlag name)]"
    by (simp add: genesisCmd_def flag_arg setFlag_def del: FlagSet_Parse.simps(2))
  have q: "FlagSet_Parse nodeCmd [''-n'', name, ''-s'', sp, ''-c'', cp]
      = Parsed [(''n'', StringFlag name), (''s'', StringFlag sp), (''c'', StringFlag cp), (''r'', StringFlag ''8000'')]"
    by (simp add: nodeCmd_def flag_arg setFlag_def del: FlagSet_Parse.simps(2))
  have f: "fresh_machine E S name pub (println [] m)" using assms(4) by (simp add: fresh_machine_def println_def)
  obtain m1 g db pri where m1: "cli_genesis E S [(''n'', StringFlag name)] (println [] m) = (Exited 0, m1)" "databases m1 name = Some db" "first_db E g db"
      "bi_PublicKey (bl_Info g) = Some pub" "bi_Height (bl_Info g) = 0"
      "keyFiles m1 name = Some (Marshal KeyPair_to_json \<lparr>kp_PrivateKey = Some pri, kp_PublicKey = Some pub\<rparr>)"
    by (rule cli_genesis_fresh [OF assms(1,3) f]) (auto simp: flagString_def)
  let ?kp = "\<lparr>kp_PrivateKey = Some pri, kp_PublicKey = Some pub\<rparr>"
  obtain n where n: "NewNode E None (Some db) sp NewMemoryService = Ok n" by (simp add: NewNode_def NewStorageService_def NewStorageDb_def)
  obtain n' where n': "Node_Run E (os_now S') n = (Ok (), n')" "begins E g n'"
    using first_node_begins [OF m1(3,4) assms(5) m1(5) assms(2) n] by blast
  have w: "NewWallet (os_GenerateKey S') (os_writeErr S') (keyFiles m1 name) = (Ok (fromKeyPair ?kp), keyFiles m1 name)"
    using m1(6) by (simp add: NewWallet_def KeyPair_Unmarshal_def keypair_codec.roundtrip)
  let ?s = "\<lparr>fn_node = n, fn_cons = NewConsensusService cp (fromKeyPair ?kp), jobs = []\<rparr>"
  have s: "NewFullNode E None (Some db) (os_GenerateKey S') (os_writeErr S') (keyFiles m1 name) sp cp = (Ok ?s, keyFiles m1 name)"
    using n w by (simp add: NewFullNode_def)
  obtain cs where cs: "ConsensusService_Run (NewConsensusService cp (fromKeyPair ?kp)) = (Ok (), cs)" "nodeWallet cs = fromKeyPair ?kp"
    by (simp add: ConsensusService_Run_def NewConsensusService_def)
  have r: "FullNode_Run E (os_now S') ?s = (Ok (), \<lparr>fn_node = n', fn_cons = cs, jobs = []\<rparr>)"
    using cs(1) n'(1) by (simp add: FullNode_Run_def st_bind_Ok)
  have "\<exists>m2. cli_Run E S' [prog, ''node'', ''-n'', name, ''-s'', sp, ''-c'', cp] m1 = (Started (Ok ()) \<lparr>fn_node = n', fn_cons = cs, jobs = []\<rparr>, m2)"
    using s r q m1(2) assms(6)
    by (simp add: cli_Run_def validateArgs_def Let_def go_index_def withFlags_def cli_node_def flagString_def println_def del: FlagSet_Parse.simps)
  moreover have "cli_Run E S [prog, ''node'', ''genesis'', ''-n'', name] m = (Exited 0, m1)"
    using p m1(1) by (simp add: cli_Run_def validateArgs_def Let_def go_index_def withFlags_def del: FlagSet_Parse.simps)
  moreover have "cli_Run E S' [prog, ''node'', ''genesis'', ''-n'', name] m1 = (Returned (Err ''file already exist''), println [] m1)"
    using p m1(2) assms(6)
    by (simp add: cli_Run_def validateArgs_def Let_def go_index_def withFlags_def cli_genesis_def NewGenerator_def flagString_def println_def openWallet_def
        del: FlagSet_Parse.simps split: prod.split go.split)
  ultimately show ?thesis using n'(2) m1(4) cs(2) by (fastforce simp: Wallet_PublicKey_def fromKeyPair_def)
qed


text \<open>Without a further argument \<open>node\<close> and \<open>client\<close> panic, although every flag has a default.\<close>

lemma bare_command_panics:
  "a \<in> {''node'', ''client''} \<Longrightarrow> cli_main E S [prog, a] m = (Returned (Panic ''index out of range''), println [] m)"
  by (auto simp: cli_main_def cli_Run_def validateArgs_def Let_def go_index_def)

end
