(* ===== verification/SampleCli.thy ===== *)
theory SampleCli
  imports Cli Sample
begin

text \<open>The command line on an empty machine: the theorem about the start of a network applied to it.\<close>

definition sampleOs :: "int64 \<Rightarrow> unit os" where
  "sampleOs now = \<lparr>os_GenerateKey = Ok (keyA, replicate 64 (CHR ''k'')), os_writeErr = None, os_openErr = None,
     os_rand1 = Ok (replicate 32 (CHR ''p'')), os_rand2 = Ok (replicate 32 (CHR ''s'')), os_now = now,
     os_remote = \<lparr>re_Dial = \<lambda>_. Some ''connection refused'', re_Write = None, re_Answer = \<lambda>_ _ s. (([], None), s)\<rparr>\<rparr>"

definition sampleMachine :: "((bytes \<times> bytes) list, unit) machine" where
  "sampleMachine = \<lparr>keyFiles = \<lambda>_. None, databases = \<lambda>_. None, network = (), stdout = []\<rparr>"

theorem genesis_then_node_witness:
  "\<exists>m1 s m2. cli_Run sample (sampleOs 1) [''chain'', ''node'', ''genesis'', ''-n'', ''x''] sampleMachine = (Exited 0, m1)
     \<and> cli_Run sample (sampleOs 2) [''chain'', ''node'', ''-n'', ''x'', ''-s'', ''3000'', ''-c'', ''5000''] m1 = (Started (Ok ()) s, m2)
     \<and> led (n_world (fn_node s)) keyA = Some \<lparr>as_Nonce = 0, as_Balance = GeneratorBalance\<rparr>"
proof -
  have "keypair_ok sample \<lparr>kp_PrivateKey = Some (replicate 64 (CHR ''k'')), kp_PublicKey = Some keyA\<rparr>"
    using keypair_ok_sample by (simp add: samplePair_def)
  then have f: "fresh_machine sample (sampleOs 1) ''x'' keyA sampleMachine"
    by (simp add: fresh_machine_def sampleOs_def sampleMachine_def)
  have oe: "os_openErr (sampleOs 2) = None" by (simp add: sampleOs_def)
  obtain m1 g s m2 where r: "cli_Run sample (sampleOs 1) [''chain'', ''node'', ''genesis'', ''-n'', ''x''] sampleMachine = (Exited 0, m1)"
    "cli_Run sample (sampleOs 2) [''chain'', ''node'', ''-n'', ''x'', ''-s'', ''3000'', ''-c'', ''5000''] m1 = (Started (Ok ()) s, m2)"
    "begins sample g (fn_node s)" "bi_PublicKey (bl_Info g) = Some keyA"
    using genesis_then_node [OF sample_lib bolt_ok_sample f sample_keys(3) oe] by blast
  from r(3) have "led (n_world (fn_node s)) (b58_Encode sample keyA) = Some \<lparr>as_Nonce = 0, as_Balance = GeneratorBalance\<rparr>"
    unfolding begins_def r(4) by simp
  with r(1,2) show ?thesis by auto
qed

end
