(* ===== verification/Errors.thy ===== *)
theory Errors
  imports FullNode RpcServer
begin

text \<open>
  How an error ends a node. Every service has an unbuffered channel for errors and a goroutine \<open>catch\<close>
  that takes one error from the channels of the services below it and hands it on, once
  (\<open>src/p2p/p2pService.go\<close>, \<open>src/nodes/sync/sync_service.go\<close>, \<open>src/nodes/node.go\<close>,
  \<open>src/consensus/consensus_service.go\<close>, \<open>src/fullnode/full_node.go\<close>); \<open>FullNode.Run\<close> returns the error that
  arrives at the top and \<open>main\<close> panics with it. A goroutine that sends on a channel nobody receives
  from waits: it is an entry of \<open>posted\<close>.
\<close>

subsection \<open>Error channels\<close>

text \<open>The \<open>eCh\<close> of the servers and transporters of the two networks, of the RPC server, and of the services. The channel of the
  node has two senders, its \<open>catch\<close> (\<open>NodeCh\<close>) and its \<open>Run\<close> (\<open>NodeRunCh\<close>), which are kept apart: the second one is
  the goroutine that later receives at the top.\<close>

datatype network_service = SyncNet | ConsNet

datatype errCh = ServerCh network_service | TransporterCh network_service | P2pCh network_service
  | RpcCh | SyncCh | ConsCh | NodeCh | NodeRunCh | FullCh

datatype catcher = P2pCatch network_service | SyncCatch | ConsCatch | NodeCatch | FullCatch

text \<open>The cases of the \<open>select\<close> of each \<open>catch\<close>, and the channel it sends on.\<close>

definition P2pService_catch :: "network_service \<Rightarrow> errCh list \<times> errCh" where
  [simp]: "P2pService_catch net = ([ServerCh net, TransporterCh net], P2pCh net)"

definition SyncService_catch :: "errCh list \<times> errCh" where
  [simp]: "SyncService_catch = ([P2pCh SyncNet], SyncCh)"

definition ConsensusService_catch :: "errCh list \<times> errCh" where
  [simp]: "ConsensusService_catch = ([P2pCh ConsNet], ConsCh)"

definition Node_catch :: "errCh list \<times> errCh" where
  [simp]: "Node_catch = ([SyncCh, RpcCh], NodeCh)"

definition FullNode_catch :: "errCh list \<times> errCh" where
  [simp]: "FullNode_catch = ([NodeCh, NodeRunCh, ConsCh], FullCh)"

fun catch_of :: "catcher \<Rightarrow> errCh list \<times> errCh" where
  "catch_of (P2pCatch net) = P2pService_catch net"
| "catch_of SyncCatch = SyncService_catch"
| "catch_of ConsCatch = ConsensusService_catch"
| "catch_of NodeCatch = Node_catch"
| "catch_of FullCatch = FullNode_catch"

abbreviation catch_from :: "catcher \<Rightarrow> errCh list" where
  "catch_from c \<equiv> fst (catch_of c)"

abbreviation catch_to :: "catcher \<Rightarrow> errCh" where
  "catch_to c \<equiv> snd (catch_of c)"

text \<open>The goroutines that wait in their \<open>select\<close>, and those that wait with an error in a send.\<close>

record errs =
  waiting :: "catcher list"
  posted :: "(errCh \<times> string) list"

definition allCatchers :: "catcher list" where
  "allCatchers = [P2pCatch SyncNet, P2pCatch ConsNet, SyncCatch, ConsCatch, NodeCatch, FullCatch]"

definition startCatch :: errs where
  "startCatch = \<lparr>waiting = allCatchers, posted = []\<rparr>"

definition post :: "errCh \<Rightarrow> string \<Rightarrow> errs \<Rightarrow> errs" where
  "post ch e x = x\<lparr>posted := posted x @ [(ch, e)]\<rparr>"

text \<open>One \<open>catch\<close> takes an error that is offered to it and offers it on its own channel.\<close>

inductive catch_step :: "errs \<Rightarrow> errs \<Rightarrow> bool" where
  hand_on: "c \<in> set (waiting x) \<Longrightarrow> posted x = ps @ (ch, e) # qs \<Longrightarrow> ch \<in> set (catch_from c) \<Longrightarrow>
     catch_step x \<lparr>waiting = remove1 c (waiting x), posted = ps @ qs @ [(catch_to c, e)]\<rparr>"

text \<open>\<open>FullNode.Run\<close> receives at the top once \<open>Node.Run\<close> has returned.\<close>

definition run_returns :: "errs \<Rightarrow> string \<Rightarrow> bool" where
  "run_returns x e \<longleftrightarrow> (FullCh, e) \<in> set (posted x) \<and> NodeRunCh \<notin> fst ` set (posted x)"

text \<open>What happens to the channels while a node runs: its parts post errors, and the catchers hand them on.\<close>

inductive err_step :: "errs \<Rightarrow> errs \<Rightarrow> bool" where
  posting: "ch \<noteq> FullCh \<Longrightarrow> err_step x (post ch e x)"
| catching: "catch_step x x' \<Longrightarrow> err_step x x'"

subsection \<open>The first error gets to the top\<close>

text \<open>The \<open>catch\<close> that receives from a channel.\<close>

fun receiver :: "errCh \<Rightarrow> catcher option" where
  "receiver (ServerCh net) = Some (P2pCatch net)"
| "receiver (TransporterCh net) = Some (P2pCatch net)"
| "receiver (P2pCh SyncNet) = Some SyncCatch"
| "receiver (P2pCh ConsNet) = Some ConsCatch"
| "receiver RpcCh = Some NodeCatch"
| "receiver SyncCh = Some NodeCatch"
| "receiver ConsCh = Some FullCatch"
| "receiver NodeCh = Some FullCatch"
| "receiver NodeRunCh = Some FullCatch"
| "receiver FullCh = None"

lemma receiver_catch: "ch \<in> set (catch_from c) \<longleftrightarrow> receiver ch = Some c"
  by (cases ch rule: receiver.cases; cases c rule: catch_of.cases) auto

text \<open>
  The invariant: a catcher that has left its \<open>select\<close> offers its error, or the next catcher has taken
  it; the top offers what it took.
\<close>

definition errs_ok :: "errs \<Rightarrow> bool" where
  "errs_ok x \<longleftrightarrow> distinct (waiting x) \<and>
     (\<forall>c. c \<notin> set (waiting x) \<longrightarrow>
        catch_to c \<in> fst ` set (posted x) \<or> (\<exists>d. receiver (catch_to c) = Some d \<and> d \<notin> set (waiting x)))"

lemma errs_ok_start: "errs_ok startCatch"
proof -
  have "c \<in> set allCatchers" for c by (cases c rule: catch_of.cases; cases "case c of P2pCatch n \<Rightarrow> n | _ \<Rightarrow> SyncNet") (auto simp: allCatchers_def)
  then show ?thesis by (simp add: errs_ok_def startCatch_def) (simp add: allCatchers_def)
qed

lemma errs_ok_post: "errs_ok x \<Longrightarrow> errs_ok (post ch e x)"
  by (auto simp: errs_ok_def post_def)

lemma errs_ok_catch: "catch_step x x' \<Longrightarrow> errs_ok x \<Longrightarrow> errs_ok x'"
proof (induction rule: catch_step.induct)
  case (hand_on c x ps ch e qs)
  then have c: "receiver ch = Some c" by (simp add: receiver_catch)
  show ?case unfolding errs_ok_def
  proof (intro conjI allI impI)
    fix d assume d: "d \<notin> set (waiting \<lparr>waiting = remove1 c (waiting x), posted = ps @ qs @ [(catch_to c, e)]\<rparr>)"
    show "catch_to d \<in> fst ` set (posted \<lparr>waiting = remove1 c (waiting x), posted = ps @ qs @ [(catch_to c, e)]\<rparr>)
       \<or> (\<exists>d'. receiver (catch_to d) = Some d' \<and> d' \<notin> set (waiting \<lparr>waiting = remove1 c (waiting x), posted = ps @ qs @ [(catch_to c, e)]\<rparr>))"
      using d hand_on c by (auto simp: errs_ok_def image_iff)
  qed (use hand_on in \<open>simp add: errs_ok_def\<close>)
qed

lemma err_runs_ok: "err_step\<^sup>*\<^sup>* startCatch x \<Longrightarrow> errs_ok x"
proof (induction rule: rtranclp_induct)
  case (step x y)
  from step(2,3) show ?case by (cases rule: err_step.cases) (auto intro: errs_ok_post errs_ok_catch)
qed (rule errs_ok_start)

text \<open>The catchers above a channel, nearest first.\<close>

fun level :: "catcher \<Rightarrow> nat" where
  "level (P2pCatch SyncNet) = 3"
| "level (P2pCatch ConsNet) = 2"
| "level SyncCatch = 2"
| "level ConsCatch = 1"
| "level NodeCatch = 1"
| "level FullCatch = 0"

lemma level_up: "receiver (catch_to c) = Some d \<Longrightarrow> level d < level c"
  by (cases c rule: level.cases) auto

lemma fired_offers:
  assumes "errs_ok x" "c \<notin> set (waiting x)"
  shows "\<exists>ch e. (ch, e) \<in> set (posted x) \<and> (ch = FullCh \<or> (\<exists>d. receiver ch = Some d \<and> d \<in> set (waiting x)))"
  using assms(2)
proof (induction c rule: measure_induct_rule [of level])
  case (less c)
  show ?case
  proof (cases "\<exists>d. receiver (catch_to c) = Some d \<and> d \<notin> set (waiting x)")
    case True
    then show ?thesis using less.IH level_up by blast
  next
    case False
    then obtain e where "(catch_to c, e) \<in> set (posted x)" using assms(1) less.prems by (force simp: errs_ok_def)
    moreover have "catch_to c = FullCh \<or> (\<exists>d. receiver (catch_to c) = Some d)"
      by (cases c rule: level.cases) simp_all
    ultimately show ?thesis using False by blast
  qed
qed

lemma posted_offers:
  assumes "errs_ok x" "posted x \<noteq> []"
  shows "\<exists>ch e. (ch, e) \<in> set (posted x) \<and> (ch = FullCh \<or> (\<exists>d. receiver ch = Some d \<and> d \<in> set (waiting x)))"
proof -
  obtain ch e where p: "(ch, e) \<in> set (posted x)" using assms(2) by (cases "posted x") auto
  show ?thesis
  proof (cases "receiver ch")
    case None
    then have "ch = FullCh" by (cases ch rule: receiver.cases) simp_all
    with p show ?thesis by blast
  next
    case (Some d)
    with p fired_offers [OF assms(1)] show ?thesis by blast
  qed
qed

lemma catch_progress:
  assumes "errs_ok x" "posted x \<noteq> []" "FullCh \<notin> fst ` set (posted x)"
  shows "\<exists>x'. catch_step x x'"
proof -
  from posted_offers [OF assms(1,2)] assms(3)
  obtain ch e d where "(ch, e) \<in> set (posted x)" "receiver ch = Some d" "d \<in> set (waiting x)" by force
  then show ?thesis using catch_step.hand_on by (metis receiver_catch split_list)
qed

lemma catch_step_measure: "catch_step x x' \<Longrightarrow> length (waiting x') < length (waiting x) \<and> snd ` set (posted x') = snd ` set (posted x) \<and> posted x' \<noteq> []"
  by (induction rule: catch_step.induct) (auto simp: length_remove1 dest: length_pos_if_in_set)

lemma catch_run:
  assumes "(catch_step ^^ n) x x'"
  shows "length (waiting x') + n \<le> length (waiting x) \<and> snd ` set (posted x') = snd ` set (posted x)"
  using assms
proof (induction n arbitrary: x')
  case (Suc n)
  then obtain y where "(catch_step ^^ n) x y" "catch_step y x'" by auto
  with Suc.IH [of y] catch_step_measure [of y x'] show ?case by auto
qed simp

lemma catch_run_posted:
  assumes "(catch_step ^^ n) x x'" "errs_ok x" "posted x \<noteq> []"
  shows "errs_ok x' \<and> posted x' \<noteq> []"
  using assms
proof (induction n arbitrary: x')
  case (Suc n)
  then obtain y where "(catch_step ^^ n) x y" "catch_step y x'" by auto
  with Suc show ?case using catch_step_measure errs_ok_catch by blast
qed simp

lemma catch_NodeRun: "catch_step x x' \<Longrightarrow> NodeRunCh \<notin> fst ` set (posted x) \<Longrightarrow> NodeRunCh \<notin> fst ` set (posted x')"
proof (induction rule: catch_step.induct)
  case (hand_on c x ps ch e qs)
  moreover have "catch_to c \<noteq> NodeRunCh" by (cases c rule: level.cases) simp_all
  ultimately show ?case by auto
qed

lemma catch_run_NodeRun: "(catch_step ^^ n) x x' \<Longrightarrow> NodeRunCh \<notin> fst ` set (posted x) \<Longrightarrow> NodeRunCh \<notin> fst ` set (posted x')"
proof (induction n arbitrary: x')
  case (Suc n)
  then obtain y where "(catch_step ^^ n) x y" "catch_step y x'" by auto
  with Suc.IH Suc.prems(2) catch_NodeRun show ?case by blast
qed simp

lemma run_of_length:
  assumes "\<forall>n x'. n < k \<longrightarrow> (R ^^ n) x x' \<longrightarrow> P x' \<or> (\<exists>y. R x' y)"
  shows "(\<exists>n x'. n < k \<and> (R ^^ n) x x' \<and> P x') \<or> (\<exists>x'. (R ^^ k) x x')"
  using assms
proof (induction k)
  case (Suc k)
  have "\<forall>n x'. n < k \<longrightarrow> (R ^^ n) x x' \<longrightarrow> P x' \<or> (\<exists>y. R x' y)" using Suc.prems less_SucI by blast
  with Suc.IH consider "\<exists>n x'. n < k \<and> (R ^^ n) x x' \<and> P x'" | x' where "(R ^^ k) x x'" by blast
  then show ?case
  proof cases
    case 2
    with Suc.prems have "P x' \<or> (\<exists>y. R x' y)" by blast
    with 2 show ?thesis by auto
  qed (use less_SucI in blast)
qed auto

lemma errors_progress:
  assumes "errs_ok x" "posted x \<noteq> []" "NodeRunCh \<notin> fst ` set (posted x)" "(catch_step ^^ n) x x'"
  shows "(\<exists>y. catch_step x' y) \<or> (\<exists>e. run_returns x' e \<and> e \<in> snd ` set (posted x))"
proof (cases "FullCh \<in> fst ` set (posted x')")
  case True
  then obtain e where "(FullCh, e) \<in> set (posted x')" by auto
  with catch_run_NodeRun [OF assms(4,3)] catch_run [OF assms(4)] show ?thesis by (force simp: run_returns_def)
next
  case False
  with catch_run_posted [OF assms(4,1,2)] show ?thesis using catch_progress by blast
qed

lemma first_error_returns:
  assumes "err_step\<^sup>*\<^sup>* startCatch x" "posted x \<noteq> []" "NodeRunCh \<notin> fst ` set (posted x)"
  shows "\<exists>n x' e. (catch_step ^^ n) x x' \<and> run_returns x' e \<and> e \<in> snd ` set (posted x)"
proof -
  have "(\<exists>n x'. n < Suc (length (waiting x)) \<and> (catch_step ^^ n) x x' \<and> (\<exists>e. run_returns x' e \<and> e \<in> snd ` set (posted x)))
     \<or> (\<exists>x'. (catch_step ^^ Suc (length (waiting x))) x x')"
    using errors_progress [OF err_runs_ok [OF assms(1)] assms(2,3)] by (intro run_of_length) blast
  moreover have "\<not> (catch_step ^^ Suc (length (waiting x))) x x'" for x' using catch_run [of "Suc (length (waiting x))" x x'] by linarith
  ultimately show ?thesis by blast
qed

text \<open>
  C15: One error ends the node. Once a part of a running node has sent an error, the error or another
  one that was sent gets to the top whatever the goroutines do: at most as many hand-overs are left as
  there are catchers waiting, they are never stuck before \<open>FullNode.Run\<close> can return, and some sequence of
  them makes it return.
\<close>
theorem error_ends_run:
  assumes "err_step\<^sup>*\<^sup>* startCatch x" "posted x \<noteq> []" "NodeRunCh \<notin> fst ` set (posted x)"
  shows "((catch_step ^^ n) x x' \<longrightarrow> n \<le> length (waiting x)
       \<and> ((\<exists>y. catch_step x' y) \<or> (\<exists>e. run_returns x' e \<and> e \<in> snd ` set (posted x))))
     \<and> (\<exists>n x' e. (catch_step ^^ n) x x' \<and> run_returns x' e \<and> e \<in> snd ` set (posted x))"
proof (intro conjI impI)
  assume x': "(catch_step ^^ n) x x'"
  show "n \<le> length (waiting x)" using catch_run [OF x'] by simp
  show "(\<exists>y. catch_step x' y) \<or> (\<exists>e. run_returns x' e \<and> e \<in> snd ` set (posted x))"
    by (rule errors_progress [OF err_runs_ok [OF assms(1)] assms(2,3) x'])
qed (rule first_error_returns [OF assms])

theorem error_ends_run_witness:
  "\<exists>n x'. (catch_step ^^ n) (post (ServerCh SyncNet) ''EOF'' startCatch) x' \<and> run_returns x' ''EOF''"
proof -
  have "err_step\<^sup>*\<^sup>* startCatch (post (ServerCh SyncNet) ''EOF'' startCatch)" by (rule r_into_rtranclp, rule err_step.posting) simp
  from error_ends_run [OF this] show ?thesis by (auto simp: post_def startCatch_def)
qed

text \<open>
  The start can hang instead: when another error has been taken first, a \<open>Run\<close> of the node that fails
  waits for ever in its own send, and \<open>FullNode.Run\<close> never gets to its receive.
\<close>

lemma failed_start_hangs:
  assumes "FullCatch \<notin> set (waiting x)" "NodeRunCh \<in> fst ` set (posted x)" "err_step\<^sup>*\<^sup>* x x'"
  shows "\<not> run_returns x' e"
proof -
  have "FullCatch \<notin> set (waiting x') \<and> NodeRunCh \<in> fst ` set (posted x')"
    using assms(3)
  proof (induction rule: rtranclp_induct)
    case (step y z)
    from step(2) show ?case
    proof cases
      case catching
      then show ?thesis using step(3)
      proof cases
        case (hand_on c ps ch e qs)
        then have "c \<noteq> FullCatch" using step(3) by auto
        then have "ch \<noteq> NodeRunCh" using hand_on(4) by (cases c rule: catch_of.cases) auto
        with hand_on step(3) show ?thesis by (auto simp: notin_set_remove1)
      qed
    qed (use step(3) in \<open>auto simp: post_def\<close>)
  qed (use assms in simp)
  then show ?thesis by (simp add: run_returns_def)
qed

end
