(* ===== verification/Network.thy ===== *)
theory Network
  imports Errors
begin

text \<open>
  Several full nodes on one machine: processes with listening sockets, the transporters between them
  (\<open>src/p2p/server.go\<close>, \<open>transporter.go\<close>, and \<open>Send\<close>, \<open>onFail\<close> of \<open>p2pService.go\<close>), and what can happen next in
  such a network. A payload in \<open>sent\<close> belongs to a goroutine that has not dialled yet; goroutines run in any
  order, so payloads arrive in any order. A connection that is made carries the whole payload.
\<close>

subsection \<open>Processes\<close>

text \<open>\<open>main\<close> panics with the error \<open>Run\<close> returned, or some goroutine panics.\<close>

datatype exit = Ended string | Crashed string

record 'd process =
  pr_full :: "'d fullnode"
  pr_rpc :: NodeInfo
  pr_listens :: "string list"
  pr_errs :: errs
  pr_started :: bool
  pr_exit :: "exit option"

type_synonym 'd network = "'d process list"

definition alive :: "'d process \<Rightarrow> bool" where
  "alive p \<longleftrightarrow> pr_exit p = None"

text \<open>A goroutine whose error goes to a channel.\<close>

definition run_go :: "errCh \<Rightarrow> ('d fullnode, unit) comp \<Rightarrow> 'd process \<Rightarrow> 'd process" where
  "run_go ch f p = (case f (pr_full p) of (r, s) \<Rightarrow> let p = p\<lparr>pr_full := s\<rparr> in
     (case r of Ok _ \<Rightarrow> p | Err e \<Rightarrow> p\<lparr>pr_errs := post ch e (pr_errs p)\<rparr>
      | Panic m \<Rightarrow> p\<lparr>pr_exit := Some (Crashed m)\<rparr> | Blocked \<Rightarrow> p))"

fun p2p_of :: "network_service \<Rightarrow> 'd fullnode \<Rightarrow> P2pService" where
  "p2p_of SyncNet s = sy_p2p (n_sync (fn_node s))"
| "p2p_of ConsNet s = cs_p2p (fn_cons s)"

fun on_p2p :: "network_service \<Rightarrow> (P2pService, 'a) comp \<Rightarrow> ('d fullnode, 'a) comp" where
  "on_p2p SyncNet m = on_node (on_sync (sync_p2p m))"
| "on_p2p ConsNet m = on_cons (cons_p2p m)"

fun inbound :: "('d, 'z) senv_scheme \<Rightarrow> network_service \<Rightarrow> bytes go \<Rightarrow> ('d fullnode, unit) comp" where
  "inbound E SyncNet conn = on_node (handleInbound (\<lambda>m. on_sync (sync_p2p m)) (handleSyncMessage E) conn)"
| "inbound E ConsNet conn = handleInbound (\<lambda>m. on_cons (cons_p2p m)) (handleConsensusMessage E) conn"

fun peer_lost :: "network_service \<Rightarrow> NodeInfo \<Rightarrow> ('d fullnode, unit) comp" where
  "peer_lost SyncNet n = onFail (on_p2p SyncNet) (\<lambda>_ s. s) n"
| "peer_lost ConsNet n = onFail (on_p2p ConsNet) (\<lambda>n s. s\<lparr>fn_cons := onPeerDisapear n (fn_cons s)\<rparr>) n"

subsection \<open>Servers\<close>

definition NewServer :: "string \<Rightarrow> NetworkKind \<Rightarrow> NodeInfo" where
  "NewServer port network = NewNodeInfo port network"

text \<open>\<open>listen\<close>, with the addresses other sockets of the machine have.\<close>

definition Server_listen :: "string list \<Rightarrow> errCh \<Rightarrow> string \<Rightarrow> 'd process \<Rightarrow> 'd process" where
  "Server_listen used ch addr p =
     (if addr \<in> set used \<or> addr \<in> set (pr_listens p)
      then p\<lparr>pr_errs := post ch (''listen tcp '' @ addr @ '': bind: address already in use'') (pr_errs p)\<rparr>
      else p\<lparr>pr_listens := pr_listens p @ [addr]\<rparr>)"

definition Server_handle :: "('d, 'z) senv_scheme \<Rightarrow> network_service \<Rightarrow> bytes go \<Rightarrow> 'd process \<Rightarrow> 'd process" where
  "Server_handle E net conn = run_go (ServerCh net) (inbound E net conn)"

definition rpc_handle :: "('d, 'z) senv_scheme \<Rightarrow> Conn \<Rightarrow> 'd process \<Rightarrow> 'd process" where
  "rpc_handle E conn = run_go RpcCh (\<lambda>s. case handleRpc E (fn_node s, conn) of (r, (n, _)) \<Rightarrow> (r, s\<lparr>fn_node := n\<rparr>))"

text \<open>A connection to one of the addresses of a process.\<close>

definition Server_serve :: "('d, 'z) senv_scheme \<Rightarrow> string \<Rightarrow> bytes \<Rightarrow> 'd process \<Rightarrow> 'd process" where
  "Server_serve E addr data p =
     (if addr = Ip4 (info (p2p_of SyncNet (pr_full p))) then Server_handle E SyncNet (Ok data) p
      else if addr = Ip4 (info (p2p_of ConsNet (pr_full p))) then Server_handle E ConsNet (Ok data) p
      else if addr = Ip4 (pr_rpc p)
      then rpc_handle E \<lparr>co_in = [data], co_end = None, co_out = [], co_writeErr = None\<rparr> p
      else p)"

text \<open>
  The start of a process: the servers of the two networks and of the RPC port listen, then \<open>FullNode.Run\<close>
  up to its receive (\<open>pr_started\<close>), which it does not reach when \<open>Node.Run\<close> waits for ever.
\<close>

definition startProcess :: "('d, 'z) senv_scheme \<Rightarrow> int64 \<Rightarrow> string list \<Rightarrow> string \<Rightarrow> 'd fullnode \<Rightarrow> 'd process" where
  "startProcess E now used rpcPort s =
     (let p = \<lparr>pr_full = s, pr_rpc = NewServer rpcPort (CHR 0x00), pr_listens = [], pr_errs = startCatch, pr_started = False, pr_exit = None\<rparr>;
          p = Server_listen used (ServerCh ConsNet) (Ip4 (info (p2p_of ConsNet s))) p;
          p = Server_listen used (ServerCh SyncNet) (Ip4 (info (p2p_of SyncNet s))) p;
          p = Server_listen used RpcCh (Ip4 (pr_rpc p)) p
      in (run_go NodeRunCh (FullNode_Run E now) p)\<lparr>pr_started := fst (FullNode_Run E now (pr_full p)) \<noteq> Blocked\<rparr>)"

subsection \<open>Transporters\<close>

definition dial :: "'d network \<Rightarrow> string \<Rightarrow> nat option" where
  "dial N addr = IndexFunc (\<lambda>p. alive p \<and> addr \<in> set (pr_listens p)) N"

text \<open>A goroutine of \<open>Send\<close> starts to run: its payload leaves the list.\<close>

definition take_sent :: "network_service \<Rightarrow> nat \<Rightarrow> 'd process \<Rightarrow> 'd process" where
  "take_sent net k p = p\<lparr>pr_full := snd (on_p2p net (st_upd (\<lambda>ps. ps\<lparr>sent := Delete (sent ps) k\<rparr>)) (pr_full p))\<rparr>"

text \<open>\<open>Transporter.send\<close> of the process \<open>i\<close>: the peer is told lost, or the payload is served by the process that listens.\<close>

definition Transporter_send ::
  "(nat \<Rightarrow> ('d, 'z) senv_scheme) \<Rightarrow> nat \<Rightarrow> network_service \<Rightarrow> nat \<Rightarrow> 'd network \<Rightarrow> 'd network" where
  "Transporter_send Es i net k N =
     (case sent (p2p_of net (pr_full (N ! i))) ! k of (to, data) \<Rightarrow>
      let N = N[i := take_sent net k (N ! i)] in
      (case dial N (Ip4 to) of
         None \<Rightarrow> N[i := run_go (TransporterCh net) (peer_lost net to) (N ! i)]
       | Some j \<Rightarrow> N[j := Server_serve (Es j) (Ip4 to) data (N ! j)]))"

subsection \<open>Steps of a network\<close>

text \<open>The channel on which a released goroutine reports its error.\<close>

fun job_channel :: "job \<Rightarrow> errCh" where
  "job_channel (AccountJob ks ok) = ConsCh"
| "job_channel (BlockJob b ok) = SyncCh"

text \<open>What a process does by itself.\<close>

inductive proc_step :: "('d, 'z) cenv_scheme \<Rightarrow> 'd process \<Rightarrow> 'd process \<Rightarrow> bool" for E where
  turn: "proc_step E p (run_go ConsCh (loop_tick E now) p)"
| strike: "ch \<in> set (timers (fn_cons (pr_full p))) \<Longrightarrow> proc_step E p (run_go ConsCh (timeout_fires ch) p)"
| job: "jobs (pr_full p) = js1 @ j # js2 \<Longrightarrow>
    proc_step E p (run_go (job_channel j) (on_node (run_job E now j)) (p\<lparr>pr_full := (pr_full p)\<lparr>jobs := js1 @ js2\<rparr>\<rparr>))"
| sync_receives: "sy_loop (n_sync (fn_node (pr_full p))) = Some l \<Longrightarrow> 0 < sl_waiting l \<Longrightarrow>
    proc_step E p (run_go SyncCh (on_node (sync_receive E (OnBlockStored E now) l)) p)"
| sync_times_out: "sy_loop (n_sync (fn_node (pr_full p))) = Some l \<Longrightarrow> 0 < sl_waiting l \<Longrightarrow>
    proc_step E p (run_go SyncCh (on_node (st_upd (\<lambda>n. n\<lparr>n_sync := sync_timeout (n_sync n)\<rparr>))) p)"
| sync_goes_on: "sy_loop (n_sync (fn_node (pr_full p))) = Some l \<Longrightarrow> sl_waiting l = 0 \<Longrightarrow>
    proc_step E p (run_go SyncCh (on_node (on_sync (sync_next l))) p)"
| hand_on: "catch_step (pr_errs p) x \<Longrightarrow> proc_step E p (p\<lparr>pr_errs := x\<rparr>)"
| returns: "pr_started p \<Longrightarrow> run_returns (pr_errs p) e \<Longrightarrow> proc_step E p (p\<lparr>pr_exit := Some (Ended e)\<rparr>)"

inductive net_step :: "(nat \<Rightarrow> ('d, 'z) cenv_scheme) \<Rightarrow> 'd network \<Rightarrow> 'd network \<Rightarrow> bool" for Es where
  acts: "i < length N \<Longrightarrow> alive (N ! i) \<Longrightarrow> proc_step (Es i) (N ! i) p \<Longrightarrow> net_step Es N (N[i := p])"
| sends: "i < length N \<Longrightarrow> alive (N ! i) \<Longrightarrow> k < length (sent (p2p_of net (pr_full (N ! i)))) \<Longrightarrow>
    net_step Es N (Transporter_send Es i net k N)"

text \<open>
  The world around the nodes: new nodes are started, on key files and databases of any content; anyone on the machine may connect to a port and send anything, and
  connections break: the sender's write fails, or the receiver's read does.
\<close>

inductive open_step :: "(nat \<Rightarrow> ('d, 'z) cenv_scheme) \<Rightarrow> 'd network \<Rightarrow> 'd network \<Rightarrow> bool" for Es where
  boots: "fst (NewFullNode (Es (length N)) openErr file gen writeErr keyFile syncPort consensusPort) = Ok s \<Longrightarrow>
    open_step Es N (N @ [startProcess (Es (length N)) now (concat (map pr_listens (filter alive N))) rpcPort s])"
| closed: "net_step Es N N' \<Longrightarrow> open_step Es N N'"
| stranger: "i < length N \<Longrightarrow> alive (N ! i) \<Longrightarrow> open_step Es N (N[i := Server_handle (Es i) net (Ok raw) (N ! i)])"
| caller: "i < length N \<Longrightarrow> alive (N ! i) \<Longrightarrow> open_step Es N (N[i := rpc_handle (Es i) conn (N ! i)])"
| read_fails: "i < length N \<Longrightarrow> alive (N ! i) \<Longrightarrow> open_step Es N (N[i := Server_handle (Es i) net (Err e) (N ! i)])"
| write_fails: "i < length N \<Longrightarrow> alive (N ! i) \<Longrightarrow> k < length (sent (p2p_of net (pr_full (N ! i)))) \<Longrightarrow>
    open_step Es N (N[i := run_go (TransporterCh net) (st_out (Err e)) (take_sent net k (N ! i))])"

subsection \<open>The invariant of a network\<close>

lemma run_go_sel [simp]:
  "pr_full (run_go ch f p) = snd (f (pr_full p))" "pr_listens (run_go ch f p) = pr_listens p"
  "pr_rpc (run_go ch f p) = pr_rpc p" "pr_started (run_go ch f p) = pr_started p"
  by (auto simp: run_go_def Let_def split: prod.split go.split)

lemma run_go_errs: "ch \<noteq> FullCh \<Longrightarrow> err_step\<^sup>*\<^sup>* x (pr_errs p) \<Longrightarrow> err_step\<^sup>*\<^sup>* x (pr_errs (run_go ch f p))"
  by (auto simp: run_go_def Let_def split: prod.split go.split intro: rtranclp.rtrancl_into_rtrancl err_step.posting)

text \<open>Consensus state and error channels of a process.\<close>

definition proc_ok :: "'d process \<Rightarrow> bool" where
  "proc_ok p \<longleftrightarrow> full_ok (pr_full p) \<and> err_step\<^sup>*\<^sup>* startCatch (pr_errs p)"

lemma proc_ok_go: "keeps full_ok f \<Longrightarrow> ch \<noteq> FullCh \<Longrightarrow> proc_ok p \<Longrightarrow> proc_ok (run_go ch f p)"
  by (simp add: proc_ok_def run_go_errs full_keeps)

lemma keeps_net_inbound: "keeps full_ok (inbound E net conn)"
proof (cases net)
  case ConsNet
  then show ?thesis
    by (cases conn) (simp_all, simp_all add: keeps_def handleInbound_def)
qed simp

lemma keeps_peer_lost: "keeps full_ok (peer_lost net n)"
  using keeps_lost [of n]
  by (cases net) (simp_all add: onFail_def keeps_bind keepsI)

lemma proc_ok_handle: "proc_ok p \<Longrightarrow> proc_ok (Server_handle E net conn p)"
  unfolding Server_handle_def by (rule proc_ok_go [OF keeps_net_inbound]) simp_all

lemma proc_ok_rpc: "proc_ok p \<Longrightarrow> proc_ok (rpc_handle E conn p)"
  unfolding rpc_handle_def by (rule proc_ok_go) (auto simp: keeps_def split: prod.splits)

lemma proc_ok_serve: "proc_ok p \<Longrightarrow> proc_ok (Server_serve E addr data p)"
  by (simp add: Server_serve_def proc_ok_handle proc_ok_rpc)

lemma proc_ok_take: "proc_ok p \<Longrightarrow> proc_ok (take_sent net k p)"
  by (cases net) (auto simp: take_sent_def proc_ok_def on_node_def on_cons_def cons_p2p_def cons_ok_def split: prod.splits)

lemma proc_step_ok:
  assumes "sorts (SortKeys E)" "proc_step E p p'" "proc_ok p"
  shows "proc_ok p'"
  using assms(2,3)
proof cases
  case turn
  then show ?thesis using proc_ok_go [OF keeps_loop [OF assms(1)]] assms(3) by simp
next
  case (strike ch)
  then show ?thesis using assms(3) by (simp add: proc_ok_go keeps_timeout)
next
  case (job js1 j js2)
  have "proc_ok (p\<lparr>pr_full := (pr_full p)\<lparr>jobs := js1 @ js2\<rparr>\<rparr>)" using assms(3) by (simp add: proc_ok_def)
  then show ?thesis using job(1) proc_ok_go [OF keeps_on_node, of "job_channel j"] by (cases j) simp_all
next
  case (hand_on x)
  then show ?thesis using assms(3) by (auto simp: proc_ok_def intro: rtranclp.rtrancl_into_rtrancl err_step.catching)
next
  case (returns e)
  then show ?thesis using assms(3) by (simp add: proc_ok_def)
qed (use assms(3) in \<open>simp_all add: proc_ok_go\<close>)

lemma startProcess_ok:
  assumes "fst (NewFullNode E openErr file gen writeErr keyFile syncPort consensusPort) = Ok s"
  shows "proc_ok (startProcess E now used rpcPort s)"
proof -
  let ?p = "\<lparr>pr_full = s, pr_rpc = NewServer rpcPort (CHR 0x00), pr_listens = [], pr_errs = startCatch, pr_started = False, pr_exit = None\<rparr>"
  obtain w where "fn_cons s = NewConsensusService consensusPort w"
    using assms by (cases "NewFullNode E openErr file gen writeErr keyFile syncPort consensusPort") (auto dest: NewFullNode_cons)
  then have run: "full_ok (snd (FullNode_Run E now s))"
    using FullNode_Run_cons [of E now s] Run_ok [OF cons_ok_New] by (metis prod.collapse)
  have listen: "pr_full (Server_listen used ch addr p) = pr_full p" "pr_rpc (Server_listen used ch addr p) = pr_rpc p" for ch addr and p :: "'a process"
    by (simp_all add: Server_listen_def)
  have errs: "err_step\<^sup>*\<^sup>* startCatch (pr_errs (Server_listen used ch addr p))" if "err_step\<^sup>*\<^sup>* startCatch (pr_errs p)" "ch \<noteq> FullCh" for ch addr and p :: "'a process"
    using that by (auto simp: Server_listen_def intro: rtranclp.rtrancl_into_rtrancl err_step.posting)
  show ?thesis unfolding startProcess_def Let_def proc_ok_def by (simp add: listen run run_go_errs errs)
qed

lemma all_update: "\<forall>p\<in>set N. P p \<Longrightarrow> P p' \<Longrightarrow> \<forall>p\<in>set (N[i := p']). P p"
  by (auto dest!: subsetD [OF set_update_subset_insert])

lemma IndexFunc_Some: "IndexFunc P xs = Some i \<Longrightarrow> i < length xs \<and> P (xs ! i) \<and> (\<forall>k<i. \<not> P (xs ! k))"
proof (induction xs arbitrary: i)
  case (Cons x xs)
  then show ?case by (cases i) (auto split: if_splits simp: less_Suc_eq_0_disj)
qed simp

lemma dial_Some: "dial N addr = Some j \<Longrightarrow> j < length N \<and> alive (N ! j) \<and> addr \<in> set (pr_listens (N ! j))"
  by (auto simp: dial_def dest: IndexFunc_Some)

lemma proc_ok_send:
  assumes "\<forall>p\<in>set N. proc_ok p" "i < length N"
  shows "\<forall>p\<in>set (Transporter_send Es i net k N). proc_ok p"
proof -
  let ?N = "N[i := take_sent net k (N ! i)]"
  obtain to data where d: "sent (p2p_of net (pr_full (N ! i))) ! k = (to, data)" by fastforce
  have N: "\<forall>p\<in>set ?N. proc_ok p" using assms by (intro all_update proc_ok_take) simp_all
  show ?thesis
  proof (cases "dial ?N (Ip4 to)")
    case None
    have "proc_ok (run_go (TransporterCh net) (peer_lost net to) (?N ! i))"
      using assms by (intro proc_ok_go keeps_peer_lost) (simp_all add: proc_ok_take)
    from all_update [OF N this, of i] show ?thesis using d None by (simp add: Transporter_send_def Let_def)
  next
    case (Some j)
    have "proc_ok (Server_serve (Es j) (Ip4 to) data (?N ! j))"
      using dial_Some [OF Some] N by (intro proc_ok_serve) (metis nth_mem)
    from all_update [OF N this, of j] show ?thesis using d Some by (simp add: Transporter_send_def Let_def)
  qed
qed

lemma net_step_ok:
  assumes "\<forall>i. sorts (SortKeys (Es i))" "net_step Es N N'" "\<forall>p\<in>set N. proc_ok p"
  shows "\<forall>p\<in>set N'. proc_ok p"
  using assms(2,3)
proof cases
  case (acts i p)
  then have "proc_ok p" using assms(1,3) proc_step_ok nth_mem by metis
  then show ?thesis unfolding acts(1) by (rule all_update [OF assms(3)])
qed (use assms(3) in \<open>simp_all add: proc_ok_send\<close>)

lemma open_step_ok:
  assumes "\<forall>i. sorts (SortKeys (Es i))" "open_step Es N N'" "\<forall>p\<in>set N. proc_ok p"
  shows "\<forall>p\<in>set N'. proc_ok p"
  using assms(2,3)
proof cases
  case closed
  then show ?thesis using net_step_ok assms by blast
next
  case (write_fails i k net e)
  then have "proc_ok (run_go (TransporterCh net) (st_out (Err e)) (take_sent net k (N ! i)))"
    using assms(3) by (intro proc_ok_go proc_ok_take) simp_all
  then show ?thesis unfolding write_fails(1) by (rule all_update [OF assms(3)])
next
  case boots
  then show ?thesis using assms(3) startProcess_ok by auto
next
  case (stranger i net raw)
  then have "proc_ok (N ! i)" using assms(3) by simp
  then show ?thesis unfolding stranger(1) by (intro all_update assms(3) proc_ok_handle)
next
  case (caller i conn)
  then have "proc_ok (N ! i)" using assms(3) by simp
  then show ?thesis unfolding caller(1) by (intro all_update assms(3) proc_ok_rpc)
next
  case (read_fails i net e)
  then have "proc_ok (N ! i)" using assms(3) by simp
  then show ?thesis unfolding read_fails(1) by (intro all_update assms(3) proc_ok_handle)
qed

text \<open>Who listens where: a step opens no socket, and a process that has ended stays so.\<close>

definition same_sockets :: "'d process \<Rightarrow> 'd process \<Rightarrow> bool" where
  "same_sockets p p' \<longleftrightarrow> pr_listens p' = pr_listens p \<and> (alive p' \<longrightarrow> alive p)"

lemma same_sockets_refl [simp]: "same_sockets p p"
  by (simp add: same_sockets_def)

lemma same_sockets_go [simp]: "same_sockets q p \<Longrightarrow> same_sockets q (run_go ch f p)"
  by (auto simp: same_sockets_def alive_def run_go_def Let_def split: prod.splits go.splits)

lemma same_sockets_free [simp]:
  "same_sockets p (p\<lparr>pr_full := s\<rparr>)" "same_sockets p (p\<lparr>pr_errs := x\<rparr>)" "same_sockets p (p\<lparr>pr_exit := Some e\<rparr>)" "same_sockets p (take_sent net k p)"
  by (simp_all add: same_sockets_def alive_def take_sent_def)

lemma same_sockets_serve [simp]:
  "same_sockets p (Server_handle E net raw p)" "same_sockets p (rpc_handle E conn p)" "same_sockets p (Server_serve E addr data p)"
  by (simp_all add: Server_serve_def Server_handle_def rpc_handle_def)

lemma proc_step_sockets: "proc_step E p p' \<Longrightarrow> same_sockets p p'"
  by (induction rule: proc_step.induct) simp_all

text \<open>No two living processes listen at the same address.\<close>

definition sockets_ok :: "'d network \<Rightarrow> bool" where
  "sockets_ok N \<longleftrightarrow> (\<forall>i<length N. \<forall>j<length N. i \<noteq> j \<longrightarrow> alive (N ! i) \<longrightarrow> alive (N ! j) \<longrightarrow>
     set (pr_listens (N ! i)) \<inter> set (pr_listens (N ! j)) = {})"

lemma sockets_update: "sockets_ok N \<Longrightarrow> same_sockets (N ! i) p \<Longrightarrow> sockets_ok (N[i := p])"
  by (cases "i < length N") (auto simp: sockets_ok_def same_sockets_def nth_list_update split: if_splits)

lemma sockets_send: "i < length N \<Longrightarrow> sockets_ok N \<Longrightarrow> sockets_ok (Transporter_send Es i net k N)"
  by (auto simp: Transporter_send_def Let_def split: prod.split option.split intro!: sockets_update)

lemma sockets_boot:
  assumes "sockets_ok N"
  shows "sockets_ok (N @ [startProcess E now (concat (map pr_listens (filter alive N))) rpcPort s])"
proof -
  let ?used = "concat (map pr_listens (filter alive N))"
  have "set (pr_listens (Server_listen used ch addr p)) \<inter> set used = {}" if "set (pr_listens p) \<inter> set used = {}" for used ch addr and p :: "'a process"
    using that by (auto simp: Server_listen_def)
  note l = this
  have "set (pr_listens (startProcess E now used rpcPort s)) \<inter> set used = {}" for used
    unfolding startProcess_def Let_def by (simp add: l del: Int_iff)
  then have "set (pr_listens (startProcess E now ?used rpcPort s)) \<inter> set ?used = {}" .
  moreover have "set (pr_listens (N ! i)) \<subseteq> set ?used" if "i < length N" "alive (N ! i)" for i using nth_mem [OF that(1)] that(2) by auto
  ultimately have new: "set (pr_listens (N ! i)) \<inter> set (pr_listens (startProcess E now ?used rpcPort s)) = {}"
    if "i < length N" "alive (N ! i)" for i using that by blast
  show ?thesis unfolding sockets_ok_def
  proof (intro allI impI)
    fix i j
    let ?N = "N @ [startProcess E now ?used rpcPort s]"
    assume ij: "i < length ?N" "j < length ?N" "i \<noteq> j" "alive (?N ! i)" "alive (?N ! j)"
    then consider "i < length N" "j < length N" | "i < length N" "j = length N" | "i = length N" "j < length N"
      by fastforce
    then show "set (pr_listens (?N ! i)) \<inter> set (pr_listens (?N ! j)) = {}"
    proof cases
      case 1
      then show ?thesis using ij assms by (simp add: sockets_ok_def nth_append)
    next
      case 2
      then show ?thesis using ij new [of i] by (simp add: nth_append)
    next
      case 3
      then show ?thesis using ij new [of j] by (simp add: nth_append Int_commute)
    qed
  qed
qed

lemma open_step_sockets: "open_step Es N N' \<Longrightarrow> sockets_ok N \<Longrightarrow> sockets_ok N'"
proof (induction rule: open_step.induct)
  case (closed N N')
  then show ?case by (cases rule: net_step.cases) (auto intro: sockets_update sockets_send dest: proc_step_sockets)
qed (auto intro!: sockets_update sockets_boot)

lemma open_runs_ok:
  assumes "\<forall>i. sorts (SortKeys (Es i))" "(open_step Es)\<^sup>*\<^sup>* [] N"
  shows "(\<forall>p\<in>set N. proc_ok p) \<and> sockets_ok N"
  using assms(2)
proof (induction rule: rtranclp_induct)
  case (step N1 N2)
  then show ?case using open_step_ok [OF assms(1)] open_step_sockets by blast
qed (simp add: sockets_ok_def)

text \<open>
  C11: In every run of a network, from no node at all, whatever nodes are started, whatever strangers send and
  whatever connections break: the state of every consensus service is well formed, no two living nodes
  listen at the same address, and a connection that is made reaches the one node that listens there.
\<close>
theorem network_invariant:
  assumes "\<forall>i. sorts (SortKeys (Es i))" "(open_step Es)\<^sup>*\<^sup>* [] N"
  shows "(\<forall>p\<in>set N. cons_ok (fn_cons (pr_full p)) \<and> err_step\<^sup>*\<^sup>* startCatch (pr_errs p)) \<and> sockets_ok N
     \<and> (i < length N \<and> alive (N ! i) \<and> addr \<in> set (pr_listens (N ! i)) \<longrightarrow> dial N addr = Some i)"
proof -
  note inv = open_runs_ok [OF assms]
  have "dial N addr = Some i" if i: "i < length N" "alive (N ! i)" "addr \<in> set (pr_listens (N ! i))"
  proof (cases "dial N addr")
    case None
    have "IndexFunc P xs = None \<Longrightarrow> k < length xs \<Longrightarrow> \<not> P (xs ! k)" for P and xs :: "'a process list" and k
      by (induction xs arbitrary: k) (auto split: if_splits simp: nth_Cons' less_Suc_eq_0_disj)
    then show ?thesis using None i by (auto simp: dial_def)
  next
    case (Some j)
    with dial_Some [OF Some] i inv show ?thesis unfolding sockets_ok_def by (metis disjoint_iff)
  qed
  with inv show ?thesis by (simp add: proc_ok_def)
qed

subsection \<open>One message ends a node\<close>

lemma catch_run_proc:
  assumes "(catch_step ^^ n) (pr_errs p) x"
  shows "(proc_step E)\<^sup>*\<^sup>* p (p\<lparr>pr_errs := x\<rparr>)"
  using assms
proof (induction n arbitrary: x)
  case (Suc n)
  then obtain y where y: "(catch_step ^^ n) (pr_errs p) y" "catch_step y x" by auto
  have "proc_step E (p\<lparr>pr_errs := y\<rparr>) (p\<lparr>pr_errs := y\<rparr>\<lparr>pr_errs := x\<rparr>)" using y(2) by (intro proc_step.hand_on) simp
  with Suc.IH [OF y(1)] show ?case by simp
qed simp

lemma no_json [simp]: "Unmarshal f z [] = Err ''json: syntax''"
  by (simp add: Unmarshal_def parse_json_def)

text \<open>
  C14: One message ends a node, from whoever can reach a port of it. A connection that is closed without a
  byte makes the handler panic, and with it the process. Two bytes, the kind of a consensus message with
  no content, change nothing in the node, but the error of the decoder goes to the error channels and the
  process ends with it or with another error: every sequence of hand-overs can be continued until it does.
\<close>
theorem one_message_ends_node:
  assumes "\<forall>i. sorts (SortKeys (Es i))" "(open_step Es)\<^sup>*\<^sup>* [] N" "i < length N" "alive (N ! i)" "pr_started (N ! i)"
    "NodeRunCh \<notin> fst ` set (posted (pr_errs (N ! i)))"
  shows "pr_exit (Server_handle (Es i) net (Ok []) (N ! i)) = Some (Crashed ''index out of range'')
     \<and> (let p = Server_handle (Es i) ConsNet (Ok [ConsensusMessage, StartBlockProcessingMessage]) (N ! i) in
        pr_full p = pr_full (N ! i) \<and> posted (pr_errs p) = posted (pr_errs (N ! i)) @ [(ServerCh ConsNet, ''json: syntax'')]
        \<and> (\<forall>n x. (catch_step ^^ n) (pr_errs p) x \<longrightarrow>
             (\<exists>p' e. (proc_step (Es i))\<^sup>*\<^sup>* (p\<lparr>pr_errs := x\<rparr>) p' \<and> pr_exit p' = Some (Ended e))))"
proof -
  let ?p = "Server_handle (Es i) ConsNet (Ok [ConsensusMessage, StartBlockProcessingMessage]) (N ! i)"
  have p: "?p = (N ! i)\<lparr>pr_errs := post (ServerCh ConsNet) ''json: syntax'' (pr_errs (N ! i))\<rparr>"
    by (simp add: Server_handle_def run_go_def handleInbound_def MaxPayloadSize_def message_kinds consensus_kinds handleConsensusMessage_def
        on_cons_def handleStartBlockProcessing_def StartBlockProcessingMsg_Unmarshal_def)
  have run: "err_step\<^sup>*\<^sup>* startCatch (pr_errs ?p)"
  proof -
    have "err_step\<^sup>*\<^sup>* startCatch (pr_errs (N ! i))" using open_runs_ok [OF assms(1,2)] assms(3) by (simp add: proc_ok_def)
    moreover have "err_step (pr_errs (N ! i)) (pr_errs ?p)" unfolding p by (simp add: err_step.posting)
    ultimately show ?thesis by (rule rtranclp.rtrancl_into_rtrancl)
  qed
  have ends: "\<exists>p' e. (proc_step (Es i))\<^sup>*\<^sup>* (?p\<lparr>pr_errs := x\<rparr>) p' \<and> pr_exit p' = Some (Ended e)"
    if x: "(catch_step ^^ n) (pr_errs ?p) x" for n x
  proof -
    have "(err_step ^^ n) (pr_errs ?p) x" using x by (rule relpowp_mono [rotated]) (rule err_step.catching)
    then have "err_step\<^sup>*\<^sup>* startCatch x" using run by (meson relpowp_imp_rtranclp rtranclp_trans)
    moreover have "posted x \<noteq> []" using catch_run_posted [OF x err_runs_ok [OF run]] by (simp add: p post_def)
    moreover have "NodeRunCh \<notin> fst ` set (posted x)" by (rule catch_run_NodeRun [OF x]) (use assms(6) in \<open>auto simp: p post_def\<close>)
    ultimately obtain m y e where y: "(catch_step ^^ m) x y" "run_returns y e" using first_error_returns by blast
    have "(proc_step (Es i))\<^sup>*\<^sup>* (?p\<lparr>pr_errs := x\<rparr>) (?p\<lparr>pr_errs := x\<rparr>\<lparr>pr_errs := y\<rparr>)" by (rule catch_run_proc) (use y in simp)
    moreover have "proc_step (Es i) (?p\<lparr>pr_errs := x\<rparr>\<lparr>pr_errs := y\<rparr>) (?p\<lparr>pr_errs := x\<rparr>\<lparr>pr_errs := y\<rparr>\<lparr>pr_exit := Some (Ended e)\<rparr>)"
      by (rule proc_step.returns) (use y assms(5) in \<open>simp_all add: p\<close>)
    ultimately show ?thesis by (intro exI [of _ "?p\<lparr>pr_errs := x\<rparr>\<lparr>pr_errs := y\<rparr>\<lparr>pr_exit := Some (Ended e)\<rparr>"] exI [of _ e]) auto
  qed
  have "pr_exit (Server_handle (Es i) net (Ok []) (N ! i)) = Some (Crashed ''index out of range'')"
    by (cases net) (simp_all add: Server_handle_def run_go_def handleInbound_def on_node_def)
  then show ?thesis using ends by (simp add: Let_def) (simp add: p post_def)
qed

end
