(* ===== verification/Gossip.thy ===== *)
theory Gossip
  imports Network
begin

text \<open>
  How a network gets from nodes that know each other to a committee: the ticks and the gossip of the
  consensus service (\<open>src/consensus/consensus_service.go\<close>, \<open>loop\<close>; \<open>handlers.go\<close>, \<open>handleGossip\<close>), as runs of the
  network.
\<close>

subsection \<open>One message of gossip\<close>

definition gossipMsg :: "'z lib_scheme \<Rightarrow> 'd fullnode \<Rightarrow> GossipMsg" where
  "gossipMsg E s = (let cs = fn_cons s; n = fn_node s in
     \<lparr>gm_From = info (cs_p2p cs), gm_FromPublicKey = Wallet_PublicKey (nodeWallet cs),
      gm_Signature = Some (case Wallet_SignRaw E (nodeWallet cs) (Some ConsensusMsgSigContent) of Ok sig \<Rightarrow> sig | _ \<Rightarrow> []),
      gm_IsSyncing = isSyncing (n_sync n), gm_IsReady = cs_ready cs, gm_NextHeight = Blockchain_NextHeight (blockchain n),
      gm_NextEpoch = Blockchain_NextEpoch (blockchain n), gm_NextSlot = Blockchain_NextSlot (blockchain n),
      gm_BadNodes = Some (map Some (badPeers cs))\<rparr>)"

definition gossip :: "'z lib_scheme \<Rightarrow> 'd fullnode \<Rightarrow> bytes" where
  "gossip E s = consensus_data GossipMsg_to_json GossipMessage (gossipMsg E s)"

lemma gossip_tick:
  assumes "keypair_ok E (wa_keyPair (nodeWallet (fn_cons s)))" "peers (cs_p2p (fn_cons s)) \<noteq> []"
    "\<not> waitingFianlity (fn_cons s)" "cs_tick (fn_cons s) = 0 \<or> cs_tick (fn_cons s) = 1"
  shows "loop_tick E now s = (Ok (), s\<lparr>fn_cons := (fn_cons s)\<lparr>cs_tick := cs_tick (fn_cons s) + 1,
     cs_p2p := Broadcast (gossip E s) [] (cs_p2p (fn_cons s))\<rparr>\<rparr>)"
proof -
  obtain sig where "Wallet_SignRaw E (nodeWallet (fn_cons s)) (Some ConsensusMsgSigContent) = Ok sig" by (rule signs [OF assms(1)])
  moreover have "sint (cs_tick (fn_cons s)) < 2" "(cs_tick (fn_cons s) + 1) mod 4 = cs_tick (fn_cons s) + 1" using assms(4) by auto
  ultimately show ?thesis using assms(2,3)
    by (simp add: loop_tick_def Let_def LenPeers_def broadcastGossip_def next_tick_def gossip_def gossipMsg_def)
qed

text \<open>What a node keeps of the gossip of another one at the same place of the chain.\<close>

definition heard :: "'d fullnode \<Rightarrow> 'e fullnode \<Rightarrow> 'e fullnode" where
  "heard s0 s = s\<lparr>fn_cons := addToNextValidators (Wallet_PublicKey (nodeWallet (fn_cons s0)))
     ((fn_cons s)\<lparr>peersStatus := AList.update (Ip4 (info (cs_p2p (fn_cons s0)))) (cs_ready (fn_cons s0)) (peersStatus (fn_cons s))\<rparr>)\<rparr>"

definition same_place :: "Blockchain \<Rightarrow> Blockchain \<Rightarrow> bool" where
  "same_place a b \<longleftrightarrow> Blockchain_NextHeight a = Blockchain_NextHeight b \<and> Blockchain_NextEpoch a = Blockchain_NextEpoch b
     \<and> Blockchain_NextSlot a = Blockchain_NextSlot b"

lemma size_gossip:
  assumes "address_ok (info (cs_p2p (fn_cons s)))" "keypair_ok E (wa_keyPair (nodeWallet (fn_cons s)))" "badPeers (fn_cons s) = []"
  shows "length (gossip E s) \<le> MaxPayloadSize"
proof -
  obtain sig where sig: "Wallet_SignRaw E (nodeWallet (fn_cons s)) (Some ConsensusMsgSigContent) = Ok sig" "length sig = 64"
    by (rule signs [OF assms(2)])
  have "slice_len (Wallet_PublicKey (nodeWallet (fn_cons s))) = 32" using assms(2) by (simp add: keypair_ok_def Wallet_PublicKey_def)
  moreover have "length (print_json (enc_uint w)) \<le> 10" for w :: uint32
    using length_dec_digits [of "unat w" 9] unsigned_less [where w = w and 'a = nat] by (simp add: enc_uint_def)
  from this [of "Blockchain_NextSlot (blockchain (fn_node s))"]
  have "length (print_json (enc_uint (Blockchain_NextSlot (blockchain (fn_node s))))) \<le> 10" .
  ultimately show ?thesis
    using sig assms(3) size_64 [of "Some sig"] size_32 [of "Wallet_PublicKey (nodeWallet (fn_cons s))"] length_NodeInfo [OF assms(1)]
      length_enc_uint(2) [of "Blockchain_NextHeight (blockchain (fn_node s))"] length_enc_uint(2) [of "Blockchain_NextEpoch (blockchain (fn_node s))"]
    by (simp add: gossip_def consensus_data_def PackPayload_def Marshal_def GossipMsg_to_json_def gossipMsg_def Let_def plain_def enc_list_def
        MaxPayloadSize_def split: bool.split)
qed

lemma gossip_heard:
  assumes "address_ok (info (cs_p2p (fn_cons s0)))" "keypair_ok E (wa_keyPair (nodeWallet (fn_cons s0)))" "badPeers (fn_cons s0) = []"
    "ed_Verify E = ed_Verify E'" "\<not> isSyncing (n_sync (fn_node s0))" "\<not> isSyncing (n_sync (fn_node s))" "\<not> waitingFianlity (fn_cons s)"
    "badPeers (fn_cons s) = []" "same_place (blockchain (fn_node s0)) (blockchain (fn_node s))"
  shows "cons_inbound E' (gossip E s0) s = (Ok (), heard s0 s)"
proof -
  let ?m = "gossipMsg E s0"
  have m: "GossipMsg_Unmarshal (Marshal GossipMsg_to_json ?m) = Ok ?m"
    using address_good [OF assms(1)] by (intro consensus_roundtrip(1)) (simp add: gossipMsg_def Let_def)
  have v: "GossipMsg_Verify E' ?m = Ok True"
    using sender_verified [OF assms(1,2,4)] assms(3) by (simp add: GossipMsg_Verify_def verifySender_def gossipMsg_def Let_def)
  have "cons_inbound E' (gossip E s0) s = handleGossip E' (Marshal GossipMsg_to_json ?m) s"
    using size_gossip [OF assms(1-3)] by (simp add: gossip_def consensus_delivered consensus_handled)
  also have "\<dots> = (Ok (), heard s0 s)"
    using m v assms(5-9) by (simp add: handleGossip_def st_bind_Ok) (simp add: gossipMsg_def Let_def same_place_def heard_def)
  finally show ?thesis .
qed

subsection \<open>Runs that change nothing but the nodes\<close>

text \<open>The network \<open>N\<close> with the nodes \<open>F\<close> in its processes.\<close>

definition with_full :: "'d network \<Rightarrow> (nat \<Rightarrow> 'd fullnode) \<Rightarrow> 'd network" where
  "with_full N F = map (\<lambda>j. (N ! j)\<lparr>pr_full := F j\<rparr>) [0..<length N]"

lemma with_full_sel [simp]:
  "length (with_full N F) = length N" "j < length N \<Longrightarrow> with_full N F ! j = (N ! j)\<lparr>pr_full := F j\<rparr>"
  by (simp_all add: with_full_def)

lemma with_full_self: "\<forall>j<length N. pr_full (N ! j) = F j \<Longrightarrow> with_full N F = N"
  by (rule nth_equalityI) simp_all

lemma with_full_update: "i < length N \<Longrightarrow> (with_full N F)[i := (N ! i)\<lparr>pr_full := s\<rparr>] = with_full N (F(i := s))"
  by (rule nth_equalityI) (auto simp: nth_list_update)

lemma alive_full [simp]: "alive (p\<lparr>pr_full := s\<rparr>) = alive p"
  by (simp add: alive_def)

lemma IndexFunc_cong: "length xs = length ys \<Longrightarrow> (\<And>i. i < length xs \<Longrightarrow> P (xs ! i) = Q (ys ! i)) \<Longrightarrow> IndexFunc P xs = IndexFunc Q ys"
proof (induction xs ys rule: list_induct2)
  case (Cons x xs y ys)
  then show ?case using Cons.prems [of 0] Cons.IH [OF Cons.prems [of "Suc _", simplified]] by simp
qed simp

lemma dial_full: "dial (with_full N F) addr = dial N addr"
  unfolding dial_def by (rule IndexFunc_cong) simp_all

text \<open>The consensus addresses \<open>A\<close> of the processes, all alive and listening.\<close>

definition up :: "'d network \<Rightarrow> (nat \<Rightarrow> NodeInfo) \<Rightarrow> bool" where
  "up N A \<longleftrightarrow> (\<forall>i<length N. alive (N ! i) \<and> dial N (Ip4 (A i)) = Some i)"

definition at_home :: "(nat \<Rightarrow> NodeInfo) \<Rightarrow> nat \<Rightarrow> 'd fullnode \<Rightarrow> bool" where
  "at_home A i s \<longleftrightarrow> info (cs_p2p (fn_cons s)) = A i \<and> Ip4 (A i) \<noteq> Ip4 (info (sy_p2p (n_sync (fn_node s))))"

abbreviation leads :: "(nat \<Rightarrow> ('d, 'z) cenv_scheme) \<Rightarrow> 'd network \<Rightarrow> (nat \<Rightarrow> 'd fullnode) \<Rightarrow> (nat \<Rightarrow> 'd fullnode) \<Rightarrow> bool" where
  "leads Es N F F' \<equiv> (net_step Es)\<^sup>*\<^sup>* (with_full N F) (with_full N F')"

lemma run_go_Ok: "f (pr_full p) = (Ok (), s) \<Longrightarrow> run_go ch f p = p\<lparr>pr_full := s\<rparr>"
  by (simp add: run_go_def)

lemma leads_tick:
  assumes "up N A" "i < length N" "loop_tick (Es i) now (F i) = (Ok (), s)"
  shows "leads Es N F (F(i := s))"
proof -
  have "proc_step (Es i) (with_full N F ! i) (run_go ConsCh (loop_tick (Es i) now) (with_full N F ! i))" by (rule proc_step.turn)
  moreover have "run_go ConsCh (loop_tick (Es i) now) (with_full N F ! i) = (N ! i)\<lparr>pr_full := s\<rparr>"
    using assms(2,3) by (simp add: run_go_Ok)
  ultimately have "net_step Es (with_full N F) ((with_full N F)[i := (N ! i)\<lparr>pr_full := s\<rparr>])"
    using assms(1,2) by (intro net_step.acts) (simp_all add: up_def)
  then show ?thesis using assms(2) by (simp add: with_full_update)
qed

text \<open>A node with other payloads to send.\<close>

definition sending :: "(NodeInfo \<times> bytes) list \<Rightarrow> 'd fullnode \<Rightarrow> 'd fullnode" where
  "sending out s = s\<lparr>fn_cons := (fn_cons s)\<lparr>cs_p2p := (cs_p2p (fn_cons s))\<lparr>sent := out\<rparr>\<rparr>\<rparr>"

lemma leads_deliver:
  assumes "up N A" "i < length N" "j < length N" "i \<noteq> j" "at_home A j (F j)" "Ip4 to = Ip4 (A j)"
    "sent (cs_p2p (fn_cons (F i))) = old @ (to, d) # rest" "cons_inbound (Es j) d (F j) = (Ok (), s)"
  shows "leads Es N F (F(i := sending (old @ rest) (F i), j := s))"
proof -
  let ?s = "sending (old @ rest) (F i)"
  have k: "length old < length (sent (p2p_of ConsNet (pr_full (with_full N F ! i))))" using assms(2,7) by simp
  have "take_sent ConsNet (length old) (with_full N F ! i) = (N ! i)\<lparr>pr_full := ?s\<rparr>"
    using assms(2,7) by (simp add: take_sent_def sending_def Delete_def)
  then have t: "(with_full N F)[i := take_sent ConsNet (length old) (with_full N F ! i)] = with_full N (F(i := ?s))"
    using assms(2) by (simp add: with_full_update)
  have "Server_serve (Es j) (Ip4 to) d (with_full N (F(i := ?s)) ! j) = (N ! j)\<lparr>pr_full := s\<rparr>"
    using assms(3-6,8) by (simp add: Server_serve_def at_home_def Server_handle_def run_go_Ok)
  note served = this
  have "sent (p2p_of ConsNet (pr_full (with_full N F ! i))) ! length old = (to, d)" using assms(2,7) by simp
  moreover have "dial (with_full N (F(i := ?s))) (Ip4 to) = Some j" using assms(1,3,6) by (simp add: dial_full up_def)
  ultimately have "Transporter_send Es i ConsNet (length old) (with_full N F) = with_full N (F(i := ?s, j := s))"
    unfolding Transporter_send_def Let_def by (simp only: prod.case option.case t served with_full_update [OF assms(3)])
  then show ?thesis using net_step.sends [OF _ _ k, of Es] assms(1,2) by (auto simp: up_def)
qed

lemma sending_sel [simp]:
  "sending out (sending out' s) = sending out s" "sent (cs_p2p (fn_cons (sending out s))) = out"
  "fn_node (sending out s) = fn_node s" "jobs (sending out s) = jobs s" "sending (sent (cs_p2p (fn_cons s))) s = s"
  by (simp_all add: sending_def)

lemma with_full_cong: "(\<And>j. j < length N \<Longrightarrow> F j = G j) \<Longrightarrow> with_full N F = with_full N G"
  by (rule nth_equalityI) simp_all

text \<open>A broadcast that is delivered to all: only the receivers change, and the payloads are gone from the sender.\<close>

lemma leads_broadcast:
  assumes "up N A" "i < length N" "sent (cs_p2p (fn_cons (F i))) = old @ map (\<lambda>q. (q, d)) qs @ rest" "map Ip4 qs = map (\<lambda>j. Ip4 (A j)) js"
    "distinct js" "\<forall>j\<in>set js. j < length N \<and> j \<noteq> i \<and> at_home A j (F j) \<and> cons_inbound (Es j) d (F j) = (Ok (), G j)"
  shows "leads Es N F (\<lambda>j. if j \<in> set js then G j else if j = i then sending (old @ rest) (F i) else F j)"
  using assms(3-6)
proof (induction js arbitrary: qs F)
  case Nil
  then have "sending (old @ rest) (F i) = F i" by simp (metis sending_sel(5))
  then have "(\<lambda>j. if j \<in> set [] then G j else if j = i then sending (old @ rest) (F i) else F j) = F" by auto
  then show ?case by simp
next
  case (Cons j js)
  then obtain q qs' where qs: "qs = q # qs'" "Ip4 q = Ip4 (A j)" "map Ip4 qs' = map (\<lambda>j. Ip4 (A j)) js" by (cases qs) auto
  let ?F = "F(i := sending (old @ map (\<lambda>q. (q, d)) qs' @ rest) (F i), j := G j)"
  have j: "j < length N" "i \<noteq> j" "at_home A j (F j)" "cons_inbound (Es j) d (F j) = (Ok (), G j)" using Cons.prems(4) by auto
  have one: "leads Es N F ?F"
    by (rule leads_deliver [where F = F and i = i and j = j and to = q and d = d, OF assms(1,2)]) (use Cons.prems(1) qs j in simp_all)
  have all: "leads Es N ?F (\<lambda>k. if k \<in> set js then G k else if k = i then sending (old @ rest) (?F i) else ?F k)"
    by (rule Cons.IH) (use Cons.prems qs j in auto)
  have "(\<lambda>k. if k \<in> set js then G k else if k = i then sending (old @ rest) (?F i) else ?F k)
      = (\<lambda>k. if k \<in> set (j # js) then G k else if k = i then sending (old @ rest) (F i) else F k)"
    using j(2) by (auto simp: fun_eq_iff)
  with rtranclp_trans [OF one all] show ?case by simp
qed

subsection \<open>All nodes gossip\<close>

text \<open>Nodes that know each other, at the same place of the chain, none of them waiting or synchronising.\<close>

definition meshed :: "nat \<Rightarrow> (nat \<Rightarrow> NodeInfo) \<Rightarrow> nat \<Rightarrow> 'd fullnode \<Rightarrow> bool" where
  "meshed n A i s \<longleftrightarrow> (\<exists>js. distinct js \<and> set js = {..<n} - {i} \<and> map Ip4 (peers (cs_p2p (fn_cons s))) = map (\<lambda>j. Ip4 (A j)) js)"

definition talking :: "(nat \<Rightarrow> ('d, 'z) cenv_scheme) \<Rightarrow> (nat \<Rightarrow> NodeInfo) \<Rightarrow> nat \<Rightarrow> (nat \<Rightarrow> 'd fullnode) \<Rightarrow> bool" where
  "talking Es A n F \<longleftrightarrow> 2 \<le> n \<and> (\<forall>i<n. at_home A i (F i) \<and> meshed n A i (F i) \<and> address_ok (A i)
     \<and> keypair_ok (Es i) (wa_keyPair (nodeWallet (fn_cons (F i)))) \<and> badPeers (fn_cons (F i)) = []
     \<and> \<not> waitingFianlity (fn_cons (F i)) \<and> \<not> isSyncing (n_sync (fn_node (F i)))
     \<and> (\<forall>j<n. same_place (blockchain (fn_node (F i))) (blockchain (fn_node (F j))) \<and> ed_Verify (Es i) = ed_Verify (Es j)))"

definition ticked :: "'d fullnode \<Rightarrow> 'd fullnode" where
  "ticked s = s\<lparr>fn_cons := (fn_cons s)\<lparr>cs_tick := cs_tick (fn_cons s) + 1\<rparr>\<rparr>"

definition spoken :: "nat \<Rightarrow> (nat \<Rightarrow> 'd fullnode) \<Rightarrow> nat \<Rightarrow> 'd fullnode" where
  "spoken i F j = (if j = i then ticked (F i) else heard (F i) (F j))"

lemma talkingD:
  assumes "talking Es A n F" "i < n"
  shows "2 \<le> n" "at_home A i (F i)" "meshed n A i (F i)" "address_ok (A i)"
    "keypair_ok (Es i) (wa_keyPair (nodeWallet (fn_cons (F i))))" "badPeers (fn_cons (F i)) = []"
    "\<not> waitingFianlity (fn_cons (F i))" "\<not> isSyncing (n_sync (fn_node (F i)))" "info (cs_p2p (fn_cons (F i))) = A i"
    "j < n \<Longrightarrow> same_place (blockchain (fn_node (F i))) (blockchain (fn_node (F j)))" "j < n \<Longrightarrow> ed_Verify (Es i) = ed_Verify (Es j)"
  using assms unfolding talking_def at_home_def by blast+

lemma meshed_peers: "meshed n A i s \<Longrightarrow> 2 \<le> n \<Longrightarrow> peers (cs_p2p (fn_cons s)) \<noteq> []"
proof
  assume m: "meshed n A i s" "2 \<le> n" "peers (cs_p2p (fn_cons s)) = []"
  then have "{..<n} - {i} = {}" by (auto simp: meshed_def)
  moreover have "(if i = 0 then 1 else 0) \<in> {..<n} - {i}" using m(2) by auto
  ultimately show False by blast
qed

text \<open>A payload that a node sends to all its peers is delivered to all other nodes.\<close>

lemma leads_hear:
  assumes "up N A" "i < length N" "meshed (length N) A i (F i)"
    "sent (cs_p2p (fn_cons (F i))) = old @ map (\<lambda>q. (q, d)) (peers (cs_p2p (fn_cons (F i)))) @ rest"
    "\<forall>j<length N. j \<noteq> i \<longrightarrow> at_home A j (F j) \<and> cons_inbound (Es j) d (F j) = (Ok (), G j)"
  shows "leads Es N F (\<lambda>j. if j = i then sending (old @ rest) (F i) else G j)"
proof -
  obtain js where js: "distinct js" "set js = {..<length N} - {i}" "map Ip4 (peers (cs_p2p (fn_cons (F i)))) = map (\<lambda>j. Ip4 (A j)) js"
    using assms(3) unfolding meshed_def by blast
  have "leads Es N F (\<lambda>j. if j \<in> set js then G j else if j = i then sending (old @ rest) (F i) else F j)"
    by (rule leads_broadcast [where F = F and i = i and d = d, OF assms(1,2,4) js(3,1)]) (use js(2) assms(5) in auto)
  moreover have "with_full N (\<lambda>j. if j \<in> set js then G j else if j = i then sending (old @ rest) (F i) else F j)
      = with_full N (\<lambda>j. if j = i then sending (old @ rest) (F i) else G j)"
    by (rule with_full_cong) (use js(2) in auto)
  ultimately show ?thesis by simp
qed

lemma leads_tick_hear:
  assumes "up N A" "i < length N" "meshed (length N) A i (F i)" "loop_tick (Es i) now (F i) = (Ok (), s)"
    "peers (cs_p2p (fn_cons s)) = peers (cs_p2p (fn_cons (F i)))"
    "sent (cs_p2p (fn_cons s)) = old @ map (\<lambda>q. (q, d)) (peers (cs_p2p (fn_cons (F i)))) @ rest"
    "\<forall>j<length N. j \<noteq> i \<longrightarrow> at_home A j (F j) \<and> cons_inbound (Es j) d (F j) = (Ok (), G j)"
  shows "leads Es N F (\<lambda>j. if j = i then sending (old @ rest) s else G j)"
proof -
  have one: "leads Es N F (F(i := s))" by (rule leads_tick [where Es = Es and F = F, OF assms(1,2,4)])
  have "leads Es N (F(i := s)) (\<lambda>j. if j = i then sending (old @ rest) ((F(i := s)) i) else G j)"
    by (rule leads_hear [where F = "F(i := s)" and i = i and d = d, OF assms(1,2)]) (use assms(3,5-7) in \<open>simp_all add: meshed_def\<close>)
  from rtranclp_trans [OF one this [unfolded fun_upd_same]] show ?thesis .
qed

lemma leads_gossip:
  assumes "up N A" "talking Es A (length N) F" "i < length N" "cs_tick (fn_cons (F i)) = 0 \<or> cs_tick (fn_cons (F i)) = 1"
  shows "leads Es N F (spoken i F)"
proof -
  note t = talkingD [OF assms(2,3)]
  let ?d = "gossip (Es i) (F i)" and ?cs = "fn_cons (F i)"
  let ?s = "(F i)\<lparr>fn_cons := ?cs\<lparr>cs_tick := cs_tick ?cs + 1, cs_p2p := Broadcast ?d [] (cs_p2p ?cs)\<rparr>\<rparr>"
  have tick: "loop_tick (Es i) 0 (F i) = (Ok (), ?s)" by (intro gossip_tick assms(4) t(5,7) meshed_peers [OF t(3,1)])
  have "cons_inbound (Es j) ?d (F j) = (Ok (), heard (F i) (F j))" "at_home A j (F j)" if "j < length N" for j
    using t(4,9) talkingD(2,6-8) [OF assms(2) that] by (auto intro!: gossip_heard t(5,6,8) t(10,11) [OF that])
  then have "leads Es N F (\<lambda>j. if j = i then sending (sent (cs_p2p ?cs) @ []) ?s else heard (F i) (F j))"
    by (intro leads_tick_hear [where Es = Es and F = F and i = i and d = ?d, OF assms(1,3) t(3) tick]) (simp_all add: Broadcast_all)
  moreover have "(\<lambda>j. if j = i then sending (sent (cs_p2p ?cs) @ []) ?s else heard (F i) (F j)) = spoken i F"
    by (auto simp: fun_eq_iff spoken_def ticked_def sending_def Broadcast_all)
  ultimately show ?thesis by simp
qed

text \<open>What the first \<open>k\<close> nodes have told the others.\<close>

definition told :: "nat \<Rightarrow> (nat \<Rightarrow> 'd fullnode) \<Rightarrow> nat \<Rightarrow> 'd fullnode" where
  "told k F j = (let cs = fn_cons (F j); others = filter (\<lambda>i. i \<noteq> j) [0..<k] in
     (F j)\<lparr>fn_cons := cs\<lparr>
       nextValidators := fold (\<lambda>i. keys_add (Wallet_PublicKey (nodeWallet (fn_cons (F i))))) others (nextValidators cs),
       peersStatus := fold (\<lambda>i. AList.update (Ip4 (info (cs_p2p (fn_cons (F i))))) (cs_ready (fn_cons (F i)))) others (peersStatus cs),
       cs_tick := cs_tick cs + (if j < k then 1 else 0)\<rparr>\<rparr>)"

lemma told_sel [simp]:
  "fn_node (told k F j) = fn_node (F j)" "jobs (told k F j) = jobs (F j)" "cs_p2p (fn_cons (told k F j)) = cs_p2p (fn_cons (F j))"
  "nodeWallet (fn_cons (told k F j)) = nodeWallet (fn_cons (F j))" "badPeers (fn_cons (told k F j)) = badPeers (fn_cons (F j))"
  "waitingFianlity (fn_cons (told k F j)) = waitingFianlity (fn_cons (F j))" "cs_ready (fn_cons (told k F j)) = cs_ready (fn_cons (F j))"
  "cs_tick (fn_cons (told k F j)) = cs_tick (fn_cons (F j)) + (if j < k then 1 else 0)"
  by (simp_all add: told_def Let_def cs_ready_def)

lemma told_0: "told 0 F = F"
  by (simp add: fun_eq_iff told_def Let_def)

lemma told_Suc: "told (Suc k) F = spoken k (told k F)"
proof
  fix j
  show "told (Suc k) F j = spoken k (told k F) j"
  proof (cases "j = k")
    case True
    have "[i\<leftarrow>[0..<Suc k]. i \<noteq> k] = [i\<leftarrow>[0..<k]. i \<noteq> k]" by simp
    then show ?thesis using True by (simp add: spoken_def ticked_def) (simp add: told_def Let_def)
  next
    case False
    then show ?thesis by (simp add: spoken_def heard_def addToNextValidators_def) (simp add: told_def Let_def)
  qed
qed

text \<open>What gossip leaves alone.\<close>

definition same_self :: "'d fullnode \<Rightarrow> 'd fullnode \<Rightarrow> bool" where
  "same_self s s' \<longleftrightarrow> fn_node s' = fn_node s \<and> cs_p2p (fn_cons s') = cs_p2p (fn_cons s) \<and> nodeWallet (fn_cons s') = nodeWallet (fn_cons s)
     \<and> badPeers (fn_cons s') = badPeers (fn_cons s) \<and> waitingFianlity (fn_cons s') = waitingFianlity (fn_cons s)"

lemma talking_same:
  assumes "talking Es A n F" "\<forall>i<n. same_self (F i) (G i)"
  shows "talking Es A n G"
  unfolding talking_def
proof (intro conjI allI impI)
  fix i assume i: "i < n"
  note t = talkingD [OF assms(1) i]
  have g: "same_self (F i) (G i)" using assms(2) i by blast
  show "at_home A i (G i)" "meshed n A i (G i)" "keypair_ok (Es i) (wa_keyPair (nodeWallet (fn_cons (G i))))" "badPeers (fn_cons (G i)) = []"
      "\<not> waitingFianlity (fn_cons (G i))" "\<not> isSyncing (n_sync (fn_node (G i)))"
    using t(2,3,5-8) g by (simp_all add: same_self_def at_home_def meshed_def)
  show "address_ok (A i)" by (rule t(4))
  fix j assume j: "j < n"
  show "same_place (blockchain (fn_node (G i))) (blockchain (fn_node (G j)))"
    using t(10) [OF j] g assms(2) j by (simp add: same_self_def)
  show "ed_Verify (Es i) = ed_Verify (Es j)" by (rule t(11) [OF j])
qed (use assms(1) in \<open>simp add: talking_def\<close>)

lemma same_self_told [simp]: "same_self (F j) (told k F j)"
  by (simp add: same_self_def)

lemma leads_told:
  assumes "up N A" "talking Es A (length N) F" "\<forall>i<length N. cs_tick (fn_cons (F i)) = t" "t = 0 \<or> t = 1"
  shows "leads Es N F (told (length N) F)"
proof -
  have "leads Es N F (told k F)" if "k \<le> length N" for k
    using that
  proof (induction k)
    case (Suc k)
    have tt: "talking Es A (length N) (told k F)" by (rule talking_same [OF assms(2)]) simp
    have "leads Es N (told k F) (spoken k (told k F))"
      by (rule leads_gossip [OF assms(1) tt]) (use Suc.prems assms(3,4) in simp_all)
    with rtranclp_trans [OF Suc.IH [OF Suc_leD [OF Suc.prems]] this] show ?case by (simp only: told_Suc)
  qed (simp add: told_0)
  then show ?thesis by simp
qed

lemma set_fold_keys:
  "\<forall>i\<in>set is. slice_len (K i) = PublicKeySize \<Longrightarrow> set (fold (\<lambda>i. keys_add (K i)) is V) = set V \<union> (\<lambda>i. bytes_of (K i)) ` set is"
  by (induction "is" arbitrary: V) (auto simp: keys_add_def bytes_Equal_def list_ex_iff)

lemma distinct_fold_keys: "distinct V \<Longrightarrow> distinct (fold (\<lambda>i. keys_add (K i)) is V)"
  by (induction "is" arbitrary: V) (auto simp: keys_add_def bytes_Equal_def list_ex_iff)

lemma map_of_fold_update: "map_of (fold (\<lambda>i. AList.update (a i) r) is S) x = (if x \<in> a ` set is then Some r else map_of S x)"
  by (induction "is" arbitrary: S) (auto simp: update_conv')

lemma distinct_fold_update: "distinct (map fst S) \<Longrightarrow> distinct (map fst (fold (\<lambda>i. AList.update (a i) (r i)) is S))"
  by (induction "is" arbitrary: S) (auto simp: distinct_update)

subsection \<open>The committee of the network\<close>

definition node_key :: "'d fullnode \<Rightarrow> bytes" where
  "node_key s = bytes_of (Wallet_PublicKey (nodeWallet (fn_cons s)))"

text \<open>The state after the tick on which a node decides.\<close>

definition decided :: "('d, 'z) cenv_scheme \<Rightarrow> 'd fullnode \<Rightarrow> 'd fullnode" where
  "decided E s = (let cs = fn_cons s; h = unat (Blockchain_NextHeight (blockchain (fn_node s)));
       vs = SortKeys E (lessKey E) (keys_add (Wallet_PublicKey (nodeWallet cs)) (nextValidators cs)); m = length vs in
     s\<lparr>fn_cons := cs\<lparr>nextValidators := vs, nextBlockProducer := Some (vs ! (h mod m)), nextAggregator := Some (vs ! (Suc (h mod m) mod m)),
       cs_tick := 3\<rparr>\<rparr>)"

lemma decide_quietly:
  assumes "sorts (SortKeys E)" "cs_tick (fn_cons s) = 2" "peers (cs_p2p (fn_cons s)) \<noteq> []" "\<not> waitingFianlity (fn_cons s)"
    "\<not> isSyncing (n_sync (fn_node s))" "nextValidators (fn_cons s) \<noteq> []"
    "length (keys_add (Wallet_PublicKey (nodeWallet (fn_cons s))) (nextValidators (fn_cons s))) < 2 ^ 64" "\<not> allPeerReady (fn_cons s)"
  shows "loop_tick E now s = (Ok (), decided E s)"
proof -
  let ?cs = "addToNextValidators (Wallet_PublicKey (nodeWallet (fn_cons s))) (fn_cons s)"
  have "nextValidators ?cs \<noteq> []" using assms(6) by (auto simp: addToNextValidators_def keys_add_def)
  from decideCommittee_eval [OF assms(1) this, of "Blockchain_NextHeight (blockchain (fn_node s))"] assms(7)
  have d: "decideCommittee E (Blockchain_NextHeight (blockchain (fn_node s))) ?cs
      = (Ok (), (fn_cons (decided E s))\<lparr>cs_tick := 2\<rparr>)"
    using assms(2) by (simp add: Let_def addToNextValidators_def decided_def)
  have "\<not> allPeerReady ((fn_cons (decided E s))\<lparr>cs_tick := 2\<rparr>)" using assms(8) by (simp add: allPeerReady_def decided_def Let_def)
  then have "decide_tick E now s = (Ok (), s\<lparr>fn_cons := (fn_cons (decided E s))\<lparr>cs_tick := 2\<rparr>\<rparr>)"
    using d by (simp add: decide_tick_def)
  then show ?thesis using assms(2-6) by (simp add: loop_tick_def Let_def LenPeers_def next_tick_def) (simp add: decided_def Let_def)
qed

lemma third_tick:
  assumes "cs_tick (fn_cons s) = 3" "peers (cs_p2p (fn_cons s)) \<noteq> []" "\<not> waitingFianlity (fn_cons s)"
  shows "loop_tick E now s = (Ok (), s\<lparr>fn_cons := (fn_cons s)\<lparr>cs_tick := 0\<rparr>\<rparr>)"
  using assms by (simp add: loop_tick_def Let_def LenPeers_def next_tick_def)

text \<open>Ticks in which nobody sends.\<close>

lemma leads_ticks:
  assumes "up N A" "\<forall>i<length N. loop_tick (Es i) now (F i) = (Ok (), G i)"
  shows "leads Es N F G"
proof -
  have "leads Es N F (\<lambda>i. if i < k then G i else F i)" if "k \<le> length N" for k
    using that
  proof (induction k)
    case (Suc k)
    let ?F = "\<lambda>i. if i < k then G i else F i"
    have "leads Es N ?F (?F(k := G k))"
      by (rule leads_tick [where F = ?F and i = k and now = now, OF assms(1)]) (use Suc.prems assms(2) in simp_all)
    moreover have "?F(k := G k) = (\<lambda>i. if i < Suc k then G i else F i)" by (auto simp: fun_eq_iff less_Suc_eq)
    ultimately show ?case using Suc by (simp add: rtranclp_trans)
  qed simp
  from this [of "length N"] with_full_cong [of N "\<lambda>i. if i < length N then G i else F i" G] show ?thesis by simp
qed

text \<open>A status of other nodes of the network only.\<close>

definition known_status :: "(nat \<Rightarrow> NodeInfo) \<Rightarrow> nat \<Rightarrow> nat \<Rightarrow> (string \<times> bool) list \<Rightarrow> bool" where
  "known_status A n j S \<longleftrightarrow> distinct (map fst S) \<and> fst ` set S \<subseteq> (\<lambda>i. Ip4 (A i)) ` ({..<n} - {j})"

text \<open>Nodes that have not decided on a committee yet, with keys and a hash that tell them apart.\<close>

definition undecided :: "(nat \<Rightarrow> ('d, 'z) cenv_scheme) \<Rightarrow> (nat \<Rightarrow> NodeInfo) \<Rightarrow> nat \<Rightarrow> (nat \<Rightarrow> 'd fullnode) \<Rightarrow> bool" where
  "undecided Es A n F \<longleftrightarrow> n < 2 ^ 64 \<and> hash_ok (Es 0) \<and> inj_on (\<lambda>i. node_key (F i)) {..<n} \<and> inj_on (Sum256 (Es 0)) ((\<lambda>i. node_key (F i)) ` {..<n})
     \<and> (\<forall>i<n. sorts (SortKeys (Es i)) \<and> Sum256 (Es i) = Sum256 (Es 0) \<and> cs_tick (fn_cons (F i)) = 0 \<and> nextValidators (fn_cons (F i)) = []
          \<and> nextBlockProducer (fn_cons (F i)) = None \<and> known_status A n i (peersStatus (fn_cons (F i))))"

lemma undecidedD:
  assumes "undecided Es A n F"
  shows "n < 2 ^ 64" "hash_ok (Es 0)" "inj_on (\<lambda>i. node_key (F i)) {..<n}" "inj_on (Sum256 (Es 0)) ((\<lambda>i. node_key (F i)) ` {..<n})"
    "i < n \<Longrightarrow> sorts (SortKeys (Es i))" "i < n \<Longrightarrow> Sum256 (Es 0) = Sum256 (Es i)" "i < n \<Longrightarrow> cs_tick (fn_cons (F i)) = 0"
    "i < n \<Longrightarrow> nextValidators (fn_cons (F i)) = []" "i < n \<Longrightarrow> nextBlockProducer (fn_cons (F i)) = None"
    "i < n \<Longrightarrow> known_status A n i (peersStatus (fn_cons (F i)))"
  using assms unfolding undecided_def by (blast, blast, blast, blast, blast, metis, blast+)

text \<open>After two rounds of gossip every node knows the keys of all others.\<close>

definition gossiped :: "nat \<Rightarrow> (nat \<Rightarrow> 'd fullnode) \<Rightarrow> nat \<Rightarrow> 'd fullnode" where
  "gossiped n F = told n (told n F)"

lemma gossiped_validators:
  assumes "\<forall>i<n. slice_len (Wallet_PublicKey (nodeWallet (fn_cons (F i)))) = PublicKeySize" "nextValidators (fn_cons (F j)) = []"
  shows "set (nextValidators (fn_cons (gossiped n F j))) = (\<lambda>i. node_key (F i)) ` ({..<n} - {j}) \<and> distinct (nextValidators (fn_cons (gossiped n F j)))"
proof -
  have "set [i\<leftarrow>[0..<n]. i \<noteq> j] = {..<n} - {j}" by auto
  then show ?thesis using assms
    by (simp add: gossiped_def told_def Let_def set_fold_keys distinct_fold_keys) (auto simp: node_key_def)
qed

lemma gossiped_unready:
  assumes "2 \<le> n" "j < n" "\<forall>i<n. \<not> cs_ready (fn_cons (F i))"
  shows "\<not> allPeerReady (fn_cons (gossiped n F j))"
proof -
  obtain i where i: "i < n" "i \<noteq> j" using assms(1,2) by (metis One_nat_def Suc_1 Suc_le_lessD less_Suc_eq_0_disj not_less_eq zero_neq_one)
  let ?is = "[i\<leftarrow>[0..<n]. i \<noteq> j]" and ?a = "\<lambda>i. Ip4 (info (cs_p2p (fn_cons (F i))))"
  let ?S = "peersStatus (fn_cons (gossiped n F j))"
  have "?S = fold (\<lambda>i. AList.update (?a i) (cs_ready (fn_cons (F i)))) ?is (peersStatus (fn_cons (told n F j)))"
    by (simp add: gossiped_def told_def Let_def cs_ready_def)
  also have "\<dots> = fold (\<lambda>i. AList.update (?a i) False) ?is (peersStatus (fn_cons (told n F j)))"
    using assms(3) by (intro fold_cong) auto
  finally have "map_of ?S (?a i) = Some False" using i by (simp add: map_of_fold_update)
  then have "(?a i, False) \<in> set ?S" by (rule map_of_SomeD)
  then show ?thesis by (force simp: allPeerReady_def list_all_iff)
qed

lemma next_role: "2 \<le> n \<Longrightarrow> k < n \<Longrightarrow> k \<noteq> Suc k mod n"
  by (cases "Suc k = n") simp_all

lemma keys_add_own:
  assumes "set V = K ` ({..<n} - {j})" "distinct V" "j < n" "inj_on K {..<n}" "slice_len pk = PublicKeySize" "K j = bytes_of pk"
  shows "set (keys_add pk V) = K ` {..<n} \<and> distinct (keys_add pk V) \<and> length (keys_add pk V) = n"
proof -
  have "bytes_of pk \<notin> set V" using assms(1,3,4,6) by (auto simp: inj_on_def)
  then have "keys_add pk V = V @ [bytes_of pk]" using assms(5) by (auto simp: keys_add_def bytes_Equal_def list_ex_iff)
  moreover have "insert (K j) (K ` ({..<n} - {j})) = K ` {..<n}" using assms(3) by blast
  then have "set (V @ [bytes_of pk]) = K ` {..<n}" using assms(1,6) by simp
  moreover have d: "distinct (V @ [bytes_of pk])" using assms(2) \<open>bytes_of pk \<notin> set V\<close> by simp
  ultimately show ?thesis using distinct_card [OF d] card_image [OF assms(4)] by simp
qed

text \<open>The committee of the nodes \<open>F\<close> at height \<open>h\<close>.\<close>

definition committee :: "('d, 'z) cenv_scheme \<Rightarrow> nat \<Rightarrow> (nat \<Rightarrow> 'd fullnode) \<Rightarrow> bytes list" where
  "committee E n F = SortKeys E (lessKey E) (map (\<lambda>i. node_key (F i)) [0..<n])"

lemma committee_keys:
  assumes "sorts (SortKeys E)" "inj_on (\<lambda>i. node_key (F i)) {..<n}"
  shows "set (committee E n F) = (\<lambda>i. node_key (F i)) ` {..<n}" "distinct (committee E n F)" "length (committee E n F) = n"
proof -
  have m: "mset (committee E n F) = mset (map (\<lambda>i. node_key (F i)) [0..<n])" unfolding committee_def by (rule sorted_keys(1) [OF assms(1)])
  have s: "{..<n} = set [0..<n]" by auto
  show "set (committee E n F) = (\<lambda>i. node_key (F i)) ` {..<n}" using arg_cong [OF m, of set_mset] unfolding s by simp
  have "distinct (map (\<lambda>i. node_key (F i)) [0..<n])" using assms(2) unfolding s by (simp add: distinct_map)
  then show "distinct (committee E n F)" using m by (metis mset_eq_imp_distinct_iff)
  show "length (committee E n F) = n" using mset_eq_length [OF m] by simp
qed

text \<open>All nodes have the committee \<open>vs\<close> and its roles for the height \<open>h\<close>.\<close>

definition agreed :: "bytes list \<Rightarrow> nat \<Rightarrow> ConsensusService \<Rightarrow> bool" where
  "agreed vs h cs \<longleftrightarrow> nextValidators cs = vs \<and> nextBlockProducer cs = Some (vs ! (h mod length vs))
     \<and> nextAggregator cs = Some (vs ! (Suc (h mod length vs) mod length vs))"

lemma decided_agreed:
  assumes "undecided Es A n F" "j < n" "set V = (\<lambda>i. node_key (F i)) ` ({..<n} - {j})" "distinct V"
    "slice_len (Wallet_PublicKey (nodeWallet (fn_cons s))) = PublicKeySize" "node_key s = node_key (F j)" "nextValidators (fn_cons s) = V"
  shows "agreed (committee (Es 0) n F) (unat (Blockchain_NextHeight (blockchain (fn_node s)))) (fn_cons (decided (Es j) s))"
proof -
  note u = undecidedD [OF assms(1)]
  let ?V = "keys_add (Wallet_PublicKey (nodeWallet (fn_cons s))) V"
  have inj: "inj_on (\<lambda>i. node_key (F i)) {..<n}" by (rule u(3))
  have V: "set ?V = (\<lambda>i. node_key (F i)) ` {..<n}" "distinct ?V"
    using keys_add_own [OF assms(3,4,2) inj assms(5)] assms(6) by (simp_all add: node_key_def)
  have "distinct (map (\<lambda>i. node_key (F i)) [0..<n])" "set (map (\<lambda>i. node_key (F i)) [0..<n]) = set ?V"
    using inj V(1) by (auto simp: distinct_map atLeast0LessThan)
  moreover have "sorts (SortKeys (Es 0))" "sorts (SortKeys (Es j))" "Sum256 (Es 0) = Sum256 (Es j)" "hash_ok (Es 0)"
    "inj_on (Sum256 (Es 0)) (set (map (\<lambda>i. node_key (F i)) [0..<n]))"
    using u(2,4) u(5) [of 0] u(5,6) [OF assms(2)] assms(2) by (simp_all add: atLeast0LessThan)
  ultimately have "committee (Es 0) n F = SortKeys (Es j) (lessKey (Es j)) ?V"
    unfolding committee_def using V(2) by (intro sorted_keys_unique)
  then show ?thesis using assms(7) by (simp add: agreed_def decided_def Let_def)
qed

text \<open>A node with the roles of the committee \<open>vs\<close>.\<close>

definition rostered :: "bytes list \<Rightarrow> nat \<Rightarrow> (string \<times> bool) list \<Rightarrow> 32 word \<Rightarrow> 'd fullnode \<Rightarrow> 'd fullnode" where
  "rostered vs h S t s = s\<lparr>fn_cons := (fn_cons s)\<lparr>nextValidators := vs, nextBlockProducer := Some (vs ! (h mod length vs)),
     nextAggregator := Some (vs ! (Suc (h mod length vs) mod length vs)), peersStatus := S, cs_tick := t\<rparr>\<rparr>"

lemma rostered_agreed [simp]: "agreed vs h (fn_cons (rostered vs h S t s))" "same_self s (rostered vs h S t s)" "cs_tick (fn_cons (rostered vs h S t s)) = t"
  by (simp_all add: rostered_def agreed_def same_self_def)

lemma decided_rostered:
  assumes "agreed vs h (fn_cons (decided E s))"
  shows "(decided E s)\<lparr>fn_cons := (fn_cons (decided E s))\<lparr>cs_tick := 0\<rparr>\<rparr> = rostered vs h (peersStatus (fn_cons s)) 0 s"
proof -
  have "nextBlockProducer (fn_cons (decided E s)) = Some (vs ! (h mod length vs))" "nextValidators (fn_cons (decided E s)) = vs"
    "nextAggregator (fn_cons (decided E s)) = Some (vs ! (Suc (h mod length vs) mod length vs))"
    using assms by (simp_all add: agreed_def)
  then show ?thesis unfolding decided_def rostered_def Let_def by simp
qed

lemma rostered_gossiped: "rostered vs h S t (gossiped n F j) = rostered vs h S t (F j)"
  by (simp add: rostered_def gossiped_def told_def Let_def)

lemma dom_fold_update: "fst ` set (fold (\<lambda>i. AList.update (a i) (r i)) is S) \<subseteq> a ` set is \<union> fst ` set S"
proof (induction "is" arbitrary: S)
  case (Cons i "is")
  then show ?case using Cons.IH [of "AList.update (a i) (r i) S"] by (auto simp: dom_update)
qed simp

lemma known_status_told:
  assumes "\<forall>i<n. info (cs_p2p (fn_cons (F i))) = A i" "known_status A n j (peersStatus (fn_cons (F j)))"
  shows "known_status A n j (peersStatus (fn_cons (told n F j)))"
proof -
  let ?is = "[i\<leftarrow>[0..<n]. i \<noteq> j]" and ?a = "\<lambda>i. Ip4 (info (cs_p2p (fn_cons (F i))))"
  let ?S = "fold (\<lambda>i. AList.update (?a i) (cs_ready (fn_cons (F i)))) ?is (peersStatus (fn_cons (F j)))"
  have S: "peersStatus (fn_cons (told n F j)) = ?S" by (simp add: told_def Let_def)
  have "?a ` set ?is = (\<lambda>i. Ip4 (A i)) ` set ?is" using assms(1) by (intro image_cong) simp_all
  moreover have "set ?is = {..<n} - {j}" by auto
  ultimately have "fst ` set ?S \<subseteq> (\<lambda>i. Ip4 (A i)) ` ({..<n} - {j}) \<union> fst ` set (peersStatus (fn_cons (F j)))"
    using dom_fold_update [of ?a _ ?is] by (simp only:)
  moreover have "distinct (map fst ?S)" using assms(2) by (intro distinct_fold_update) (simp add: known_status_def)
  ultimately show ?thesis using assms(2) unfolding known_status_def S by blast
qed

lemma committee_run:
  assumes "up N A" "n = length N" "talking Es A n F" "undecided Es A n F"
    "\<forall>i<n. h = unat (Blockchain_NextHeight (blockchain (fn_node (F i))))"
  obtains S where "leads Es N F (\<lambda>i. rostered (committee (Es 0) n F) h (S i) 0 (F i))" "\<forall>i<n. known_status A n i (S i)"
proof -
  let ?V = "\<lambda>j. nextValidators (fn_cons (gossiped n F j))" and ?vs = "committee (Es 0) n F"
  let ?G = "\<lambda>i. decided (Es i) (gossiped n F i)" and ?S = "\<lambda>i. peersStatus (fn_cons (gossiped n F i))"
  let ?H = "\<lambda>i. (?G i)\<lparr>fn_cons := (fn_cons (?G i))\<lparr>cs_tick := 0\<rparr>\<rparr>"
  note u = undecidedD [OF assms(4)]
  have n: "2 \<le> n" using assms(3) by (simp add: talking_def)
  have len: "slice_len (Wallet_PublicKey (nodeWallet (fn_cons (F i)))) = PublicKeySize" if "i < n" for i
    using talkingD(5) [OF assms(3) that] by (simp add: keypair_ok_def Wallet_PublicKey_def PublicKeySize_def)
  have V: "set (?V j) = (\<lambda>i. node_key (F i)) ` ({..<n} - {j})" "distinct (?V j)" if "j < n" for j
    using gossiped_validators [of n F j] u(8) [OF that] len by auto
  have other: "\<exists>j. j \<in> {..<n} - {i}" if "i < n" for i using n by (intro exI [of _ "if i = 0 then 1 else 0"]) auto
  have self: "same_self (F i) (gossiped n F i)" for i by (simp add: gossiped_def same_self_def)
  have tick: "cs_tick (fn_cons (gossiped n F i)) = 2" if "i < n" for i using u(7) [OF that] that by (simp add: gossiped_def)
  have peers: "peers (cs_p2p (fn_cons (F i))) \<noteq> []" if "i < n" for i by (rule meshed_peers [OF talkingD(3) [OF assms(3) that] n])
  have zero: "\<forall>i<length N. cs_tick (fn_cons (F i)) = 0" using u(7) assms(2) by blast
  have "leads Es N F (told n F)" using leads_told [OF assms(1) _ zero] assms(2,3) by simp
  moreover have "talking Es A (length N) (told n F)" using talking_same [OF assms(3), of "told n F"] assms(2) by simp
  note t1 = leads_told [OF assms(1) this, of 1]
  have "leads Es N (told n F) (gossiped n F)" using t1 zero assms(2) by (simp add: gossiped_def)
  moreover have "leads Es N (gossiped n F) ?G"
  proof (rule leads_ticks [OF assms(1)], intro allI impI)
    fix i assume "i < length N"
    then have i: "i < n" using assms(2) by simp
    have *: "length (keys_add (Wallet_PublicKey (nodeWallet (fn_cons (F i)))) (?V i)) = n"
      using keys_add_own [OF V [OF i] i u(3) len [OF i]] by (simp add: node_key_def)
    have "?V i \<noteq> []" using V(1) [OF i] other [OF i] by auto
    moreover have "\<not> allPeerReady (fn_cons (gossiped n F i))" by (rule gossiped_unready [OF n i]) (use u(9) in \<open>simp add: cs_ready_def\<close>)
    ultimately show "loop_tick (Es i) now (gossiped n F i) = (Ok (), ?G i)"
      using self [of i] tick [OF i] peers [OF i] talkingD(7,8) [OF assms(3) i] u(1) u(5) [OF i] * by (intro decide_quietly) (simp_all add: same_self_def)
  qed
  moreover have "leads Es N ?G ?H"
    by (rule leads_ticks [OF assms(1)], intro allI impI, rule third_tick)
      (use assms(2,3) self peers talkingD(7) in \<open>simp_all add: decided_def Let_def same_self_def\<close>)
  ultimately have "leads Es N F ?H" by (meson rtranclp_trans)
  moreover have "?H i = rostered ?vs h (?S i) 0 (F i)" if "i < n" for i
  proof -
    have "agreed ?vs h (fn_cons (?G i))"
      using decided_agreed [OF assms(4) that V [OF that] _ _ refl] self [of i] len [OF that] assms(5) that
      by (simp add: same_self_def node_key_def)
    then show ?thesis by (simp only: decided_rostered rostered_gossiped)
  qed
  then have "with_full N ?H = with_full N (\<lambda>i. rostered ?vs h (?S i) 0 (F i))" using assms(2) by (intro with_full_cong) simp
  moreover have "known_status A n i (?S i)" if "i < n" for i
  proof -
    show ?thesis unfolding gossiped_def by (intro known_status_told u(10) [OF that]) (use talkingD(9) [OF assms(3)] in simp_all)
  qed
  ultimately show thesis using that by simp
qed

text \<open>
  C8: A network forms its committee. When two or more running nodes know each other, stand at the same
  place of the chain and have not decided yet, then the ticks of their loops and the delivery of their
  gossip lead to a state in which all of them have the same validators, namely all nodes, the same block
  producer and the same aggregator; exactly one node has each role and not the same one both. Each node
  keeps its accounts, its database, its place in the chain, its peer list and its wallet (the table of what the peers told and
  the tick of the loop do change, and nothing is said of jobs and timers).
\<close>
theorem network_forms_committee:
  assumes "up N A" "n = length N" "\<forall>i<n. pr_full (N ! i) = F i" "talking Es A n F" "undecided Es A n F"
    "\<forall>i<n. h = unat (Blockchain_NextHeight (blockchain (fn_node (F i))))"
  shows "\<exists>N' vs. (net_step Es)\<^sup>*\<^sup>* N N' \<and> length N' = n \<and> set vs = (\<lambda>i. node_key (F i)) ` {..<n} \<and> distinct vs
     \<and> (\<forall>i<n. agreed vs h (fn_cons (pr_full (N' ! i))) \<and> cs_tick (fn_cons (pr_full (N' ! i))) = 0 \<and> same_self (F i) (pr_full (N' ! i)))
     \<and> (\<exists>!p. p < n \<and> vs ! (h mod n) = node_key (F p)) \<and> (\<exists>!a. a < n \<and> vs ! (Suc (h mod n) mod n) = node_key (F a))
     \<and> vs ! (h mod n) \<noteq> vs ! (Suc (h mod n) mod n)"
proof -
  let ?vs = "committee (Es 0) n F"
  obtain S where run: "leads Es N F (\<lambda>i. rostered ?vs h (S i) 0 (F i))" by (rule committee_run [OF assms(1,2,4-6)])
  have n: "2 \<le> n" using assms(4) by (simp add: talking_def)
  have "sorts (SortKeys (Es 0))" using undecidedD(5) [OF assms(5)] n by simp
  note vs = committee_keys [OF this undecidedD(3) [OF assms(5)]]
  have role: "\<exists>!p. p < n \<and> ?vs ! k = node_key (F p)" if "k < n" for k
    using nth_mem [of k ?vs] that vs(1,3) undecidedD(3) [OF assms(5)] by (auto simp: inj_on_def)
  have roles: "h mod n < n" "Suc (h mod n) mod n < n" using n by simp_all
  have "h mod n \<noteq> Suc (h mod n) mod n" by (rule next_role [OF n roles(1)])
  then have "?vs ! (h mod n) \<noteq> ?vs ! (Suc (h mod n) mod n)" using roles vs(2,3) by (simp add: nth_eq_iff_index_eq)
  moreover have "with_full N F = N" using with_full_self assms(2,3) by simp
  ultimately show ?thesis using run vs role [OF roles(1)] role [OF roles(2)] assms(2)
    by (intro exI [of _ "with_full N (\<lambda>i. rostered ?vs h (S i) 0 (F i))"] exI [of _ ?vs]) simp
qed

end
