(* ===== verification/NetRounds.thy ===== *)
theory NetRounds
  imports Gossip
begin

text \<open>
  From the committee to the database of every node: the second cycle of ticks, the proposal, the votes, the
  finality and the released goroutines, as one run of the network.
\<close>

subsection \<open>The second cycle\<close>

text \<open>A committee that knows the keys of the nodes \<open>F\<close> is not changed by their gossip.\<close>

lemma keys_add_known: "bytes_of pk \<in> set V \<Longrightarrow> keys_add pk V = V"
  by (auto simp: keys_add_def bytes_Equal_def list_ex_iff)

lemma fold_keys_known: "\<forall>i\<in>set is. bytes_of (K i) \<in> set V \<Longrightarrow> fold (\<lambda>i. keys_add (K i)) is V = V"
  by (induction "is") (simp_all add: keys_add_known)

definition all_ready :: "(nat \<Rightarrow> NodeInfo) \<Rightarrow> nat \<Rightarrow> nat \<Rightarrow> (string \<times> bool) list \<Rightarrow> (string \<times> bool) list" where
  "all_ready A n j S = fold (\<lambda>i. AList.update (Ip4 (A i)) True) [i\<leftarrow>[0..<n]. i \<noteq> j] S"

lemma told_rostered:
  assumes "\<forall>i<n. node_key (F i) \<in> set vs" "\<forall>i<n. info (cs_p2p (fn_cons (F i))) = A i" "j < n"
  shows "told n (\<lambda>i. rostered vs h (S i) t (F i)) j = rostered vs h (all_ready A n j (S j)) (t + 1) (F j)"
proof -
  have "fold (\<lambda>i. keys_add (Wallet_PublicKey (nodeWallet (fn_cons (F i))))) [i\<leftarrow>[0..<n]. i \<noteq> j] vs = vs"
    using assms(1) by (intro fold_keys_known) (auto simp: node_key_def)
  moreover have "fold (\<lambda>i. AList.update (Ip4 (info (cs_p2p (fn_cons (F i))))) True) [i\<leftarrow>[0..<n]. i \<noteq> j] (S j) = all_ready A n j (S j)"
    unfolding all_ready_def using assms(2) by (intro fold_cong) auto
  ultimately show ?thesis using assms(3) by (simp add: told_def Let_def rostered_def cs_ready_def)
qed

lemma all_ready:
  assumes "known_status A n j S"
  shows "list_all snd (all_ready A n j S)" "known_status A n j (all_ready A n j S)"
proof -
  let ?is = "[i\<leftarrow>[0..<n]. i \<noteq> j]"
  have others: "set ?is = {..<n} - {j}" by auto
  have d: "distinct (map fst (all_ready A n j S))"
    unfolding all_ready_def using assms by (intro distinct_fold_update) (simp add: known_status_def)
  moreover have "fst ` set (all_ready A n j S) \<subseteq> (\<lambda>i. Ip4 (A i)) ` set ?is \<union> fst ` set S"
    unfolding all_ready_def by (rule dom_fold_update)
  then have k: "fst ` set (all_ready A n j S) \<subseteq> (\<lambda>i. Ip4 (A i)) ` ({..<n} - {j})"
    using assms unfolding others known_status_def by blast
  ultimately show "known_status A n j (all_ready A n j S)" by (simp add: known_status_def)
  have "b" if "(x, b) \<in> set (all_ready A n j S)" for x b
  proof -
    have "map_of (all_ready A n j S) x = Some b" using d that by simp
    moreover have "x \<in> (\<lambda>i. Ip4 (A i)) ` set ?is" using k that unfolding others by force
    ultimately show b by (simp add: all_ready_def map_of_fold_update)
  qed
  then show "list_all snd (all_ready A n j S)" by (force simp: list_all_iff)
qed

subsection \<open>Block processing starts\<close>

definition startMsg :: "'z lib_scheme \<Rightarrow> ConsensusService \<Rightarrow> StartBlockProcessingMsg" where
  "startMsg E cs = \<lparr>sb_From = info (cs_p2p cs), sb_FromPublicKey = Wallet_PublicKey (nodeWallet cs),
     sb_Signature = Some (case Wallet_SignRaw E (nodeWallet cs) (Some ConsensusMsgSigContent) of Ok sig \<Rightarrow> sig | _ \<Rightarrow> []),
     sb_NextBlockProducer = nextBlockProducer cs, sb_NextAggregator = nextAggregator cs\<rparr>"

definition start_data :: "'z lib_scheme \<Rightarrow> ConsensusService \<Rightarrow> bytes" where
  "start_data E cs = consensus_data StartBlockProcessingMsg_to_json StartBlockProcessingMessage (startMsg E cs)"

definition started :: "'z lib_scheme \<Rightarrow> 'd fullnode \<Rightarrow> 'd fullnode" where
  "started E s = s\<lparr>fn_cons := (fn_cons s)\<lparr>cs_p2p := Broadcast (start_data E (fn_cons s)) [] (cs_p2p (fn_cons s))\<rparr>\<rparr>"

lemma rostered_sel [simp]:
  "fn_node (rostered vs h S t s) = fn_node s" "jobs (rostered vs h S t s) = jobs s" "cs_p2p (fn_cons (rostered vs h S t s)) = cs_p2p (fn_cons s)"
  "nodeWallet (fn_cons (rostered vs h S t s)) = nodeWallet (fn_cons s)" "nextValidators (fn_cons (rostered vs h S t s)) = vs"
  "nextBlockProducer (fn_cons (rostered vs h S t s)) = Some (vs ! (h mod length vs))" "peersStatus (fn_cons (rostered vs h S t s)) = S"
  "nextAggregator (fn_cons (rostered vs h S t s)) = Some (vs ! (Suc (h mod length vs) mod length vs))"
  "waitingFianlity (fn_cons (rostered vs h S t s)) = waitingFianlity (fn_cons s)" "badPeers (fn_cons (rostered vs h S t s)) = badPeers (fn_cons s)"
  "numVoted (fn_cons (rostered vs h S t s)) = numVoted (fn_cons s)" "numVotedOk (fn_cons (rostered vs h S t s)) = numVotedOk (fn_cons s)"
  by (simp_all add: rostered_def)

lemma started_sel [simp]:
  "fn_node (started E s) = fn_node s" "jobs (started E s) = jobs s" "nodeWallet (fn_cons (started E s)) = nodeWallet (fn_cons s)"
  "nextBlockProducer (fn_cons (started E s)) = nextBlockProducer (fn_cons s)" "cs_tick (fn_cons (started E s)) = cs_tick (fn_cons s)"
  by (simp_all add: started_def)

lemma fn_cons_same [simp]: "s\<lparr>fn_cons := fn_cons s\<rparr> = s"
  by simp

text \<open>The tick on which a node with a decided committee and ready peers starts.\<close>

definition rooted :: "('d, 'z) cenv_scheme \<Rightarrow> bytes list \<Rightarrow> nat \<Rightarrow> 'd fullnode \<Rightarrow> bool" where
  "rooted E vs h s \<longleftrightarrow> sorts (SortKeys E) \<and> SortKeys E (lessKey E) vs = vs \<and> vs \<noteq> [] \<and> length vs < 2 ^ 64 \<and> node_key s \<in> set vs
     \<and> h = unat (Blockchain_NextHeight (blockchain (fn_node s))) \<and> keypair_ok E (wa_keyPair (nodeWallet (fn_cons s)))
     \<and> peers (cs_p2p (fn_cons s)) \<noteq> [] \<and> \<not> waitingFianlity (fn_cons s) \<and> \<not> isSyncing (n_sync (fn_node s))"

lemma decide_loudly:
  assumes "rooted E vs h s" "list_all snd S"
  shows "loop_tick E now (rostered vs h S 2 s) =
     (if 0 < MemoryService_LenTx (w_mem (n_world (fn_node s))) \<and> vs ! (h mod length vs) = node_key s
      then st_bind (startRound E now) (\<lambda>_. next_tick) (started E (rostered vs h S 2 s))
      else (Ok (), started E (rostered vs h S 3 s)))"
proof -
  let ?s = "rostered vs h S 2 s"
  note r = assms(1) [unfolded rooted_def]
  obtain sig where sig: "Wallet_SignRaw E (nodeWallet (fn_cons s)) (Some ConsensusMsgSigContent) = Ok sig"
    using r signs [of E "nodeWallet (fn_cons s)"] by blast
  have own: "on_cons (st_upd (\<lambda>cs. addToNextValidators (Wallet_PublicKey (nodeWallet cs)) cs)) ?s = (Ok (), ?s)"
    using r by (simp add: addToNextValidators_def keys_add_known node_key_def)
  have "decideCommittee E (Blockchain_NextHeight (blockchain (fn_node s))) (fn_cons ?s) = (Ok (), fn_cons ?s)"
    using decideCommittee_eval [of E "fn_cons ?s" "Blockchain_NextHeight (blockchain (fn_node s))"] r by (simp add: Let_def)
  then have d: "on_cons (decideCommittee E (Blockchain_NextHeight (blockchain (fn_node s)))) ?s = (Ok (), ?s)" by simp
  have ready: "cs_ready (fn_cons ?s) \<and> allPeerReady (fn_cons ?s)" using assms(2) by (simp add: cs_ready_def allPeerReady_def)
  have b: "on_cons (broadcastStartBlockProcessing E) ?s = (Ok (), started E ?s)"
    using sig by (simp add: broadcastStartBlockProcessing_def started_def start_data_def startMsg_def)
  have t: "decide_tick E now ?s = (if MemoryService_LenTx (w_mem (n_world (fn_node s))) > 0 \<and> vs ! (h mod length vs) = node_key s
      then startRound E now (started E ?s) else (Ok (), started E ?s))"
    unfolding decide_tick_def using own d ready b by (simp add: bytes_Equal_def node_key_def)
  have three: "next_tick (started E ?s) = (Ok (), started E (rostered vs h S 3 s))"
    by (simp add: next_tick_def) (simp add: started_def rostered_def start_data_def startMsg_def)
  have "loop_tick E now ?s = st_bind (decide_tick E now) (\<lambda>_. next_tick) ?s"
    using r by (simp add: loop_tick_def Let_def LenPeers_def)
  also have "\<dots> = (if 0 < MemoryService_LenTx (w_mem (n_world (fn_node s))) \<and> vs ! (h mod length vs) = node_key s
      then st_bind (startRound E now) (\<lambda>_. next_tick) (started E ?s) else (Ok (), started E (rostered vs h S 3 s)))"
    using three by (simp only: st_bind_def t) simp
  finally show ?thesis .
qed

lemma start_heard:
  assumes "address_ok (info (cs_p2p cs))" "keypair_ok E (wa_keyPair (nodeWallet cs))" "ed_Verify E = ed_Verify E'"
    "slice_len (nextBlockProducer cs) = PublicKeySize" "slice_len (nextAggregator cs) = PublicKeySize"
    "nextBlockProducer (fn_cons s) = nextBlockProducer cs" "nextAggregator (fn_cons s) = nextAggregator cs"
  shows "cons_inbound E' (start_data E cs) s = (Ok (), s)"
proof -
  let ?m = "startMsg E cs"
  obtain sig where sig: "Wallet_SignRaw E (nodeWallet cs) (Some ConsensusMsgSigContent) = Ok sig" "length sig = 64"
    by (rule signs [OF assms(2)])
  have len: "slice_len (Wallet_PublicKey (nodeWallet cs)) = 32" "slice_len (nextBlockProducer cs) = 32" "slice_len (nextAggregator cs) = 32"
    using assms(2,4,5) by (simp_all add: keypair_ok_def Wallet_PublicKey_def PublicKeySize_def)
  have m: "StartBlockProcessingMsg_Unmarshal (Marshal StartBlockProcessingMsg_to_json ?m) = Ok ?m"
    using address_good [OF assms(1)] by (intro consensus_roundtrip(2)) (simp add: startMsg_def)
  have v: "StartBlockProcessingMsg_Verify E' ?m = Ok True"
    using sender_verified [OF assms(1-3)] assms(4,5) slice_len_Some [of "nextBlockProducer cs"] slice_len_Some [of "nextAggregator cs"]
    by (simp add: StartBlockProcessingMsg_Verify_def startMsg_def PublicKeySize_def)
  have "length (start_data E cs) \<le> MaxPayloadSize"
    using sig size_64 [of "Some sig"] size_32 [OF len(1)] size_32 [OF len(2)] size_32 [OF len(3)] length_NodeInfo [OF assms(1)]
    by (simp add: start_data_def consensus_data_def PackPayload_def Marshal_def StartBlockProcessingMsg_to_json_def startMsg_def plain_def MaxPayloadSize_def)
  then have "cons_inbound E' (start_data E cs) s = on_cons (handleStartBlockProcessing E' (Marshal StartBlockProcessingMsg_to_json ?m)) s"
    by (simp add: start_data_def consensus_delivered consensus_handled)
  moreover have "handleStartBlockProcessing E' (Marshal StartBlockProcessingMsg_to_json ?m) (fn_cons s) = (Ok (), fn_cons s)"
    using m v assms(6,7) by (simp add: handleStartBlockProcessing_def st_bind_Ok) (simp add: startMsg_def)
  ultimately show ?thesis by simp
qed

text \<open>The nodes \<open>F\<close> with the committee \<open>vs\<close> before the tick that starts the processing; \<open>K\<close> have started.\<close>

definition starting :: "bytes list \<Rightarrow> nat \<Rightarrow> (nat \<Rightarrow> (string \<times> bool) list) \<Rightarrow> nat set \<Rightarrow> (nat \<Rightarrow> 'd fullnode) \<Rightarrow> nat \<Rightarrow> 'd fullnode" where
  "starting vs h S K F i = rostered vs h (S i) (if i \<in> K then 3 else 2) (F i)"

text \<open>What the network relies on while it processes blocks.\<close>

definition processing :: "(nat \<Rightarrow> ('d, 'z) cenv_scheme) \<Rightarrow> (nat \<Rightarrow> NodeInfo) \<Rightarrow> nat \<Rightarrow> bytes list \<Rightarrow> nat \<Rightarrow> (nat \<Rightarrow> 'd fullnode) \<Rightarrow> bool" where
  "processing Es A n vs h F \<longleftrightarrow> talking Es A n F \<and> (\<forall>v\<in>set vs. length v = PublicKeySize) \<and> (\<forall>i<n. rooted (Es i) vs h (F i))"

lemma processingD:
  assumes "processing Es A n vs h F"
  shows "talking Es A n F" "v \<in> set vs \<Longrightarrow> length v = PublicKeySize" "i < n \<Longrightarrow> rooted (Es i) vs h (F i)"
  using assms unfolding processing_def by blast+

lemma start_delivered:
  assumes "processing Es A n vs h F" "i < n" "j < n"
  shows "cons_inbound (Es j) (start_data (Es i) (fn_cons (rostered vs h S t (F i)))) (rostered vs h S' t' s)
     = (Ok (), rostered vs h S' t' s)"
proof -
  have "vs \<noteq> []" using processingD(3) [OF assms(1,2)] by (simp add: rooted_def)
  then have "length (vs ! (h mod length vs)) = PublicKeySize" "length (vs ! (Suc (h mod length vs) mod length vs)) = PublicKeySize"
    using processingD(2) [OF assms(1)] by simp_all
  moreover note t = talkingD [OF processingD(1) [OF assms(1)] assms(2)]
  ultimately show ?thesis using t(4,9) by (intro start_heard t(11) [OF assms(3)]) (simp_all add: t(5))
qed

lemma leads_start:
  assumes "up N A" "processing Es A (length N) vs h F" "\<forall>i<length N. list_all snd (S i)" "i < length N" "i \<notin> K" "vs ! (h mod length vs) \<noteq> node_key (F i)"
  shows "leads Es N (starting vs h S K F) (starting vs h S (insert i K) F)"
proof -
  let ?F = "starting vs h S K F" and ?s = "started (Es i) (rostered vs h (S i) 3 (F i))"
  let ?d = "start_data (Es i) (fn_cons (rostered vs h (S i) 3 (F i)))"
  note t = talkingD [OF processingD(1) [OF assms(2)]]
  have m: "meshed (length N) A i (?F i)" using t(3) [OF assms(4)] by (simp add: meshed_def starting_def)
  have tick: "loop_tick (Es i) 0 (?F i) = (Ok (), ?s)"
    using decide_loudly [OF processingD(3) [OF assms(2,4)], of "S i" 0] assms(3-6) by (simp add: starting_def)
  have "leads Es N ?F (\<lambda>j. if j = i then sending (sent (cs_p2p (fn_cons (F i))) @ []) ?s else ?F j)"
  proof (rule leads_tick_hear [where Es = Es and F = ?F and i = i and d = ?d, OF assms(1,4) m tick])
    show "\<forall>j<length N. j \<noteq> i \<longrightarrow> at_home A j (?F j) \<and> cons_inbound (Es j) ?d (?F j) = (Ok (), ?F j)"
      using t(2) start_delivered [OF assms(2,4)] by (simp add: at_home_def starting_def)
  qed (simp_all add: started_def Broadcast_all starting_def)
  moreover have "(\<lambda>j. if j = i then sending (sent (cs_p2p (fn_cons (F i))) @ []) ?s else ?F j) = starting vs h S (insert i K) F"
    by (auto simp: fun_eq_iff starting_def started_def sending_def Broadcast_all rostered_def)
  ultimately show ?thesis by simp
qed

lemma leads_starts:
  assumes "up N A" "processing Es A (length N) vs h F" "\<forall>i<length N. list_all snd (S i)"
    "\<forall>i<length N. i \<noteq> p \<longrightarrow> vs ! (h mod length vs) \<noteq> node_key (F i)"
  shows "leads Es N (starting vs h S {} F) (starting vs h S ({..<length N} - {p}) F)"
proof -
  have "leads Es N (starting vs h S {} F) (starting vs h S ({..<k} - {p}) F)" if "k \<le> length N" for k
    using that
  proof (induction k)
    case (Suc k)
    have eq: "{..<Suc k} - {p} = (if k = p then {..<k} - {p} else insert k ({..<k} - {p}))" by auto
    show ?case
    proof (cases "k = p")
      case False
      then have "leads Es N (starting vs h S ({..<k} - {p}) F) (starting vs h S (insert k ({..<k} - {p})) F)"
        using Suc.prems assms by (intro leads_start) simp_all
      from rtranclp_trans [OF Suc.IH [OF Suc_leD [OF Suc.prems]] this] show ?thesis unfolding eq using False by simp
    qed (use Suc eq in simp)
  qed simp
  then show ?thesis by simp
qed

subsection \<open>The proposal\<close>

lemma proposal_cong:
  "info (cs_p2p cs) = info (cs_p2p cs') \<Longrightarrow> nodeWallet cs = nodeWallet cs' \<Longrightarrow> proposal E blk cs = proposal E blk cs'"
  by (simp add: proposal_def proposalMsg_def)

lemma producer_tick:
  assumes "rooted E vs h s" "list_all snd S" "0 < MemoryService_LenTx (w_mem (n_world (fn_node s)))" "vs ! (h mod length vs) = node_key s"
    "BlockProducer_NewBlock E (faucet (fn_node s)) (blockchain (fn_node s)) (nodeWallet (fn_cons s)) now (n_world (fn_node s)) = (Ok (blk, ex), w1)"
  shows "loop_tick E now (rostered vs h S 2 s) = (Ok (), proposed E blk ex w1 (started E (rostered vs h S 3 s)))"
proof -
  have k: "keypair_ok E (wa_keyPair (nodeWallet (fn_cons s)))" using assms(1) by (simp add: rooted_def)
  let ?s = "started E (rostered vs h S 2 s)" and ?s' = "started E (rostered vs h S 3 s)"
  have "startRound E now ?s = (Ok (), proposed E blk ex w1 ?s)" using assms(5) k by (intro startRound_eval) simp_all
  moreover have "proposal E blk (fn_cons ?s) = proposal E blk (fn_cons ?s')" by (rule proposal_cong) (simp_all add: started_def)
  then have "next_tick (proposed E blk ex w1 ?s) = (Ok (), proposed E blk ex w1 ?s')"
    by (simp add: next_tick_def proposed_def startTimer_def) (simp add: started_def rostered_def start_data_def startMsg_def)
  ultimately show ?thesis using decide_loudly [OF assms(1,2), of now] assms(3,4) by simp
qed

text \<open>The network once the proposal is on its way.\<close>

definition proposing :: "'z lib_scheme \<Rightarrow> nat \<Rightarrow> Block \<Rightarrow> publicKeys \<Rightarrow> 'd world \<Rightarrow> (nat \<Rightarrow> 'd fullnode) \<Rightarrow> nat \<Rightarrow> 'd fullnode" where
  "proposing E p blk ex w1 R = R(p := proposed E blk ex w1 (R p))"

lemma leads_proposal:
  assumes "up N A" "processing Es A (length N) vs h F" "\<forall>i<length N. list_all snd (S i)" "p < length N"
    "0 < MemoryService_LenTx (w_mem (n_world (fn_node (F p))))" "vs ! (h mod length vs) = node_key (F p)"
    "BlockProducer_NewBlock (Es p) (faucet (fn_node (F p))) (blockchain (fn_node (F p))) (nodeWallet (fn_cons (F p))) now (n_world (fn_node (F p))) = (Ok (blk, ex), w1)"
  shows "leads Es N (starting vs h S ({..<length N} - {p}) F) (proposing (Es p) p blk ex w1 (\<lambda>i. rostered vs h (S i) 3 (F i)))"
proof -
  let ?R = "\<lambda>i. rostered vs h (S i) 3 (F i)" and ?F = "starting vs h S ({..<length N} - {p}) F"
  let ?s = "proposed (Es p) blk ex w1 (started (Es p) (?R p))" and ?d = "start_data (Es p) (fn_cons (?R p))"
  let ?out = "map (\<lambda>q. (q, proposal (Es p) blk (fn_cons (F p)))) (peers (cs_p2p (fn_cons (F p))))"
  note t = talkingD [OF processingD(1) [OF assms(2)]]
  have payload: "proposal (Es p) blk (fn_cons (started (Es p) (?R p))) = proposal (Es p) blk (fn_cons (F p))"
    "proposal (Es p) blk (fn_cons (?R p)) = proposal (Es p) blk (fn_cons (F p))" by (rule proposal_cong; simp add: started_def)+
  have m: "meshed (length N) A p (?F p)" using t(3) [OF assms(4)] by (simp add: meshed_def starting_def)
  have tick: "loop_tick (Es p) now (?F p) = (Ok (), ?s)"
    using producer_tick [OF processingD(3) [OF assms(2,4)] _ assms(5-7)] assms(3,4) by (simp add: starting_def)
  have "leads Es N ?F (\<lambda>j. if j = p then sending (sent (cs_p2p (fn_cons (F p))) @ ?out) ?s else ?F j)"
  proof (rule leads_tick_hear [where Es = Es and F = ?F and i = p and d = ?d, OF assms(1,4) m tick])
    show "\<forall>j<length N. j \<noteq> p \<longrightarrow> at_home A j (?F j) \<and> cons_inbound (Es j) ?d (?F j) = (Ok (), ?F j)"
      using t(2) start_delivered [OF assms(2,4)] by (simp add: at_home_def starting_def)
  qed (simp_all add: proposed_def payload, simp_all add: started_def Broadcast_all starting_def)
  moreover have "with_full N (\<lambda>j. if j = p then sending (sent (cs_p2p (fn_cons (F p))) @ ?out) ?s else ?F j) = with_full N (proposing (Es p) p blk ex w1 ?R)"
  proof (rule with_full_cong)
    fix j assume "j < length N"
    then show "(if j = p then sending (sent (cs_p2p (fn_cons (F p))) @ ?out) ?s else ?F j) = proposing (Es p) p blk ex w1 ?R j"
      by (auto simp: proposing_def proposed_def payload starting_def sending_def startTimer_def Broadcast_all) (simp add: started_def Broadcast_all)
  qed
  ultimately show ?thesis by simp
qed

subsection \<open>Votes\<close>

text \<open>A validator that is convinced and has sent its vote.\<close>

definition voted :: "('d, 'z) senv_scheme \<Rightarrow> Block \<Rightarrow> publicKeys \<Rightarrow> 'd world \<Rightarrow> 'd fullnode \<Rightarrow> 'd fullnode" where
  "voted E blk ex w s = (let c = convinced blk ex w s in
     c\<lparr>fn_cons := (startTimer (fn_cons c))\<lparr>cs_p2p := Broadcast (vote_data (voteMsg E True c)) [] (cs_p2p (fn_cons c))\<rparr>\<rparr>)"

lemma convinced_sel [simp]:
  "cs_p2p (fn_cons (convinced blk ex w s)) = cs_p2p (fn_cons s)" "nodeWallet (fn_cons (convinced blk ex w s)) = nodeWallet (fn_cons s)"
  "nextAggregator (fn_cons (convinced blk ex w s)) = nextAggregator (fn_cons s)" "nextValidators (fn_cons (convinced blk ex w s)) = nextValidators (fn_cons s)"
  "fn_node (convinced blk ex w s) = (fn_node s)\<lparr>n_world := w\<rparr>" "jobs (convinced blk ex w s) = jobs s"
  "numVoted (fn_cons (convinced blk ex w s)) = numVoted (fn_cons s)" "numVotedOk (fn_cons (convinced blk ex w s)) = numVotedOk (fn_cons s)"
  "released ok (fn_cons (convinced blk ex w s)) = [AccountJob ex ok, BlockJob blk ok]"
  by (simp_all add: convinced_def released_def)

lemma voteMsg_cong:
  "cs_p2p (fn_cons s) = cs_p2p (fn_cons s') \<Longrightarrow> nodeWallet (fn_cons s) = nodeWallet (fn_cons s') \<Longrightarrow> blockchain (fn_node s) = blockchain (fn_node s')
     \<Longrightarrow> voteMsg E ok s = voteMsg E ok s'"
  by (simp add: voteMsg_def)

lemma vote_passes:
  assumes "address_ok (info (cs_p2p (fn_cons s)))" "keypair_ok E (wa_keyPair (nodeWallet (fn_cons s)))" "ed_Verify E = ed_Verify E'"
    "node_key s \<in> set (nextValidators cs)"
  shows "vote_valid E' cs (voteMsg E ok s)"
proof -
  obtain sig where sig: "Wallet_SignRaw E (nodeWallet (fn_cons s)) (Some ConsensusMsgSigContent) = Ok sig" "length sig = 64"
    by (rule signs [OF assms(2)])
  have len: "slice_len (Wallet_PublicKey (nodeWallet (fn_cons s))) = 32" using assms(2) by (simp add: keypair_ok_def Wallet_PublicKey_def)
  have "length (vote_data (voteMsg E ok s)) \<le> MaxPayloadSize"
    using sig size_64 [of "Some sig"] size_32 [OF len] length_NodeInfo [OF assms(1)] length_enc_uint(2) [of "Blockchain_NextHeight (blockchain (fn_node s))"]
    by (simp add: vote_data_def consensus_data_def PackPayload_def Marshal_def VoteMsg_to_json_def voteMsg_def plain_def MaxPayloadSize_def split: bool.split)
  then show ?thesis using sender_verified [OF assms(1-3)] address_good [OF assms(1)] assms(4)
    by (simp add: vote_valid_def VoteMsg_Verify_def) (simp add: voteMsg_def node_key_def)
qed

text \<open>Only the aggregator counts votes.\<close>

lemma vote_ignored:
  assumes "length (vote_data m) \<le> MaxPayloadSize" "bytes_of (nextAggregator (fn_cons s)) \<noteq> node_key s"
  shows "cons_inbound E (vote_data m) s = (Ok (), s)"
  using assms by (simp add: vote_data_def consensus_delivered consensus_handled handleVote_def bytes_Equal_def node_key_def)

lemma finalize_frame: "fn_node (snd (finalize ok s)) = fn_node s \<and> cs_p2p (fn_cons (snd (finalize ok s))) = cs_p2p (fn_cons s)"
  by (simp add: finalize_eval)

lemma broadcastFinality_frame:
  "fn_node (snd (broadcastFinality E ok s)) = fn_node s \<and> info (cs_p2p (fn_cons (snd (broadcastFinality E ok s)))) = info (cs_p2p (fn_cons s))"
  by (cases "Wallet_SignRaw E (nodeWallet (fn_cons s)) (Some ConsensusMsgSigContent)")
    (simp_all add: broadcastFinality_def Let_def finalize_frame)

lemma aggregate_frame:
  "fn_node (snd (aggregate E ok s)) = fn_node s \<and> info (cs_p2p (fn_cons (snd (aggregate E ok s)))) = info (cs_p2p (fn_cons s))"
  by (simp add: aggregate_def Let_def broadcastFinality_frame)

lemma vote_frame:
  assumes "length (vote_data m) \<le> MaxPayloadSize" "cons_inbound E (vote_data m) s = (r, s')" "at_home A i s"
  shows "at_home A i s'"
proof -
  have "fn_node (snd (handleVote E raw s)) = fn_node s \<and> info (cs_p2p (fn_cons (snd (handleVote E raw s)))) = info (cs_p2p (fn_cons s))" for raw
    by (simp add: handleVote_def st_bind_def aggregate_frame split: go.split)
  from this [of "Marshal VoteMsg_to_json m"] show ?thesis
    using assms by (simp add: vote_data_def consensus_delivered consensus_handled at_home_def)
qed

lemma leads_votes:
  assumes "up N A" "a < length N" "distinct js" "set js \<subseteq> {..<length N} - {a}"
    "\<forall>k<length N. at_home A k (Q k)" "\<forall>j\<in>set js. meshed (length N) A j (Q j) \<and> length (vote_data (m j)) \<le> MaxPayloadSize
       \<and> sent (cs_p2p (fn_cons (Q j))) = out j @ map (\<lambda>q. (q, vote_data (m j))) (peers (cs_p2p (fn_cons (Q j))))"
    "\<forall>k<length N. k \<noteq> a \<longrightarrow> bytes_of (nextAggregator (fn_cons (Q k))) \<noteq> node_key (Q k)"
    "inbound_all (Es a) (map (\<lambda>j. vote_data (m j)) js) (Q a) = (Ok (), z)"
  shows "leads Es N Q (\<lambda>k. if k = a then z else if k \<in> set js then sending (out k) (Q k) else Q k)"
  using assms(3-8)
proof (induction js arbitrary: Q)
  case Nil
  then have "(\<lambda>k. if k = a then z else if k \<in> set [] then sending (out k) (Q k) else Q k) = Q" by auto
  then show ?case by simp
next
  case (Cons j js)
  obtain z1 where z1: "cons_inbound (Es a) (vote_data (m j)) (Q a) = (Ok (), z1)" "inbound_all (Es a) (map (\<lambda>j. vote_data (m j)) js) z1 = (Ok (), z)"
    using Cons.prems(6) by (auto simp: st_bind_Ok)
  have j: "j < length N" "j \<noteq> a" "j \<notin> set js" "meshed (length N) A j (Q j)" "length (vote_data (m j)) \<le> MaxPayloadSize"
    "sent (cs_p2p (fn_cons (Q j))) = out j @ map (\<lambda>q. (q, vote_data (m j))) (peers (cs_p2p (fn_cons (Q j)))) @ []"
    using Cons.prems(1,2,4) by auto
  let ?Q = "\<lambda>k. if k = j then sending (out j @ []) (Q j) else if k = a then z1 else Q k"
  have one: "leads Es N Q ?Q"
    by (rule leads_hear [where F = Q and i = j and d = "vote_data (m j)", OF assms(1) j(1,4,6)])
      (use Cons.prems(3,5) z1(1) j(5) in \<open>auto intro: vote_ignored\<close>)
  have "at_home A a z1" using vote_frame [OF j(5) z1(1)] Cons.prems(3) assms(2) by blast
  then have "leads Es N ?Q (\<lambda>k. if k = a then z else if k \<in> set js then sending (out k) (?Q k) else ?Q k)"
    using Cons.prems j z1(2)
    by (intro Cons.IH) (auto simp: at_home_def sending_def node_key_def)
  moreover have "(\<lambda>k. if k = a then z else if k \<in> set js then sending (out k) (?Q k) else ?Q k)
      = (\<lambda>k. if k = a then z else if k \<in> set (j # js) then sending (out k) (Q k) else Q k)"
    using j Cons.prems(2) by (auto simp: fun_eq_iff)
  ultimately show ?case using one by (metis (no_types, lifting) rtranclp_trans)
qed

subsection \<open>Released goroutines\<close>

lemma leads_jobs:
  assumes "up N A" "i < length N" "run_jobs (Es i) now js (fn_node (F i)) = (Ok (), n')" "jobs (F i) = js"
  shows "leads Es N F (F(i := (F i)\<lparr>fn_node := n', jobs := []\<rparr>))"
  using assms(3,4)
proof (induction js arbitrary: F)
  case Nil
  then have "F(i := (F i)\<lparr>fn_node := n', jobs := []\<rparr>) = F" by (auto simp: fun_eq_iff)
  then show ?case by simp
next
  case (Cons j js)
  then obtain n1 where n1: "run_job (Es i) now j (fn_node (F i)) = (Ok (), n1)" "run_jobs (Es i) now js n1 = (Ok (), n')"
    by (auto simp: st_bind_Ok)
  let ?s = "(F i)\<lparr>fn_node := n1, jobs := js\<rparr>" and ?p = "with_full N F ! i"
  have "proc_step (Es i) ?p (run_go (job_channel j) (on_node (run_job (Es i) now j)) (?p\<lparr>pr_full := (pr_full ?p)\<lparr>jobs := [] @ js\<rparr>\<rparr>))"
    by (rule proc_step.job) (use Cons.prems(2) assms(2) in simp)
  moreover have "run_go (job_channel j) (on_node (run_job (Es i) now j)) (?p\<lparr>pr_full := (pr_full ?p)\<lparr>jobs := [] @ js\<rparr>\<rparr>) = (N ! i)\<lparr>pr_full := ?s\<rparr>"
    using n1(1) assms(2) by (simp add: run_go_Ok)
  ultimately have "net_step Es (with_full N F) ((with_full N F)[i := (N ! i)\<lparr>pr_full := ?s\<rparr>])"
    using assms(1,2) by (intro net_step.acts) (simp_all add: up_def)
  then have one: "leads Es N F (F(i := ?s))" using assms(2) by (simp add: with_full_update)
  have "leads Es N (F(i := ?s)) ((F(i := ?s))(i := ((F(i := ?s)) i)\<lparr>fn_node := n', jobs := []\<rparr>))"
    by (rule Cons.IH) (use n1(2) in simp_all)
  moreover have "(F(i := ?s))(i := ((F(i := ?s)) i)\<lparr>fn_node := n', jobs := []\<rparr>) = F(i := (F i)\<lparr>fn_node := n', jobs := []\<rparr>)"
    by (simp add: fun_eq_iff)
  ultimately show ?case using one by (metis rtranclp_trans)
qed

lemma leads_all_jobs:
  assumes "up N A" "\<forall>i<length N. run_jobs (Es i) now (jobs (F i)) (fn_node (F i)) = (Ok (), G i)"
  shows "leads Es N F (\<lambda>i. (F i)\<lparr>fn_node := G i, jobs := []\<rparr>)"
proof -
  have "leads Es N F (\<lambda>i. if i < k then (F i)\<lparr>fn_node := G i, jobs := []\<rparr> else F i)" if "k \<le> length N" for k
    using that
  proof (induction k)
    case (Suc k)
    let ?F = "\<lambda>i. if i < k then (F i)\<lparr>fn_node := G i, jobs := []\<rparr> else F i"
    have "leads Es N ?F (?F(k := (?F k)\<lparr>fn_node := G k, jobs := []\<rparr>))"
      by (rule leads_jobs [where F = ?F and i = k and now = now, OF assms(1)]) (use Suc.prems assms(2) in simp_all)
    moreover have "?F(k := (?F k)\<lparr>fn_node := G k, jobs := []\<rparr>) = (\<lambda>i. if i < Suc k then (F i)\<lparr>fn_node := G i, jobs := []\<rparr> else F i)"
      by (auto simp: fun_eq_iff less_Suc_eq)
    ultimately show ?case using Suc by (metis (no_types, lifting) Suc_leD rtranclp_trans)
  qed simp
  from this [of "length N"] with_full_cong [of N "\<lambda>i. if i < length N then (F i)\<lparr>fn_node := G i, jobs := []\<rparr> else F i" "\<lambda>i. (F i)\<lparr>fn_node := G i, jobs := []\<rparr>"]
  show ?thesis by simp
qed

subsection \<open>The round\<close>

text \<open>
  The node \<open>p\<close> makes the block \<open>blk\<close>, which fits into a payload; the others have the same accounts and the
  same place in the chain.
\<close>

definition joint_proposal ::
  "(nat \<Rightarrow> ('d, 'z) cenv_scheme) \<Rightarrow> nat \<Rightarrow> (nat \<Rightarrow> 'd fullnode) \<Rightarrow> nat \<Rightarrow> int64 \<Rightarrow> Block \<Rightarrow> publicKeys \<Rightarrow> 'd world \<Rightarrow> bool" where
  "joint_proposal Es n F p t blk ex w1 \<longleftrightarrow> honest_proposal (Es p) (F p) t blk ex w1 \<and> length (proposal (Es p) blk (fn_cons (F p))) \<le> MaxPayloadSize
     \<and> (\<forall>j<n. j \<noteq> p \<longrightarrow> env_ok (Es j) \<and> same_lib (Es p) (Es j) \<and> Block_Verify (Es j) blk = Ok True
          \<and> mirrors (Es p) (Es j) (faucet (fn_node (F p))) (n_world (fn_node (F p))) (blockchain (fn_node (F p))) (fn_node (F j)))"

text \<open>All that a round relies on: the producer \<open>p\<close> and the aggregator \<open>a\<close> of the committee \<open>vs\<close>.\<close>

definition session ::
  "(nat \<Rightarrow> ('d, 'z) cenv_scheme) \<Rightarrow> (nat \<Rightarrow> NodeInfo) \<Rightarrow> 'd network \<Rightarrow> bytes list \<Rightarrow> nat \<Rightarrow> (nat \<Rightarrow> 'd fullnode) \<Rightarrow> nat \<Rightarrow> nat
     \<Rightarrow> int64 \<Rightarrow> Block \<Rightarrow> publicKeys \<Rightarrow> 'd world \<Rightarrow> bool" where
  "session Es A N vs h F p a t blk ex w1 \<longleftrightarrow> up N A \<and> processing Es A (length N) vs h F \<and> length vs = length N \<and> length N \<le> 2 ^ 62
     \<and> p < length N \<and> a < length N \<and> p \<noteq> a \<and> vs ! (h mod length N) = node_key (F p) \<and> vs ! (Suc (h mod length N) mod length N) = node_key (F a)
     \<and> inj_on (\<lambda>i. node_key (F i)) {..<length N} \<and> joint_proposal Es (length N) F p t blk ex w1
     \<and> (\<forall>i<length N. jobs (F i) = [] \<and> numVoted (fn_cons (F i)) = 0 \<and> numVotedOk (fn_cons (F i)) = 0)"

lemma sessionD:
  assumes "session Es A N vs h F p a t blk ex w1"
  shows "up N A" "processing Es A (length N) vs h F" "length vs = length N" "length N \<le> 2 ^ 62" "p < length N" "a < length N" "p \<noteq> a"
    "vs ! (h mod length N) = node_key (F p)" "vs ! (Suc (h mod length N) mod length N) = node_key (F a)" "inj_on (\<lambda>i. node_key (F i)) {..<length N}"
    "joint_proposal Es (length N) F p t blk ex w1" "i < length N \<Longrightarrow> jobs (F i) = []"
    "i < length N \<Longrightarrow> numVoted (fn_cons (F i)) = 0 \<and> numVotedOk (fn_cons (F i)) = 0" "talking Es A (length N) F"
  using assms unfolding session_def processing_def by blast+

lemma wallet_key: "keypair_ok E (wa_keyPair (nodeWallet (fn_cons s))) \<Longrightarrow> Wallet_PublicKey (nodeWallet (fn_cons s)) = Some (node_key s)"
  by (cases "Wallet_PublicKey (nodeWallet (fn_cons s))") (simp_all add: node_key_def keypair_ok_def Wallet_PublicKey_def)

lemma session_keys:
  assumes "session Es A N vs h F p a t blk ex w1" "i < length N"
  shows "keypair_ok (Es i) (wa_keyPair (nodeWallet (fn_cons (F i))))" "Wallet_PublicKey (nodeWallet (fn_cons (F i))) = Some (node_key (F i))"
    "address_ok (info (cs_p2p (fn_cons (F i))))" "node_key (F i) \<in> set vs" "j < length N \<Longrightarrow> node_key (F i) = node_key (F j) \<Longrightarrow> i = j"
proof -
  note t = talkingD [OF sessionD(14) [OF assms(1)] assms(2)]
  show "keypair_ok (Es i) (wa_keyPair (nodeWallet (fn_cons (F i))))" by (rule t(5))
  then show "Wallet_PublicKey (nodeWallet (fn_cons (F i))) = Some (node_key (F i))" by (rule wallet_key)
  show "address_ok (info (cs_p2p (fn_cons (F i))))" using t(4,9) by simp
  show "node_key (F i) \<in> set vs" using processingD(3) [OF sessionD(2) [OF assms(1)] assms(2)] by (simp add: rooted_def)
  show "j < length N \<Longrightarrow> node_key (F i) = node_key (F j) \<Longrightarrow> i = j" using sessionD(10) [OF assms(1)] assms(2) by (auto simp: inj_on_def)
qed

abbreviation rostered_nodes :: "bytes list \<Rightarrow> nat \<Rightarrow> (nat \<Rightarrow> (string \<times> bool) list) \<Rightarrow> (nat \<Rightarrow> 'd fullnode) \<Rightarrow> nat \<Rightarrow> 'd fullnode" where
  "rostered_nodes vs h S F i \<equiv> rostered vs h (S i) 3 (F i)"

text \<open>Every other node executes the proposal to the same accounts.\<close>

definition has_run :: "('d, 'z) senv_scheme \<Rightarrow> bytes list \<Rightarrow> Block \<Rightarrow> ledger \<Rightarrow> 'd node \<Rightarrow> 'd world \<Rightarrow> bool" where
  "has_run E ks blk L n w \<longleftrightarrow> executed E ks blk (n\<lparr>n_world := w\<rparr>) \<and> led w = L \<and> w_db w = w_db (n_world n)"

lemma session_executed:
  assumes "session Es A N vs h F p a t blk ex w1"
  obtains ks W where "ex = map Some ks" "W p = w1"
    "\<forall>j<length N. has_run (Es j) ks blk (led w1) (fn_node (F j)) (W j)"
    "\<forall>j<length N. j \<noteq> p \<longrightarrow> cons_inbound (Es j) (proposal (Es p) blk (fn_cons (F p))) (rostered_nodes vs h S F j)
       = cs_vote (Es j) True (convinced blk ex (W j) (rostered_nodes vs h S F j))"
proof -
  note d = sessionD [OF assms] and k = session_keys [OF assms]
  note j = d(11) [unfolded joint_proposal_def]
  let ?R = "rostered_nodes vs h S F" and ?ks = "map the ex"
  have hon: "honest_proposal (Es p) (?R p) t blk ex w1" using j by (simp add: honest_proposal_def Let_def)
  have payload: "proposal (Es p) blk (fn_cons (?R p)) = proposal (Es p) blk (fn_cons (F p))" by (rule proposal_cong) simp_all
  let ?\<Phi> = "\<lambda>j w. has_run (Es j) ?ks blk (led w1) (fn_node (F j)) w \<and> cons_inbound (Es j) (proposal (Es p) blk (fn_cons (F p))) (?R j) = cs_vote (Es j) True (convinced blk ex w (?R j))"
  have x: "ex = map Some ?ks \<and> has_run (Es p) ?ks blk (led w1) (fn_node (F p)) w1 \<and> (\<exists>w. ?\<Phi> i w)" if i: "i < length N" "i \<noteq> p" for i
  proof -
    have same: "env_ok (Es i)" "same_lib (Es p) (Es i)" "Block_Verify (Es i) blk = Ok True"
        "mirrors (Es p) (Es i) (faucet (fn_node (F p))) (n_world (fn_node (F p))) (blockchain (fn_node (F p))) (fn_node (F i))"
        "length (proposal (Es p) blk (fn_cons (F p))) \<le> MaxPayloadSize"
      using j i by blast+
    have r: "in_round (Es p) (Es i) (?R p) blk (?R i)"
      unfolding in_round_def payload rostered_sel d(3) d(8) k(2) [OF d(5)]
      by (intro conjI same talkingD(11) [OF d(14) d(5) i(1)] k(1,3) [OF i(1)] refl)
    obtain ks w2 where x: "ex = map Some ks" "executed (Es p) ks blk ((fn_node (F p))\<lparr>n_world := w1\<rparr>)" "w_db w1 = w_db (n_world (fn_node (F p)))"
        "cons_inbound (Es i) (proposal (Es p) blk (fn_cons (F p))) (?R i) = cs_vote (Es i) True (convinced blk ex w2 (?R i))"
        "executed (Es i) ks blk ((fn_node (F i))\<lparr>n_world := w2\<rparr>)" "led w2 = led w1" "w_db w2 = w_db (n_world (fn_node (F i)))"
      by (rule proposal_executed [OF hon r, unfolded payload rostered_sel])
    have ks: "?ks = ks" by (simp add: x(1) map_idI)
    show ?thesis unfolding has_run_def ks using x by blast
  qed
  from this [OF d(6)] d(7) have p: "ex = map Some ?ks" "has_run (Es p) ?ks blk (led w1) (fn_node (F p)) w1" by auto
  let ?W = "\<lambda>i. if i = p then w1 else (SOME w. ?\<Phi> i w)"
  have W: "?\<Phi> i (?W i)" if "i < length N" "i \<noteq> p" for i using someI_ex [of "?\<Phi> i"] x [OF that] that(2) by simp
  show thesis by (rule that [of ?ks ?W]) (use p W in auto)
qed

text \<open>The aggregator decides when the votes of the others have come in.\<close>

lemma session_decided:
  assumes "session Es A N vs h F p a t blk ex w1" "2 \<le> length N" "Suc (Suc (length ms)) = length N" "\<forall>m\<in>set ms. vote_valid (Es a) (fn_cons c) m \<and> vo_Ok m"
    "c = convinced blk ex w (rostered_nodes vs h S F a)"
  obtains a1 s' where "cs_vote (Es a) True c = (Ok (), a1)" "inbound_all (Es a) (map vote_data ms) a1 = (Ok (), announced (Es a) True s')"
    "jobs s' = []" "fn_node s' = (fn_node (F a))\<lparr>n_world := w\<rparr>" "released True (fn_cons s') = block_jobs ex blk"
    "finality (Es a) True s' = finality (Es a) True c" "kept (fn_cons c) (fn_cons s')" "at_home A a a1"
proof -
  note d = sessionD [OF assms(1)] and k = session_keys [OF assms(1) d(6)]
  have sel: "nodeWallet (fn_cons c) = nodeWallet (fn_cons (F a))" "nextAggregator (fn_cons c) = Some (node_key (F a))" "nextValidators (fn_cons c) = vs"
    "numVoted (fn_cons c) = 0" "numVotedOk (fn_cons c) = 0" "cs_p2p (fn_cons c) = cs_p2p (fn_cons (F a))" "fn_node c = (fn_node (F a))\<lparr>n_world := w\<rparr>"
    "jobs c = []" "released True (fn_cons c) = block_jobs ex blk"
    using d(3,9,12) d(13) [OF d(6)] d(6) by (simp_all add: assms(5) block_jobs_def)
  obtain s' where s': "st_bind (cs_vote (Es a) True) (\<lambda>_. inbound_all (Es a) (map vote_data ms)) c = (Ok (), announced (Es a) True s')"
      "jobs s' = jobs c" "fn_node s' = fn_node c" "released True (fn_cons s') = released True (fn_cons c)"
      "finality (Es a) True s' = finality (Es a) True c" "kept (fn_cons c) (fn_cons s')"
    using aggregator_decides [of "Es a" c "length N" ms] sel k(1,2) d(3,4) assms(2-4) by auto
  then obtain a1 where a1: "cs_vote (Es a) True c = (Ok (), a1)" "inbound_all (Es a) (map vote_data ms) a1 = (Ok (), announced (Es a) True s')"
    by (auto simp: st_bind_Ok)
  let ?c = "c\<lparr>fn_cons := startTimer (fn_cons c)\<rparr>"
  have "cs_vote (Es a) True c = aggregate (Es a) True ?c"
    using sel(1,2) k(2) by (simp add: cs_vote_def Let_def)
  then have "snd (aggregate (Es a) True ?c) = a1" using a1(1) by (metis snd_conv)
  with aggregate_frame [of "Es a" True ?c] have "fn_node a1 = fn_node c" "info (cs_p2p (fn_cons a1)) = info (cs_p2p (fn_cons c))"
    by (simp_all add: startTimer_def)
  then have "at_home A a a1" using talkingD(2) [OF d(14) d(6)] sel(6,7) by (simp add: at_home_def)
  then show thesis using that a1 s' sel by simp
qed

lemma proposed_sel [simp]:
  "fn_node (proposed E blk ex w s) = (fn_node s)\<lparr>n_world := w\<rparr>" "jobs (proposed E blk ex w s) = jobs s"
  "cs_p2p (fn_cons (proposed E blk ex w s)) = Broadcast (proposal E blk (fn_cons s)) [] (cs_p2p (fn_cons s))"
  "nodeWallet (fn_cons (proposed E blk ex w s)) = nodeWallet (fn_cons s)" "nextAggregator (fn_cons (proposed E blk ex w s)) = nextAggregator (fn_cons s)"
  "released ok (fn_cons (proposed E blk ex w s)) = [AccountJob ex ok, BlockJob blk ok]" "round_open (fn_cons (proposed E blk ex w s))"
  by (simp_all add: proposed_def released_def)

lemma voted_sel [simp]:
  "fn_node (voted E blk ex w s) = (fn_node s)\<lparr>n_world := w\<rparr>" "jobs (voted E blk ex w s) = jobs s"
  "cs_p2p (fn_cons (voted E blk ex w s)) = Broadcast (vote_data (voteMsg E True (convinced blk ex w s))) [] (cs_p2p (fn_cons s))"
  "nodeWallet (fn_cons (voted E blk ex w s)) = nodeWallet (fn_cons s)" "nextAggregator (fn_cons (voted E blk ex w s)) = nextAggregator (fn_cons s)"
  "released ok (fn_cons (voted E blk ex w s)) = [AccountJob ex ok, BlockJob blk ok]" "round_open (fn_cons (voted E blk ex w s))"
  by (simp_all add: voted_def Let_def released_def convinced_def)

lemma sending_cons [simp]:
  "nodeWallet (fn_cons (sending out s)) = nodeWallet (fn_cons s)" "nextAggregator (fn_cons (sending out s)) = nextAggregator (fn_cons s)"
  "released ok (fn_cons (sending out s)) = released ok (fn_cons s)" "round_open (fn_cons (sending out s)) = round_open (fn_cons s)"
  "info (cs_p2p (fn_cons (sending out s))) = info (cs_p2p (fn_cons s))" "peers (cs_p2p (fn_cons (sending out s))) = peers (cs_p2p (fn_cons s))"
  by (simp_all add: sending_def released_def)

text \<open>The network after the delivery of the proposal, and after that of the votes.\<close>

definition voting :: "(nat \<Rightarrow> ('d, 'z) cenv_scheme) \<Rightarrow> nat \<Rightarrow> nat \<Rightarrow> Block \<Rightarrow> publicKeys \<Rightarrow> (nat \<Rightarrow> 'd world) \<Rightarrow> 'd fullnode \<Rightarrow> (nat \<Rightarrow> 'd fullnode) \<Rightarrow> nat \<Rightarrow> 'd fullnode" where
  "voting Es p a blk ex W a1 R j = (if j = p then sending (sent (cs_p2p (fn_cons (R p)))) (proposed (Es p) blk ex (W p) (R p))
     else if j = a then a1 else voted (Es j) blk ex (W j) (R j))"

definition waiting_finality :: "(nat \<Rightarrow> ('d, 'z) cenv_scheme) \<Rightarrow> nat \<Rightarrow> nat \<Rightarrow> Block \<Rightarrow> publicKeys \<Rightarrow> (nat \<Rightarrow> 'd world) \<Rightarrow> 'd fullnode \<Rightarrow> (nat \<Rightarrow> 'd fullnode) \<Rightarrow> nat \<Rightarrow> 'd fullnode" where
  "waiting_finality Es p a blk ex W z R j = (if j = a then z else sending (sent (cs_p2p (fn_cons (R j))))
     (if j = p then proposed (Es p) blk ex (W p) (R p) else voted (Es j) blk ex (W j) (R j)))"

lemma leads_voting:
  assumes "session Es A N vs h F p a t blk ex w1" "R = rostered_nodes vs h S F" "W p = w1"
    "\<forall>j<length N. j \<noteq> p \<longrightarrow> cons_inbound (Es j) (proposal (Es p) blk (fn_cons (F p))) (R j) = cs_vote (Es j) True (convinced blk ex (W j) (R j))"
    "cs_vote (Es a) True (convinced blk ex (W a) (R a)) = (Ok (), a1)"
  shows "leads Es N (proposing (Es p) p blk ex w1 R) (voting Es p a blk ex W a1 R)"
proof -
  note d = sessionD [OF assms(1)] and k = session_keys [OF assms(1)]
  have sel: "cs_p2p (fn_cons (R j)) = cs_p2p (fn_cons (F j))" "nodeWallet (fn_cons (R j)) = nodeWallet (fn_cons (F j))" "fn_node (R j) = fn_node (F j)"
    "nextAggregator (fn_cons (R j)) = Some (node_key (F a))" for j
    using d(3,9) by (simp_all add: assms(2))
  let ?F = "proposing (Es p) p blk ex w1 R" and ?d = "proposal (Es p) blk (fn_cons (F p))"
  let ?G = "\<lambda>j. if j = a then a1 else voted (Es j) blk ex (W j) (R j)"
  have payload: "proposal (Es p) blk (fn_cons (R p)) = ?d" by (rule proposal_cong) (simp_all add: sel)
  have F: "?F p = proposed (Es p) blk ex w1 (R p)" "j \<noteq> p \<Longrightarrow> ?F j = R j" for j by (simp_all add: proposing_def)
  have "leads Es N ?F (\<lambda>j. if j = p then sending (sent (cs_p2p (fn_cons (R p))) @ []) (?F p) else ?G j)"
  proof (rule leads_hear [where F = ?F and i = p and d = ?d, OF d(1,5)])
    show "meshed (length N) A p (?F p)" using talkingD(3) [OF d(14,5)] by (simp add: F meshed_def sel)
    show "sent (cs_p2p (fn_cons (?F p))) = sent (cs_p2p (fn_cons (R p))) @ map (\<lambda>q. (q, ?d)) (peers (cs_p2p (fn_cons (?F p)))) @ []"
      by (simp add: F Broadcast_all payload)
    show "\<forall>j<length N. j \<noteq> p \<longrightarrow> at_home A j (?F j) \<and> cons_inbound (Es j) ?d (?F j) = (Ok (), ?G j)"
    proof (intro allI impI conjI)
      fix j assume j: "j < length N" "j \<noteq> p"
      show "at_home A j (?F j)" using talkingD(2) [OF d(14) j(1)] j(2) by (simp add: F at_home_def sel)
      show "cons_inbound (Es j) ?d (?F j) = (Ok (), ?G j)"
      proof (cases "j = a")
        case False
        then have "node_key (F j) \<noteq> node_key (F a)" using k(5) [OF j(1) d(6)] by blast
        then have "cs_vote (Es j) True (convinced blk ex (W j) (R j)) = (Ok (), voted (Es j) blk ex (W j) (R j))"
          unfolding voted_def Let_def using k(1,2) [OF j(1)] by (intro vote_sent) (simp_all add: sel)
        then show ?thesis using assms(4) j False by (simp add: F)
      qed (use assms(4,5) j in \<open>simp add: F\<close>)
    qed
  qed
  moreover have "(\<lambda>j. if j = p then sending (sent (cs_p2p (fn_cons (R p))) @ []) (?F p) else ?G j) = voting Es p a blk ex W a1 R"
    by (auto simp: fun_eq_iff voting_def F assms(3))
  ultimately show ?thesis by simp
qed

lemma leads_counted:
  assumes "session Es A N vs h F p a t blk ex w1" "R = rostered_nodes vs h S F" "at_home A a a1"
    "js = [j\<leftarrow>[0..<length N]. j \<noteq> p \<and> j \<noteq> a]" "m = (\<lambda>j. voteMsg (Es j) True (convinced blk ex (W j) (R j)))"
    "inbound_all (Es a) (map (\<lambda>j. vote_data (m j)) js) a1 = (Ok (), z)"
  shows "leads Es N (voting Es p a blk ex W a1 R) (waiting_finality Es p a blk ex W z R)"
proof -
  note d = sessionD [OF assms(1)] and k = session_keys [OF assms(1)]
  have sel: "cs_p2p (fn_cons (R j)) = cs_p2p (fn_cons (F j))" "nodeWallet (fn_cons (R j)) = nodeWallet (fn_cons (F j))" "fn_node (R j) = fn_node (F j)"
    "nextAggregator (fn_cons (R j)) = Some (node_key (F a))" for j
    using d(3,9) by (simp_all add: assms(2))
  let ?Q = "voting Es p a blk ex W a1 R" and ?out = "\<lambda>j. sent (cs_p2p (fn_cons (R j)))"
  have Q: "?Q a = a1" "j \<noteq> a \<Longrightarrow> nextAggregator (fn_cons (?Q j)) = Some (node_key (F a))" "j \<noteq> a \<Longrightarrow> node_key (?Q j) = node_key (F j)"
    "j \<noteq> p \<Longrightarrow> j \<noteq> a \<Longrightarrow> ?Q j = voted (Es j) blk ex (W j) (R j)" for j
    using d(7) by (auto simp: voting_def sel node_key_def)
  have home: "at_home A j (?Q j)" if "j < length N" for j
    using talkingD(2) [OF d(14) that] assms(3) by (auto simp: voting_def at_home_def sel)
  have voter: "meshed (length N) A j (?Q j) \<and> length (vote_data (m j)) \<le> MaxPayloadSize
       \<and> sent (cs_p2p (fn_cons (?Q j))) = ?out j @ map (\<lambda>q. (q, vote_data (m j))) (peers (cs_p2p (fn_cons (?Q j))))" if "j \<in> set js" for j
  proof -
    have j: "j < length N" "j \<noteq> p" "j \<noteq> a" using that by (auto simp: assms(4))
    have "vote_valid (Es a) (fn_cons (R a)) (m j)"
      unfolding assms(5) using k(1,3,4) [OF j(1)] talkingD(11) [OF d(14) j(1) d(6)]
      by (intro vote_passes) (simp_all add: sel node_key_def, simp add: assms(2))
    then show ?thesis using talkingD(3) [OF d(14) j(1)] j by (simp add: vote_valid_def Q meshed_def sel Broadcast_all assms(5))
  qed
  have "leads Es N ?Q (\<lambda>k. if k = a then z else if k \<in> set js then sending (?out k) (?Q k) else ?Q k)"
    by (rule leads_votes [where Q = ?Q and m = m and out = ?out, OF d(1,6)])
      (use home voter k(5) d(6) assms(6) in \<open>auto simp: Q assms(4)\<close>)
  moreover have "with_full N (\<lambda>k. if k = a then z else if k \<in> set js then sending (?out k) (?Q k) else ?Q k) = with_full N (waiting_finality Es p a blk ex W z R)"
    by (rule with_full_cong) (auto simp: assms(4) voting_def waiting_finality_def)
  ultimately show ?thesis by simp
qed

subsection \<open>Finality\<close>

text \<open>A node whose round is over: nothing is left of it in the consensus service.\<close>

definition at_rest :: "(string \<times> bool) list \<Rightarrow> 32 word \<Rightarrow> 'd fullnode \<Rightarrow> 'd fullnode \<Rightarrow> bool" where
  "at_rest S t s s' \<longleftrightarrow> (let cs = fn_cons s; cs' = fn_cons s' in cs_p2p cs' = cs_p2p cs \<and> nodeWallet cs' = nodeWallet cs \<and> badPeers cs' = badPeers cs
     \<and> \<not> waitingFianlity cs' \<and> nextValidators cs' = [] \<and> nextBlockProducer cs' = None \<and> numVoted cs' = 0 \<and> numVotedOk cs' = 0
     \<and> peersStatus cs' = S \<and> cs_tick cs' = t)"

definition closing :: "(nat \<Rightarrow> ('d, 'z) cenv_scheme) \<Rightarrow> nat \<Rightarrow> nat \<Rightarrow> Block \<Rightarrow> publicKeys \<Rightarrow> (nat \<Rightarrow> 'd world) \<Rightarrow> 'd fullnode \<Rightarrow> (nat \<Rightarrow> 'd fullnode) \<Rightarrow> nat \<Rightarrow> 'd fullnode" where
  "closing Es p a blk ex W z R j = (if j = a then sending (sent (cs_p2p (fn_cons (R a)))) z
     else finalized True (waiting_finality Es p a blk ex W z R j))"

lemma waiting_sel:
  assumes "j \<noteq> a" "\<forall>j. nextAggregator (fn_cons (R j)) = k"
  shows "round_open (fn_cons (waiting_finality Es p a blk ex W z R j))" "nextAggregator (fn_cons (waiting_finality Es p a blk ex W z R j)) = k"
    "info (cs_p2p (fn_cons (waiting_finality Es p a blk ex W z R j))) = info (cs_p2p (fn_cons (R j)))"
    "fn_node (waiting_finality Es p a blk ex W z R j) = (fn_node (R j))\<lparr>n_world := W j\<rparr>"
  using assms by (simp_all add: waiting_finality_def)

lemma leads_finality:
  assumes "session Es A N vs h F p a t blk ex w1" "R = rostered_nodes vs h S F" "z = announced (Es a) True s'"
    "kept (fn_cons (R a)) (fn_cons s')"
  shows "leads Es N (waiting_finality Es p a blk ex W z R) (closing Es p a blk ex W z R)"
proof -
  note d = sessionD [OF assms(1)] and k = session_keys [OF assms(1) d(6)]
  have sel: "cs_p2p (fn_cons (R j)) = cs_p2p (fn_cons (F j))" "nodeWallet (fn_cons (R j)) = nodeWallet (fn_cons (F j))" "fn_node (R j) = fn_node (F j)"
    "nextAggregator (fn_cons (R j)) = Some (node_key (F a))" for j
    using d(3,9) by (simp_all add: assms(2))
  have s': "cs_p2p (fn_cons s') = cs_p2p (fn_cons (F a))" "nodeWallet (fn_cons s') = nodeWallet (fn_cons (F a))"
    using assms(4) sel by (simp_all add: kept_def)
  let ?Q = "waiting_finality Es p a blk ex W z R" and ?d = "finality (Es a) True s'"
  have Q: "?Q a = z" by (simp add: waiting_finality_def)
  have z: "cs_p2p (fn_cons z) = Broadcast ?d [] (cs_p2p (fn_cons (F a)))" by (simp add: assms(3) announced_def finality_def s')
  note w = waiting_sel [of _ a R "Some (node_key (F a))" Es p blk ex W z, OF _ allI, OF _ sel(4)]
  have "leads Es N ?Q (\<lambda>j. if j = a then sending (sent (cs_p2p (fn_cons (F a))) @ []) (?Q a) else finalized True (?Q j))"
  proof (rule leads_hear [where F = ?Q and i = a and d = ?d, OF d(1,6)])
    show "meshed (length N) A a (?Q a)" using talkingD(3) [OF d(14,6)] by (simp add: Q z meshed_def)
    show "sent (cs_p2p (fn_cons (?Q a))) = sent (cs_p2p (fn_cons (F a))) @ map (\<lambda>q. (q, ?d)) (peers (cs_p2p (fn_cons (?Q a)))) @ []"
      by (simp add: Q z Broadcast_all)
    show "\<forall>j<length N. j \<noteq> a \<longrightarrow> at_home A j (?Q j) \<and> cons_inbound (Es j) ?d (?Q j) = (Ok (), finalized True (?Q j))"
    proof (intro allI impI conjI)
      fix j assume j: "j < length N" "j \<noteq> a"
      show "at_home A j (?Q j)" using talkingD(2) [OF d(14) j(1)] w(3,4) [OF j(2)] by (simp add: at_home_def sel)
      show "cons_inbound (Es j) ?d (?Q j) = (Ok (), finalized True (?Q j))"
        using w(1,2) [OF j(2)] k(1-3) s'
        by (intro finality_ends_round [OF _ _ talkingD(11) [OF d(14,6) j(1)]] size_finality) simp_all
    qed
  qed
  moreover have "(\<lambda>j. if j = a then sending (sent (cs_p2p (fn_cons (F a))) @ []) (?Q a) else finalized True (?Q j)) = closing Es p a blk ex W z R"
    by (auto simp: fun_eq_iff closing_def Q sel)
  ultimately show ?thesis by simp
qed

lemma closing_sel:
  assumes "session Es A N vs h F p a t blk ex w1" "R = rostered_nodes vs h S F" "z = announced (Es a) True s'" "kept (fn_cons (R a)) (fn_cons s')"
    "jobs s' = []" "fn_node s' = (fn_node (F a))\<lparr>n_world := W a\<rparr>" "released True (fn_cons s') = block_jobs ex blk" "j < length N"
  shows "jobs (closing Es p a blk ex W z R j) = block_jobs ex blk" "fn_node (closing Es p a blk ex W z R j) = (fn_node (F j))\<lparr>n_world := W j\<rparr>"
    "at_rest (S j) 3 (F j) (closing Es p a blk ex W z R j)"
proof -
  note d = sessionD [OF assms(1)]
  have R: "jobs (R j) = []" using d(12) [OF assms(8)] assms(2) by simp
  show "jobs (closing Es p a blk ex W z R j) = block_jobs ex blk" "fn_node (closing Es p a blk ex W z R j) = (fn_node (F j))\<lparr>n_world := W j\<rparr>"
    using R assms(3,5-7) by (auto simp: closing_def waiting_finality_def announced_sel block_jobs_def assms(2))
  show "at_rest (S j) 3 (F j) (closing Es p a blk ex W z R j)"
  proof (cases "j = a")
    case True
    have "at_rest (S a) 3 (F a) (sending (sent (cs_p2p (fn_cons (R a)))) z)"
      using assms(4) by (simp add: at_rest_def Let_def sending_def assms(2,3) announced_def finalized_def reset_def kept_def Broadcast_all)
    then show ?thesis using True by (simp add: closing_def)
  next
    case False
    then show ?thesis
      by (simp add: at_rest_def Let_def closing_def waiting_finality_def sending_def assms(2) finalized_def reset_def proposed_def voted_def convinced_def
          startTimer_def Broadcast_all)
  qed
qed

lemma others_length:
  assumes "p < n" "a < n" "p \<noteq> a"
  shows "Suc (Suc (length [j\<leftarrow>[0..<n]. j \<noteq> p \<and> j \<noteq> a])) = n"
proof -
  have "set [j\<leftarrow>[0..<n]. j \<noteq> p \<and> j \<noteq> a] = {..<n} - {p, a}" by auto
  moreover have "card ({..<n} - {p, a}) = n - 2" using assms by (simp add: card_Diff_subset)
  moreover have "2 \<le> n" using assms by linarith
  ultimately show ?thesis using distinct_card [of "[j\<leftarrow>[0..<n]. j \<noteq> p \<and> j \<noteq> a]"] by simp
qed

text \<open>The votes of the nodes other than the producer and the aggregator.\<close>

definition votes_of :: "(nat \<Rightarrow> ('d, 'z) cenv_scheme) \<Rightarrow> Block \<Rightarrow> publicKeys \<Rightarrow> (nat \<Rightarrow> 'd world) \<Rightarrow> (nat \<Rightarrow> 'd fullnode) \<Rightarrow> nat \<Rightarrow> VoteMsg" where
  "votes_of Es blk ex W R j = voteMsg (Es j) True (convinced blk ex (W j) (R j))"

lemma session_counted:
  assumes "session Es A N vs h F p a t blk ex w1" "js = [j\<leftarrow>[0..<length N]. j \<noteq> p \<and> j \<noteq> a]"
  obtains a1 s' where "cs_vote (Es a) True (convinced blk ex (W a) (rostered_nodes vs h S F a)) = (Ok (), a1)"
    "inbound_all (Es a) (map (\<lambda>j. vote_data (votes_of Es blk ex W (rostered_nodes vs h S F) j)) js) a1 = (Ok (), announced (Es a) True s')"
    "jobs s' = []" "fn_node s' = (fn_node (F a))\<lparr>n_world := W a\<rparr>" "released True (fn_cons s') = block_jobs ex blk"
    "kept (fn_cons (rostered_nodes vs h S F a)) (fn_cons s')" "at_home A a a1"
proof -
  note d = sessionD [OF assms(1)] and k = session_keys [OF assms(1)]
  let ?R = "rostered_nodes vs h S F"
  let ?c = "convinced blk ex (W a) (?R a)" and ?m = "votes_of Es blk ex W ?R"
  have ms: "\<forall>v\<in>set (map ?m js). vote_valid (Es a) (fn_cons ?c) v \<and> vo_Ok v"
  proof -
    have "vote_valid (Es a) (fn_cons ?c) (?m j) \<and> vo_Ok (?m j)" if "j < length N" for j
    proof -
      have "vote_valid (Es a) (fn_cons ?c) (?m j)" unfolding votes_of_def using k(1,3,4) [OF that] talkingD(11) [OF d(14) that d(6)]
        by (intro vote_passes) (simp_all add: node_key_def)
      then show ?thesis by (simp add: votes_of_def voteMsg_def)
    qed
    then show ?thesis using assms(2) by auto
  qed
  have l: "2 \<le> length N" "Suc (Suc (length (map ?m js))) = length N" using others_length [OF d(5-7)] by (simp_all add: assms(2))
  obtain a1 s' where a: "cs_vote (Es a) True ?c = (Ok (), a1)" "inbound_all (Es a) (map vote_data (map ?m js)) a1 = (Ok (), announced (Es a) True s')"
    "jobs s' = []" "fn_node s' = (fn_node (F a))\<lparr>n_world := W a\<rparr>" "released True (fn_cons s') = block_jobs ex blk"
    "finality (Es a) True s' = finality (Es a) True ?c" "kept (fn_cons ?c) (fn_cons s')" "at_home A a a1"
    by (rule session_decided [where S = S and w = "W a", OF assms(1) l ms refl])
  show thesis using a(1-5,8) a(2) a(7) by (intro that [of a1 s']) (simp_all add: comp_def kept_def convinced_def)
qed

text \<open>The round, from the tick that starts the processing to the return of all goroutines.\<close>

lemma session_runs:
  assumes "session Es A N vs h F p a t blk ex w1" "\<forall>i<length N. list_all snd (S i)" "0 < MemoryService_LenTx (w_mem (n_world (fn_node (F p))))"
  obtains G ks W where "leads Es N (\<lambda>i. rostered vs h (S i) 2 (F i)) G"
    "\<forall>j<length N. at_rest (S j) 3 (F j) (G j) \<and> jobs (G j) = [] \<and> has_run (Es j) ks blk (led w1) (fn_node (F j)) (W j)
       \<and> committed (Es j) ks blk ((fn_node (F j))\<lparr>n_world := W j\<rparr>) (fn_node (G j))"
proof -
  note d = sessionD [OF assms(1)] and k = session_keys [OF assms(1)]
  let ?R = "rostered_nodes vs h S F"
  obtain ks W where x: "ex = map Some ks" "W p = w1" "\<forall>j<length N. has_run (Es j) ks blk (led w1) (fn_node (F j)) (W j)"
    "\<forall>j<length N. j \<noteq> p \<longrightarrow> cons_inbound (Es j) (proposal (Es p) blk (fn_cons (F p))) (?R j) = cs_vote (Es j) True (convinced blk ex (W j) (?R j))"
    by (rule session_executed [OF assms(1)])
  obtain a1 s' where a: "cs_vote (Es a) True (convinced blk ex (W a) (?R a)) = (Ok (), a1)"
    "inbound_all (Es a) (map (\<lambda>j. vote_data (votes_of Es blk ex W ?R j)) [j\<leftarrow>[0..<length N]. j \<noteq> p \<and> j \<noteq> a]) a1 = (Ok (), announced (Es a) True s')"
    "jobs s' = []" "fn_node s' = (fn_node (F a))\<lparr>n_world := W a\<rparr>" "released True (fn_cons s') = block_jobs ex blk"
    "kept (fn_cons (?R a)) (fn_cons s')" "at_home A a a1"
    by (rule session_counted [OF assms(1) refl])
  let ?z = "announced (Es a) True s'" and ?n = "\<lambda>j. (fn_node (F j))\<lparr>n_world := W j\<rparr>"
  let ?G = "closing Es p a blk ex W ?z ?R"
  note cl = closing_sel [where W = W and S = S, OF assms(1) refl refl a(6) a(3-5)]
  have "\<exists>n'. run_jobs (Es j) 0 (block_jobs ex blk) (?n j) = (Ok (), n') \<and> committed (Es j) ks blk (?n j) n'" if "j < length N" for j
    using run_block_jobs [of "Es j" ks blk "?n j" 0] x(1,3) that by (simp add: has_run_def)
  then obtain n' where n': "\<And>j. j < length N \<Longrightarrow> run_jobs (Es j) 0 (block_jobs ex blk) (?n j) = (Ok (), n' j) \<and> committed (Es j) ks blk (?n j) (n' j)"
    by metis
  have h: "h mod length vs = h mod length N" using d(3) by simp
  have new: "BlockProducer_NewBlock (Es p) (faucet (fn_node (F p))) (blockchain (fn_node (F p))) (nodeWallet (fn_cons (F p))) t (n_world (fn_node (F p))) = (Ok (blk, ex), w1)"
    using d(11) by (simp add: joint_proposal_def honest_proposal_def Let_def)
  have others: "\<forall>i<length N. i \<noteq> p \<longrightarrow> vs ! (h mod length vs) \<noteq> node_key (F i)" unfolding h d(8) using k(5) [OF d(5)] by blast
  have "leads Es N (starting vs h S {} F) (starting vs h S ({..<length N} - {p}) F)" by (rule leads_starts [OF d(1,2) assms(2) others])
  moreover have "leads Es N (starting vs h S ({..<length N} - {p}) F) (proposing (Es p) p blk ex w1 ?R)"
    by (rule leads_proposal [OF d(1,2) assms(2) d(5) assms(3) _ new]) (simp add: h d(8))
  moreover have "leads Es N (proposing (Es p) p blk ex w1 ?R) (voting Es p a blk ex W a1 ?R)" by (rule leads_voting [OF assms(1) refl x(2,4) a(1)])
  moreover have "leads Es N (voting Es p a blk ex W a1 ?R) (waiting_finality Es p a blk ex W ?z ?R)"
    by (rule leads_counted [OF assms(1) refl a(7) refl refl]) (use a(2) in \<open>simp add: votes_of_def\<close>)
  moreover have "leads Es N (waiting_finality Es p a blk ex W ?z ?R) ?G" by (rule leads_finality [where S = S, OF assms(1) refl refl a(6)])
  moreover have "leads Es N ?G (\<lambda>i. (?G i)\<lparr>fn_node := n' i, jobs := []\<rparr>)"
    by (rule leads_all_jobs [where now = 0, OF d(1)]) (use cl n' in simp)
  ultimately have "leads Es N (starting vs h S {} F) (\<lambda>i. (?G i)\<lparr>fn_node := n' i, jobs := []\<rparr>)" by (meson rtranclp_trans)
  moreover have "starting vs h S {} F = (\<lambda>i. rostered vs h (S i) 2 (F i))" by (simp add: starting_def fun_eq_iff)
  ultimately have "leads Es N (\<lambda>i. rostered vs h (S i) 2 (F i)) (\<lambda>i. (?G i)\<lparr>fn_node := n' i, jobs := []\<rparr>)" by simp
  then show thesis by (rule that [of _ ks W]) (use cl(3) n' x(3) in \<open>simp add: at_rest_def\<close>)
qed

subsection \<open>From nodes to blocks\<close>

lemma at_rest_talking:
  assumes "talking Es A n F" "\<forall>i<n. at_rest (S i) t (F i) (G i) \<and> n_sync (fn_node (G i)) = n_sync (fn_node (F i)) \<and> blockchain (fn_node (G i)) = bc"
  shows "talking Es A n G"
  unfolding talking_def
proof (intro conjI allI impI)
  fix i assume i: "i < n"
  note t = talkingD [OF assms(1) i]
  have g: "at_rest (S i) t (F i) (G i)" "n_sync (fn_node (G i)) = n_sync (fn_node (F i))" "blockchain (fn_node (G i)) = bc" using assms(2) i by blast+
  show "at_home A i (G i)" "meshed n A i (G i)" "keypair_ok (Es i) (wa_keyPair (nodeWallet (fn_cons (G i))))" "badPeers (fn_cons (G i)) = []"
      "\<not> waitingFianlity (fn_cons (G i))" "\<not> isSyncing (n_sync (fn_node (G i)))"
    using t(2,3,5,6,8) g by (simp_all add: at_rest_def Let_def at_home_def meshed_def)
  show "address_ok (A i)" by (rule t(4))
  fix j assume j: "j < n"
  show "same_place (blockchain (fn_node (G i))) (blockchain (fn_node (G j)))" using assms(2) i j by (simp add: same_place_def)
  show "ed_Verify (Es i) = ed_Verify (Es j)" by (rule t(11) [OF j])
qed (use assms(1) in \<open>simp add: talking_def\<close>)

lemma at_rest_undecided:
  assumes "undecided Es A n F" "\<forall>i<n. at_rest (S i) 0 (F i) (G i) \<and> known_status A n i (S i)"
  shows "undecided Es A n G"
proof -
  note u = undecidedD [OF assms(1)]
  have g: "node_key (G i) = node_key (F i)" if "i < n" for i using assms(2) that by (simp add: at_rest_def Let_def node_key_def)
  then have inj: "inj_on (\<lambda>i. node_key (G i)) {..<n}" using u(3) by (simp add: inj_on_def)
  have img: "(\<lambda>i. node_key (G i)) ` {..<n} = (\<lambda>i. node_key (F i)) ` {..<n}" using g by (intro image_cong) simp_all
  have "cs_tick (fn_cons (G i)) = 0" "nextValidators (fn_cons (G i)) = []" "nextBlockProducer (fn_cons (G i)) = None"
      "known_status A n i (peersStatus (fn_cons (G i)))" if "i < n" for i
    using assms(2) that by (simp_all add: at_rest_def Let_def)
  then show ?thesis unfolding undecided_def img by (intro conjI allI impI u(1,2,4,5) u(6) [symmetric] inj)
qed

text \<open>The committee of the nodes is what every node keeps when it decides again.\<close>

lemma committee_processing:
  assumes "talking Es A n F" "undecided Es A n F" "\<forall>i<n. h = unat (Blockchain_NextHeight (blockchain (fn_node (F i))))"
  shows "processing Es A n (committee (Es 0) n F) h F"
proof -
  note u = undecidedD [OF assms(2)]
  let ?vs = "committee (Es 0) n F"
  have n: "2 \<le> n" using assms(1) by (simp add: talking_def)
  have "sorts (SortKeys (Es 0))" using u(5) n by simp
  note vs = committee_keys [OF this u(3)]
  have len: "length v = PublicKeySize" if v: "v \<in> set ?vs" for v
  proof -
    obtain i where i: "i < n" "v = node_key (F i)" using v unfolding vs(1) by auto
    have "slice_len (Wallet_PublicKey (nodeWallet (fn_cons (F i)))) = PublicKeySize"
      using talkingD(5) [OF assms(1) i(1)] by (simp add: keypair_ok_def Wallet_PublicKey_def PublicKeySize_def)
    then show ?thesis using wallet_key [OF talkingD(5) [OF assms(1) i(1)]] i(2) by simp
  qed
  have "rooted (Es i) ?vs h (F i)" if i: "i < n" for i
  proof -
    have "distinct (map (\<lambda>i. node_key (F i)) [0..<n])" "set (map (\<lambda>i. node_key (F i)) [0..<n]) = set ?vs"
      using u(3) vs(1) by (auto simp: distinct_map atLeast0LessThan)
    then have "?vs = SortKeys (Es i) (lessKey (Es i)) ?vs"
      unfolding committee_def [of "Es 0" n F] using vs(1,2) u(4) \<open>sorts (SortKeys (Es 0))\<close> u(5) [OF i]
      by (intro sorted_keys_unique u(2) u(6) [OF i]) (simp_all add: committee_def)
    then have "SortKeys (Es i) (lessKey (Es i)) ?vs = ?vs" by (rule sym)
    moreover have "?vs \<noteq> []" using vs(3) n by auto
    ultimately show ?thesis unfolding rooted_def using u(1) u(5) [OF i] vs(1,3) assms(3) i talkingD(5,7,8) [OF assms(1) i] meshed_peers [OF talkingD(3) [OF assms(1) i] n]
      by simp
  qed
  then show ?thesis using assms(1) len by (simp add: processing_def)
qed

text \<open>The second cycle up to the tick that starts the processing.\<close>

lemma leads_ready:
  assumes "up N A" "talking Es A (length N) F" "\<forall>i<length N. node_key (F i) \<in> set vs" "\<forall>i<length N. known_status A (length N) i (S i)"
  obtains T where "leads Es N (\<lambda>i. rostered vs h (S i) 0 (F i)) (\<lambda>i. rostered vs h (T i) 2 (F i))"
    "\<forall>i<length N. list_all snd (T i) \<and> known_status A (length N) i (T i)"
proof -
  let ?n = "length N"
  let ?S1 = "\<lambda>i. all_ready A ?n i (S i)"
  let ?T = "\<lambda>i. all_ready A ?n i (?S1 i)"
  have A: "\<forall>i<?n. info (cs_p2p (fn_cons (F i))) = A i" using talkingD(9) [OF assms(2)] by blast
  have step: "leads Es N (\<lambda>i. rostered vs h (S' i) t (F i)) (\<lambda>i. rostered vs h (all_ready A ?n i (S' i)) (t + 1) (F i))" if "t = 0 \<or> t = 1" for S' t
  proof -
    let ?F = "\<lambda>i. rostered vs h (S' i) t (F i)"
    have "talking Es A ?n ?F" by (rule talking_same [OF assms(2)]) simp
    then have "leads Es N ?F (told ?n ?F)" by (rule leads_told [OF assms(1) _ _ that]) simp
    moreover have "with_full N (told ?n ?F) = with_full N (\<lambda>i. rostered vs h (all_ready A ?n i (S' i)) (t + 1) (F i))"
      by (rule with_full_cong) (rule told_rostered [OF assms(3) A])
    ultimately show ?thesis by simp
  qed
  have "leads Es N (\<lambda>i. rostered vs h (S i) 0 (F i)) (\<lambda>i. rostered vs h (?T i) 2 (F i))"
    using rtranclp_trans [OF step [of 0 S] step [of "0 + 1" ?S1]] by simp
  then show thesis by (rule that) (use assms(4) all_ready in blast)
qed

text \<open>The roles of the nodes.\<close>

lemma committee_session:
  assumes "up N A" "n = length N" "n \<le> 2 ^ 62" "talking Es A n F" "undecided Es A n F" "p < n" "committee (Es 0) n F ! (h mod n) = node_key (F p)"
    "\<forall>i<n. h = unat (Blockchain_NextHeight (blockchain (fn_node (F i)))) \<and> jobs (F i) = [] \<and> numVoted (fn_cons (F i)) = 0 \<and> numVotedOk (fn_cons (F i)) = 0"
    "joint_proposal Es n F p t blk ex w1"
  obtains a where "session Es A N (committee (Es 0) n F) h F p a t blk ex w1"
proof -
  let ?vs = "committee (Es 0) n F"
  have n: "2 \<le> n" using assms(4) by (simp add: talking_def)
  have pr: "processing Es A n ?vs h F" by (rule committee_processing [OF assms(4,5)]) (use assms(8) in blast)
  have "sorts (SortKeys (Es 0))" using undecidedD(5) [OF assms(5)] n by simp
  note vs = committee_keys [OF this undecidedD(3) [OF assms(5)]]
  have roles: "Suc (h mod n) mod n < n" "h mod n < n" using n by simp_all
  then obtain a where a: "a < n" "?vs ! (Suc (h mod n) mod n) = node_key (F a)" using nth_mem [of "Suc (h mod n) mod n" ?vs] vs(1,3) by auto
  have "p \<noteq> a" using next_role [OF n roles(2)] nth_eq_iff_index_eq [OF vs(2), of "h mod n" "Suc (h mod n) mod n"] roles vs(3) assms(7) a(2) by auto
  then have "session Es A N ?vs h F p a t blk ex w1"
    using assms(1-3,6-9) pr vs(3) a undecidedD(3) [OF assms(5)] unfolding session_def by simp
  then show thesis by (rule that)
qed

text \<open>A node that has committed, after its next tick.\<close>

lemma committed_node:
  assumes "at_rest S 3 s g" "jobs g = []" "led w = led w1" "committed E ks blk ((fn_node s)\<lparr>n_world := w\<rparr>) (fn_node g)"
    "g' = g\<lparr>fn_cons := (fn_cons g)\<lparr>cs_tick := 0\<rparr>\<rparr>" "w_db w = w_db (n_world (fn_node s))"
  shows "at_rest S 0 s g'" "blockchain (fn_node g') = Blockchain_Increment (bi_Hash (bl_Info blk)) (blockchain (fn_node s))"
    "n_sync (fn_node g') = n_sync (fn_node s)" "jobs g' = []" "led (n_world (fn_node g')) = led w1"
    "synced (b58_Encode E) (db_state E (w_db (n_world (fn_node g')))) [] (led w1)"
    "stores E [blk] (fn_node s) (fn_node g')" "holds_block E (w_db (n_world (fn_node g'))) blk"
proof -
  show "at_rest S 0 s g'" using assms(1,5) by (simp add: at_rest_def Let_def)
  show "blockchain (fn_node g') = Blockchain_Increment (bi_Hash (bl_Info blk)) (blockchain (fn_node s))"
    "n_sync (fn_node g') = n_sync (fn_node s)" "jobs g' = []" using assms(2,4,5) by (simp_all add: committed_def)
  show l: "led (n_world (fn_node g')) = led w1" using assms(3,4,5) by (simp add: committed_def accounts_written_def)
  show "synced (b58_Encode E) (db_state E (w_db (n_world (fn_node g')))) [] (led w1)"
    using assms(4) unfolding l [symmetric] unfolding assms(5) by (simp add: committed_def)
  show "stores E [blk] (fn_node s) (fn_node g')" "holds_block E (w_db (n_world (fn_node g'))) blk"
    using assms(4-6) by (simp_all add: committed_def stores_def)
qed

text \<open>
  C2: A network of running nodes can commit a block. Suppose that the nodes know each other and have not
  decided on a committee; that they stand at the same place of the chain, past the first block, with the same
  accounts, in memory in step with the database; that the validator whose turn it is has transactions in its
  mempool and makes a block of them, which executes at most eleven accounts, passes \<open>Block.Verify\<close> and
  fits, as a proposal, into a payload of 2048 bytes. Then there is a run to a state in which every node has
  stored this block, found by its hash and by its height, and nothing else in its blocks bucket; all have the
  producer's next accounts in memory and database, the same next place in the chain, and no goroutine left. The run
  consists of the ticks of the loops and the delivery of the gossip, the start, the proposal, the votes and the
  finality, and of the goroutines that write. After it the nodes are again as at the beginning, undecided,
  so that the next height can follow.
\<close>
theorem network_commits_block:
  assumes "up N A" "n = length N" "n \<le> 2 ^ 62" "\<forall>i<n. pr_full (N ! i) = F i" "talking Es A n F" "undecided Es A n F"
    "\<forall>i<n. h = unat (Blockchain_NextHeight (blockchain (fn_node (F i)))) \<and> jobs (F i) = [] \<and> numVoted (fn_cons (F i)) = 0 \<and> numVotedOk (fn_cons (F i)) = 0"
    "p < n" "committee (Es 0) n F ! (h mod n) = node_key (F p)" "0 < MemoryService_LenTx (w_mem (n_world (fn_node (F p))))"
    "joint_proposal Es n F p t blk ex w1"
  shows "\<exists>N'. (net_step Es)\<^sup>*\<^sup>* N N' \<and> length N' = n \<and> talking Es A n (\<lambda>i. pr_full (N' ! i)) \<and> undecided Es A n (\<lambda>i. pr_full (N' ! i))
     \<and> (\<forall>i<n. let s = pr_full (N' ! i) in jobs s = [] \<and> cs_p2p (fn_cons s) = cs_p2p (fn_cons (F i))
          \<and> numVoted (fn_cons s) = 0 \<and> numVotedOk (fn_cons s) = 0
          \<and> blockchain (fn_node s) = Blockchain_Increment (bi_Hash (bl_Info blk)) (blockchain (fn_node (F p)))
          \<and> led (n_world (fn_node s)) = led w1 \<and> synced (b58_Encode (Es i)) (db_state (Es i) (w_db (n_world (fn_node s)))) [] (led w1)
          \<and> stores (Es i) [blk] (fn_node (F i)) (fn_node s) \<and> holds_block (Es i) (w_db (n_world (fn_node s))) blk)"
proof -
  let ?vs = "committee (Es 0) n F"
  obtain a where ses: "session Es A N ?vs h F p a t blk ex w1" by (rule committee_session [OF assms(1-3,5,6,8,9,7,11)])
  have h: "\<forall>i<n. h = unat (Blockchain_NextHeight (blockchain (fn_node (F i))))" using assms(7) by blast
  have keys: "\<forall>i<n. node_key (F i) \<in> set ?vs" using session_keys(4) [OF ses] assms(2) by simp
  obtain S where S: "leads Es N F (\<lambda>i. rostered ?vs h (S i) 0 (F i))" "\<forall>i<n. known_status A n i (S i)"
    by (rule committee_run [OF assms(1,2,5,6) h])
  obtain T where T: "leads Es N (\<lambda>i. rostered ?vs h (S i) 0 (F i)) (\<lambda>i. rostered ?vs h (T i) 2 (F i))"
      "\<forall>i<n. list_all snd (T i) \<and> known_status A n i (T i)"
    by (rule leads_ready [OF assms(1), of Es F ?vs S h, folded assms(2), OF assms(5) keys S(2)])
  obtain G ks W where G: "leads Es N (\<lambda>i. rostered ?vs h (T i) 2 (F i)) G"
      "\<forall>j<n. at_rest (T j) 3 (F j) (G j) \<and> jobs (G j) = [] \<and> has_run (Es j) ks blk (led w1) (fn_node (F j)) (W j)
         \<and> committed (Es j) ks blk ((fn_node (F j))\<lparr>n_world := W j\<rparr>) (fn_node (G j))"
    by (rule session_runs [OF ses, of T, folded assms(2), OF _ assms(10)]) (use T(2) in blast)
  let ?bc = "Blockchain_Increment (bi_Hash (bl_Info blk)) (blockchain (fn_node (F p)))" and ?H = "\<lambda>i. (G i)\<lparr>fn_cons := (fn_cons (G i))\<lparr>cs_tick := 0\<rparr>\<rparr>"
  have "leads Es N G ?H"
    by (rule leads_ticks [OF assms(1)], intro allI impI, rule third_tick)
      (use G(2) assms(2) meshed_peers [OF talkingD(3,1) [OF assms(5)]] in \<open>simp_all add: at_rest_def Let_def\<close>)
  note run = rtranclp_trans [OF rtranclp_trans [OF rtranclp_trans [OF S(1) T(1)] G(1)] this]
  let ?P = "\<lambda>i. pr_full (with_full N ?H ! i)"
  have P: "at_rest (T j) 0 (F j) (?P j)" "blockchain (fn_node (?P j)) = ?bc" "n_sync (fn_node (?P j)) = n_sync (fn_node (F j))"
      "jobs (?P j) = []" "led (n_world (fn_node (?P j))) = led w1"
      "synced (b58_Encode (Es j)) (db_state (Es j) (w_db (n_world (fn_node (?P j))))) [] (led w1)"
      "stores (Es j) [blk] (fn_node (F j)) (fn_node (?P j))" "holds_block (Es j) (w_db (n_world (fn_node (?P j)))) blk" if j: "j < n" for j
  proof -
    have eq: "?P j = ?H j" using j assms(2) by simp
    have "at_rest (T j) 3 (F j) (G j)" "jobs (G j) = []" "led (W j) = led w1" "committed (Es j) ks blk ((fn_node (F j))\<lparr>n_world := W j\<rparr>) (fn_node (G j))"
        "w_db (W j) = w_db (n_world (fn_node (F j)))"
      using G(2) j unfolding has_run_def by blast+
    note c = committed_node [OF this(1-4) eq this(5)]
    show "at_rest (T j) 0 (F j) (?P j)" "n_sync (fn_node (?P j)) = n_sync (fn_node (F j))" "jobs (?P j) = []" "led (n_world (fn_node (?P j))) = led w1"
      "synced (b58_Encode (Es j)) (db_state (Es j) (w_db (n_world (fn_node (?P j))))) [] (led w1)"
      "stores (Es j) [blk] (fn_node (F j)) (fn_node (?P j))" "holds_block (Es j) (w_db (n_world (fn_node (?P j)))) blk" by (fact c)+
    have "blockchain (fn_node (F j)) = blockchain (fn_node (F p))"
      using assms(11) j by (cases "j = p") (simp_all add: joint_proposal_def mirrors_def)
    then show "blockchain (fn_node (?P j)) = ?bc" using c(2) by simp
  qed
  have "talking Es A n ?P" by (rule at_rest_talking [OF assms(5), of T 0 _ ?bc]) (use P in blast)
  moreover have "undecided Es A n ?P" by (rule at_rest_undecided [OF assms(6), of T]) (use P(1) T(2) in blast)
  moreover have "cs_p2p (fn_cons (?P i)) = cs_p2p (fn_cons (F i)) \<and> numVoted (fn_cons (?P i)) = 0 \<and> numVotedOk (fn_cons (?P i)) = 0" if "i < n" for i
    using P(1) [OF that] by (simp add: at_rest_def Let_def)
  moreover have "with_full N F = N" using with_full_self assms(2,4) by simp
  ultimately show ?thesis using run P(2,4-8) assms(2) unfolding Let_def by (intro exI [of _ "with_full N ?H"]) simp
qed

end
