(* ===== verification/SampleNet.thy ===== *)
theory SampleNet
  imports NetRounds SampleFull Startup
begin

text \<open>
  Networks of sample nodes: one process that has just started, and three nodes that know each other; the
  theorems about processes and networks applied to them.
\<close>

lemma b58_ok_sampleC [simp]: "b58_ok (sampleX z)"
  by (simp add: b58_ok_def)

lemma sample_boot:
  obtains s p where "fst (NewFullNode sampleC None None (Ok (keyA, replicate 64 (CHR ''k''))) None None ''3000'' ''5000'') = Ok s"
    "p = startProcess sampleC 1 [] ''8000'' s" "alive p" "pr_started p" "pr_errs p = startCatch"
    "pr_listens p = [''localhost:5000'', ''localhost:3000'', ''localhost:8000'']"
proof -
  obtain n where n: "NewNode sampleC None None ''3000'' NewMemoryService = Ok n"
    by (simp add: NewNode_def NewStorageService_def NewStorageDb_def)
  obtain s where s: "fst (NewFullNode sampleC None None (Ok (keyA, replicate 64 (CHR ''k''))) None None ''3000'' ''5000'') = Ok s"
      "fn_node s = n" "\<exists>w. fn_cons s = NewConsensusService ''5000'' w"
    using n by (auto simp: NewFullNode_def NewWallet_def GenerateKey_def)
  obtain n' where n': "Node_Run sampleC 1 n = (Ok (), n')" using fresh_node [OF bolt_ok_sample b58_ok_sampleC n] by blast
  obtain s' where r: "FullNode_Run sampleC 1 s = (Ok (), s')"
    using n' s(2) by (auto simp: FullNode_Run_def on_cons_def ConsensusService_Run_def cons_p2p_def on_node_def st_bind_def)
  have i: "info (p2p_of SyncNet s) = NewNodeInfo ''3000'' SyncNode" "info (p2p_of ConsNet s) = NewNodeInfo ''5000'' ConsensusNode"
    using n s(2,3) by (auto simp: NewNode_def NewStorageService_def NewStorageDb_def NewSyncService_def NewConsensusService_def NewP2pService_def)
  show ?thesis
    by (rule that [OF s(1) refl])
      (use r i in \<open>simp_all add: startProcess_def Server_listen_def Let_def NewServer_def NewNodeInfo_def alive_def run_go_def\<close>)
qed

lemma sample_boots: 
  obtains p where "(open_step (\<lambda>_. sampleC))\<^sup>*\<^sup>* [] [p]" "alive p" "pr_started p" "pr_errs p = startCatch"
    "pr_listens p = [''localhost:5000'', ''localhost:3000'', ''localhost:8000'']"
proof -
  obtain s p where p: "fst (NewFullNode sampleC None None (Ok (keyA, replicate 64 (CHR ''k''))) None None ''3000'' ''5000'') = Ok s"
    "p = startProcess sampleC 1 [] ''8000'' s" "alive p" "pr_started p" "pr_errs p = startCatch"
    "pr_listens p = [''localhost:5000'', ''localhost:3000'', ''localhost:8000'']" by (rule sample_boot)
  have "open_step (\<lambda>_. sampleC) [] [p]"
    using open_step.boots [where Es = "\<lambda>_. sampleC" and N = "[]", OF p(1), of 1 "''8000''"] p(2) by simp
  with p(3-6) show ?thesis by (intro that) auto
qed

theorem network_invariant_witness:
  "\<exists>p. (open_step (\<lambda>_. sampleC))\<^sup>*\<^sup>* [] [p] \<and> cons_ok (fn_cons (pr_full p)) \<and> dial [p] ''localhost:5000'' = Some 0"
proof -
  obtain p where p: "(open_step (\<lambda>_. sampleC))\<^sup>*\<^sup>* [] [p]" "alive p" "pr_started p" "pr_errs p = startCatch"
    "pr_listens p = [''localhost:5000'', ''localhost:3000'', ''localhost:8000'']" by (rule sample_boots)
  have s: "\<forall>i::nat. sorts (SortKeys sampleC)" by simp
  from network_invariant [OF s p(1), of 0 "''localhost:5000''"] p show ?thesis by auto
qed

theorem one_message_ends_node_witness:
  "\<exists>p q e. (open_step (\<lambda>_. sampleC))\<^sup>*\<^sup>* [] [p] \<and> alive p
     \<and> (proc_step sampleC)\<^sup>*\<^sup>* (Server_handle sampleC ConsNet (Ok [ConsensusMessage, StartBlockProcessingMessage]) p) q
     \<and> pr_exit q = Some (Ended e)"
proof -
  obtain p where p: "(open_step (\<lambda>_. sampleC))\<^sup>*\<^sup>* [] [p]" "alive p" "pr_started p" "pr_errs p = startCatch"
    "pr_listens p = [''localhost:5000'', ''localhost:3000'', ''localhost:8000'']" by (rule sample_boots)
  let ?q = "Server_handle sampleC ConsNet (Ok [ConsensusMessage, StartBlockProcessingMessage]) p"
  have s: "\<forall>i::nat. sorts (SortKeys sampleC)" by simp
  have "\<forall>n x. (catch_step ^^ n) (pr_errs ?q) x \<longrightarrow> (\<exists>p' e. (proc_step sampleC)\<^sup>*\<^sup>* (?q\<lparr>pr_errs := x\<rparr>) p' \<and> pr_exit p' = Some (Ended e))"
    using one_message_ends_node [OF s p(1), of 0 SyncNet] p(2-4) by (simp add: Let_def startCatch_def)
  from this [rule_format, of 0 "pr_errs ?q"] p(1,2) show ?thesis by auto
qed

subsection \<open>Three nodes\<close>

definition key0 :: bytes where "key0 = replicate 32 (CHR ''0'')"

definition wallet0 :: Wallet where
  "wallet0 = \<lparr>wa_keyPair = \<lparr>kp_PrivateKey = Some (replicate 64 (CHR ''0'')), kp_PublicKey = Some key0\<rparr>, wa_nonce = 0, wa_balance = 0\<rparr>"

definition netInfo :: "nat \<Rightarrow> NodeInfo" where
  "netInfo i = NewNodeInfo ([''5000'', ''5001'', ''5002''] ! i) ConsensusNode"

definition netWallet :: "nat \<Rightarrow> Wallet" where
  "netWallet i = [sampleWallet, wallet0, walletC] ! i"

definition netOthers :: "nat \<Rightarrow> nat list" where
  "netOthers i = filter (\<lambda>j. j \<noteq> i) [0..<3]"

definition netFull :: "nat \<Rightarrow> (bytes \<times> bytes) list fullnode" where
  "netFull i = (let cs = NewConsensusService ([''5000'', ''5001'', ''5002''] ! i) (netWallet i) in
     \<lparr>fn_node = sampleNode, fn_cons = cs\<lparr>cs_p2p := (cs_p2p cs)\<lparr>peers := map netInfo (netOthers i)\<rparr>\<rparr>, jobs = []\<rparr>)"

definition netProcess :: "nat \<Rightarrow> (bytes \<times> bytes) list process" where
  "netProcess i = \<lparr>pr_full = netFull i, pr_rpc = NewServer ''8000'' (CHR 0x00), pr_listens = [Ip4 (netInfo i)],
     pr_errs = startCatch, pr_started = True, pr_exit = None\<rparr>"

definition sampleNetwork :: "(bytes \<times> bytes) list network" where
  "sampleNetwork = [netProcess 0, netProcess 1, netProcess 2]"

lemma less_3: "i < 3 \<longleftrightarrow> i = 0 \<or> i = 1 \<or> i = 2" for i :: nat
  by auto

lemma netFull_sel [simp]: "fn_node (netFull i) = sampleNode" "nodeWallet (fn_cons (netFull i)) = netWallet i" "jobs (netFull i) = []"
  "info (cs_p2p (fn_cons (netFull i))) = netInfo i" "peers (cs_p2p (fn_cons (netFull i))) = map netInfo (netOthers i)"
  "badPeers (fn_cons (netFull i)) = []" "waitingFianlity (fn_cons (netFull i)) = False" "cs_tick (fn_cons (netFull i)) = 0"
  "nextValidators (fn_cons (netFull i)) = []" "nextBlockProducer (fn_cons (netFull i)) = None" "peersStatus (fn_cons (netFull i)) = []"
  "numVoted (fn_cons (netFull i)) = 0" "numVotedOk (fn_cons (netFull i)) = 0"
  by (simp_all add: netFull_def Let_def NewConsensusService_def NewP2pService_def netInfo_def)

lemma sampleNetwork_sel: "length sampleNetwork = 3" "\<forall>i<3. pr_full (sampleNetwork ! i) = netFull i"
  by (simp_all add: sampleNetwork_def netProcess_def less_3)

lemma network_up: "up sampleNetwork netInfo"
proof -
  have "alive (sampleNetwork ! i) \<and> dial sampleNetwork (Ip4 (netInfo i)) = Some i" if "i < 3" for i
    using that by (auto simp: less_3 sampleNetwork_def netProcess_def alive_def dial_def netInfo_def NewNodeInfo_def)
  then show ?thesis by (simp add: up_def sampleNetwork_sel)
qed

lemma net_keys: "node_key (netFull 0) = keyA" "node_key (netFull 1) = key0" "node_key (netFull 2) = keyC"
  by (simp_all add: node_key_def netWallet_def sampleWallet_ok(2)) (simp add: wallet0_def Wallet_PublicKey_def)

lemma net_keypair: "i < 3 \<Longrightarrow> keypair_ok (sampleX z) (wa_keyPair (netWallet i))"
  by (auto simp: less_3 netWallet_def sampleWallet_ok) (simp add: wallet0_def keypair_ok_def key0_def)

lemma net_address: "i < 3 \<Longrightarrow> address_ok (netInfo i)"
  by (auto simp: less_3 netInfo_def)

lemma network_talks: "talking (\<lambda>_. sampleC) netInfo 3 netFull"
  unfolding talking_def
proof (intro conjI allI impI)
  fix i j :: nat assume i: "i < 3"
  show "at_home netInfo i (netFull i)"
    using i by (auto simp: less_3 at_home_def netInfo_def NewNodeInfo_def sampleSync_def NewP2pService_def)
  show "meshed 3 netInfo i (netFull i)"
    unfolding meshed_def by (intro exI [of _ "netOthers i"]) (auto simp: netOthers_def)
qed (simp_all add: net_keypair net_address same_place_def)

lemma net_key_list: "map (\<lambda>i. node_key (netFull i)) [0..<3] = [keyA, key0, keyC]"
  using net_keys by (simp add: upt_rec numeral_3_eq_3 numeral_2_eq_2)

lemma key0_sel [simp]: "key0 \<noteq> keyA" "key0 \<noteq> keyC" "keyA \<noteq> key0" "keyC \<noteq> key0"
  by (simp_all add: key0_def keyA_def keyC_def)

lemma network_undecided: "undecided (\<lambda>_. sampleC) netInfo 3 netFull"
proof -
  have s: "{..<3::nat} = {0, 1, 2}" by auto
  have "inj_on (\<lambda>i. node_key (netFull i)) {..<3}" unfolding s by (auto simp: inj_on_def net_keys net_keys(2) [simplified])
  moreover have "inj_on sample_hash {keyA, key0, keyC}" by (simp add: sample_hash_def keyA_def key0_def keyC_def)
  then have "inj_on sample_hash ((\<lambda>i. node_key (netFull i)) ` {..<3})" unfolding s using net_keys by simp
  ultimately show ?thesis by (simp add: undecided_def known_status_def)
qed

lemma be_value_replicate:
  assumes "(of_char c :: nat) < of_char d"
  shows "be_value (replicate n c) \<le> be_value (replicate n d)" "0 < n \<Longrightarrow> be_value (replicate n c) < be_value (replicate n d)"
proof -
  show le: "be_value (replicate n c) \<le> be_value (replicate n d)" for n using assms by (induction n) (simp_all add: add_mono)
  show "0 < n \<Longrightarrow> be_value (replicate n c) < be_value (replicate n d)"
    using assms le by (cases n) (simp_all add: add_less_le_mono)
qed

lemma network_committee: "committee sampleC 3 netFull = [key0, keyA, keyC]"
proof -
  have "sample_hash (replicate 32 c) = replicate 32 c" for c by (simp add: sample_hash_def)
  then have "be_value (sample_hash key0) < be_value (sample_hash keyA)" "be_value (sample_hash keyA) < be_value (sample_hash keyC)"
    unfolding key0_def keyA_def keyC_def by (simp_all add: be_value_replicate(2))
  then show ?thesis unfolding committee_def net_key_list by (simp add: sampleX_def sort_by_def lessKey_def)
qed

lemma net_height: "h = unat (Blockchain_NextHeight (blockchain (fn_node (netFull i)))) \<longleftrightarrow> h = 7"
  by (simp add: sampleChain_def Blockchain_Init_def Blockchain_NextHeight_def)

theorem network_forms_committee_witness:
  "\<exists>N' vs. (net_step (\<lambda>_. sampleC))\<^sup>*\<^sup>* sampleNetwork N' \<and> set vs = {keyA, key0, keyC} \<and> (\<forall>i<3. agreed vs 7 (fn_cons (pr_full (N' ! i))))"
proof -
  have h: "\<forall>i<3. 7 = unat (Blockchain_NextHeight (blockchain (fn_node (netFull i))))" using net_height by simp
  have "(\<lambda>i. node_key (netFull i)) ` {..<3} = {keyA, key0, keyC}"
    using arg_cong [OF net_key_list, of set] by (simp add: atLeast0LessThan)
  with network_forms_committee [OF network_up sampleNetwork_sel(1) [symmetric] sampleNetwork_sel(2) network_talks network_undecided h]
  show ?thesis by metis
qed

theorem network_commits_block_witness:
  "\<exists>N' blk. (net_step (\<lambda>_. sampleC))\<^sup>*\<^sup>* sampleNetwork N' \<and> (\<forall>i<3. led (n_world (fn_node (pr_full (N' ! i)))) = ledgerAfter
     \<and> holds_block sampleC (w_db (n_world (fn_node (pr_full (N' ! i))))) blk)"
proof -
  obtain blk w1 where b: "honest_proposal sampleC (netFull 0) 1 blk (map Some [keyA, keyB]) w1"
      "length (proposal sampleC blk (fn_cons (netFull 0))) \<le> MaxPayloadSize" "Block_Verify sampleC blk = Ok True" "led w1 = ledgerAfter"
    by (rule sample_proposal [of "netFull 0" "\<lparr>SortKeys = sort_by\<rparr>"]) (simp_all add: netWallet_def net_address)
  have j: "joint_proposal (\<lambda>_. sampleC) 3 netFull 0 1 blk (map Some [keyA, keyB]) w1"
    using b(1-3) mirrors_sample [of "\<lparr>SortKeys = sort_by\<rparr>"] by (simp add: joint_proposal_def same_lib_def)
  have h: "\<forall>i<3. 7 = unat (Blockchain_NextHeight (blockchain (fn_node (netFull i)))) \<and> jobs (netFull i) = []
      \<and> numVoted (fn_cons (netFull i)) = 0 \<and> numVotedOk (fn_cons (netFull i)) = 0" using net_height by simp
  have "0 < MemoryService_LenTx (w_mem (n_world (fn_node (netFull 0))))" by (simp add: MemoryService_LenTx_def Mempool_Len_def)
  moreover have "committee sampleC 3 netFull ! (7 mod 3) = node_key (netFull 0)" by (simp add: network_committee net_keys)
  ultimately obtain N' where "(net_step (\<lambda>_. sampleC))\<^sup>*\<^sup>* sampleNetwork N'"
      "\<forall>i<3. led (n_world (fn_node (pr_full (N' ! i)))) = led w1 \<and> holds_block sampleC (w_db (n_world (fn_node (pr_full (N' ! i))))) blk"
    using network_commits_block [OF network_up sampleNetwork_sel(1) [symmetric] _ sampleNetwork_sel(2) network_talks network_undecided h _ _ _ j]
    unfolding Let_def by auto
  with b(4) show ?thesis by auto
qed

end
