(* ===== verification/Spec2Isabelle.thy ===== *)
theory Spec2Isabelle
  imports SampleFull SampleCli SampleNet Startup
begin

text \<open>
  A verification library for a small proof-of-authority blockchain node written in Go (module
  \<open>simple-blockchain-go2\<close>, sources under \<open>src/\<close>).

  \<^bold>\<open>The program.\<close> A node keeps accounts (\<open>src/accounts\<close>) in memory and in a bolt database. Clients send
  signed transactions (\<open>src/txs\<close>) that carry a call (\<open>src/rpc\<close>): an airdrop from the faucet or a
  transfer. They wait in the mempool (\<open>src/memory\<close>). A producer takes a power of two of them,
  executes them (\<open>src/executers/executer.go\<close>), puts them with the hash of the resulting state into a
  block (\<open>src/blocks\<close>, \<open>src/executers/block_producer.go\<close>); the other nodes execute the block again,
  compare the hashes and vote (\<open>src/consensus\<close>). When the block is final the executed accounts are
  pushed from memory to the database (\<open>src/storage\<close>), otherwise they are fetched back from it. Nodes
  find each other by hello and welcome messages (\<open>src/p2p\<close>); one that is behind asks its peers for the
  missing blocks and executes them (\<open>src/nodes/sync\<close>). A chain begins with a generated first block
  (\<open>src/genesis\<close>), whose author is the faucet. Clients (\<open>src/clients\<close>) talk to the RPC server of a node
  (\<open>src/nodes/rpc\<close>); a full node (\<open>src/fullnode\<close>) is a node with the consensus service.

  \<^bold>\<open>The theories\<close>, from the bottom up:
  \<^item> \<open>Prelude\<close>: bytes, slices (\<open>nil\<close> or bytes), machine words, the outcome \<open>go\<close> of a call (value,
    error, panic, wait for ever), calls on a state (\<open>comp\<close>), the imported packages as the record
    \<open>lib\<close>;
  \<^item> \<open>Common\<close> (\<open>src/common/constants.go\<close>, \<open>shortcut.go\<close>): constants, big-endian numbers, the
    power-of-two loops as partial functions whose \<open>None\<close> is a loop that does not end;
  \<^item> \<open>Blockchain\<close> (\<open>src/blockchain\<close>): height, slot, epoch; the locale \<open>blockchain_info\<close> states what the
    other components use of it;
  \<^item> \<open>Merkle\<close> (\<open>src/common/merkle\<close>): the tree, its root as a recursive specification, binding;
  \<^item> \<open>Json\<close> and \<open>Codec\<close>: the part of \<open>encoding/json\<close> the program relies on, a printer and a parser of
    JSON texts and the encoders and decoders of the field types it uses; the locale \<open>codec\<close> is the
    contract every struct's encoding meets (decoding inverts encoding). The parser takes the length
    of the text as fuel, which each step that recurs shortens, so it never runs out;
  \<^item> \<open>Accounts\<close>, \<open>Rpc\<close>, \<open>Txs\<close>, \<open>Wallets\<close>, \<open>Blocks\<close>: the data of the chain, one record per struct, one
    definition per method;
  \<^item> \<open>Memory\<close> (\<open>src/memory\<close>): mempool (the locale \<open>kv_store\<close>), account database with the heap of
    states its boxes point to, and the memory service as a state: the queue of the buffered request
    channel, the request whose reply nobody has taken yet, and a counter for reply channels. A
    receive runs the service until the reply is there, and is \<open>Blocked\<close> when it never comes;
  \<^item> \<open>Storage\<close> (\<open>src/storage\<close>): buckets and transactions of the database (bbolt is a parameter, its
    documented behaviour is \<open>bolt_ok\<close>, and \<open>bolt_refuses\<close> for values that are too large), the
    blocks bucket as a map (\<open>with_block\<close>, \<open>holds_block\<close>), the storage service, the exchange of accounts with memory; the
    locale \<open>db_content\<close> is the contract of what is stored, interpreted for blocks and accounts;
  \<^item> \<open>Executer\<close> (\<open>src/executers/executer.go\<close>, \<open>faucet.go\<close>): execution over channels and shared states,
    and the pure ledger functions it refines (\<open>ledger_transfer\<close>, \<open>ledger_airdrop\<close>, \<open>ledger_block\<close>);
  \<^item> \<open>Ledger\<close>: what the ledger functions keep: total supply, the frame, agreement with the database;
  \<^item> \<open>Producer\<close> (\<open>src/executers/block_producer.go\<close>): making and verifying blocks;
  \<^item> \<open>P2p\<close> (\<open>src/p2p\<close>): addresses, messages, the list of peers (the locale \<open>key_slice\<close> of the prelude),
    broadcast and discovery; sent data is the list \<open>sent\<close>; \<open>p2p_step\<close> is one inbound message, one
    failed connection or one discovery;
  \<^item> \<open>Sync\<close> (\<open>src/nodes/sync\<close>): relayed transactions, requests and responses for blocks, and the
    synchronisation goroutine cut at its receives: \<open>sync_round\<close>, \<open>sync_receive\<close>, \<open>sync_timeout\<close>, \<open>sync_next\<close>;
  \<^item> \<open>Node\<close> (\<open>src/nodes/node.go\<close>): a node, its start, the event after a stored block; \<open>sync_step\<close> is the
    step relation of a node that synchronises, \<open>chain\<close> the blocks one node produces in a row;
  \<^item> \<open>SyncSafe\<close>: the invariant of the synchronisation under every interleaving: \<open>grows\<close>, the chain by checked blocks, and
    \<open>stores\<close>, the database by the same blocks;
  \<^item> \<open>Sizes\<close>: the sizes of encoded blocks against the payload limit;
  \<^item> \<open>Startup\<close> (\<open>src/genesis\<close>): the first block, start on an empty, a fresh and a used database;
  \<^item> \<open>RpcServer\<close> (\<open>src/nodes/rpc\<close>, \<open>src/clients\<close>): the server and the client of the RPC port; a connection is
    the list of pieces in which its data arrives, the remote end of a client is an argument;
  \<^item> \<open>Clients\<close>: a client with a node and its peers, what requests can change;
  \<^item> \<open>ConsensusMsgs\<close> (\<open>src/consensus/consensus_msgs.go\<close>): the five messages, verification and encodings;
  \<^item> \<open>Consensus\<close> (\<open>src/consensus/consensus_service.go\<close>, \<open>handlers.go\<close>): one turn of the loop, every handler,
    votes, finality. The finality channel is a name, the list \<open>timers\<close> has the channels whose goroutine
    waits in \<open>timeout\<close>; the two goroutines that wait with the accounts and the block of a round are
    \<open>accountCh\<close> and \<open>blockCh\<close>, and become \<open>jobs\<close> when a decision releases them. \<open>full_step\<close> is the step
    relation of a full node: ticks, messages, timers, lost peers, jobs and the steps of the
    synchronisation, in any order, with any outcome and at any time;
  \<^item> \<open>ConsensusInv\<close>: the invariant of the service under every step (\<open>cons_ok\<close>), by the predicate \<open>keeps\<close> of
    the prelude; \<open>Committee\<close>: who produces and who aggregates; \<open>Votes\<close>: counting, finality, timeouts;
    \<open>Rounds\<close>: a round from the proposal to the database;
  \<^item> \<open>FullNode\<close> (\<open>src/fullnode\<close>): construction and start of a full node, its runs;
  \<^item> \<open>Cli\<close> (\<open>src/cli\<close>, \<open>src/main.go\<close>): the command line: flags as package \<open>flag\<close> reads them, and every command on
    a machine of key files, databases and connections;
  \<^item> \<open>Errors\<close> (\<open>catch\<close> and \<open>E\<close> of every service): the error channels from a socket up to \<open>FullNode.Run\<close>; one
    \<open>catch_step\<close> is one receive and the send that follows it, a goroutine that waits in a send is an entry of
    \<open>posted\<close>;
  \<^item> \<open>Network\<close> (\<open>src/p2p/server.go\<close>, \<open>transporter.go\<close>): processes with their listening addresses, the goroutines
    of the transporters, and two step relations: \<open>net_step\<close>, what the processes do among themselves, and
    \<open>open_step\<close>, which adds starts of nodes and connections of strangers with any data;
  \<^item> \<open>Gossip\<close> and \<open>NetRounds\<close>: runs of a network, \<open>leads\<close>, built from ticks and deliveries: from nodes that know
    each other to a committee, and from the committee over the start, the proposal, the votes and the finality to the
    databases;
  \<^item> \<open>Sample\<close>, \<open>SampleNode\<close>, \<open>SampleClient\<close>, \<open>SampleFull\<close>, \<open>SampleCli\<close> and \<open>SampleNet\<close>: a concrete environment,
    nodes, a client, a block, a machine and a network of three nodes on which the theorems are applied.

  \<^bold>\<open>What is shown.\<close> Execution with channels, pointers and reverts is a function on ledgers; a block that
  one node produces is accepted by the others; final blocks reach the database and rejected ones are
  undone; a transfer moves exactly the amount or fails where the code says, and what it does to the total
  supply is known on every branch;
  the state hash depends on the accounts only; encodings, database and wallets round-trip; a node
  that is behind catches up when its peers answer, and whatever they answer it stores only blocks that
  extend its chain; the commands \<open>node genesis\<close> and \<open>node\<close> start a network, and a node that starts again has
  what it had; peers stay distinct; a transfer of a
  client reaches the mempools of the nodes and nothing else; nodes with the same validators agree on
  the committee and the roles go round; an honest proposal gets yes votes, a majority of votes makes it
  final, and a round leaves the same accounts and height on the nodes; the state of the consensus
  service is well formed in every run. A network of running nodes forms its committee and commits a block on
  every node by nothing but ticks, deliveries and goroutines, after which it stands where it began, one height on;
  whatever strangers send to it, connections reach the one process that listens. The behaviours in which the code does not do what it means to
  are theorems too: an invalid nonce stops the node (and two transfers of one client between two blocks
  do), more than eleven accounts deadlock, a revert changes the supply, nonces are not signed, a timeout
  never ends a round, four transfers are too long for a proposal, one vote may be counted often, a
  signature of the aggregator can be moved to a finality message, and a message of two bytes ends a node.

  \<^bold>\<open>Bounds.\<close> Lengths of slices are bounded by \<open>2^62\<close>, where the doubling loops of \<open>shortcut.go\<close> stop
  ending; eleven is the capacity of the request channel plus the request in service; digests have 32
  bytes, as the documentation of the hash promises (\<open>hash_ok\<close>). Heights that are synchronised stay below
  \<open>2^64 - 1\<close>; a payload has at most 2048 bytes.

  Votes are counted for up to \<open>2^62\<close> validators; a height has a successor below \<open>2^64\<close> where the rotation
  of the roles is stated.

  \<^bold>\<open>Not modelled.\<close> Below the sockets: a connection that is made carries its payload whole, and errors of \<open>Accept\<close>
  and \<open>Write\<close>, which the operating system makes, do not occur; a file is there or not, \<open>os.Stat\<close> does not fail
  otherwise. Logging is dropped everywhere. The getters that only hand out a field (\<open>E\<close>, \<open>Self\<close>) are the fields
  themselves. The consensus service reads and writes its fields from several goroutines
  without a lock (\<open>consensus_service.go\<close>, line 35); the model runs handlers, ticks and timers one at a time,
  in any order, so data races inside a handler are not in it. The requests of a synchronisation round are
  goroutines in the code (\<open>sync_service.go\<close>, line 145); here they run at once when the round begins, so a peer
  that disappears between the start of the round and a request is not in the model.

  Two nodes have the same accounts when their databases agree on the keys that a transaction can name
  (\<open>same_accounts\<close>): 32 bytes, or the generator's. The other entries may differ, since they depend on when
  the generator was stored.
\<close>

section \<open>Blocks across nodes\<close>

text \<open>
  C1: A block that \<open>BlockProducer.NewBlock\<close> makes is accepted by \<open>BlockProducer.Verify\<close> on every
  node that has the same accounts in memory and in the database and is at the same place of the
  chain (the other entries of the databases, such as the time the generator was stored, may differ), whatever the order of its maps, its sorting function and its heap are. The verifier then
  has the ledger of the producer and the same list of executed keys.
\<close>

theorem produced_block_accepted:
  assumes "env_ok E1" "env_ok E2" "same_lib E1 E2" "node_ok E1 w1" "node_ok E2 w2" "led w1 = led w2"
    "same_accounts f E1 (w_db w1) E2 (w_db w2)" "pool_callers_ok (mempool (w_mem w1))"
    "length (pool (mempool (w_mem w1))) < 2 ^ 62"
    "BlockProducer_NewBlock E1 f bc wallet now w1 = (Ok (blk, ex), w1')" "card (dom (led w1')) \<le> 2 ^ 62"
  shows "\<exists>w2'. BlockProducer_Verify E2 f bc blk w2 = (Ok (True, Some ex, blk), w2')
     \<and> node_ok E2 w2' \<and> led w2' = led w1' \<and> w_db w2' = w_db w2"
  using NewBlock_accepted [OF assms] by blast

theorem produced_block_accepted_witness:
  "\<exists>blk w1' w2'. BlockProducer_NewBlock sample NewFaucet sampleChain sampleWallet 1 sampleWorld
       = (Ok (blk, map Some [keyA, keyB]), w1')
     \<and> BlockProducer_Verify sample NewFaucet sampleChain blk sampleWorld
       = (Ok (True, Some (map Some [keyA, keyB]), blk), w2') \<and> led w2' = ledgerAfter"
proof -
  obtain blk w1' where b: "BlockProducer_NewBlock sample NewFaucet sampleChain sampleWallet 1 sampleWorld
      = (Ok (blk, map Some [keyA, keyB]), w1')" "led w1' = ledgerAfter"
    using NewBlock_sample [of "()" NewFaucet] by blast
  have "same_lib sample sample" "same_accounts NewFaucet sample sampleStorage sample sampleStorage" by (simp_all add: same_lib_def same_accounts_def)
  from produced_block_accepted [OF env_ok_sample [of "()"] env_ok_sample [of "()"] this(1) node_ok_sample [of "()"] node_ok_sample [of "()"] refl _ _ _ b(1)] this(2)
  show ?thesis using b pool_callers_sample card_ledgerAfter by auto
qed

text \<open>
  C17: A producer whose mempool holds verified transactions makes a block as soon as the execution
  of the transactions it chose gets to its end, and that block passes \<open>Block.Verify\<close>, the check
  every node applies before it looks at its own state.
\<close>

theorem produced_block_valid:
  assumes "env_ok E" "node_ok E w" "length (pool (mempool (w_mem w))) < 2 ^ 62"
    "\<forall>tx\<in>snd ` set (pool (mempool (w_mem w))). Transaction_Verify E tx = Ok True"
    "MemoryService_GetTxsForBlock E (w_mem w) = Ok (Some txs)"
    "ledger_block (b58_Encode E) (db_state E (w_db w)) f txs [] (led w) = Some (ks, ts, L)"
    "card (dom L) \<le> 2 ^ 62" "keypair_ok E (wa_keyPair wallet)"
    "slice_len (Blockchain_PreviousBlockHash bc) = 32" "0 < sint now"
  shows "\<exists>blk w'. BlockProducer_NewBlock E f bc wallet now w = (Ok (blk, map Some ks), w') \<and> led w' = L
     \<and> txs_of (bl_Bundle blk) = ts \<and> Block_Verify E blk = Ok True"
  using assms by (rule NewBlock_valid)

theorem produced_block_valid_witness:
  "\<exists>blk w'. BlockProducer_NewBlock sample NewFaucet sampleChain sampleWallet 1 sampleWorld
       = (Ok (blk, map Some [keyA, keyB]), w') \<and> led w' = ledgerAfter
     \<and> txs_of (bl_Bundle blk) = [sampleTx\<lparr>tx_Status := True\<rparr>] \<and> Block_Verify sample blk = Ok True"
  by (rule produced_block_valid [where txs = "[sampleTx]" and L = ledgerAfter])
    (use ledger_block_sample [of "()" NewFaucet] in \<open>simp_all add: sampleTx_Verify GetTxsForBlock_sample card_ledgerAfter
      sampleChain_prev sampleWallet_def del: ledger_block.simps\<close>)

section \<open>Execution of transactions\<close>

text \<open>
  C4: \<open>Executer.ExecuteNow\<close>, with its channels, its pointers into the account database and its
  reverts, implements the pure function \<open>ledger_block\<close>: it returns exactly when that function has
  a value, and then with its keys, its statuses and its ledger, an idle memory service and an
  untouched database.
\<close>

theorem execution_refines_ledger:
  assumes "node_ok E w" "callers_ok txs"
  shows "case ledger_block (b58_Encode E) (db_state E (w_db w)) f txs [] (led w) of
      None \<Rightarrow> \<forall>r. fst (ExecuteNow E f txs w) \<noteq> Ok r
    | Some (ks, ts, L) \<Rightarrow> \<exists>ms'. ExecuteNow E f txs w = (Ok (map Some ks, ts), w\<lparr>w_mem := ms'\<rparr>)
        \<and> node_ok E (w\<lparr>w_mem := ms'\<rparr>) \<and> mem_state (stateMem ms') = L"
  using ExecuteNow_loop_block [OF assms(1) callers_not_nil [OF assms(2)], of f "[]"]
  by (auto simp: ExecuteNow_def split: option.splits)

theorem execution_refines_ledger_witness:
  "\<exists>ms'. ExecuteNow sample NewFaucet [sampleTx] sampleWorld
       = (Ok (map Some [keyA, keyB], [sampleTx\<lparr>tx_Status := True\<rparr>]), sampleWorld\<lparr>w_mem := ms'\<rparr>)
     \<and> mem_state (stateMem ms') = ledgerAfter"
  using execution_refines_ledger [OF node_ok_sample [of "()"] callers_ok_sample(1), of NewFaucet]
    ledger_block_sample [of "()" NewFaucet] by (auto simp del: ledger_block.simps)

text \<open>
  When a block becomes final, \<open>waitForFinality\<close> writes the executed accounts to the database and
  returns: memory keeps its ledger, and every account memory holds is again the one the database
  holds. (Eleven keys is the most a push can handle, see the theorem on the limit.)
\<close>

theorem accepted_block_reaches_storage:
  assumes "node_ok E w" "b58_ok E" "callers_ok txs" "generator_ok f"
    "synced (b58_Encode E) (db_state E (w_db w)) [] (led w)"
    "ExecuteNow E f txs w = (Ok (ex, ts), w1)" "length ex \<le> 11"
  shows "\<exists>w2. Executer_waitForFinality E ex True w1 = (Ok (), w2) \<and> node_ok E w2 \<and> led w2 = led w1
     \<and> synced (b58_Encode E) (db_state E (w_db w2)) [] (led w2)"
proof -
  obtain ks where ks: "ex = map Some ks" "node_ok E w1" "w_db w1 = w_db w"
      "ledger_block (b58_Encode E) (db_state E (w_db w)) f txs [] (led w) = Some (ks, ts, led w1)"
      "synced (b58_Encode E) (db_state E (w_db w)) ks (led w1)" "dom (led w) \<subseteq> dom (led w1)"
      "list_all (known E (stateMem (w_mem w1))) ks"
    by (rule ExecuteNow_synced [OF assms(1-6)])
  then show ?thesis using finality_accepted [of E w1 ks] assms(7) by auto
qed

theorem accepted_block_reaches_storage_witness:
  "\<exists>w1 w2. ExecuteNow sample NewFaucet [sampleTx] sampleWorld
       = (Ok (map Some [keyA, keyB], [sampleTx\<lparr>tx_Status := True\<rparr>]), w1)
     \<and> Executer_waitForFinality sample (map Some [keyA, keyB]) True w1 = (Ok (), w2) \<and> led w2 = ledgerAfter
     \<and> synced (b58_Encode sample) (db_state sample (w_db w2)) [] (led w2)"
proof -
  obtain w1 where w1: "ExecuteNow sample NewFaucet [sampleTx] sampleWorld
       = (Ok (map Some [keyA, keyB], [sampleTx\<lparr>tx_Status := True\<rparr>]), w1)" "led w1 = ledgerAfter"
    using ExecuteNow_sample [of "()" NewFaucet] by blast
  have "generator_ok NewFaucet" by (simp add: generator_ok_def NewFaucet_def)
  from accepted_block_reaches_storage [OF node_ok_sample [of "()"] _ callers_ok_sample(1) this _ w1(1)] w1 synced_sample [of "()"]
  show ?thesis by auto
qed


text \<open>
  C13: When a block is rejected, \<open>waitForFinality\<close> reads the executed accounts back from the database
  and returns: every account memory held before the block has the state it had before the block.
\<close>

theorem rejected_block_is_undone:
  assumes "node_ok E w" "b58_ok E" "callers_ok txs" "generator_ok f" "db_decodes E (w_db w)"
    "synced (b58_Encode E) (db_state E (w_db w)) [] (led w)"
    "ExecuteNow E f txs w = (Ok (ex, ts), w1)" "length ex \<le> 11"
  shows "\<exists>w2. Executer_waitForFinality E ex False w1 = (Ok (), w2) \<and> node_ok E w2 \<and> w_db w2 = w_db w
     \<and> (\<forall>k s. led w (b58_Encode E k) = Some s \<longrightarrow> led w2 (b58_Encode E k) = Some s)
     \<and> synced (b58_Encode E) (db_state E (w_db w)) [] (led w2)"
proof -
  let ?enc = "b58_Encode E" and ?sto = "db_state E (w_db w)"
  obtain ks where ks: "ex = map Some ks" "node_ok E w1" "w_db w1 = w_db w"
      "ledger_block ?enc ?sto f txs [] (led w) = Some (ks, ts, led w1)"
      "synced ?enc ?sto ks (led w1)" "dom (led w) \<subseteq> dom (led w1)" "list_all (known E (stateMem (w_mem w1))) ks"
    by (rule ExecuteNow_synced [OF assms(1-4,6,7)])
  obtain w2 where w2: "Executer_waitForFinality E ex False w1 = (Ok (), w2)" "node_ok E w2" "w_db w2 = w_db w"
      "synced ?enc ?sto [] (led w2)" "dom (led w1) \<subseteq> dom (led w2)"
    using finality_rejected [OF ks(2) assms(2), of ks] ks(1,3,5,7) assms(5,8) by (auto simp: list_all_iff known_def db_decodes_def)
  have "led w2 (?enc k) = Some s" if "led w (?enc k) = Some s" for k s
  proof -
    have "?enc k \<in> dom (led w)" using that by (rule domI)
    then have "?enc k \<in> dom (led w2)" using ks(6) w2(5) by blast
    then obtain s2 where s2: "led w2 (?enc k) = Some s2" by (rule domD [THEN exE])
    have "?sto k = Ok s" using synced_known [OF assms(6) _ that] by simp
    moreover have "?sto k = Ok s2" using synced_known [OF w2(4) _ s2] by simp
    ultimately show ?thesis using s2 by simp
  qed
  with w2 show ?thesis by blast
qed

theorem rejected_block_is_undone_witness:
  "\<exists>w1 w2. ExecuteNow sample NewFaucet [sampleTx] sampleWorld
       = (Ok (map Some [keyA, keyB], [sampleTx\<lparr>tx_Status := True\<rparr>]), w1) \<and> led w1 keyA = Some \<lparr>as_Nonce = 1, as_Balance = 95\<rparr>
     \<and> Executer_waitForFinality sample (map Some [keyA, keyB]) False w1 = (Ok (), w2) \<and> led w2 keyA = Some stateA"
proof -
  obtain w1 where w1: "ExecuteNow sample NewFaucet [sampleTx] sampleWorld
       = (Ok (map Some [keyA, keyB], [sampleTx\<lparr>tx_Status := True\<rparr>]), w1)" "led w1 = ledgerAfter"
    using ExecuteNow_sample [of "()" NewFaucet] by blast
  have "generator_ok NewFaucet" by (simp add: generator_ok_def NewFaucet_def)
  from rejected_block_is_undone [OF node_ok_sample [of "()"] _ callers_ok_sample(1) this _ _ w1(1)] db_decodes_sample [of "()"] synced_sample [of "()"]
  obtain w2 where "Executer_waitForFinality sample (map Some [keyA, keyB]) False w1 = (Ok (), w2)"
      "\<forall>k s. led sampleWorld k = Some s \<longrightarrow> led w2 k = Some s" by auto
  moreover from this(2) have "led w2 keyA = Some stateA" by (simp add: mem_state_sample)
  ultimately show ?thesis using w1 by (auto simp: ledgerAfter_def)
qed

text \<open>
  C16: What \<open>transferImpl\<close> does to the sum of all balances, on every branch, in a memory in which no balance
  is above the generator's endowment. The sum stays what it was, except when the credit is refused with
  \<open>overflow\<close>: the debit has been made already, so the amount is missing from memory. No balance gets above
  the endowment. While the sum itself is within the endowment the overflow branch is never taken, and
  the sum stays within it.
\<close>

theorem transfer_conserves_supply:
  assumes "idle ms" "mem_wf (stateMem ms)" "balances_ok (mem_state (stateMem ms))"
    "transferImpl E (Some from) nonce (Some to) amount ms = (r, ms')"
  shows "total_supply (mem_state (stateMem ms')) + (if r = Err ''overflow'' then unat amount else 0) = total_supply (mem_state (stateMem ms))
     \<and> balances_ok (mem_state (stateMem ms')) \<and> mem_wf (stateMem ms')
     \<and> (ledger_ok (mem_state (stateMem ms)) \<longrightarrow> r \<noteq> Err ''overflow'' \<and> ledger_ok (mem_state (stateMem ms')))"
proof -
  let ?a = "Transfer from nonce to amount" and ?L = "mem_state (stateMem ms)"
  obtain md' p n' where run: "transferImpl E (Some from) nonce (Some to) amount ms
       = (fst (act_run (b58_Encode E) ?a ?L), svc ms md' p n')" "mem_wf md'"
      "mem_state md' = snd (act_run (b58_Encode E) ?a ?L)"
    using impl_of_refines [OF assms(2), of ?a E ms "nextCh ms"] unfolding svc_idle [OF assms(1)]
    by (auto simp: impl_of_def)
  then have "ledger_transfer (b58_Encode E from) nonce (b58_Encode E to) amount ?L = (r, mem_state (stateMem ms'))"
    using assms(4) by (simp add: prod_eq_iff)
  from ledger_transfer_balances [OF assms(3) this] ledger_transfer_supply [of ?L "b58_Encode E from" nonce "b58_Encode E to" amount] this
  show ?thesis using run assms(4) by auto
qed

theorem transfer_conserves_supply_witness:
  "(\<exists>r ms'. transferImpl sample (Some keyA) 0 (Some keyB) 5 sampleMem = (r, ms') \<and> r \<noteq> Err ''overflow''
     \<and> total_supply (mem_state (stateMem ms')) = total_supply (mem_state sampleDb))
   \<and> (\<exists>ms'. transferImpl sample (Some keyA) 0 (Some keyB) 5 richMem = (Err ''overflow'', ms')
     \<and> total_supply (mem_state (stateMem ms')) + 5 = total_supply (mem_state richDb))"
proof -
  obtain r ms1 where 1: "transferImpl sample (Some keyA) 0 (Some keyB) 5 sampleMem = (r, ms1)" by fastforce
  obtain ms2 where 2: "transferImpl sample (Some keyA) 0 (Some keyB) 5 richMem = (Err ''overflow'', ms2)" using rich_transfer [of "()"] by blast
  have "r \<noteq> Err ''overflow'' \<and> total_supply (mem_state (stateMem ms1)) = total_supply (mem_state sampleDb)"
    using transfer_conserves_supply [OF _ _ _ 1] ledger_ok_sample ledger_ok_balances [OF ledger_ok_sample] by (simp split: if_splits)
  moreover have "total_supply (mem_state (stateMem ms2)) + 5 = total_supply (mem_state richDb)"
    using transfer_conserves_supply [OF _ _ _ 2] balances_ok_rich by simp
  ultimately show ?thesis using 1 2 by blast
qed

text \<open>
  The same for \<open>airdropImpl\<close>, which may create the account of the receiver.
\<close>

theorem airdrop_conserves_supply:
  assumes "idle ms" "mem_wf (stateMem ms)" "ledger_ok (mem_state (stateMem ms))"
    "airdropImpl E (Some to) nonce (Some from) amount ms = (r, ms')"
  shows "total_supply (mem_state (stateMem ms')) = total_supply (mem_state (stateMem ms))
     \<and> ledger_ok (mem_state (stateMem ms')) \<and> mem_wf (stateMem ms') \<and> r \<noteq> Err ''overflow''"
proof -
  let ?a = "Airdrop to nonce from amount" and ?L = "mem_state (stateMem ms)"
  obtain md' p n' where "airdropImpl E (Some to) nonce (Some from) amount ms
       = (fst (act_run (b58_Encode E) ?a ?L), svc ms md' p n')" "mem_wf md'"
      "mem_state md' = snd (act_run (b58_Encode E) ?a ?L)"
    using impl_of_refines [OF assms(2), of ?a E ms "nextCh ms"] unfolding svc_idle [OF assms(1)]
    by (auto simp: impl_of_def)
  then show ?thesis using act_run_supply [OF assms(3), of "b58_Encode E" ?a] assms(4) by auto
qed

theorem airdrop_conserves_supply_witness:
  "\<exists>r ms'. airdropImpl sample (Some (replicate 32 (CHR ''c''))) 0 (Some keyA) 9 sampleMem = (r, ms')
     \<and> total_supply (mem_state (stateMem ms')) = total_supply (mem_state sampleDb)"
proof -
  obtain r ms' where "airdropImpl sample (Some (replicate 32 (CHR ''c''))) 0 (Some keyA) 9 sampleMem = (r, ms')"
    by (cases "airdropImpl sample (Some (replicate 32 (CHR ''c''))) 0 (Some keyA) 9 sampleMem")
  with airdrop_conserves_supply [OF _ _ _ this] ledger_ok_sample show ?thesis by simp
qed

text \<open>
  C26: What a transfer with the expected nonce and a covered amount does, whoever the receiver is. The
  sender's nonce is bumped and the service is ready for the next request in every case, and no third account changes.
  To an unknown account the call fails with \<open>not found the key\<close> and no money moves; to the sender itself
  it succeeds and no money moves; to another known account it moves exactly the amount, or fails with
  \<open>overflow\<close>, the sender already debited, when the receiver would exceed the generator's endowment.
\<close>

theorem transfer_moves_amount:
  assumes "idle ms" "mem_wf (stateMem ms)" "mem_state (stateMem ms) (b58_Encode E from) = Some s" "as_Nonce s = nonce"
    "unat amount \<le> unat (as_Balance s)" "\<forall>t. mem_state (stateMem ms) (b58_Encode E to) = Some t \<longrightarrow> state_ok t"
  shows "\<exists>r ms'. transferImpl E (Some from) nonce (Some to) amount ms = (r, ms') \<and> idle ms'
     \<and> (r, mem_state (stateMem ms')) =
        (let L = mem_state (stateMem ms); f = b58_Encode E from;
             bumped = s\<lparr>as_Nonce := nonce + 1\<rparr>; debited = bumped\<lparr>as_Balance := as_Balance s - amount\<rparr> in
         case L (b58_Encode E to) of
           None \<Rightarrow> (Err ''not found the key'', L(f \<mapsto> bumped))
         | Some t \<Rightarrow>
             if b58_Encode E to = f then (Ok (), L(f \<mapsto> bumped))
             else if unat (as_Balance t) + unat amount \<le> unat GeneratorBalance
             then (Ok (), L(f \<mapsto> debited, b58_Encode E to \<mapsto> t\<lparr>as_Balance := as_Balance t + amount\<rparr>))
             else (Err ''overflow'', L(f \<mapsto> debited)))"
proof -
  let ?L = "mem_state (stateMem ms)"
  have "nonce_ready (b58_Encode E from) nonce ?L" using assms(3,4) by (simp add: nonce_ready_def)
  from transferImpl_ready [OF assms(2) this, of ms to amount "nextCh ms"]
  obtain md n where run: "transferImpl E (Some from) nonce (Some to) amount ms
      = (fst (ledger_transfer (b58_Encode E from) nonce (b58_Encode E to) amount ?L), svc ms md None n)"
    "mem_state md = snd (ledger_transfer (b58_Encode E from) nonce (b58_Encode E to) amount ?L)"
    unfolding svc_idle [OF assms(1)] lands_def by blast
  show ?thesis
    by (rule exI, rule exI, intro conjI, rule run(1))
      (use run(2) ledger_transfer_covered [where L = ?L, OF assms(3-6)] in \<open>simp_all add: Let_def prod_eq_iff\<close>)
qed

theorem transfer_moves_amount_witness:
  "(\<exists>ms'. transferImpl sample (Some keyA) 0 (Some keyB) 5 sampleMem = (Ok (), ms') \<and> idle ms'
     \<and> mem_state (stateMem ms') keyA = Some \<lparr>as_Nonce = 1, as_Balance = 95\<rparr>
     \<and> mem_state (stateMem ms') keyB = Some \<lparr>as_Nonce = 3, as_Balance = 12\<rparr>)
   \<and> (\<exists>ms'. transferImpl sample (Some keyA) 0 (Some (replicate 32 (CHR ''c''))) 5 sampleMem = (Err ''not found the key'', ms')
     \<and> mem_state (stateMem ms') keyA = Some \<lparr>as_Nonce = 1, as_Balance = 100\<rparr>)"
proof -
  have g: "unat GeneratorBalance = 10000000000000000000" by (rule unat_GeneratorBalance)
  have b: "\<forall>t. mem_state sampleDb (b58_Encode sample k) = Some t \<longrightarrow> state_ok t" for k
    using balances_ok_state [OF ledger_ok_balances [OF ledger_ok_sample]] by blast
  show ?thesis
    using transfer_moves_amount [of sampleMem sample keyA stateA 0 5 keyB] transfer_moves_amount [of sampleMem sample keyA stateA 0 5 "replicate 32 (CHR ''c'')"]
      b [of keyB] b [of "replicate 32 (CHR ''c'')"] g
    by (auto simp: mem_state_sample stateA_def stateB_def keyA_def keyB_def)
qed

text \<open>
  An airdrop to a key memory does not know, with nonce 0 and a covered amount, creates the
  account with that balance and nonce 1 and takes the amount from the generator.
\<close>

theorem airdrop_creates_account:
  assumes "idle ms" "mem_wf (stateMem ms)" "ledger_ok (mem_state (stateMem ms))"
    "mem_state (stateMem ms) (b58_Encode E gen) = Some g" "mem_state (stateMem ms) (b58_Encode E to) = None"
    "unat amount \<le> unat (as_Balance g)"
  shows "\<exists>ms'. airdropImpl E (Some to) 0 (Some gen) amount ms = (Ok (), ms') \<and> idle ms'
     \<and> mem_state (stateMem ms') = (mem_state (stateMem ms))(
         b58_Encode E gen \<mapsto> g\<lparr>as_Balance := as_Balance g - amount\<rparr>,
         b58_Encode E to \<mapsto> \<lparr>as_Nonce = 1, as_Balance = amount\<rparr>)"
proof -
  let ?L = "mem_state (stateMem ms)"
  have "ledger_airdrop (b58_Encode E to) 0 (b58_Encode E gen) amount ?L = (Ok (), ?L(
         b58_Encode E gen \<mapsto> g\<lparr>as_Balance := as_Balance g - amount\<rparr>,
         b58_Encode E to \<mapsto> \<lparr>as_Nonce = 1, as_Balance = amount\<rparr>))"
    by (rule ledger_airdrop_new [OF assms(3-6)])
  with airdropImpl_ready [OF assms(2), of E gen ms to 0 amount "nextCh ms"] assms(4)
  show ?thesis unfolding svc_idle [OF assms(1)] by (auto simp: lands_def)
qed

theorem airdrop_creates_account_witness:
  "\<exists>ms'. airdropImpl sample (Some (replicate 32 (CHR ''c''))) 0 (Some keyA) 9 sampleMem = (Ok (), ms') \<and> idle ms'
     \<and> mem_state (stateMem ms') (replicate 32 (CHR ''c'')) = Some \<lparr>as_Nonce = 1, as_Balance = 9\<rparr>"
  using airdrop_creates_account [of sampleMem sample keyA stateA "replicate 32 (CHR ''c'')" 9] ledger_ok_sample
  by (auto simp: mem_state_sample stateA_def keyA_def keyB_def)


section \<open>Where execution goes wrong\<close>

text \<open>
  C34: A transfer with a nonce that is not the expected one, or from an unknown sender, stops the
  executer for ever: \<open>transferImpl\<close> returns without reading the second reply, the memory service
  waits for its reader, and the revert that follows waits for the memory service.
\<close>

theorem invalid_nonce_hangs:
  assumes "node_ok E w" "db_decodes E (w_db w)" "action_of f tx = Transfer from nonce to amount"
    "callers_ok [tx]" "generator_ok f" "\<not> nonce_ready (b58_Encode E from) nonce (led w)"
  shows "fst (ExecuteNow E f (tx # txs) w) = Blocked"
proof -
  have "\<forall>k\<in>set (act_keys (action_of f tx)). is_Ok (db_state E (w_db w) k)"
    using assms(2,4,5) act_keys_size [of tx f] by (auto simp: db_decodes_def callers_ok_def)
  then show ?thesis using ExecuteNow_loop_hangs [OF assms(1), of tx f txs "[]"] callers_not_nil [OF assms(4)] assms(3,6)
    by (simp add: ExecuteNow_def del: ExecuteNow_loop.simps)
qed

theorem invalid_nonce_hangs_witness:
  "fst (ExecuteNow sample NewFaucet [transferTx 4 5 keyB] sampleWorld) = Blocked"
proof -
  have a: "action_of NewFaucet (transferTx 4 5 keyB) = Transfer keyA 4 keyB 5"
    by (rule action_of_transferTx) (simp_all add: GeneratorBalance_def)
  show ?thesis
    by (rule invalid_nonce_hangs [OF node_ok_sample [of "()"] _ a])
      (simp_all add: db_decodes_sample [of "()"] nonce_ready_def mem_state_sample stateA_def callers_ok_def generator_ok_New)
qed

text \<open>
  C35: A push of more than eleven accounts never returns: all the requests are sent before the first
  reply is read, the service takes one and its channel holds ten.
\<close>

theorem push_limit:
  assumes "idle (w_mem w)" "11 < length ks" "known E (stateMem (w_mem w)) (hd ks)"
  shows "\<exists>w'. PushAccounts E (map Some ks) w = (Blocked, w')"
  using assms by (rule PushAccounts_blocked)

theorem push_limit_witness:
  "\<exists>w'. PushAccounts sample (map Some (replicate 12 keyA)) sampleWorld = (Blocked, w')"
  by (rule push_limit) (simp_all add: known_def sampleDb_def)

text \<open>
  C36: The revert of a failed transaction undoes earlier transactions of the same block. After a
  transfer and a second transfer of the same sender that its remaining balance does not cover, the
  sender has its old balance and its old nonce, and the receiver keeps the amount: the supply grew.
\<close>

theorem revert_creates_money:
  assumes "node_ok E w" "b58_ok E" "ledger_ok (led w)" "synced (b58_Encode E) (db_state E (w_db w)) [] (led w)"
    "callers_ok [tx1, tx2]" "action_of f tx1 = Transfer a n c amount" "action_of f tx2 = Transfer a (n + 1) b amount2"
    "a \<noteq> c" "b \<noteq> c" "led w (b58_Encode E a) = Some s" "led w (b58_Encode E b) = Some u"
    "led w (b58_Encode E c) = Some t" "as_Nonce s = n" "unat amount \<le> unat (as_Balance s)"
    "unat (as_Balance s) - unat amount < unat amount2"
  shows "\<exists>ex ts w'. ExecuteNow E f [tx1, tx2] w = (Ok (ex, ts), w') \<and> led w' (b58_Encode E a) = Some s
     \<and> total_supply (led w') = total_supply (led w) + unat amount"
proof -
  let ?enc = "b58_Encode E" and ?t = "t\<lparr>as_Balance := as_Balance t + amount\<rparr>"
  have inj: "inj ?enc" using b58_inj [OF assms(2)] by (auto intro: injI)
  obtain ks ts where blk: "ledger_block ?enc (db_state E (w_db w)) f [tx1, tx2] [] (led w)
      = Some (ks, ts, (led w)(?enc c \<mapsto> ?t))"
    using ledger_block_revert [OF inj assms(3,4,6-15)] by blast
  then obtain ms' where ex: "ExecuteNow E f [tx1, tx2] w = (Ok (map Some ks, ts), w\<lparr>w_mem := ms'\<rparr>)"
      "mem_state (stateMem ms') = (led w)(?enc c \<mapsto> ?t)"
    using ExecuteNow_loop_block [OF assms(1) callers_not_nil [OF assms(5)], of f "[]"]
    by (auto simp: ExecuteNow_def simp del: ledger_block.simps ExecuteNow_loop.simps)
  have "?enc a \<noteq> ?enc c" using inj assms(8) by (simp add: inj_eq)
  have "unat (as_Balance t) + unat amount \<le> unat GeneratorBalance"
    by (rule two_balances [OF assms(3) \<open>?enc a \<noteq> ?enc c\<close> assms(10,12,14)])
  then have "total_supply ((led w)(?enc c \<mapsto> ?t)) = total_supply (led w) + unat amount"
    using supply_update [of "led w" "?enc c" ?t] assms(3,12) unat_Add [of t amount]
    by (simp add: ledger_ok_def balance_of_def)
  then show ?thesis using ex assms(10) \<open>?enc a \<noteq> ?enc c\<close> by auto
qed

theorem revert_creates_money_witness:
  "\<exists>ex ts w'. ExecuteNow sample NewFaucet [transferTx 0 5 keyB, transferTx 1 96 keyA] sampleWorld = (Ok (ex, ts), w')
     \<and> led w' keyA = Some stateA \<and> total_supply (led w') = total_supply (led sampleWorld) + 5"
proof -
  have a: "action_of NewFaucet (transferTx 0 5 keyB) = Transfer keyA 0 keyB 5"
    "action_of NewFaucet (transferTx 1 96 keyA) = Transfer keyA (0 + 1) keyA 96"
    by (simp_all add: action_of_transferTx GeneratorBalance_def)
  from revert_creates_money [OF node_ok_sample [of "()"] _ _ _ callers_ok_sample(2) a, of stateA stateA stateB]
  show ?thesis using ledger_ok_sample synced_sample [of "()"]
    by (simp add: mem_state_sample stateA_def)
qed

text \<open>
  C37: The nonce of a transaction is not covered by its signature. From a transaction that verifies,
  anyone can make another one with the same call and any other nonce that verifies as well.
\<close>

theorem nonce_is_not_signed:
  assumes "Transaction_Verify L tx = Ok True" "hash_ok L"
  shows "Transaction_Verify L \<lparr>tx_Hash = Some (Sum256 L (Marshal TransactionData_to_json
         ((tx_InnerData tx)\<lparr>td_Nonce := nonce\<rparr>))),
       tx_InnerData = (tx_InnerData tx)\<lparr>td_Nonce := nonce\<rparr>, tx_Status = False\<rparr> = Ok True"
  using assms
  by (auto simp: Transaction_Verify_def CheckContents_def HashSize_def Let_def split: if_splits)

theorem nonce_is_not_signed_witness:
  "Transaction_Verify sample \<lparr>tx_Hash = Some (Sum256 sample (Marshal TransactionData_to_json
         ((tx_InnerData sampleTx)\<lparr>td_Nonce := 1\<rparr>))),
       tx_InnerData = (tx_InnerData sampleTx)\<lparr>td_Nonce := 1\<rparr>, tx_Status = False\<rparr> = Ok True"
  by (rule nonce_is_not_signed [OF sampleTx_Verify [of "()"]]) simp


section \<open>Memory\<close>

text \<open>
  C27: The state hash depends on the accounts only. Two nodes whose memories hold the same accounts
  compute the same hash, whatever order their maps are iterated in, however \<open>slices.SortFunc\<close>
  arranges equal elements and wherever the states are in the heap; and the hash is the Merkle root
  over the sorted digests, padded to a power of two.
\<close>

theorem state_hash_deterministic:
  assumes "env_ok E1" "env_ok E2" "Sum256 E1 = Sum256 E2" "b58_Decode E1 = b58_Decode E2"
    "mem_wf (stateMem ms1)" "mem_wf (stateMem ms2)" "mem_state (stateMem ms1) = mem_state (stateMem ms2)"
    "card (dom (mem_state (stateMem ms1))) \<le> 2 ^ 62"
  shows "\<exists>k. MemoryService_GetStateHash E1 ms1 = Ok (merkle_root E1 k (state_leaves E1 (stateMem ms1) k))
     \<and> card (dom (mem_state (stateMem ms1))) \<le> 2 ^ k
     \<and> MemoryService_GetStateHash E2 ms2 = MemoryService_GetStateHash E1 ms1"
proof -
  have b: "length (dbMap (stateMem ms1)) \<le> 2 ^ 62" using assms(5,8) by (simp add: card_ledger)
  obtain k where "length (dbMap (stateMem ms1)) \<le> 2 ^ k" "\<forall>j<k. 2 ^ j < length (dbMap (stateMem ms1))"
      "MemoryService_GetStateHash E1 ms1 = Ok (merkle_root E1 k (state_leaves E1 (stateMem ms1) k))"
    by (rule GetStateHash_root [OF assms(1) b])
  then show ?thesis using GetStateHash_ledger [OF assms] assms(5) by (auto simp: card_ledger)
qed

definition otherDb :: MemoryDb where
  "otherDb = \<lparr>dbMap = [(keyB, 2), (keyA, 0)], heap = [stateA, zeroState, stateB]\<rparr>"

theorem state_hash_deterministic_witness:
  "MemoryService_GetStateHash (sample\<lparr>rangeDb := rev\<rparr>) (sampleMem\<lparr>stateMem := otherDb\<rparr>)
     = MemoryService_GetStateHash sample sampleMem"
proof -
  have "env_ok (sample\<lparr>rangeDb := rev\<rparr>)" using env_ok_sample [of "()"] by (simp add: env_ok_def hash_ok_def b58_ok_def)
  moreover have "mem_wf otherDb" "mem_state otherDb = mem_state sampleDb"
    by (auto simp: mem_wf_def otherDb_def mem_state_def sampleDb_def fun_eq_iff)
  moreover have "card (dom (mem_state sampleDb)) \<le> 2 ^ 62" by (simp add: mem_state_sample card_insert_if)
  ultimately show ?thesis
    using state_hash_deterministic [of sample "sample\<lparr>rangeDb := rev\<rparr>" sampleMem "sampleMem\<lparr>stateMem := otherDb\<rparr>"]
    by auto
qed

text \<open>
  C40: For a block, the mempool hands out the largest power of two of the transactions it has (so
  that the Merkle tree over them exists): some of its own, by ascending nonce, more than half of
  them, and none only when it is empty.
\<close>

theorem txs_for_block:
  assumes "env_ok E" "length (pool mp) < 2 ^ 62" "pool mp \<noteq> []"
  shows "\<exists>ts k. Mempool_GetTxsForBlock E mp = Ok (Some ts) \<and> length ts = 2 ^ k
     \<and> 2 ^ k \<le> length (pool mp) \<and> length (pool mp) < 2 * 2 ^ k \<and> mset ts \<subseteq># mset (map snd (pool mp))
     \<and> sorted (map (\<lambda>t. td_Nonce (tx_InnerData t)) ts) \<and> (\<exists>h. TxBundle_HashTransactions E \<lparr>Transactions = Some ts\<rparr> = Ok h)"
proof -
  obtain ts k where t: "Mempool_GetTxsForBlock E mp = Ok (Some ts)" "length ts = 2 ^ k"
      "2 ^ k \<le> length (pool mp)" "length (pool mp) < 2 ^ Suc k" "mset ts \<subseteq># mset (map snd (pool mp))"
      "sorted (map (\<lambda>t. td_Nonce (tx_InnerData t)) ts)"
    using GetTxsForBlock_cases [OF assms(1,2)] assms(3) by auto
  have "(2::nat) ^ k < 2 ^ 62" using t(3) assms(2) by (rule le_less_trans)
  then have "k < 62" by (rule power_less_imp_less_exp [rotated]) simp
  then have "\<exists>h. TxBundle_HashTransactions E \<lparr>Transactions = Some ts\<rparr> = Ok h"
    using HashTransactions_root [of "\<lparr>Transactions = Some ts\<rparr>" ts k E] t(2) by simp
  with t show ?thesis by auto
qed

theorem txs_for_block_witness:
  "\<exists>ts k. Mempool_GetTxsForBlock sample \<lparr>pool = [(''t'', transferTx 1 5 keyB), (''u'', sampleTx), (''v'', sampleTx)]\<rparr>
       = Ok (Some ts) \<and> length ts = 2 ^ k \<and> 2 ^ k \<le> (3::nat) \<and> (3::nat) < 2 * 2 ^ k"
  using txs_for_block [OF env_ok_sample [of "()"], of "\<lparr>pool = [(''t'', transferTx 1 5 keyB), (''u'', sampleTx), (''v'', sampleTx)]\<rparr>"]
  by auto

text \<open>
  The mempool is a map from encoded hashes to transactions: after an append the transaction is
  found under its hash and every other key answers as before; after the removal of the keys of a
  bundle exactly those keys are gone.
\<close>

theorem mempool_is_a_map:
  assumes "pool_wf mp"
  shows "pool_wf (Mempool_Append E tx mp) \<and> pool_wf (Mempool_Remove (TxBundle_ToKeys E b) mp)
     \<and> (Mempool_Contains key (Mempool_Append E tx mp)
          \<longleftrightarrow> key = b58_Encode E (bytes_of (tx_Hash tx)) \<or> Mempool_Contains key mp)
     \<and> (Mempool_Contains key (Mempool_Remove (TxBundle_ToKeys E b) mp)
          \<longleftrightarrow> key \<notin> set (TxBundle_ToKeys E b) \<and> Mempool_Contains key mp)"
  using assms
  by (simp add: Contains_pool_get Append_pool_put Remove_pool_delete mpool.get_put mpool.get_removes
      mpool.inv_put mpool.inv_removes)

theorem mempool_is_a_map_witness:
  "Mempool_Contains (sample_hash (Marshal TransactionData_to_json (sampleData 0 5 keyB)))
     (Mempool_Append sample sampleTx NewMempool)"
  using mempool_is_a_map [where mp = NewMempool and E = sample and tx = sampleTx
      and key = "sample_hash (Marshal TransactionData_to_json (sampleData 0 5 keyB))"]
  by (simp add: sampleTx_def transferTx_def)

section \<open>Storage\<close>

text \<open>
  C23: The blocks that are put into a database stay readable. After any sequence of blocks that fit, with
  different hashes and heights, each of them, not only the last, is found by its hash and by its height and decodes to
  the block that was put; the last one is the latest, with its key and index; and no account has changed.
\<close>

theorem stored_blocks_are_found:
  assumes "bolt_ok E" "bucket_ok blocksBucket db" "\<forall>b\<in>set (bs @ [l]). block_storable b"
    "distinct (map Block_GetKey (bs @ [l]))" "distinct (map (\<lambda>b. bi_Height (bl_Info b)) (bs @ [l]))"
  shows "\<exists>db'. put_blocks E (bs @ [l]) db = (Ok (), db')
     \<and> (\<forall>b\<in>set (bs @ [l]). \<exists>raw. Block_Unmarshal raw = Ok b
          \<and> StorageService_get E BlocksBucket RefKey (bi_Hash (bl_Info b)) db' = Ok (Some raw)
          \<and> StorageService_get E BlocksBucket RefIndex (Some (ToHex (bi_Height (bl_Info b)))) db' = Ok (Some raw))
     \<and> (\<exists>raw. Block_Unmarshal raw = Ok l \<and> StorageService_get E BlocksBucket RefLatest None db' = Ok (Some raw))
     \<and> StorageService_get E BlocksBucket RefLatestKey None db' = Ok (Some (bytes_of (bi_Hash (bl_Info l))))
     \<and> StorageService_get E BlocksBucket RefLatestIndex None db' = Ok (Some (ToHex (bi_Height (bl_Info l))))
     \<and> db_state E db' = db_state E db"
proof -
  obtain db' where db': "put_blocks E (bs @ [l]) db = (Ok (), db')"
    "bucket_get E blocksBucket db' = fold with_block (bs @ [l]) (bucket_get E blocksBucket db)" "bucket_ok blocksBucket db'"
    "\<And>n. n \<noteq> blocksBucket \<Longrightarrow> bucket_get E n db' = bucket_get E n db"
    using put_blocks_ok [OF assms(1-3)] by blast
  have "accountsBucket \<noteq> blocksBucket" by (simp add: accountsBucket_def blocksBucket_def)
  then have "db_state E db' = db_state E db" using db'(4) by (simp add: fun_eq_iff db_state_def)
  moreover have "\<forall>b\<in>set (bs @ [l]). holds_block E db' b" by (rule holds_all_blocks [OF db'(3) assms(3-5) db'(2)])
  then have "\<forall>b\<in>set (bs @ [l]). \<exists>raw. Block_Unmarshal raw = Ok b
      \<and> StorageService_get E BlocksBucket RefKey (bi_Hash (bl_Info b)) db' = Ok (Some raw)
      \<and> StorageService_get E BlocksBucket RefIndex (Some (ToHex (bi_Height (bl_Info b)))) db' = Ok (Some raw)"
    using assms(3) block_db.decode unfolding holds_block_def Block_GetKey_def Block_GetIndex_def DbContent_ToBytes.simps by blast
  moreover have "block_storable l" using assms(3) by simp
  note k = with_block_keys [OF this] and de = block_db.decode [OF this]
  have "StorageService_get E BlocksBucket RefLatest None db' = Ok (Some (Block_ToBytes l))"
    "StorageService_get E BlocksBucket RefLatestKey None db' = Ok (Some (bytes_of (bi_Hash (bl_Info l))))"
    "StorageService_get E BlocksBucket RefLatestIndex None db' = Ok (Some (ToHex (bi_Height (bl_Info l))))"
    using db'(2) k by (simp_all add: StorageService_get_def StorageDb_gets [OF db'(3)] Let_def) (simp_all add: Block_GetKey_def Block_GetIndex_def)
  ultimately show ?thesis using db'(1) de by auto
qed

definition sampleBlock :: "uint64 \<Rightarrow> bytes \<Rightarrow> Block" where
  "sampleBlock height hash = (let b = NewBlock height (Some keyA) \<lparr>Transactions = None\<rparr> None None 1 in b\<lparr>bl_Info := (bl_Info b)\<lparr>bi_Hash := Some hash\<rparr>\<rparr>)"

lemma sampleBlock_storable: "length hash = 32 \<Longrightarrow> block_storable (sampleBlock height hash)"
proof -
  assume h: "length hash = 32"
  have "length (Block_ToBytes (sampleBlock height hash)) \<le> 2147483646"
    using length_b64_encode [of keyA] length_b64_encode [of hash] length_enc_uint [of height] h
    by (simp add: Block_ToBytes_def Marshal_def Block_to_json_def BlockInfo_to_json_def TxBundle_to_json_def
        enc_bytes_def enc_int64_def enc_list_def sampleBlock_def NewBlock_def plain_def dec_digits.simps)
  with h show ?thesis by (simp add: block_storable_def sampleBlock_def Let_def)
qed

theorem stored_blocks_are_found_witness:
  "\<exists>db' raw. put_blocks sample [sampleBlock 3 keyA, sampleBlock 4 keyB] sampleStorage = (Ok (), db')
     \<and> Block_Unmarshal raw = Ok (sampleBlock 3 keyA) \<and> StorageService_get sample BlocksBucket RefKey (Some keyA) db' = Ok (Some raw)"
proof -
  let ?b = "sampleBlock 3 keyA" and ?l = "sampleBlock 4 keyB"
  have "bucket_ok blocksBucket sampleStorage" by (simp add: bucket_ok_def sampleStorage_def)
  moreover have "\<forall>b\<in>set ([?b] @ [?l]). block_storable b" by (simp add: sampleBlock_storable)
  moreover have sel: "bl_Info (sampleBlock h k) = \<lparr>bi_Height = h, bi_Hash = Some k, bi_Signature = None, bi_PublicKey = Some keyA, bi_Timestamp = 1\<rparr>" for h k
    by (simp add: sampleBlock_def NewBlock_def Let_def)
  then have "distinct (map Block_GetKey ([?b] @ [?l]))" "distinct (map (\<lambda>b. bi_Height (bl_Info b)) ([?b] @ [?l]))"
    by (simp_all add: Block_GetKey_def keyA_def keyB_def)
  ultimately show ?thesis using stored_blocks_are_found [OF bolt_ok_sample [of "()"], of sampleStorage "[?b]" ?l] sel by auto
qed

text \<open>
  Up to eleven accounts that memory knows can be pushed to the database, and fetching them again
  gives memory the ledger it had: what is written is what is read.
\<close>

theorem push_then_fetch:
  assumes "node_ok E w" "b58_ok E" "list_all (known E (stateMem (w_mem w))) ks" "length ks \<le> 11"
  shows "\<exists>w1 w2. PushAccounts E (map Some ks) w = (Ok (), w1) \<and> led w1 = led w
     \<and> (\<forall>k. db_state E (w_db w1) k = (if k \<in> set ks then Ok (the (led w (b58_Encode E k))) else db_state E (w_db w) k))
     \<and> FetchAccounts E (map Some ks) w1 = (Ok (), w2) \<and> led w2 = led w \<and> node_ok E w2"
proof -
  let ?enc = "b58_Encode E"
  have node: "bolt_ok E" "bucket_ok accountsBucket (w_db w)" "idle (w_mem w)" "mem_wf (stateMem (w_mem w))"
    using assms(1) by (simp_all add: node_ok_def)
  have inj: "inj ?enc" using b58_inj [OF assms(2)] by (auto intro: injI)
  obtain db n where p: "PushAccounts E (map Some ks) w
        = (Ok (), w\<lparr>w_mem := svc (w_mem w) (stateMem (w_mem w)) None n, w_db := db\<rparr>)"
      "bucket_get E accountsBucket db = pushed E (led w) ks (bucket_get E accountsBucket (w_db w))"
      "\<forall>name. bucket_ok name db = bucket_ok name (w_db w)"
      "\<forall>name. name \<noteq> accountsBucket \<longrightarrow> bucket_get E name db = bucket_get E name (w_db w)"
    by (rule PushAccounts_ok [OF node(1-3) assms(3,4)])
  let ?w1 = "w\<lparr>w_mem := svc (w_mem w) (stateMem (w_mem w)) None n, w_db := db\<rparr>"
  have st: "db_state E db k = (if k \<in> set ks then Ok (the (led w (?enc k))) else db_state E (w_db w) k)" for k
    by (rule db_state_pushed [OF p(2)])
  have ok: "node_ok E ?w1" using node p(3) by (simp add: node_ok_def)
  obtain L where L: "reverted ?enc (db_state E db) ks (led w) = Some L"
    by (simp add: reverted_def list_all_iff st is_Ok_def)
  with Fetch_reverted [OF ok assms(4)] obtain ms' where f: "FetchAccounts E (map Some ks) ?w1 = (Ok (), ?w1\<lparr>w_mem := ms'\<rparr>)"
      "node_ok E (?w1\<lparr>w_mem := ms'\<rparr>)" "mem_state (stateMem ms') = L" by auto
  have "L = led w"
  proof
    fix j
    note ra = reverted_apply [OF inj L]
    show "L j = led w j"
    proof (cases "j \<in> ?enc ` set ks")
      case True
      then obtain k where k: "k \<in> set ks" "j = ?enc k" by blast
      then have "led w (?enc k) \<noteq> None" using assms(3) by (auto simp: list_all_iff known_def mem_state_def)
      then show ?thesis using ra(1) [OF k(1)] st [of k] k by auto
    qed (rule ra(2))
  qed
  then show ?thesis using p(1) st f by (intro exI [of _ ?w1] exI [of _ "?w1\<lparr>w_mem := ms'\<rparr>"]) simp
qed

theorem push_then_fetch_witness:
  "\<exists>w1 w2. PushAccounts sample (map Some [keyA, keyB]) sampleWorld = (Ok (), w1)
     \<and> FetchAccounts sample (map Some [keyA, keyB]) w1 = (Ok (), w2) \<and> led w2 = led sampleWorld"
proof -
  have "list_all (known sample (stateMem (w_mem sampleWorld))) [keyA, keyB]" by (simp add: known_def sampleDb_def)
  from push_then_fetch [OF node_ok_sample [of "()"] _ this] show ?thesis by auto
qed

text \<open>
  A database transaction that fails, whether in a put or at its commit, leaves the database as
  it was.
\<close>

theorem failed_put_rolls_back:
  assumes "StorageService_put E bucket content db = (r, db')" "r \<noteq> Ok ()"
  shows "db' = db"
  using assms db_Update_rollback
  by (auto simp: StorageService_put_def StorageDb_Put_def split: option.splits)

theorem failed_put_rolls_back_witness:
  "StorageService_put sample BlocksBucket (Some (BlockContent (NewBlock 3 (Some keyA) \<lparr>Transactions = None\<rparr> None None 1))) sampleStorage
     = (Err ''key required'', sampleStorage)"
proof -
  obtain db' where r: "StorageService_put sample BlocksBucket (Some (BlockContent (NewBlock 3 (Some keyA) \<lparr>Transactions = None\<rparr> None None 1))) sampleStorage
      = (Err ''key required'', db')"
    by (simp add: StorageService_put_def StorageDb_Put_def db_Update_def db_View_def sampleStorage_def
        alist_put_def NewBlock_def Block_GetKey_def Let_def)
  with failed_put_rolls_back [OF r] show ?thesis by simp
qed

section \<open>Wallets, transactions, encodings\<close>

text \<open>
  A transaction that a wallet signs verifies, and carries the key of the wallet and its nonce.
\<close>

theorem signed_transaction_verifies:
  assumes "keypair_ok L (wa_keyPair w)" "hash_ok L"
    "0 < slice_len data" "slice_len data \<le> MaxPayloadSize" "0 < sint now"
  shows "\<exists>tx. Wallet_Sign L w (NewTransaction data now) = Ok tx \<and> Transaction_Verify L tx = Ok True
     \<and> td_Nonce (tx_InnerData tx) = wa_nonce w \<and> td_PublicKey (tx_InnerData tx) = Wallet_PublicKey w
     \<and> td_Data (tx_InnerData tx) = data \<and> \<not> tx_Status tx"
  using assms by (rule Sign_Verify)

theorem signed_transaction_verifies_witness:
  "\<exists>tx. Wallet_Sign sample sampleWallet (NewTransaction (Some ''call'') 1) = Ok tx \<and> Transaction_Verify sample tx = Ok True"
  using signed_transaction_verifies [of sample sampleWallet "Some ''call''" 1] by (auto simp: sampleWallet_def MaxPayloadSize_def)

text \<open>
  Verification of a block never panics, whatever bytes a peer sends: the size of the key is
  checked before \<open>ed25519.Verify\<close>, which panics on a wrong size, is called.
\<close>

theorem block_verify_never_panics: "\<exists>ok. Block_Verify L b = Ok ok"
  by (rule Block_Verify_total)

text \<open>
  A block survives its encoding: decoding the JSON text of a block gives the block, and two
  blocks have the same text only if they are equal.
\<close>

theorem block_encoding: "Block_Unmarshal (Block_ToBytes b) = Ok b \<and> (Block_ToBytes b = Block_ToBytes b' \<longleftrightarrow> b = b')"
  using Block_roundtrip [of b] Block_roundtrip [of b'] by (metis go.inject(1))

text \<open>
  A call as a client encodes it is verified exactly when its amount is positive and below the
  supply and its receiver is a key of 32 bytes; and a verified transfer decodes again.
\<close>

theorem transfer_call_verified:
  "Call_Unmarshal (Marshal Call_to_json c) = Ok c
   \<and> (Call_Verify (NewCall Rpc_Transfer (Some (Marshal TransferParam_to_json p)))
        \<longleftrightarrow> 0 < tp_Amount p \<and> tp_Amount p < GeneratorBalance \<and> slice_len (tp_To p) = PublicKeySize)
   \<and> TransferParam_Unmarshal (Marshal TransferParam_to_json p) = Ok p"
  using Call_Verify_transfer by simp

section \<open>Synchronisation and peers\<close>

text \<open>
  C5: A node catches up with a producer. The node starts with the accounts and the place in the chain the
  producer had, past the first block, with memory in step with its database and with a known peer; the
  producer then makes blocks, each of which becomes final and executes at most eleven accounts. When the
  peers answer with these blocks and the answers fit into a payload, the synchronisation loop up to the
  last height ends with the accounts in memory and in the database, and at the place in the chain, that the
  producer has now. Its blocks bucket has gained the entries of exactly these blocks, in their order, so
  that each is found by its hash and by its height when no two have the same hash.
\<close>

theorem sync_catches_up:
  assumes "env_ok E1" "env_ok E2" "same_lib E1 E2" "generator_ok f" "node_ok E1 w"
    "synced (b58_Encode E1) (db_state E1 (w_db w)) [] (led w)" "mirrors E1 E2 f w bc n"
    "chain E1 f w bc bs w' bc'" "bs \<noteq> []" "address_ok from" "\<forall>b\<in>set bs. deliverable E2 from b"
    "\<not> isSyncing (n_sync n)" "peers (sy_p2p (n_sync n)) \<noteq> []" "0 < unat (Blockchain_NextHeight bc)"
    "unat t + 1 = unat (Blockchain_NextHeight bc) + length bs" "unat t + 1 < 2 ^ 64"
  shows "\<exists>n1 n'. StartSync t n = (Ok (), n1) \<and> (sync_step E2)\<^sup>*\<^sup>* n1 n' \<and> \<not> isSyncing (n_sync n')
     \<and> led (n_world n') = led w' \<and> same_accounts f E1 (w_db w') E2 (w_db (n_world n'))
     \<and> synced (b58_Encode E2) (db_state E2 (w_db (n_world n'))) [] (led (n_world n')) \<and> blockchain n' = bc'
     \<and> stores E2 bs n n' \<and> (distinct (map Block_GetKey bs) \<longrightarrow> (\<forall>b\<in>set bs. holds_block E2 (w_db (n_world n')) b))"
proof -
  have "0 < length bs" using assms(9) by simp
  from starts_catching_up [OF assms(7,5,6,12-16) this]
  obtain n1 k where n1: "StartSync t n = (Ok (), n1)" "catching_up E1 E2 f w bc t k (length bs) n1" "stores E2 [] n n1" by blast
  from catches_up [OF assms(8,1-4,10,11) n1(2)]
  obtain n' where n': "(sync_step E2)\<^sup>*\<^sup>* n1 n'" "mirrors E1 E2 f w' bc' n'" "\<not> isSyncing (n_sync n')" "stores E2 bs n1 n'" by blast
  have st: "stores E2 bs n n'" using stores_trans [OF n1(3) n'(4)] by simp
  have "distinct (map (\<lambda>b. bi_Height (bl_Info b)) bs)"
    unfolding chain_heights [OF assms(8)] using assms(14-16) by (intro distinct_heights) simp
  then have "\<forall>b\<in>set bs. holds_block E2 (w_db (n_world n')) b" if "distinct (map Block_GetKey bs)"
    using that st n'(2) assms(11) by (intro holds_all_blocks) (auto simp: stores_def mirrors_def deliverable_def)
  with n1(1) n' st show ?thesis by (auto simp: mirrors_def)
qed

theorem sync_catches_up_witness:
  "\<exists>blk n1 n'. StartSync 7 sampleNode = (Ok (), n1) \<and> (sync_step sample)\<^sup>*\<^sup>* n1 n' \<and> \<not> isSyncing (n_sync n')
     \<and> led (n_world n') = ledgerAfter \<and> Blockchain_NextHeight (blockchain n') = 8
     \<and> bi_Height (bl_Info blk) = 7 \<and> holds_block sample (w_db (n_world n')) blk"
proof -
  obtain blk w1 w2 where b: "BlockProducer_NewBlock sample NewFaucet sampleChain sampleWallet 1 sampleWorld = (Ok (blk, map Some [keyA, keyB]), w1)"
      "led w1 = ledgerAfter" "Executer_waitForFinality sample (map Some [keyA, keyB]) True w1 = (Ok (), w2)" "node_ok sample w2"
      "led w2 = ledgerAfter" "deliverable sample samplePeer blk" "bi_Height (bl_Info blk) = 7"
    using sample_block_travels [of "()"] by blast
  have "chain sample NewFaucet sampleWorld sampleChain [blk] w2 (Blockchain_Increment (bi_Hash (bl_Info blk)) sampleChain)"
    by (rule chain.block [OF b(1) _ _ _ _ b(3,4) refl refl chain.finished])
      (use b(2) pool_callers_sample card_ledgerAfter in auto)
  moreover have "same_lib sample sample" by (simp add: same_lib_def)
  ultimately obtain n1 n' where "StartSync 7 sampleNode = (Ok (), n1)" "(sync_step sample)\<^sup>*\<^sup>* n1 n'"
      "\<not> isSyncing (n_sync n')" "led (n_world n') = led w2" "holds_block sample (w_db (n_world n')) blk"
      "blockchain n' = Blockchain_Increment (bi_Hash (bl_Info blk)) sampleChain"
    using sync_catches_up [OF env_ok_sample [of "()"] env_ok_sample [of "()"] _ generator_ok_New node_ok_sample [of "()"] _ mirrors_sample [of "()"], of "[blk]" w2
        "Blockchain_Increment (bi_Hash (bl_Info blk)) sampleChain" samplePeer 7]
      synced_sample [of "()"] b(6) sampleChain_height by auto
  with b(5,7) sampleChain_height show ?thesis
    by (intro exI [of _ blk] exI [of _ n1] exI [of _ n']) (simp add: Increment_height)
qed

text \<open>
  C6: Whatever messages peers send, and however they interleave with the loop, its timer and its
  rounds, a node that is past its first block stores only blocks that were checked. In \<open>k\<close> steps
  its chain grows by some list of at most \<open>k\<close> blocks, and its blocks bucket gains the entries of exactly these
  blocks. Each of them passes \<open>Block.Verify\<close> (the signatures of its producer and of its transactions, which
  \<open>handleBlockRes\<close> checks), has the next height and the hash of its predecessor, and has a hash that commits
  to its transactions, its predecessor and its state. In particular no block slips in through the unchecked
  case of height 0.
\<close>

theorem sync_only_links_blocks:
  assumes "(sync_step E ^^ k) n n'" "sync_inv E (blockchain n) (n_sync n)" "0 < unat (Blockchain_NextHeight (blockchain n))"
    "unat (Blockchain_NextHeight (blockchain n)) + k < 2 ^ 64" "bolt_ok E" "bolt_refuses E"
  shows "\<exists>bs. grows E (blockchain n) bs (blockchain n') \<and> length bs \<le> k \<and> stores E bs n n'
     \<and> unat (Blockchain_NextHeight (blockchain n')) = unat (Blockchain_NextHeight (blockchain n)) + length bs
     \<and> sync_inv E (blockchain n') (n_sync n')"
  using sync_run_grows [OF assms] grows_height assms(4) by fastforce

theorem sync_only_links_blocks_witness:
  "\<exists>b n'. (sync_step sample ^^ 3) sampleNode n' \<and> grows sample sampleChain [b] (blockchain n') \<and> stores sample [b] sampleNode n'"
proof -
  obtain n' where run: "(sync_step sample ^^ 3) sampleNode n'" "Blockchain_NextHeight (blockchain n') = 8" using sample_sync_run [of "()"] by blast
  have "p2p_ok (sy_p2p sampleSync)"
    by (simp add: p2p_ok_def sampleSync_def NewP2pService_def samplePeer_def NewNodeInfo_def NodeInfo_Verify_def)
  then have i: "sync_inv sample sampleChain sampleSync"
    by (simp add: sync_inv_def sampleSync_def NewSyncService_def)
  have "bolt_ok sample" using node_ok_sample [of "()"] by (simp add: node_ok_def)
  then obtain bs where bs: "grows sample sampleChain bs (blockchain n')" "stores sample bs sampleNode n'" "length bs = 1"
    using sync_only_links_blocks [OF run(1)] i run(2) sampleChain_height by auto
  then obtain b where "bs = [b]" by (cases bs) auto
  with bs run(1) show ?thesis by blast
qed

text \<open>
  C32: A block that fails the check of its state hash in the synchronisation loop is not undone. The loop
  gives up, the block is not stored and the database is as before, but memory keeps the ledger the
  refused block led to, so that memory and database disagree from then on.
\<close>

theorem refused_block_stays_in_memory:
  assumes "env_ok E" "node_ok E (n_world n)" "callers_ok (txs_of (bl_Bundle b))" "0 < bi_Height (bl_Info b)"
    "CheckBlockInfo (blockchain n) b"
    "ledger_block (b58_Encode E) (db_state E (w_db (n_world n))) (faucet n) (txs_of (bl_Bundle b)) [] (led (n_world n)) = Some (ks, ts, L)"
    "card (dom L) \<le> 2 ^ 62" "mem_wf (stateMem ms)" "mem_state (stateMem ms) = L"
    "MemoryService_GetStateHash E ms = Ok h" "bytes_of (bl_StateHash b) \<noteq> h"
  shows "\<exists>n'. sync_block E stored b n = (Ok False, n') \<and> led (n_world n') = L \<and> w_db (n_world n') = w_db (n_world n)
     \<and> blockchain n' = blockchain n \<and> \<not> isSyncing (n_sync n')"
proof -
  obtain ms' where ms': "ExecuteNow E (faucet n) (txs_of (bl_Bundle b)) (n_world n) = (Ok (map Some ks, ts), (n_world n)\<lparr>w_mem := ms'\<rparr>)"
      "node_ok E ((n_world n)\<lparr>w_mem := ms'\<rparr>)" "mem_state (stateMem ms') = L"
    using ExecuteNow_loop_block [OF assms(2) callers_not_nil [OF assms(3)], of "faucet n" "[]"] assms(6) by (auto simp: ExecuteNow_def)
  have "MemoryService_GetStateHash E ms' = Ok h"
    using GetStateHash_ledger [OF assms(1,1) refl refl assms(8), of ms'] ms'(2,3) assms(7,9,10) by (simp add: node_ok_def)
  then show ?thesis using assms(4,5,11) ms'(1,3)
    by (simp add: sync_block_def sync_execute_def Let_def CheckStateHash_def bytes_Equal_def stopSync_def)
qed

theorem refused_block_stays_in_memory_witness:
  "\<exists>b n'. sync_block sample (OnBlockStored sample 0) b sampleNode = (Ok False, n') \<and> led (n_world n') = ledgerAfter
     \<and> db_state sample (w_db (n_world n')) keyA = Ok stateA"
proof -
  define b where "b = \<lparr>bl_Info = \<lparr>bi_Height = 7, bi_Hash = Some keyA, bi_Signature = Some keyA, bi_PublicKey = Some keyA, bi_Timestamp = 1\<rparr>,
      bl_Bundle = \<lparr>Transactions = Some [sampleTx]\<rparr>, bl_PreviousBlockHash = Some keyB, bl_StateHash = None\<rparr>"
  obtain w1 where w1: "node_ok sample w1" "led w1 = ledgerAfter" using ExecuteNow_sample [of "()" NewFaucet] by blast
  have wf: "mem_wf (stateMem (w_mem w1))" "card (dom (led w1)) \<le> 2 ^ 62" using w1 card_ledgerAfter by (simp_all add: node_ok_def)
  then have "length (dbMap (stateMem (w_mem w1))) \<le> 2 ^ 62" by (simp add: card_ledger)
  then obtain k where k: "length (dbMap (stateMem (w_mem w1))) \<le> 2 ^ k"
      "MemoryService_GetStateHash sample (w_mem w1) = Ok (merkle_root sample k (state_leaves sample (stateMem (w_mem w1)) k))"
    using GetStateHash_root [OF env_ok_sample [of "()"]] by metis
  have "[] \<noteq> merkle_root sample k (state_leaves sample (stateMem (w_mem w1)) k)"
    using length_state_root [OF env_ok_sample [of "()"] k(1)] by auto
  then have "\<exists>n'. sync_block sample (OnBlockStored sample 0) b sampleNode = (Ok False, n') \<and> led (n_world n') = ledgerAfter
     \<and> w_db (n_world n') = w_db (n_world sampleNode) \<and> blockchain n' = blockchain sampleNode \<and> \<not> isSyncing (n_sync n')"
    using wf(1) k(2) w1(2) ledger_block_sample [of "()" NewFaucet] callers_ok_sample(1) card_ledgerAfter
    by (intro refused_block_stays_in_memory [where ms = "w_mem w1" and ks = "[keyA, keyB]" and ts = "[sampleTx\<lparr>tx_Status := True\<rparr>]"])
      (simp_all add: b_def txs_of_def CheckBlockInfo_def sampleChain_def Blockchain_Init_def Blockchain_NextHeight_def
        Blockchain_PreviousBlockHash_def del: ledger_block.simps)
  then obtain n' where "sync_block sample (OnBlockStored sample 0) b sampleNode = (Ok False, n')" "led (n_world n') = ledgerAfter"
      "w_db (n_world n') = sampleStorage" by auto
  then show ?thesis by (intro exI [of _ b] exI [of _ n']) (simp add: db_state_sample)
qed

text \<open>
  C33: A synchronisation without peers never ends: no request is sent, there is no channel to wait on and
  so no timeout, and every further turn of the loop leaves the node as it is, still syncing.
\<close>

theorem sync_without_peers_spins:
  assumes "\<not> isSyncing (n_sync n)" "peers (sy_p2p (n_sync n)) = []" "Blockchain_NextHeight (blockchain n) \<le> t"
  shows "\<exists>n1 l. StartSync t n = (Ok (), n1) \<and> isSyncing (n_sync n1) \<and> sy_loop (n_sync n1) = Some l \<and> sl_waiting l = 0
     \<and> on_sync (sync_next l) n1 = (Ok (), n1)"
proof -
  let ?c = "Blockchain_NextHeight (blockchain n)"
  define l where "l = \<lparr>sl_target = t, sl_current = ?c, sl_cache = ?c, sl_waiting = 0\<rparr>"
  have r: "sync_round t ?c s = (Ok (), s\<lparr>chs := Some [], sy_loop := Some l\<rparr>)" if "peers (sy_p2p s) = []" for s
    using that by (simp add: sync_round_def LenPeers_def l_def)
  let ?n = "n\<lparr>n_sync := (n_sync n)\<lparr>isSyncing := True, chs := Some [], sy_loop := Some l\<rparr>\<rparr>"
  have "StartSync t n = (Ok (), ?n)" using assms(1,2) r by (simp add: StartSync_def)
  moreover have "on_sync (sync_next l) ?n = (Ok (), ?n)"
    using assms(2,3) r [of "n_sync ?n"] by (simp add: sync_next_def l_def)
  ultimately show ?thesis by (intro exI [of _ ?n] exI [of _ l]) (simp add: l_def)
qed

theorem sync_without_peers_spins_witness:
  "\<exists>n1 l. StartSync 9 (sampleNode\<lparr>n_sync := NewSyncService ''3000''\<rparr>) = (Ok (), n1) \<and> isSyncing (n_sync n1)
     \<and> on_sync (sync_next l) n1 = (Ok (), n1)"
proof -
  let ?n = "sampleNode\<lparr>n_sync := NewSyncService ''3000''\<rparr>"
  have "\<not> isSyncing (n_sync ?n)" "peers (sy_p2p (n_sync ?n)) = []" "Blockchain_NextHeight (blockchain ?n) \<le> 9"
    by (simp_all add: NewSyncService_def NewP2pService_def sampleChain_def Blockchain_Init_def Blockchain_NextHeight_def)
  from sync_without_peers_spins [OF this] show ?thesis by blast
qed

text \<open>The block with four transfers of the theorem on payloads.\<close>

theorem transfers_per_payload_witness:
  "sync_inbound sample (response samplePeer (NewBlock 7 (Some keyA) \<lparr>Transactions = Some (replicate 4 sampleTx)\<rparr> (Some keyB) (Some keyB) 1
     \<lparr>bl_Info := \<lparr>bi_Height = 7, bi_Hash = Some keyA, bi_Signature = Some (keyA @ keyB), bi_PublicKey = Some keyA, bi_Timestamp = 1\<rparr>\<rparr>)) sampleNode
     = (Ok (), sampleNode)"
proof -
  let ?b = "NewBlock 7 (Some keyA) \<lparr>Transactions = Some (replicate 4 sampleTx)\<rparr> (Some keyB) (Some keyB) 1
     \<lparr>bl_Info := \<lparr>bi_Height = 7, bi_Hash = Some keyA, bi_Signature = Some (keyA @ keyB), bi_PublicKey = Some keyA, bi_Timestamp = 1\<rparr>\<rparr>"
  have sb: "sized_block (replicate 4 sampleTx) ?b" by (simp add: sized_block_def NewBlock_def)
  have "\<forall>tx\<in>set (replicate 4 sampleTx). \<exists>d. sized_tx d tx \<and> transfer_data d"
    using sized_transferTx [where amount = 5 and to = keyB and nonce = 0 and st = False] transfer_data_sample [where to = keyB and amount = 5]
    by (auto simp: sampleTx_def transferTx_def)
  from transfers_per_payload [OF sb this address_samplePeer, of sample sampleNode] show ?thesis by simp
qed

end
